(* ===== verification/VoidPrelude.thy ===== *)
theory VoidPrelude
  imports Main "HOL-Library.AList" "HOL-Library.Code_Target_Nat"
begin

text \<open>
  Shared ground of the development: the JavaScript containers and conversions
  that every kernel component of voidOS uses.

  \<^item> A JS \<open>Map\<close> is an association list in insertion order. Its interface is the
    locale \<open>js_map\<close>; the implementation is the library's \<open>AList\<close>, whose
    \<open>update\<close> keeps the position of an existing key and appends a new one. What holds of any
    keyed container is its parent \<open>js_container\<close>.
  \<^item> \<open>slice_from\<close> is \<open>xs.slice(i)\<close> with its negative index.
  \<^item> \<open>nat_str\<close>, \<open>int_str\<close> print integers as template literals do.
  \<^item> \<open>'a result\<close> is a value or the message of a thrown \<open>Error\<close>.
  \<^item> \<open>event_machine\<close> is the contract shared by all stateful components: an invariant
    that every event keeps is kept by every run.

  A JS string is its sequence of UTF-16 code units; the model's \<open>string\<close> covers the
  units below 256, so that \<open>length\<close>, \<open>slice\<close> and \<open>indexOf\<close> count what the source
  counts. JS numbers that the kernel computes with are integers of
  magnitude below \<open>2 ^ 53\<close>, where double arithmetic is exact: they are \<open>int\<close> or \<open>nat\<close>.
\<close>

named_theorems voidos_defs \<open>unfolding equations of the small operations\<close>
named_theorems inv_intros \<open>preservation lemmas of the component invariants\<close>

section \<open>Results\<close>

type_synonym 'a result = "string + 'a"

abbreviation throw :: "string \<Rightarrow> 'a result" where
  "throw msg \<equiv> Inl msg"

abbreviation return :: "'a \<Rightarrow> 'a result" where
  "return v \<equiv> Inr v"

section \<open>JavaScript maps\<close>

text \<open>
  What a client of any keyed JS container relies on: a store is read back, other keys keep
  their value, and the key list names exactly the stored keys.
\<close>

locale js_container =
  fixes lookup :: "'m \<Rightarrow> 'k \<Rightarrow> 'v option"
    and store :: "'k \<Rightarrow> 'v \<Rightarrow> 'm \<Rightarrow> 'm"
    and remove :: "'k \<Rightarrow> 'm \<Rightarrow> 'm"
    and keys :: "'m \<Rightarrow> 'k list"
  assumes lookup_store: "lookup (store k v m) k' = (if k' = k then Some v else lookup m k')"
    and lookup_remove: "lookup (remove k m) k' = (if k' = k then None else lookup m k')"
    and in_keys: "k \<in> set (keys m) \<longleftrightarrow> lookup m k \<noteq> None"
begin

lemma lookup_store_same [simp]: "lookup (store k v m) k = Some v"
  by (simp add: lookup_store)

lemma lookup_store_other [simp]: "k' \<noteq> k \<Longrightarrow> lookup (store k v m) k' = lookup m k'"
  by (simp add: lookup_store)

lemma lookup_remove_same [simp]: "lookup (remove k m) k = None"
  by (simp add: lookup_remove)

lemma lookup_remove_other [simp]: "k' \<noteq> k \<Longrightarrow> lookup (remove k m) k' = lookup m k'"
  by (simp add: lookup_remove)

lemma set_keys_store: "set (keys (store k v m)) = insert k (set (keys m))"
  by (auto simp: in_keys lookup_store split: if_splits)

lemma set_keys_remove: "set (keys (remove k m)) = set (keys m) - {k}"
  by (auto simp: in_keys lookup_remove split: if_splits)

end

text \<open>A \<open>Map\<close> also fixes the enumeration order: insertion order, each key once.\<close>

locale js_map = js_container lookup store remove keys
  for lookup :: "'m \<Rightarrow> 'k \<Rightarrow> 'v option"
    and store :: "'k \<Rightarrow> 'v \<Rightarrow> 'm \<Rightarrow> 'm"
    and remove :: "'k \<Rightarrow> 'm \<Rightarrow> 'm"
    and keys :: "'m \<Rightarrow> 'k list" +
  fixes wf :: "'m \<Rightarrow> bool"
  assumes keys_store: "keys (store k v m) = (if k \<in> set (keys m) then keys m else keys m @ [k])"
    and keys_remove: "keys (remove k m) = removeAll k (keys m)"
    and wf_keys: "wf m \<longleftrightarrow> distinct (keys m)"
begin

lemma wf_store: "wf m \<Longrightarrow> wf (store k v m)"
  by (simp add: wf_keys keys_store)

lemma wf_remove: "wf m \<Longrightarrow> wf (remove k m)"
  by (simp add: wf_keys keys_remove distinct_removeAll)

lemma fresh_store_appends: "lookup m k = None \<Longrightarrow> keys (store k v m) = keys m @ [k]"
  by (simp add: keys_store in_keys)

lemma known_store_keeps_order: "lookup m k \<noteq> None \<Longrightarrow> keys (store k v m) = keys m"
  by (simp add: keys_store in_keys)

end

abbreviation map_keys :: "('k \<times> 'v) list \<Rightarrow> 'k list" where
  "map_keys m \<equiv> map fst m"

abbreviation map_values :: "('k \<times> 'v) list \<Rightarrow> 'v list" where
  "map_values m \<equiv> map snd m"

definition map_wf :: "('k \<times> 'v) list \<Rightarrow> bool" where
  "map_wf m \<longleftrightarrow> distinct (map_keys m)"

lemma map_wf_simps [simp]: "map_wf []" "map_wf ((k, v) # m) \<longleftrightarrow> map_of m k = None \<and> map_wf m"
  by (simp_all add: map_wf_def map_of_eq_None_iff)

lemma map_of_keys: "k \<in> set (map_keys m) \<longleftrightarrow> map_of m k \<noteq> None"
  by (metis list.set_map map_of_eq_None_iff)

interpretation jm: js_map map_of AList.update AList.delete map_keys map_wf
proof unfold_locales
  fix k k' :: 'a and v :: 'b and m
  show "map_of (AList.update k v m) k' = (if k' = k then Some v else map_of m k')"
    by (simp add: update_conv')
  show "map_of (AList.delete k m) k' = (if k' = k then None else map_of m k')"
    by (simp add: delete_conv')
  show "map_keys (AList.update k v m)
      = (if k \<in> set (map_keys m) then map_keys m else map_keys m @ [k])"
    by (simp add: update_keys)
  show "map_keys (AList.delete k m) = removeAll k (map_keys m)"
    by (simp add: delete_keys)
  show "k \<in> set (map_keys m) \<longleftrightarrow> map_of m k \<noteq> None"
    by (rule map_of_keys)
  show "map_wf m \<longleftrightarrow> distinct (map_keys m)" by (rule map_wf_def)
qed

declare jm.wf_store [intro, simp] jm.wf_remove [intro, simp]

lemma map_of_snoc: "map_of m k = None \<Longrightarrow> map_of (m @ [(k, v)]) k' = (if k' = k then Some v else map_of m k')"
  by (induction m) auto

lemma map_wf_snoc [simp]: "map_wf (m @ [(k, v)]) \<longleftrightarrow> map_of m k = None \<and> map_wf m"
  by (auto simp: map_wf_def map_of_eq_None_iff)

lemma delete_fresh [simp]: "map_of m k = None \<Longrightarrow> AList.delete k m = m"
  by (simp add: map_of_eq_None_iff)

lemma map_value_in: "map_of m k = Some v \<Longrightarrow> v \<in> set (map_values m)"
  by (force dest: map_of_SomeD)

lemma values_update:
  "set (map_values (AList.update k v m)) \<subseteq> insert v (set (map_values m))"
  by (induction m) auto

section \<open>Array and string helpers\<close>

text \<open>\<open>xs.slice(i)\<close>: a negative index counts from the end, clamped at the start.\<close>

definition slice_from :: "int \<Rightarrow> 'a list \<Rightarrow> 'a list" where
  "slice_from i xs = (if i < 0 then drop (nat (int (length xs) + i)) xs else drop (nat i) xs)"

lemma slice_from_neg: "0 < n \<Longrightarrow> slice_from (- n) xs = drop (length xs - nat n) xs"
  by (simp add: slice_from_def nat_diff_distrib' flip: nat_minus_as_int)

lemma slice_from_zero: "slice_from 0 xs = xs"
  by (simp add: slice_from_def)

lemma length_slice_neg: "0 < n \<Longrightarrow> length (slice_from (- n) xs) = min (length xs) (nat n)"
  by (simp add: slice_from_neg)

lemma slice_from_suffix: "\<exists>ys. xs = ys @ slice_from i xs"
  by (metis append_take_drop_id slice_from_def)

text \<open>\<open>if (log.length > max) log = log.slice(-max)\<close>, the capped ring of the supervisors.\<close>

definition cap_log :: "nat \<Rightarrow> 'a list \<Rightarrow> 'a list" where
  "cap_log mx xs = (if length xs > mx then slice_from (- int mx) xs else xs)"

lemma cap_log_length: "0 < mx \<Longrightarrow> length (cap_log mx xs) \<le> mx"
  by (simp add: cap_log_def length_slice_neg)

lemma cap_log_last: "0 < mx \<Longrightarrow> cap_log mx xs = drop (length xs - mx) xs"
  by (simp add: cap_log_def slice_from_neg)

lemma cap_log_append:
  assumes "0 < mx"
  shows "cap_log mx (cap_log mx xs @ ys) = cap_log mx (xs @ ys)"
proof (cases "length xs \<le> mx")
  case True
  then show ?thesis by (simp add: cap_log_def)
next
  case False
  with assms show ?thesis by (simp add: cap_log_last add.commute)
qed

definition digit_char :: "nat \<Rightarrow> char" where
  "digit_char n = char_of (48 + n)"

fun nat_str :: "nat \<Rightarrow> string" where
  "nat_str n = (if n < 10 then [digit_char n] else nat_str (n div 10) @ [digit_char (n mod 10)])"

declare nat_str.simps [simp del]

definition int_str :: "int \<Rightarrow> string" where
  "int_str i = (if i < 0 then ''-'' @ nat_str (nat (- i)) else nat_str (nat i))"

lemma digit_char_inject: "m < 10 \<Longrightarrow> n < 10 \<Longrightarrow> digit_char m = digit_char n \<longleftrightarrow> m = n"
  by (simp add: digit_char_def)

lemma nat_str_nonempty [simp]: "nat_str n \<noteq> []"
  by (subst nat_str.simps) simp

lemma nat_str_inject [simp]: "nat_str m = nat_str n \<longleftrightarrow> m = n"
proof
  show "nat_str m = nat_str n \<Longrightarrow> m = n"
  proof (induction m arbitrary: n rule: nat_str.induct)
    case (1 m)
    show ?case
    proof (cases "m < 10 \<or> n < 10")
      case True
      with "1.prems" show ?thesis
        by (auto simp: nat_str.simps [of m] nat_str.simps [of n] digit_char_inject
            dest: sym [of "[]"] split: if_splits)
    next
      case False
      with "1.prems" have "nat_str (m div 10) = nat_str (n div 10)" "m mod 10 = n mod 10"
        by (auto simp: nat_str.simps [of m] nat_str.simps [of n] digit_char_inject)
      with "1.IH" False have "m div 10 = n div 10" "m mod 10 = n mod 10" by auto
      then show ?thesis by (metis div_mult_mod_eq)
    qed
  qed
qed simp

definition is_digit :: "char \<Rightarrow> bool" where
  "is_digit c \<longleftrightarrow> 48 \<le> (of_char c :: nat) \<and> (of_char c :: nat) \<le> 57"

lemma is_digit_digit_char [simp]: "n < 10 \<Longrightarrow> is_digit (digit_char n)"
  by (simp add: is_digit_def digit_char_def)

lemma nat_str_digits: "list_all is_digit (nat_str n)"
proof (induction n rule: nat_str.induct)
  case (1 n)
  then show ?case by (subst nat_str.simps) simp
qed

section \<open>Event machines\<close>

text \<open>
  A stateful component is a function from events to state changes. An invariant that each
  event keeps, under the condition that the environment can raise the event, holds along
  every run the environment can produce.
\<close>

primrec runs :: "('e \<Rightarrow> 's \<Rightarrow> 's) \<Rightarrow> ('e \<Rightarrow> 's \<Rightarrow> bool) \<Rightarrow> 's \<Rightarrow> 'e list \<Rightarrow> bool" where
  "runs step enabled s [] = True"
| "runs step enabled s (e # es) = (enabled e s \<and> runs step enabled (step e s) es)"

locale event_machine =
  fixes step :: "'e \<Rightarrow> 's \<Rightarrow> 's"
    and enabled :: "'e \<Rightarrow> 's \<Rightarrow> bool"
    and inv :: "'s \<Rightarrow> bool"
  assumes step_inv: "inv s \<Longrightarrow> enabled e s \<Longrightarrow> inv (step e s)"
begin

lemma run_inv: "inv s \<Longrightarrow> runs step enabled s es \<Longrightarrow> inv (fold step es s)"
  by (induction es arbitrary: s) (auto intro: step_inv)

lemma run_preserves:
  assumes "inv s" "runs step enabled s es" "P s"
    and "\<And>e s. inv s \<Longrightarrow> enabled e s \<Longrightarrow> P s \<Longrightarrow> P (step e s)"
  shows "P (fold step es s)"
  using assms(1-3) by (induction es arbitrary: s) (auto intro: step_inv assms(4))

end

lemma runs_append:
  "runs step enabled s (es @ fs) \<longleftrightarrow> runs step enabled s es \<and> runs step enabled (fold step es s) fs"
  by (induction es arbitrary: s) auto

end
