(* ===== verification/VoidJson.thy ===== *)
theory VoidJson
  imports VoidPrelude
begin

text \<open>
  JSON values as the gate exchanges them, the own-property order of JS objects, and
  \<open>JSON.stringify\<close>.

  A number is \<open>JNum i\<close> for an integer or \<open>JDec neg s n\<close> for any other finite double, given
  by the digits \<open>s\<close> of its shortest decimal form and its decimal exponent \<open>n\<close>: the value is
  \<open>s * 10 ^ (n - k)\<close> for \<open>k\<close> digits, exactly the pair ECMAScript's \<open>Number::toString\<close> starts
  from. An object is the list of its own properties in enumeration order: integer keys in
  ascending order first, then the others in order of creation.
\<close>

section \<open>Values\<close>

datatype json =
    JNull
  | JBool bool
  | JNum int
  | JDec bool nat int
  | JStr string
  | JArr "json list"
  | JObj "(string \<times> json) list"

type_synonym jobject = "(string \<times> json) list"

text \<open>\<open>jsonType\<close> of bus.ts: \<open>typeof\<close> with null and arrays told apart.\<close>

fun jsonType :: "json \<Rightarrow> string" where
  "jsonType JNull = ''null''"
| "jsonType (JArr xs) = ''array''"
| "jsonType (JBool b) = ''boolean''"
| "jsonType (JNum i) = ''number''"
| "jsonType (JDec neg s n) = ''number''"
| "jsonType (JStr s) = ''string''"
| "jsonType (JObj ps) = ''object''"

text \<open>\<open>Number.isInteger\<close>: a decimal with all its digits before the point is integral.\<close>

fun is_integer :: "json \<Rightarrow> bool" where
  "is_integer (JNum i) = True"
| "is_integer (JDec neg s n) = (int (length (nat_str s)) \<le> n)"
| "is_integer v = False"

section \<open>Objects\<close>

definition digits_value :: "string \<Rightarrow> nat" where
  "digits_value ds = fold (\<lambda>c n. 10 * n + ((of_char c :: nat) - 48)) ds 0"

text \<open>A canonical array index: the keys that enumerate first, in numeric order.\<close>

definition is_index :: "string \<Rightarrow> bool" where
  "is_index k \<longleftrightarrow> k \<noteq> [] \<and> list_all is_digit k \<and> (hd k = CHR ''0'' \<longrightarrow> k = ''0'')
     \<and> digits_value k < 4294967295"

fun insert_index :: "string \<Rightarrow> json \<Rightarrow> jobject \<Rightarrow> jobject" where
  "insert_index k v [] = [(k, v)]"
| "insert_index k v ((k', v') # ps) =
     (if is_index k' \<and> digits_value k' < digits_value k
      then (k', v') # insert_index k v ps
      else (k, v) # (k', v') # ps)"

text \<open>Creating or overwriting an own property (object literals, \<open>JSON.parse\<close>, \<open>fromEntries\<close>).\<close>

definition obj_define :: "string \<Rightarrow> json \<Rightarrow> jobject \<Rightarrow> jobject" where
  "obj_define k v ps =
     (if k \<in> set (map_keys ps) then AList.update k v ps
      else if is_index k then insert_index k v ps
      else ps @ [(k, v)])"

text \<open>
  The assignment \<open>o[k] = v\<close>. On an object that inherits from \<open>Object.prototype\<close> the key
  \<open>__proto__\<close> is an accessor: the assignment makes no own property.
\<close>

definition obj_assign :: "string \<Rightarrow> json \<Rightarrow> jobject \<Rightarrow> jobject" where
  "obj_assign k v ps =
     (if k = ''__proto__'' \<and> k \<notin> set (map_keys ps) then ps else obj_define k v ps)"

definition from_entries :: "(string \<times> json) list \<Rightarrow> jobject" where
  "from_entries kvs = fold (\<lambda>(k, v). obj_define k v) kvs []"

text \<open>The names every plain object inherits: \<open>k in o\<close> holds for them whatever \<open>o\<close> holds.\<close>

definition inherited_keys :: "string list" where
  "inherited_keys =
     [''constructor'', ''__defineGetter__'', ''__defineSetter__'', ''hasOwnProperty'',
      ''__lookupGetter__'', ''__lookupSetter__'', ''isPrototypeOf'', ''propertyIsEnumerable'',
      ''toString'', ''valueOf'', ''__proto__'', ''toLocaleString'']"

lemma map_of_insert_index:
  "k \<notin> set (map_keys ps) \<Longrightarrow>
   map_of (insert_index k v ps) k' = (if k' = k then Some v else map_of ps k')"
  by (induction ps) (auto simp: map_of_eq_None_iff)

lemma keys_insert_index: "set (map_keys (insert_index k v ps)) = insert k (set (map_keys ps))"
  by (induction k v ps rule: insert_index.induct) (auto split: if_splits)

lemma distinct_insert_index:
  "k \<notin> set (map_keys ps) \<Longrightarrow> map_wf ps \<Longrightarrow> map_wf (insert_index k v ps)"
proof (induction ps)
  case (Cons p ps)
  then show ?case
    by (cases p) (auto simp: map_of_insert_index map_of_eq_None_iff)
qed simp

lemma map_of_append_fresh:
  "k \<notin> set (map_keys ps) \<Longrightarrow>
   map_of (ps @ [(k, v)]) k' = (if k' = k then Some v else map_of ps k')"
  by (induction ps) auto

lemma obj_define_lookup:
  "map_of (obj_define k v ps) k' = (if k' = k then Some v else map_of ps k')"
proof (cases "k \<in> set (map_keys ps)")
  case True
  then show ?thesis by (simp only: obj_define_def if_True jm.lookup_store)
next
  case False
  then show ?thesis
    by (cases "is_index k")
       (simp_all only: obj_define_def if_True if_False map_of_insert_index map_of_append_fresh
         simp_thms)
qed

interpretation jo: js_container map_of obj_define AList.delete map_keys
  by unfold_locales (simp_all only: obj_define_lookup jm.lookup_remove map_of_keys)

lemma obj_define_wf: "map_wf ps \<Longrightarrow> map_wf (obj_define k v ps)"
  by (auto simp: obj_define_def distinct_insert_index map_of_eq_None_iff simp flip: set_map)

lemma obj_assign_lookup:
  "k \<noteq> ''__proto__'' \<Longrightarrow>
   map_of (obj_assign k v ps) k' = (if k' = k then Some v else map_of ps k')"
  by (simp add: obj_assign_def obj_define_lookup)

section \<open>JSON.stringify\<close>

definition hex_digit :: "nat \<Rightarrow> char" where
  "hex_digit n = (if n < 10 then digit_char n else char_of (87 + n))"

text \<open>\<open>QuoteJSONString\<close>: the two-character escapes, \<open>\u00xx\<close> for the other control units.\<close>

definition escape_char :: "char \<Rightarrow> string" where
  "escape_char c =
     (let n = (of_char c :: nat) in
      if n = 34 then [CHR 0x5C, CHR 0x22]
      else if n = 92 then [CHR 0x5C, CHR 0x5C]
      else if n = 8 then [CHR 0x5C, CHR ''b'']
      else if n = 12 then [CHR 0x5C, CHR ''f'']
      else if n = 10 then [CHR 0x5C, CHR ''n'']
      else if n = 13 then [CHR 0x5C, CHR ''r'']
      else if n = 9 then [CHR 0x5C, CHR ''t'']
      else if n < 32
        then [CHR 0x5C, CHR ''u'', CHR ''0'', CHR ''0'', hex_digit (n div 16), hex_digit (n mod 16)]
      else [c])"

definition quote_string :: "string \<Rightarrow> string" where
  "quote_string s = [CHR 0x22] @ concat (map escape_char s) @ [CHR 0x22]"

text \<open>\<open>Number::toString\<close> for a non-integer or very large double with digits \<open>s\<close>, exponent \<open>n\<close>.\<close>

definition dec_str :: "bool \<Rightarrow> nat \<Rightarrow> int \<Rightarrow> string" where
  "dec_str neg s n =
     (let ds = nat_str s; k = int (length ds);
          body =
            (if k \<le> n \<and> n \<le> 21 then ds @ replicate (nat (n - k)) CHR ''0''
             else if 0 < n \<and> n \<le> 21 then take (nat n) ds @ ''.'' @ drop (nat n) ds
             else if - 6 < n \<and> n \<le> 0 then ''0.'' @ replicate (nat (- n)) CHR ''0'' @ ds
             else take 1 ds @ (if k = 1 then [] else ''.'' @ drop 1 ds) @ ''e'' @
                  (if n > 0 then ''+'' else ''-'') @ nat_str (nat \<bar>n - 1\<bar>))
      in (if neg then ''-'' else []) @ body)"

fun join_with :: "string \<Rightarrow> string list \<Rightarrow> string" where
  "join_with sep [] = []"
| "join_with sep [x] = x"
| "join_with sep (x # y # xs) = x @ sep @ join_with sep (y # xs)"

fun stringify :: "json \<Rightarrow> string" where
  "stringify JNull = ''null''"
| "stringify (JBool b) = (if b then ''true'' else ''false'')"
| "stringify (JNum i) = int_str i"
| "stringify (JDec neg s n) = dec_str neg s n"
| "stringify (JStr s) = quote_string s"
| "stringify (JArr xs) = ''['' @ join_with '','' (map stringify xs) @ '']''"
| "stringify (JObj ps) =
     CHR 0x7B # join_with '','' (map (\<lambda>(k, v). quote_string k @ '':'' @ stringify v) ps) @ [CHR 0x7D]"

text \<open>
  The text of a value holds no control unit whatever its strings hold; in particular no line
  feed, which is what frames the lines of the wire protocol and of the audit log.
\<close>

definition printable :: "string \<Rightarrow> bool" where
  "printable s \<longleftrightarrow> list_all (\<lambda>c. 32 \<le> (of_char c :: nat)) s"

lemma printable_simps [simp]:
  "printable []"
  "printable (c # s) \<longleftrightarrow> 32 \<le> (of_char c :: nat) \<and> printable s"
  "printable (s @ t) \<longleftrightarrow> printable s \<and> printable t"
  by (simp_all add: printable_def)

lemma printable_replicate [simp]: "printable (replicate n c) \<longleftrightarrow> n = 0 \<or> 32 \<le> (of_char c :: nat)"
  by (induction n) auto

lemma printable_take: "printable s \<Longrightarrow> printable (take n s)"
  by (auto simp: printable_def list_all_iff dest: in_set_takeD)

lemma printable_drop: "printable s \<Longrightarrow> printable (drop n s)"
  by (auto simp: printable_def list_all_iff dest: in_set_dropD)

lemma printable_nat_str [simp]: "printable (nat_str n)"
  using nat_str_digits [of n] by (auto simp: printable_def list_all_iff is_digit_def)

lemma printable_int_str [simp]: "printable (int_str i)"
  by (simp add: int_str_def)

lemma of_char_hex: "n < 16 \<Longrightarrow> 32 \<le> (of_char (hex_digit n) :: nat)"
  by (simp add: hex_digit_def digit_char_def)

lemma printable_escape [simp]: "printable (escape_char c)"
proof -
  have "(of_char c :: nat) div 16 < 16" using nat_of_char_less_256 [of c]
    by (simp add: less_mult_imp_div_less)
  then show ?thesis by (simp add: escape_char_def Let_def of_char_hex)
qed

lemma printable_concat [simp]: "printable (concat xss) \<longleftrightarrow> list_all printable xss"
  by (induction xss) auto

lemma printable_quote [simp]: "printable (quote_string s)"
  by (simp add: quote_string_def list_all_iff)

lemma printable_dec_str [simp]: "printable (dec_str neg s n)"
  by (simp add: dec_str_def Let_def printable_take printable_drop)

lemma printable_join: "printable sep \<Longrightarrow> list_all printable xs \<Longrightarrow> printable (join_with sep xs)"
  by (induction sep xs rule: join_with.induct) auto

lemma printable_stringify: "printable (stringify v)"
  by (induction v rule: stringify.induct)
     (auto simp: list_all_iff intro!: printable_join)

lemma stringify_no_newline: "CHR 0x0A \<notin> set (stringify v)"
  using printable_stringify [of v] by (force simp: printable_def list_all_iff)

end
