(* ===== verification/VoidPolicy.thy ===== *)
theory VoidPolicy
  imports VoidJson "HOL-Library.Extended_Nat"
begin

text \<open>
  kernel/src/policy.ts and the risk and mode types of types.ts: the grant table, the policy
  decision, and the contract \<open>grant_table\<close> that the bus relies on: what a grant table must
  promise so that the number of risky calls let through is bounded by what was granted.
\<close>

section \<open>Types\<close>

datatype risk = Read | Write | Exec

datatype mode = Permissive | Guarded | Paranoid

fun risk_str :: "risk \<Rightarrow> string" where
  "risk_str Read = ''read''"
| "risk_str Write = ''write''"
| "risk_str Exec = ''exec''"

fun mode_str :: "mode \<Rightarrow> string" where
  "mode_str Permissive = ''permissive''"
| "mode_str Guarded = ''guarded''"
| "mode_str Paranoid = ''paranoid''"

text \<open>A remaining number of uses: a JS number that is finite or \<open>Infinity\<close>, in its order.\<close>

datatype uses = Fin int | Infinity

instantiation uses :: linorder
begin

fun less_eq_uses :: "uses \<Rightarrow> uses \<Rightarrow> bool" where
  "less_eq_uses u Infinity = True"
| "less_eq_uses Infinity (Fin n) = False"
| "less_eq_uses (Fin m) (Fin n) = (m \<le> n)"

definition less_uses :: "uses \<Rightarrow> uses \<Rightarrow> bool" where
  "less_uses u v \<longleftrightarrow> u \<le> v \<and> \<not> v \<le> u"

instance
proof
  fix x y z :: uses
  show "x < y \<longleftrightarrow> x \<le> y \<and> \<not> y \<le> x" by (rule less_uses_def)
  show "x \<le> x" by (cases x) auto
  show "x \<le> y \<Longrightarrow> y \<le> z \<Longrightarrow> x \<le> z" by (cases x; cases y; cases z) auto
  show "x \<le> y \<Longrightarrow> y \<le> x \<Longrightarrow> x = y" by (cases x; cases y) auto
  show "x \<le> y \<or> y \<le> x" by (cases x; cases y) auto
qed

end

lemma less_uses_simps [simp]:
  "Fin m < Fin n \<longleftrightarrow> m < n" "Fin m < Infinity" "\<not> Infinity < u"
  by (auto simp: less_uses_def)

section \<open>GrantStore\<close>

type_synonym grants = "(string \<times> uses) list"

text \<open>\<open>grant(target, uses)\<close>: \<open>Infinity\<close> absorbs, otherwise the uses add up.\<close>

definition grant :: "string \<Rightarrow> uses \<Rightarrow> grants \<Rightarrow> grants" where
  "grant target uses g =
     (let prev = (case map_of g target of None \<Rightarrow> Fin 0 | Some n \<Rightarrow> n);
          nxt = (case (prev, uses) of (Fin p, Fin u) \<Rightarrow> Fin (p + u) | _ \<Rightarrow> Infinity)
      in AList.update target nxt g)"

text \<open>\<open>permitKey(name, risk)\<close>: the first of name, class, \<open>all\<close> with uses left.\<close>

definition permitKey :: "string \<Rightarrow> risk \<Rightarrow> grants \<Rightarrow> string option" where
  "permitKey name risk g =
     find (\<lambda>key. case map_of g key of None \<Rightarrow> False | Some n \<Rightarrow> Fin 0 < n)
       [name, risk_str risk, ''all'']"

definition consume :: "string \<Rightarrow> grants \<Rightarrow> grants" where
  "consume key g =
     (case map_of g key of
        None \<Rightarrow> g
      | Some Infinity \<Rightarrow> g
      | Some (Fin n) \<Rightarrow> if n \<le> 1 then AList.delete key g else AList.update key (Fin (n - 1)) g)"

text \<open>\<open>revoke(target)\<close>: without a target, or with the empty one, everything goes.\<close>

definition revoke :: "string option \<Rightarrow> grants \<Rightarrow> grants" where
  "revoke target g =
     (case target of
        None \<Rightarrow> []
      | Some t \<Rightarrow> if t = [] then [] else AList.delete t g)"

definition grants_list :: "grants \<Rightarrow> jobject" where
  "grants_list g =
     from_entries (map (\<lambda>(k, v). (k, JNum (case v of Infinity \<Rightarrow> -1 | Fin n \<Rightarrow> n))) g)"

section \<open>Policy\<close>

record decision =
  allow :: bool
  reason :: string
  grantKey :: "string option"

definition decide :: "mode \<Rightarrow> string \<Rightarrow> risk \<Rightarrow> grants \<Rightarrow> decision" where
  "decide mode name risk g =
     (if risk = Read then \<lparr>allow = True, reason = ''read'', grantKey = None\<rparr>
      else if mode = Permissive then \<lparr>allow = True, reason = ''permissive'', grantKey = None\<rparr>
      else if mode = Paranoid
        then \<lparr>allow = False, reason = ''paranoid: '' @ risk_str risk @ '' denied'', grantKey = None\<rparr>
      else case permitKey name risk g of
          Some key \<Rightarrow> \<lparr>allow = True, reason = ''grant:'' @ key, grantKey = Some key\<rparr>
        | None \<Rightarrow> \<lparr>allow = False,
            reason = ''guarded: '' @ risk_str risk @ '' requires an operator grant'', grantKey = None\<rparr>)"

section \<open>Grants as a budget\<close>

text \<open>A grant that is positive counts with its uses, any other counts nothing.\<close>

definition live :: "grants \<Rightarrow> string \<Rightarrow> bool" where
  "live g key \<longleftrightarrow> (\<exists>n. map_of g key = Some n \<and> Fin 0 < n)"

fun worth :: "uses \<Rightarrow> enat" where
  "worth Infinity = \<infinity>"
| "worth (Fin n) = enat (nat n)"

definition budget :: "grants \<Rightarrow> enat" where
  "budget g = sum_list (map (\<lambda>(k, n). worth n) g)"

lemma live_code: "live g key = (case map_of g key of None \<Rightarrow> False | Some n \<Rightarrow> Fin 0 < n)"
  by (auto simp: live_def split: option.splits)

lemma permitKey_live: "permitKey name risk g = Some key \<Longrightarrow> live g key"
  by (auto simp: permitKey_def live_code split: if_splits)

lemma permitKey_cases:
  "permitKey name risk g =
     (if live g name then Some name
      else if live g (risk_str risk) then Some (risk_str risk)
      else if live g ''all'' then Some ''all'' else None)"
  by (simp add: permitKey_def live_code)

lemma budget_delete:
  "map_wf g \<Longrightarrow> map_of g key = Some n \<Longrightarrow> worth n + budget (AList.delete key g) = budget g"
proof (induction g)
  case (Cons p g)
  then show ?case
    by (cases p) (auto simp: budget_def ac_simps)
qed simp

lemma budget_update:
  "map_wf g \<Longrightarrow> map_of g key = Some n \<Longrightarrow> budget (AList.update key m g) = worth m + budget (AList.delete key g)"
proof (induction g)
  case (Cons p g)
  then show ?case
    by (cases p) (auto simp: budget_def ac_simps)
qed simp

lemma consume_wf: "map_wf g \<Longrightarrow> map_wf (consume key g)"
  by (auto simp: consume_def split: option.splits uses.splits)

lemma consume_budget:
  assumes "map_wf g" "live g key"
  shows "eSuc (budget (consume key g)) = budget g"
proof -
  from assms(2) obtain n where n: "map_of g key = Some n" "Fin 0 < n" by (auto simp: live_def)
  note del = budget_delete [OF assms(1) n(1)] and upd = budget_update [OF assms(1) n(1)]
  show ?thesis
  proof (cases n)
    case (Fin i)
    with n have "0 < i" by simp
    show ?thesis
    proof (cases "i \<le> 1")
      case True
      with \<open>0 < i\<close> have "i = 1" by simp
      with Fin del n(1) show ?thesis
        by (simp add: consume_def eSuc_plus_1 one_enat_def add.commute)
    next
      case False
      then have "nat i = Suc (nat (i - 1))" by simp
      with False Fin n(1) show ?thesis
        by (simp add: consume_def upd iadd_Suc flip: eSuc_enat del)
    qed
  next
    case Infinity
    with n(1) del show ?thesis by (simp add: consume_def flip: del)
  qed
qed

text \<open>
  The contract between the bus and the grant table. A table whose permit is always backed by
  a use it can spend lets at most its budget of requests through.
\<close>

locale grant_table =
  fixes permits :: "string \<Rightarrow> risk \<Rightarrow> 'g \<Rightarrow> string option"
    and spend :: "string \<Rightarrow> 'g \<Rightarrow> 'g"
    and balance :: "'g \<Rightarrow> enat"
    and wf :: "'g \<Rightarrow> bool"
  assumes spend_one: "wf g \<Longrightarrow> permits name risk g = Some key \<Longrightarrow>
      eSuc (balance (spend key g)) = balance g"
    and spend_wf: "wf g \<Longrightarrow> wf (spend key g)"
begin

text \<open>Serve requests in order, spending for each permitted one; count the permitted ones.\<close>

fun serve_all :: "(string \<times> risk) list \<Rightarrow> 'g \<Rightarrow> nat \<times> 'g" where
  "serve_all [] g = (0, g)"
| "serve_all ((name, risk) # rs) g =
     (case permits name risk g of
        None \<Rightarrow> serve_all rs g
      | Some key \<Rightarrow> (case serve_all rs (spend key g) of (n, g') \<Rightarrow> (Suc n, g')))"

lemma served_within_budget:
  "wf g \<Longrightarrow> serve_all rs g = (n, g') \<Longrightarrow> enat n + balance g' = balance g"
proof (induction rs g arbitrary: n g' rule: serve_all.induct)
  case (2 name risk rs g)
  show ?case
  proof (cases "permits name risk g")
    case None
    with 2 show ?thesis by simp
  next
    case (Some key)
    then obtain m where m: "serve_all rs (spend key g) = (m, g')" "n = Suc m"
      using "2.prems"(2) by (auto split: prod.splits)
    have "enat m + balance g' = balance (spend key g)"
      using "2.IH"(2) [OF Some] m(1) spend_wf [OF "2.prems"(1)] by blast
    then show ?thesis using spend_one [OF "2.prems"(1) Some] m(2)
      by (metis eSuc_enat iadd_Suc)
  qed
qed (simp add: zero_enat_def)

end

interpretation gs: grant_table permitKey consume budget map_wf
  by unfold_locales (auto intro: consume_budget permitKey_live consume_wf)

section \<open>Properties\<close>

text \<open>
  The policy table of docs/security.md, on every mode, class and grant table: reads are always
  allowed, permissive allows everything, paranoid allows no write or exec, and guarded allows
  one exactly when a grant with uses left names the capability, its class or \<open>all\<close>.
\<close>

theorem decide_allow_iff:
  "allow (decide mode name risk g) \<longleftrightarrow>
     risk = Read \<or> mode = Permissive \<or>
     (mode = Guarded \<and> (live g name \<or> live g (risk_str risk) \<or> live g ''all''))"
  by (cases mode) (auto simp: decide_def permitKey_cases)

text \<open>
  Which grant a guarded call is charged to: the most specific live one, the capability's own
  name before its class before \<open>all\<close>; and no call is charged in any other mode or for a read.
\<close>

theorem decide_charges_most_specific:
  "grantKey (decide mode name risk g) =
     (if mode = Guarded \<and> (risk = Write \<or> risk = Exec) then
        if live g name then Some name
        else if live g (risk_str risk) then Some (risk_str risk)
        else if live g ''all'' then Some ''all'' else None
      else None)"
  by (cases mode; cases risk) (auto simp: decide_def permitKey_cases)

lemma grant_lookup:
  "map_of (grant target u g) key =
     (if key = target
      then Some (case (map_of g target, u) of
                   (Some (Fin p), Fin q) \<Rightarrow> Fin (p + q) | (None, Fin q) \<Rightarrow> Fin q | _ \<Rightarrow> Infinity)
      else map_of g key)"
  by (auto simp: grant_def Let_def jm.lookup_store split: option.splits uses.splits)

lemma consume_lookup:
  "map_of (consume key g) key' =
     (if key' \<noteq> key then map_of g key'
      else case map_of g key of
             Some (Fin n) \<Rightarrow> if n \<le> 1 then None else Some (Fin (n - 1)) | r \<Rightarrow> r)"
  by (auto simp: consume_def jm.lookup_store jm.lookup_remove split: option.splits uses.splits)

lemma grant_wf: "map_wf g \<Longrightarrow> map_wf (grant target u g)"
  by (simp add: grant_def Let_def)

lemma consume_twice_finite:
  "map_of g key = Some (Fin n) \<Longrightarrow> 1 < n \<Longrightarrow> map_of (consume key g) key = Some (Fin (n - 1))"
  by (simp add: consume_lookup)

text \<open>
  A grant of \<open>n\<close> uses to a target without one is good for exactly \<open>n\<close> charges: after \<open>i\<close> of
  them the target is live while \<open>i < n\<close>, and after \<open>n\<close> its entry is gone.
\<close>

theorem grant_exhausted_after_n:
  assumes "map_of g target = None" "0 < n" "i \<le> n"
  shows "map_of ((consume target ^^ i) (grant target (Fin (int n)) g)) target =
    (if i < n then Some (Fin (int (n - i))) else None)"
  using assms(3)
proof (induction i)
  case 0
  with assms show ?case by (simp add: grant_lookup)
next
  case (Suc i)
  then have "map_of ((consume target ^^ i) (grant target (Fin (int n)) g)) target
      = Some (Fin (int (n - i)))" by simp
  moreover have "int (n - i) \<le> 1 \<longleftrightarrow> \<not> Suc i < n" using Suc.prems by linarith
  moreover have "Suc i < n \<Longrightarrow> int (n - i) - 1 = int (n - Suc i)" by linarith
  ultimately show ?case by (simp add: consume_lookup)
qed

theorem grant_exhausted_after_n_witness:
  "map_of ((consume ''shell.exec'' ^^ 2) (grant ''shell.exec'' (Fin 2) [(''write'', Infinity)]))
     ''shell.exec'' = None"
  using grant_exhausted_after_n [of "[(''write'', Infinity)]" "''shell.exec''" 2 2] by simp

end
