(* ===== verification/VoidTypes.thy ===== *)
theory VoidTypes
  imports VoidPolicy "HOL-Library.Char_ord" "HOL-Library.List_Lexorder"
begin

text \<open>
  kernel/src/types.ts and kernel/src/registry.ts: schemas, capabilities, audit entries, the part
  of the capability context that the bus itself uses, and the capability table.

  A handler is a function of the arguments and the kernel state; what it learns from the host
  (clock readings, process ids, network replies) is fixed when the table is built. The state is
  an extensible record: the bus sees the fields of \<open>gate\<close>, the handlers the whole kernel.
\<close>

section \<open>Schemas\<close>

datatype schema =
  Schema (sc_type: "string option")
         (sc_description: "string option")
         (sc_properties: "(string \<times> schema) list option")
         (sc_items: "schema option")
         (sc_required: "string list option")
         (sc_enum: "string list option")
         (sc_default: "json option")

text \<open>The shapes of schema the capability tables are written with.\<close>

definition any_schema :: schema where
  "any_schema = Schema None None None None None None None"

definition typed :: "string \<Rightarrow> schema" where
  "typed t = Schema (Some t) None None None None None None"

definition described :: "string \<Rightarrow> string \<Rightarrow> schema" where
  "described t d = Schema (Some t) (Some d) None None None None None"

definition enum_of :: "string list \<Rightarrow> string option \<Rightarrow> json option \<Rightarrow> schema" where
  "enum_of vs d dflt = Schema (Some ''string'') d None None None (Some vs) dflt"

definition params_of :: "(string \<times> schema) list \<Rightarrow> string list option \<Rightarrow> schema" where
  "params_of ps req = Schema (Some ''object'') None (Some ps) None req None None"

lemmas schema_defs = any_schema_def typed_def described_def enum_of_def params_of_def

section \<open>Capabilities and the gate\<close>

datatype verdict = Allowed | Denied

record audit_entry =
  ae_ts :: int
  ae_capability :: string
  ae_risk :: "risk option" \<comment> \<open>None is \<open>unknown\<close>\<close>
  ae_decision :: verdict
  ae_reason :: string
  ae_ok :: "bool option"
  ae_error :: "string option"
  ae_ms :: "int option"
  ae_args :: "string option"

record gate =
  g_mode :: mode
  g_grants :: grants
  g_audit :: "audit_entry list"
  g_token :: string

record rpc_error =
  err_code :: string
  err_message :: string

type_synonym dispatch_result = "rpc_error + json"

type_synonym 'z handler = "jobject \<Rightarrow> 'z gate_scheme \<Rightarrow> json result \<times> 'z gate_scheme"

record 'h capability =
  cap_name :: string
  cap_summary :: string
  cap_risk :: risk
  cap_params :: schema
  cap_handler :: 'h

section \<open>The registry\<close>

type_synonym 'h registry = "(string \<times> 'h capability) list"

definition register :: "'h capability \<Rightarrow> 'h registry \<Rightarrow> 'h registry result" where
  "register cap reg =
     (if map_of reg (cap_name cap) \<noteq> None
      then throw (''capability already registered: '' @ cap_name cap)
      else return (AList.update (cap_name cap) cap reg))"

fun registerAll :: "'h capability list \<Rightarrow> 'h registry \<Rightarrow> 'h registry result" where
  "registerAll [] reg = return reg"
| "registerAll (c # cs) reg =
     (case register c reg of Inl e \<Rightarrow> throw e | Inr reg' \<Rightarrow> registerAll cs reg')"

definition registry_get :: "'h registry \<Rightarrow> string \<Rightarrow> 'h capability option" where
  "registry_get reg name = map_of reg name"

text \<open>
  \<open>list()\<close> sorts by \<open>localeCompare\<close>, which on names made of lower-case letters, underscores and
  dots is the order of the code units.
\<close>

definition registry_list :: "'h registry \<Rightarrow> 'h capability list" where
  "registry_list reg = sort_key cap_name (map_values reg)"

definition registry_wf :: "'h registry \<Rightarrow> bool" where
  "registry_wf reg \<longleftrightarrow> map_wf reg \<and> list_all (\<lambda>(n, c). n = cap_name c) reg"

lemma register_fresh:
  "map_of reg (cap_name cap) = None \<Longrightarrow> register cap reg = return (reg @ [(cap_name cap, cap)])"
proof -
  have "k \<notin> set (map_keys r) \<Longrightarrow> AList.update k v r = r @ [(k, v)]"
    for k :: string and v :: "'a capability" and r
    by (induction r) auto
  then show "map_of reg (cap_name cap) = None \<Longrightarrow> ?thesis"
    by (simp add: register_def map_of_eq_None_iff image_iff)
qed

text \<open>Registration succeeds exactly when no name is taken twice, and then keeps the order.\<close>

lemma registerAll_iff:
  "registry_wf reg \<Longrightarrow>
   registerAll cs reg = return reg' \<longleftrightarrow>
     distinct (map_keys reg @ map cap_name cs) \<and> reg' = reg @ map (\<lambda>c. (cap_name c, c)) cs"
proof (induction cs arbitrary: reg)
  case Nil
  then show ?case by (auto simp: registry_wf_def map_wf_def)
next
  case (Cons c cs)
  show ?case
  proof (cases "map_of reg (cap_name c)")
    case None
    then have fresh: "cap_name c \<notin> set (map_keys reg)" by (simp add: map_of_eq_None_iff)
    with Cons.prems have "registry_wf (reg @ [(cap_name c, c)])"
      by (simp add: registry_wf_def None)
    from Cons.IH [OF this] None fresh show ?thesis by (auto simp: register_fresh)
  next
    case (Some c')
    then have "cap_name c \<in> set (map_keys reg)" by (force dest: map_of_SomeD)
    with Some show ?thesis by (simp add: register_def)
  qed
qed

lemma registry_wf_Nil [simp]: "registry_wf []"
  by (simp add: registry_wf_def)

lemma registered_wf: "distinct (map cap_name cs) \<Longrightarrow> registry_wf (map (\<lambda>c. (cap_name c, c)) cs)"
  by (simp add: registry_wf_def map_wf_def list_all_iff comp_def)

lemma registry_list_sorted: "sorted (map cap_name (registry_list reg))"
  by (simp add: registry_list_def)

lemma registry_list_set: "set (registry_list reg) = set (map_values reg)"
  by (simp add: registry_list_def)

end
