(* ===== verification/VoidBus.thy ===== *)
theory VoidBus
  imports VoidTypes
begin

text \<open>
  kernel/src/bus.ts: the syscall bus. \<open>admit\<close> is the part of \<open>Bus.dispatch\<close> before its only
  \<open>await\<close> (lookup, policy, validation, spending the grant), which node runs without
  interruption; \<open>settle\<close> is the part after it (audit and reply); \<open>dispatch\<close> composes them around
  the handler. \<open>well_typed\<close> is the specification of \<open>validate\<close>.
\<close>

section \<open>Audit summary\<close>

text \<open>The single character that ends a shortened summary (U+2026, here its Latin-1 stand-in).\<close>

definition ellipsis :: string where
  "ellipsis = [CHR 0x85]"

definition redact_fields :: "jobject \<Rightarrow> jobject" where
  "redact_fields args =
     fold (\<lambda>(k, v). obj_assign k (if k = ''token'' then JStr ''***'' else v)) args []"

definition redact :: "jobject \<Rightarrow> string" where
  "redact args =
     (let s = stringify (JObj (redact_fields args))
      in if length s > 300 then take 300 s @ ellipsis else s)"

section \<open>Validation\<close>

fun missing_required :: "string list \<Rightarrow> jobject \<Rightarrow> string option" where
  "missing_required [] args = None"
| "missing_required (key # ks) args =
     (case map_of args key of
        None \<Rightarrow> Some (''missing required param: '' @ key)
      | Some JNull \<Rightarrow> Some (''missing required param: '' @ key)
      | Some v \<Rightarrow> missing_required ks args)"

definition type_ok :: "string \<Rightarrow> json \<Rightarrow> bool" where
  "type_ok t v \<longleftrightarrow>
     (t = ''integer'' \<and> jsonType v = ''number'' \<and> is_integer v) \<or> jsonType v = t"

definition quoted :: "string \<Rightarrow> string" where
  "quoted k = ''param '' @ [CHR 0x22] @ k @ [CHR 0x22]"

definition in_enum :: "json \<Rightarrow> string list \<Rightarrow> bool" where
  "in_enum v vs \<longleftrightarrow> list_ex (\<lambda>s. v = JStr s) vs"

fun bad_property :: "(string \<times> schema) list \<Rightarrow> jobject \<Rightarrow> string option" where
  "bad_property [] args = None"
| "bad_property ((key, sub) # ps) args =
     (case map_of args key of
        None \<Rightarrow> bad_property ps args
      | Some v \<Rightarrow>
         (case sc_type sub of
            None \<Rightarrow> bad_property ps args
          | Some t \<Rightarrow>
              if t = [] then bad_property ps args
              else if \<not> type_ok t v
                then Some (quoted key @ '' expected '' @ t @ '', got '' @ jsonType v)
              else case sc_enum sub of
                  Some vs \<Rightarrow>
                    if in_enum v vs then bad_property ps args
                    else Some (quoted key @ '' must be one of: '' @ join_with '', '' vs)
                | None \<Rightarrow> bad_property ps args))"

definition or_empty :: "'a list option \<Rightarrow> 'a list" where
  "or_empty xs = (case xs of None \<Rightarrow> [] | Some ys \<Rightarrow> ys)"

definition validate :: "schema \<Rightarrow> jobject \<Rightarrow> string option" where
  "validate sc args =
     (case missing_required (or_empty (sc_required sc)) args of
        Some m \<Rightarrow> Some m
      | None \<Rightarrow> bad_property (or_empty (sc_properties sc)) args)"

text \<open>What an accepted argument object satisfies.\<close>

definition has_required :: "schema \<Rightarrow> jobject \<Rightarrow> bool" where
  "has_required sc args \<longleftrightarrow>
     list_all (\<lambda>key. \<exists>v. map_of args key = Some v \<and> v \<noteq> JNull) (or_empty (sc_required sc))"

definition property_ok :: "string \<Rightarrow> schema \<Rightarrow> jobject \<Rightarrow> bool" where
  "property_ok key sub args \<longleftrightarrow>
     (case (map_of args key, sc_type sub) of
        (Some v, Some t) \<Rightarrow>
          t = [] \<or> (type_ok t v \<and> (case sc_enum sub of None \<Rightarrow> True | Some vs \<Rightarrow> in_enum v vs))
      | _ \<Rightarrow> True)"

definition well_typed :: "schema \<Rightarrow> jobject \<Rightarrow> bool" where
  "well_typed sc args \<longleftrightarrow> has_required sc args \<and>
     list_all (\<lambda>(key, sub). property_ok key sub args) (or_empty (sc_properties sc))"

lemma missing_required_None:
  "missing_required ks args = None \<longleftrightarrow>
   list_all (\<lambda>key. \<exists>v. map_of args key = Some v \<and> v \<noteq> JNull) ks"
  by (induction ks args rule: missing_required.induct) (auto split: option.splits json.splits)

lemma bad_property_None:
  "bad_property ps args = None \<longleftrightarrow> list_all (\<lambda>(key, sub). property_ok key sub args) ps"
  by (induction ps args rule: bad_property.induct)
     (auto simp: property_ok_def split: option.splits)

section \<open>Dispatch\<close>

text \<open>The three clock readings of one dispatch: entry, start of the handler, its end.\<close>

record clock =
  at_entry :: int
  at_start :: int
  at_end :: int

datatype 'h admission =
    Refused rpc_error
  | Admitted "'h capability" decision string

definition audit_append :: "audit_entry \<Rightarrow> 'z gate_scheme \<Rightarrow> 'z gate_scheme" where
  "audit_append e s = s\<lparr>g_audit := g_audit s @ [e]\<rparr>"

definition denied_entry :: "int \<Rightarrow> string \<Rightarrow> risk option \<Rightarrow> string \<Rightarrow> string option \<Rightarrow> audit_entry" where
  "denied_entry ts method rk why args =
     \<lparr>ae_ts = ts, ae_capability = method, ae_risk = rk, ae_decision = Denied, ae_reason = why,
      ae_ok = None, ae_error = None, ae_ms = None, ae_args = args\<rparr>"

definition admit ::
  "clock \<Rightarrow> 'h registry \<Rightarrow> string \<Rightarrow> jobject \<Rightarrow> 'z gate_scheme \<Rightarrow> 'h admission \<times> 'z gate_scheme" where
  "admit clk reg method params s =
     (case registry_get reg method of
        None \<Rightarrow>
          (Refused \<lparr>err_code = ''ENOSYS'', err_message = ''unknown capability: '' @ method\<rparr>,
           audit_append (denied_entry (at_entry clk) method None ''ENOSYS'' None) s)
      | Some cap \<Rightarrow>
          let summary = redact params;
              d = decide (g_mode s) method (cap_risk cap) (g_grants s)
          in if \<not> allow d then
               (Refused \<lparr>err_code = ''EPERM'', err_message = reason d\<rparr>,
                audit_append
                  (denied_entry (at_entry clk) method (Some (cap_risk cap)) (reason d) (Some summary)) s)
             else case validate (cap_params cap) params of
               Some bad \<Rightarrow>
                 (Refused \<lparr>err_code = ''EINVAL'', err_message = bad\<rparr>,
                  audit_append
                    (denied_entry (at_entry clk) method (Some (cap_risk cap)) (''EINVAL: '' @ bad)
                      (Some summary)) s)
             | None \<Rightarrow>
                 (Admitted cap d summary,
                  case grantKey d of
                    None \<Rightarrow> s
                  | Some key \<Rightarrow> s\<lparr>g_grants := consume key (g_grants s)\<rparr>))"

definition allowed_entry ::
  "clock \<Rightarrow> string \<Rightarrow> risk \<Rightarrow> string \<Rightarrow> string \<Rightarrow> string option \<Rightarrow> audit_entry" where
  "allowed_entry clk method rk why summary err =
     \<lparr>ae_ts = at_entry clk, ae_capability = method, ae_risk = Some rk, ae_decision = Allowed,
      ae_reason = why, ae_ok = Some (err = None), ae_error = err,
      ae_ms = Some (at_end clk - at_start clk), ae_args = Some summary\<rparr>"

definition settle ::
  "clock \<Rightarrow> string \<Rightarrow> 'h capability \<Rightarrow> decision \<Rightarrow> string \<Rightarrow> json result \<Rightarrow> 'z gate_scheme
     \<Rightarrow> dispatch_result \<times> 'z gate_scheme" where
  "settle clk method cap d summary outcome s =
     (case outcome of
        Inr v \<Rightarrow>
          (Inr v, audit_append (allowed_entry clk method (cap_risk cap) (reason d) summary None) s)
      | Inl msg \<Rightarrow>
          (Inl \<lparr>err_code = ''EFAULT'', err_message = msg\<rparr>,
           audit_append (allowed_entry clk method (cap_risk cap) (reason d) summary (Some msg)) s))"

definition dispatch ::
  "clock \<Rightarrow> 'z handler registry \<Rightarrow> string \<Rightarrow> jobject \<Rightarrow> 'z gate_scheme
     \<Rightarrow> dispatch_result \<times> 'z gate_scheme" where
  "dispatch clk reg method params s =
     (case admit clk reg method params s of
        (Refused e, s') \<Rightarrow> (Inl e, s')
      | (Admitted cap d summary, s') \<Rightarrow>
          (case cap_handler cap params s' of
             (outcome, s'') \<Rightarrow> settle clk method cap d summary outcome s''))"

lemma audit_append_simps [simp]:
  "g_mode (audit_append e s) = g_mode s"
  "g_grants (audit_append e s) = g_grants s"
  "g_token (audit_append e s) = g_token s"
  "g_audit (audit_append e s) = g_audit s @ [e]"
  by (simp_all add: audit_append_def)

lemma settle_simps [simp]:
  "g_mode (snd (settle clk method cap d summary r s)) = g_mode s"
  "g_grants (snd (settle clk method cap d summary r s)) = g_grants s"
  "g_token (snd (settle clk method cap d summary r s)) = g_token s"
  "length (g_audit (snd (settle clk method cap d summary r s))) = Suc (length (g_audit s))"
  by (simp_all add: settle_def split: sum.split)

lemma admitted_cap:
  "admit clk reg method params s = (Admitted cap d summary, s') \<Longrightarrow> registry_get reg method = Some cap"
  by (auto simp: admit_def Let_def split: option.splits if_splits)

text \<open>A dispatch is refused, or runs the handler of the looked-up capability and settles.\<close>

lemma dispatch_cases:
  obtains (refused) e s' where "admit clk reg method params s = (Refused e, s')"
      "dispatch clk reg method params s = (Inl e, s')"
  | (started) cap d summary s1 r s2 where
      "admit clk reg method params s = (Admitted cap d summary, s1)"
      "registry_get reg method = Some cap"
      "cap_handler cap params s1 = (r, s2)"
      "dispatch clk reg method params s = settle clk method cap d summary r s2"
proof (cases "admit clk reg method params s")
  case (Pair a s1)
  show thesis
  proof (cases a)
    case (Refused e)
    with Pair show thesis by (intro refused [of e s1]) (simp_all add: dispatch_def)
  next
    case (Admitted cap d summary)
    obtain r s2 where "cap_handler cap params s1 = (r, s2)" by (cases "cap_handler cap params s1")
    with Pair Admitted show thesis
      by (intro started [of cap d summary s1 r s2]) (auto simp: dispatch_def intro: admitted_cap)
  qed
qed

lemma admit_frame:
  assumes "admit clk reg method params s = (a, s')"
  shows "g_mode s' = g_mode s" "g_token s' = g_token s"
    "length (g_audit s') = length (g_audit s) + of_bool (case a of Refused e \<Rightarrow> True | _ \<Rightarrow> False)"
  using assms by (auto simp: admit_def Let_def split: option.splits if_splits)

section \<open>Runs of requests\<close>

type_synonym request = "clock \<times> string \<times> jobject"

fun dispatch_all ::
  "'z handler registry \<Rightarrow> request list \<Rightarrow> 'z gate_scheme \<Rightarrow> dispatch_result list \<times> 'z gate_scheme" where
  "dispatch_all reg [] s = ([], s)"
| "dispatch_all reg ((clk, meth, params) # rs) s =
     (case dispatch clk reg meth params s of
        (r, s') \<Rightarrow> (case dispatch_all reg rs s' of (rest, s'') \<Rightarrow> (r # rest, s'')))"

lemma snd_dispatch_all_Cons:
  "snd (dispatch_all reg ((clk, meth, params) # rs) s) =
   snd (dispatch_all reg rs (snd (dispatch clk reg meth params s)))"
  by (simp add: Let_def split_beta)

declare dispatch_all.simps(2) [simp del]

text \<open>How many of the requests get a write or exec handler started.\<close>

definition starts_risky ::
  "clock \<Rightarrow> 'h registry \<Rightarrow> string \<Rightarrow> jobject \<Rightarrow> 'z gate_scheme \<Rightarrow> bool" where
  "starts_risky clk reg meth params s \<longleftrightarrow>
     (case fst (admit clk reg meth params s) of
        Refused e \<Rightarrow> False | Admitted cap d summary \<Rightarrow> cap_risk cap \<noteq> Read)"

fun risky_calls :: "'z handler registry \<Rightarrow> request list \<Rightarrow> 'z gate_scheme \<Rightarrow> nat" where
  "risky_calls reg [] s = 0"
| "risky_calls reg ((clk, meth, params) # rs) s =
     of_bool (starts_risky clk reg meth params s) +
     risky_calls reg rs (snd (dispatch clk reg meth params s))"

definition holds_token :: "string \<Rightarrow> jobject \<Rightarrow> bool" where
  "holds_token token params \<longleftrightarrow> map_of params ''token'' = Some (JStr token)"

definition unauthorised :: "string \<Rightarrow> request list \<Rightarrow> bool" where
  "unauthorised token reqs \<longleftrightarrow> list_all (\<lambda>(clk, meth, params). \<not> holds_token token params) reqs"

text \<open>
  What the bus relies on from the handlers of its table: none of them changes the policy, the
  token or the audit log, and the grants change only in a call that carries the token.
\<close>

locale capability_table =
  fixes reg :: "'z handler registry"
  assumes handler_frame: "registry_get reg meth = Some cap \<Longrightarrow>
      cap_handler cap params s = (r, s') \<Longrightarrow>
      g_mode s' = g_mode s \<and> g_token s' = g_token s \<and> g_audit s' = g_audit s"
    and handler_grants: "registry_get reg meth = Some cap \<Longrightarrow>
      cap_handler cap params s = (r, s') \<Longrightarrow>
      \<not> holds_token (g_token s) params \<Longrightarrow> g_grants s' = g_grants s"
begin

lemma dispatch_frame:
  "g_mode (snd (dispatch clk reg meth params s)) = g_mode s"
  "g_token (snd (dispatch clk reg meth params s)) = g_token s"
  "length (g_audit (snd (dispatch clk reg meth params s))) = Suc (length (g_audit s))"
proof -
  let ?s' = "snd (dispatch clk reg meth params s)"
  have "g_mode ?s' = g_mode s \<and> g_token ?s' = g_token s
      \<and> length (g_audit ?s') = Suc (length (g_audit s))"
  proof (cases rule: dispatch_cases [of clk reg meth params s])
    case (refused e s')
    with admit_frame [OF refused(1)] show ?thesis by simp
  next
    case (started cap d summary s1 r s2)
    with admit_frame [OF started(1)] handler_frame [OF started(2,3)] show ?thesis by simp
  qed
  then show "g_mode ?s' = g_mode s" "g_token ?s' = g_token s"
    "length (g_audit ?s') = Suc (length (g_audit s))" by auto
qed

lemma dispatch_all_frame:
  "g_mode (snd (dispatch_all reg rs s)) = g_mode s"
  "g_token (snd (dispatch_all reg rs s)) = g_token s"
  "length (g_audit (snd (dispatch_all reg rs s))) = length (g_audit s) + length rs"
  by (induction rs arbitrary: s) (auto simp: snd_dispatch_all_Cons dispatch_frame)

lemma dispatch_grants:
  assumes "\<not> holds_token (g_token s) params"
  shows "g_grants (snd (dispatch clk reg meth params s)) =
    g_grants (snd (admit clk reg meth params s))"
proof (cases rule: dispatch_cases [of clk reg meth params s])
  case (started cap d summary s1 r s2)
  with handler_grants [OF started(2,3)] admit_frame(2) [OF started(1)] assms show ?thesis by simp
qed simp

text \<open>Serving one request without the token, in guarded mode, against the grant budget.\<close>

lemma guarded_request_budget:
  fixes clk :: clock and meth :: string
  assumes "g_mode s = Guarded" "map_wf (g_grants s)" "\<not> holds_token (g_token s) params"
  defines "s' \<equiv> snd (dispatch clk reg meth params s)"
  shows "map_wf (g_grants s')"
    and "enat (of_bool (starts_risky clk reg meth params s)) + budget (g_grants s') = budget (g_grants s)"
proof -
  have g: "g_grants s' = g_grants (snd (admit clk reg meth params s))"
    using dispatch_grants [OF assms(3)] by (simp add: s'_def)
  show "map_wf (g_grants s')"
    using assms(2) unfolding g
    by (auto simp: admit_def Let_def consume_wf split: option.splits)
  show "enat (of_bool (starts_risky clk reg meth params s)) + budget (g_grants s')
      = budget (g_grants s)"
    using assms(1,2) gs.spend_one [OF assms(2)] unfolding g
    by (auto simp: admit_def starts_risky_def Let_def decide_def zero_enat_def [symmetric]
        eSuc_plus_1 one_enat_def add.commute split: option.splits if_splits)
qed

lemma guarded_run_budget:
  assumes "g_mode s = Guarded" "map_wf (g_grants s)" "unauthorised (g_token s) rs"
  shows "enat (risky_calls reg rs s) + budget (g_grants (snd (dispatch_all reg rs s)))
    = budget (g_grants s)"
  using assms
proof (induction rs arbitrary: s)
  case Nil
  then show ?case by (simp add: zero_enat_def [symmetric])
next
  case (Cons req rs)
  obtain clk meth params where req: "req = (clk, meth, params)" by (cases req)
  let ?s' = "snd (dispatch clk reg meth params s)"
  have token: "\<not> holds_token (g_token s) params" and rest: "unauthorised (g_token s) rs"
    using Cons.prems(3) by (simp_all add: unauthorised_def req)
  note one = guarded_request_budget [OF Cons.prems(1,2) token, of clk meth]
  have "enat (risky_calls reg rs ?s') + budget (g_grants (snd (dispatch_all reg rs ?s')))
      = budget (g_grants ?s')"
    using Cons.prems(1) rest one(1) by (intro Cons.IH) (simp_all add: dispatch_frame)
  with one(2) show ?case
    by (simp add: req snd_dispatch_all_Cons add.assoc flip: plus_enat_simps(1))
qed

lemma paranoid_never_starts: "g_mode s = Paranoid \<Longrightarrow> risky_calls reg rs s = 0"
proof (induction rs arbitrary: s)
  case (Cons req rs)
  obtain clk meth params where req: "req = (clk, meth, params)" by (cases req)
  have "\<not> starts_risky clk reg meth params s"
    using Cons.prems by (auto simp: starts_risky_def admit_def Let_def decide_def split: option.splits)
  with Cons show ?case by (simp add: req dispatch_frame)
qed simp

end

section \<open>Properties\<close>


lemma redact_fields_mask:
  "redact_fields args =
   fold (\<lambda>(k, v). obj_assign k v) (map (\<lambda>(k, v). (k, if k = ''token'' then JStr ''***'' else v)) args) []"
  by (simp add: redact_fields_def fold_map comp_def case_prod_unfold)

lemma map_mask_token:
  "map (\<lambda>(k, v). (k, if k = t then m else v)) (AList.update t v args) =
   map (\<lambda>(k, v). (k, if k = t then m else v)) (AList.update t w args)"
  by (induction args) auto

text \<open>
  The operator token does not reach the audit log: the summary of a call is the same
  whatever value its \<open>token\<close> parameter has, and never longer than 300 units and the ellipsis.
\<close>

theorem redact_hides_token:
  "redact (AList.update ''token'' v args) = redact (AList.update ''token'' w args) \<and>
   length (redact args) \<le> 301"
proof
  show "redact (AList.update ''token'' v args) = redact (AList.update ''token'' w args)"
    unfolding redact_def redact_fields_mask map_mask_token [of _ _ v args w] ..
  show "length (redact args) \<le> 301"
    by (simp add: redact_def Let_def ellipsis_def)
qed

text \<open>
  C6. A refused call has no effect but one audit entry marked denied; the code it returns says
  which check failed, in the order existence, permission, parameters: \<open>ENOSYS\<close> exactly for an
  unknown name, \<open>EPERM\<close> exactly when the policy denies (whatever the parameters), \<open>EINVAL\<close>
  otherwise.
\<close>

theorem refusal_is_effect_free:
  assumes "fst (admit clk reg meth params s) = Refused e"
  shows "\<exists>entry s'. dispatch clk reg meth params s = (Inl e, s') \<and> s' = audit_append entry s \<and> ae_decision entry = Denied
      \<and> ae_capability entry = meth \<and>
      (case registry_get reg meth of
         None \<Rightarrow> err_code e = ''ENOSYS''
       | Some cap \<Rightarrow>
           if allow (decide (g_mode s) meth (cap_risk cap) (g_grants s))
           then err_code e = ''EINVAL'' \<and> validate (cap_params cap) params = Some (err_message e)
           else err_code e = ''EPERM'')"
  using assms
  by (auto simp: dispatch_def admit_def Let_def denied_entry_def split: option.splits if_splits)

definition boot_gate :: "mode \<Rightarrow> string \<Rightarrow> gate" where
  "boot_gate m token = \<lparr>g_mode = m, g_grants = [], g_audit = [], g_token = token\<rparr>"

theorem refusal_is_effect_free_witness:
  "\<exists>entry. dispatch \<lparr>at_entry = 7, at_start = 7, at_end = 7\<rparr> [] ''no.such'' [] (boot_gate Guarded ''t'')
      = (Inl \<lparr>err_code = ''ENOSYS'', err_message = ''unknown capability: no.such''\<rparr>,
         audit_append entry (boot_gate Guarded ''t''))
      \<and> ae_decision entry = Denied \<and> ae_capability entry = ''no.such''"
proof -
  let ?clk = "\<lparr>at_entry = 7, at_start = 7, at_end = 7\<rparr>"
  have "fst (admit ?clk [] ''no.such'' [] (boot_gate Guarded ''t''))
      = Refused \<lparr>err_code = ''ENOSYS'', err_message = ''unknown capability: no.such''\<rparr>"
    by (simp add: admit_def registry_get_def)
  from refusal_is_effect_free [OF this] show ?thesis by auto
qed

end
