(* ===== verification/VoidParse.thy ===== *)
theory VoidParse
  imports VoidJson
begin

text \<open>
  \<open>JSON.parse\<close>, which the gate applies to request lines, the memory store to its file and the
  introspection calls to the audit log. A lexer that skips white space feeds a recursive
  descent over tokens; the fuel of both is the length of their input, which is enough because
  each call consumes some of it. A failure is \<open>None\<close>: the engine's \<open>SyntaxError\<close> (its message is
  the engine's). Escapes of code units above 255 have no value here, and decimal literals are
  read by their exact decimal value (what a double holds up to 15 significant digits).
\<close>

section \<open>Tokens\<close>

datatype token =
    TLBrace | TRBrace | TLBrack | TRBrack | TColon | TComma
  | TTrue | TFalse | TNull | TStr string | TNum json

definition hex_value :: "char \<Rightarrow> nat option" where
  "hex_value c =
     (let n = (of_char c :: nat)
      in if 48 \<le> n \<and> n \<le> 57 then Some (n - 48)
         else if 97 \<le> n \<and> n \<le> 102 then Some (n - 87)
         else if 65 \<le> n \<and> n \<le> 70 then Some (n - 55)
         else None)"

definition simple_escape :: "char \<Rightarrow> char option" where
  "simple_escape c =
     (let n = (of_char c :: nat)
      in if n = 34 then Some CHR 0x22
         else if n = 92 then Some CHR 0x5C
         else if n = 47 then Some CHR 0x2F
         else if n = 98 then Some CHR 0x08
         else if n = 102 then Some CHR 0x0C
         else if n = 110 then Some CHR 0x0A
         else if n = 114 then Some CHR 0x0D
         else if n = 116 then Some CHR 0x09
         else None)"

text \<open>The rest of a string literal after its opening quote: the value and what follows.\<close>

fun lex_string :: "string \<Rightarrow> (string \<times> string) option" where
  "lex_string [] = None"
| "lex_string (c # cs) =
     (if (of_char c :: nat) = 34 then Some ([], cs)
      else if (of_char c :: nat) = 92 then
        (case cs of
           [] \<Rightarrow> None
         | e # es \<Rightarrow>
             (if (of_char e :: nat) = 117 then
                (case es of
                   h1 # h2 # h3 # h4 # rest \<Rightarrow>
                     (case (hex_value h1, hex_value h2, hex_value h3, hex_value h4) of
                        (Some a, Some b, Some x, Some y) \<Rightarrow>
                          if a = 0 \<and> b = 0
                          then map_option (\<lambda>(s, r). (char_of (16 * x + y) # s, r)) (lex_string rest)
                          else None
                      | _ \<Rightarrow> None)
                 | _ \<Rightarrow> None)
              else (case simple_escape e of
                      None \<Rightarrow> None
                    | Some d \<Rightarrow> map_option (\<lambda>(s, r). (d # s, r)) (lex_string es))))
      else if (of_char c :: nat) < 32 then None
      else map_option (\<lambda>(s, r). (c # s, r)) (lex_string cs))"

definition span_digits :: "string \<Rightarrow> string \<times> string" where
  "span_digits s = (takeWhile is_digit s, dropWhile is_digit s)"

text \<open>The value of a literal with digits \<open>ds\<close> (a natural number) times \<open>10 ^ e\<close>.\<close>

fun strip_zeros :: "nat \<Rightarrow> nat \<Rightarrow> int \<Rightarrow> nat \<times> int" where
  "strip_zeros 0 d e = (d, e)"
| "strip_zeros (Suc k) d e = (if d \<noteq> 0 \<and> d mod 10 = 0 then strip_zeros k (d div 10) (e + 1) else (d, e))"

definition number_value :: "bool \<Rightarrow> nat \<Rightarrow> int \<Rightarrow> json" where
  "number_value neg d e =
     (if d = 0 then JNum 0
      else case strip_zeros d d e of (m, k) \<Rightarrow>
        if 0 \<le> k \<and> k < 16 \<and> m * 10 ^ nat k < 2 ^ 53
        then JNum (if neg then - int (m * 10 ^ nat k) else int (m * 10 ^ nat k))
        else JDec neg m (int (length (nat_str m)) + k))"

definition lex_exponent :: "string \<Rightarrow> (int \<times> string) option" where
  "lex_exponent s =
     (case s of
        [] \<Rightarrow> Some (0, [])
      | c # cs \<Rightarrow>
          if (of_char c :: nat) = 101 \<or> (of_char c :: nat) = 69 then
            (case (case cs of
                     [] \<Rightarrow> (False, [])
                   | d # ds \<Rightarrow> if (of_char d :: nat) = 45 then (True, ds)
                              else if (of_char d :: nat) = 43 then (False, ds) else (False, d # ds)) of
               (neg, rest) \<Rightarrow>
                 (case span_digits rest of
                    ([], _) \<Rightarrow> None
                  | (ds, r) \<Rightarrow> Some (if neg then - int (digits_value ds) else int (digits_value ds), r)))
          else Some (0, s))"

definition lex_fraction :: "string \<Rightarrow> (string \<times> string) option" where
  "lex_fraction s =
     (case s of
        [] \<Rightarrow> Some ([], [])
      | c # cs \<Rightarrow>
          if (of_char c :: nat) = 46 then
            (case span_digits cs of ([], _) \<Rightarrow> None | (ds, r) \<Rightarrow> Some (ds, r))
          else Some ([], s))"

definition lex_number :: "string \<Rightarrow> (json \<times> string) option" where
  "lex_number s =
     (case (case s of
              [] \<Rightarrow> (False, [])
            | c # cs \<Rightarrow> if (of_char c :: nat) = 45 then (True, cs) else (False, s)) of
        (neg, s1) \<Rightarrow>
          (case span_digits s1 of
             (ds, s2) \<Rightarrow>
               if ds = [] \<or> (1 < length ds \<and> hd ds = CHR ''0'') then None
               else (case lex_fraction s2 of
                       None \<Rightarrow> None
                     | Some (fs, s3) \<Rightarrow>
                         (case lex_exponent s3 of
                            None \<Rightarrow> None
                          | Some (e, s4) \<Rightarrow>
                              Some (number_value neg (digits_value (ds @ fs)) (e - int (length fs)), s4)))))"

definition keyword :: "string \<Rightarrow> (token \<times> string) option" where
  "keyword s =
     (if take 4 s = ''true'' then Some (TTrue, drop 4 s)
      else if take 5 s = ''false'' then Some (TFalse, drop 5 s)
      else if take 4 s = ''null'' then Some (TNull, drop 4 s)
      else None)"

definition is_space :: "char \<Rightarrow> bool" where
  "is_space c \<longleftrightarrow> (of_char c :: nat) \<in> {9, 10, 13, 32}"

definition punctuation :: "char \<Rightarrow> token option" where
  "punctuation c =
     (let n = (of_char c :: nat)
      in if n = 123 then Some TLBrace else if n = 125 then Some TRBrace
         else if n = 91 then Some TLBrack else if n = 93 then Some TRBrack
         else if n = 58 then Some TColon else if n = 44 then Some TComma else None)"

definition next_token :: "string \<Rightarrow> (token \<times> string) option" where
  "next_token s =
     (case s of
        [] \<Rightarrow> None
      | c # cs \<Rightarrow>
          (case punctuation c of
             Some t \<Rightarrow> Some (t, cs)
           | None \<Rightarrow>
               if (of_char c :: nat) = 34 then map_option (\<lambda>(v, r). (TStr v, r)) (lex_string cs)
               else if (of_char c :: nat) = 45 \<or> is_digit c
               then map_option (\<lambda>(v, r). (TNum v, r)) (lex_number s)
               else keyword s))"

fun lex :: "nat \<Rightarrow> string \<Rightarrow> token list option" where
  "lex 0 s = (if s = [] then Some [] else None)"
| "lex (Suc n) s =
     (case s of
        [] \<Rightarrow> Some []
      | c # cs \<Rightarrow>
          if is_space c then lex n cs
          else (case next_token s of
                  None \<Rightarrow> None
                | Some (t, r) \<Rightarrow> map_option (\<lambda>ts. t # ts) (lex n r)))"

section \<open>Values\<close>

fun parse_value :: "nat \<Rightarrow> token list \<Rightarrow> (json \<times> token list) option"
  and parse_elems :: "nat \<Rightarrow> token list \<Rightarrow> (json list \<times> token list) option"
  and parse_members :: "nat \<Rightarrow> token list \<Rightarrow> ((string \<times> json) list \<times> token list) option"
where
  "parse_value 0 ts = None"
| "parse_value (Suc n) ts =
     (case ts of
        TNull # r \<Rightarrow> Some (JNull, r)
      | TTrue # r \<Rightarrow> Some (JBool True, r)
      | TFalse # r \<Rightarrow> Some (JBool False, r)
      | TStr s # r \<Rightarrow> Some (JStr s, r)
      | TNum v # r \<Rightarrow> Some (v, r)
      | TLBrack # TRBrack # r \<Rightarrow> Some (JArr [], r)
      | TLBrack # r \<Rightarrow> map_option (\<lambda>(vs, r). (JArr vs, r)) (parse_elems n r)
      | TLBrace # TRBrace # r \<Rightarrow> Some (JObj [], r)
      | TLBrace # r \<Rightarrow> map_option (\<lambda>(ps, r). (JObj (from_entries ps), r)) (parse_members n r)
      | _ \<Rightarrow> None)"
| "parse_elems 0 ts = None"
| "parse_elems (Suc n) ts =
     (case parse_value n ts of
        Some (v, TComma # r) \<Rightarrow> map_option (\<lambda>(vs, r). (v # vs, r)) (parse_elems n r)
      | Some (v, TRBrack # r) \<Rightarrow> Some ([v], r)
      | _ \<Rightarrow> None)"
| "parse_members 0 ts = None"
| "parse_members (Suc n) ts =
     (case ts of
        TStr k # TColon # r \<Rightarrow>
          (case parse_value n r of
             Some (v, TComma # r) \<Rightarrow> map_option (\<lambda>(ps, r). ((k, v) # ps, r)) (parse_members n r)
           | Some (v, TRBrace # r) \<Rightarrow> Some ([(k, v)], r)
           | _ \<Rightarrow> None)
      | _ \<Rightarrow> None)"

definition json_parse :: "string \<Rightarrow> json option" where
  "json_parse s =
     (case lex (length s) s of
        None \<Rightarrow> None
      | Some ts \<Rightarrow>
          (case parse_value (2 * length ts) ts of
             Some (v, []) \<Rightarrow> Some v
           | _ \<Rightarrow> None))"


section \<open>The lexer needs no more fuel than its input\<close>

lemma lex_string_shorter: "lex_string s = Some (v, r) \<Longrightarrow> length r < length s"
proof (induction s arbitrary: v r rule: length_induct)
  case (1 s)
  have IH: "length r' < length s'" if "length s' < length s" "lex_string s' = Some (v', r')" for s' v' r'
    using 1 that by blast
  from "1.prems" show ?case
  proof (cases s)
    case (Cons c cs)
    note prems = "1.prems"[unfolded Cons]
    have cs: "length r < length cs" if "lex_string cs = Some (v', r)" for v'
      using IH [OF _ that] Cons by simp
    show ?thesis
    proof (cases cs)
      case (Cons e es)
      have es: "length r < length es" if "lex_string es = Some (v', r)" for v'
        using IH [OF _ that] Cons \<open>s = c # cs\<close> by simp
      have rest: "length r < length rest" if "lex_string rest = Some (v', r)" "es = h1 # h2 # h3 # h4 # rest"
        for v' h1 h2 h3 h4 rest
        using IH [OF _ that(1)] that(2) Cons \<open>s = c # cs\<close> by simp
      show ?thesis
        using prems cs es rest \<open>s = c # cs\<close> Cons
        by (simp split: if_splits list.splits option.splits) (fastforce dest: less_SucI)+
    qed (use prems \<open>s = c # cs\<close> in \<open>simp split: if_splits\<close>)
  qed simp
qed

lemma span_digits_length: "span_digits s = (ds, r) \<Longrightarrow> length ds + length r = length s"
  by (auto simp: span_digits_def) (metis length_append takeWhile_dropWhile_id)

lemma lex_fraction_shorter: "lex_fraction s = Some (fs, r) \<Longrightarrow> length r \<le> length s"
  by (auto simp: lex_fraction_def split: list.splits if_splits prod.splits dest!: span_digits_length)

lemma lex_exponent_shorter: "lex_exponent s = Some (e, r) \<Longrightarrow> length r \<le> length s"
  by (auto simp: lex_exponent_def split: list.splits if_splits prod.splits dest!: span_digits_length)

lemma lex_number_shorter: "lex_number s = Some (v, r) \<Longrightarrow> length r < length s"
proof -
  assume lx: "lex_number s = Some (v, r)"
  obtain neg s1 where s1: "(case s of [] \<Rightarrow> (False, [])
      | c # cs \<Rightarrow> if (of_char c :: nat) = 45 then (True, cs) else (False, s)) = (neg, s1)" by fastforce
  then have le: "length s1 \<le> length s" by (auto split: list.splits if_splits)
  obtain ds s2 where sd: "span_digits s1 = (ds, s2)" by fastforce
  with lx s1 obtain fs s3 e s4 where "ds \<noteq> []" "lex_fraction s2 = Some (fs, s3)"
      "lex_exponent s3 = Some (e, s4)" "r = s4"
    by (auto simp: lex_number_def split: if_splits option.splits prod.splits)
  with le span_digits_length [OF sd] lex_fraction_shorter [of s2 fs s3] lex_exponent_shorter [of s3 e s4]
  show ?thesis by (cases ds) auto
qed

lemma take_eq_length: "take n s = w \<Longrightarrow> length w = n \<Longrightarrow> n \<le> length s"
  by auto

lemma next_token_shorter: "next_token s = Some (t, r) \<Longrightarrow> length r < length s"
proof -
  assume nt: "next_token s = Some (t, r)"
  then obtain c cs where s: "s = c # cs" by (auto simp: next_token_def split: list.splits)
  have kw: "keyword s = Some (t, r) \<Longrightarrow> length r < length s"
    using s by (auto simp: keyword_def split: if_splits dest!: take_eq_length)
  show ?thesis
    using nt lex_string_shorter [of cs] lex_number_shorter [of s] kw s
    by (auto simp: next_token_def less_SucI split: option.splits if_splits)
qed

text \<open>The lexer with exactly enough fuel, and its equations.\<close>

definition lexa :: "string \<Rightarrow> token list option" where
  "lexa s = lex (length s) s"

lemma lex_enough: "length s \<le> n \<Longrightarrow> lex n s = lexa s"
proof (induction n arbitrary: s rule: less_induct)
  case (less n)
  show ?case
  proof (cases s)
    case (Cons c cs)
    with less.prems obtain m where n: "n = Suc m" by (cases n) auto
    have same: "lex k r = lex m r" if "length r \<le> length cs" "length cs \<le> k" "k \<le> m" for k r
    proof -
      have "lex k r = lexa r" using less.IH [of k r] that n by simp
      moreover have "lex m r = lexa r" using less.IH [of m r] that n by simp
      ultimately show ?thesis by simp
    qed
    have "length r \<le> length cs" if "next_token s = Some (t, r)" for t r
      using next_token_shorter [OF that] Cons by simp
    with same [of _ "length cs"] less.prems n Cons show ?thesis
      by (auto simp: lexa_def split: option.splits)
  qed (cases n; simp add: lexa_def)
qed

lemma lexa_Nil [simp]: "lexa [] = Some []"
  by (simp add: lexa_def)

lemma lexa_space: "is_space c \<Longrightarrow> lexa (c # cs) = lexa cs"
  by (simp add: lexa_def)

lemma lexa_token:
  assumes "next_token s = Some (t, r)" "\<not> is_space (hd s)"
  shows "lexa s = map_option ((#) t) (lexa r)"
proof -
  obtain c cs where s: "s = c # cs" using next_token_shorter [OF assms(1)] by (cases s) auto
  have "length r \<le> length cs" using next_token_shorter [OF assms(1)] s by simp
  then have "lex (length cs) r = lexa r" by (rule lex_enough)
  with assms s show ?thesis by (simp add: lexa_def)
qed

lemma lexa_punctuation:
  assumes "punctuation c = Some t"
  shows "lexa (c # cs) = map_option ((#) t) (lexa cs)"
proof (rule lexa_token)
  show "next_token (c # cs) = Some (t, cs)" using assms by (simp add: next_token_def)
  show "\<not> is_space (hd (c # cs))"
    using assms by (auto simp: is_space_def punctuation_def Let_def split: if_splits)
qed

section \<open>Strings\<close>

lemma hex_value_digit: "n < 16 \<Longrightarrow> hex_value (hex_digit n) = Some n"
  by (auto simp: hex_value_def hex_digit_def digit_char_def Let_def)

lemma char_by_code: "of_char c = n \<Longrightarrow> c = char_of (n :: nat)"
  by (drule sym) simp

lemma lex_string_plain:
  "(of_char c :: nat) \<noteq> 34 \<Longrightarrow> (of_char c :: nat) \<noteq> 92 \<Longrightarrow> 32 \<le> (of_char c :: nat) \<Longrightarrow>
   lex_string (c # r) = map_option (\<lambda>(s, r). (c # s, r)) (lex_string r)"
  by simp

lemma lex_string_escape:
  "simple_escape e = Some d \<Longrightarrow> (of_char e :: nat) \<noteq> 117 \<Longrightarrow>
   lex_string (CHR 0x5C # e # r) = map_option (\<lambda>(s, r). (d # s, r)) (lex_string r)"
  by simp

lemma lex_string_unicode:
  "a < 16 \<Longrightarrow> b < 16 \<Longrightarrow>
   lex_string ([CHR 0x5C, CHR ''u'', CHR ''0'', CHR ''0'', hex_digit a, hex_digit b] @ r)
     = map_option (\<lambda>(s, r). (char_of (16 * a + b) # s, r)) (lex_string r)"
proof -
  have "hex_value CHR ''0'' = Some 0" by code_simp
  moreover assume "a < 16" "b < 16"
  ultimately show ?thesis by (simp add: hex_value_digit)
qed

lemma lex_string_char: "lex_string (escape_char c @ r) = map_option (\<lambda>(s, r). (c # s, r)) (lex_string r)"
proof -
  let ?n = "of_char c :: nat"
  have n: "?n < 256" by (rule nat_of_char_less_256)
  consider (esc) "?n \<in> {34, 92, 8, 12, 10, 13, 9}"
    | (control) "?n < 32" "?n \<notin> {34, 92, 8, 12, 10, 13, 9}"
    | (plain) "\<not> ?n < 32" "?n \<noteq> 34" "?n \<noteq> 92" by auto
  then show ?thesis
  proof cases
    case esc
    have e: "simple_escape CHR 0x22 = Some CHR 0x22" "simple_escape CHR 0x5C = Some CHR 0x5C"
      "simple_escape CHR ''b'' = Some CHR 0x08" "simple_escape CHR ''f'' = Some CHR 0x0C"
      "simple_escape CHR ''n'' = Some CHR 0x0A" "simple_escape CHR ''r'' = Some CHR 0x0D"
      "simple_escape CHR ''t'' = Some CHR 0x09" by code_simp+
    from esc consider "c = char_of (34 :: nat)" | "c = char_of (92 :: nat)" | "c = char_of (8 :: nat)"
      | "c = char_of (12 :: nat)" | "c = char_of (10 :: nat)" | "c = char_of (13 :: nat)"
      | "c = char_of (9 :: nat)" using char_by_code [of c] by blast
    moreover have "char_of (34 :: nat) = CHR 0x22" "char_of (92 :: nat) = CHR 0x5C"
      "char_of (8 :: nat) = CHR 0x08" "char_of (12 :: nat) = CHR 0x0C" "char_of (10 :: nat) = CHR 0x0A"
      "char_of (13 :: nat) = CHR 0x0D" "char_of (9 :: nat) = CHR 0x09" by code_simp+
    ultimately show ?thesis
      by cases (simp_all add: escape_char_def lex_string_escape e del: lex_string.simps)
  next
    case control
    then have "escape_char c = [CHR 0x5C, CHR ''u'', CHR ''0'', CHR ''0'', hex_digit (?n div 16), hex_digit (?n mod 16)]"
      by (simp add: escape_char_def Let_def)
    moreover have "?n div 16 < 16" "?n mod 16 < 16" using n by (simp_all add: less_mult_imp_div_less)
    moreover have "char_of (16 * (?n div 16) + ?n mod 16) = c" by simp
    ultimately show ?thesis using lex_string_unicode [of "?n div 16" "?n mod 16" r] by simp
  next
    case plain
    then have "escape_char c = [c]" by (simp add: escape_char_def Let_def)
    with plain show ?thesis by (simp add: lex_string_plain del: lex_string.simps)
  qed
qed

lemma lex_string_body: "lex_string (concat (map escape_char s) @ CHR 0x22 # r) = Some (s, r)"
  by (induction s) (simp_all add: lex_string_char)

lemma lexa_string: "lexa (quote_string s @ r) = map_option ((#) (TStr s)) (lexa r)"
proof (rule lexa_token)
  have "punctuation CHR 0x22 = None" by code_simp
  then show "next_token (quote_string s @ r) = Some (TStr s, r)"
    by (simp add: next_token_def quote_string_def lex_string_body)
  show "\<not> is_space (hd (quote_string s @ r))"
    by (simp add: quote_string_def is_space_def)
qed


section \<open>Numbers\<close>

text \<open>What can follow a value in a text: nothing, or a unit that no number contains.\<close>

definition delim :: "string \<Rightarrow> bool" where
  "delim r \<longleftrightarrow> (case r of [] \<Rightarrow> True | c # cs \<Rightarrow> (of_char c :: nat) \<in> {10, 44, 93, 125})"

lemma delim_simps [simp]:
  "delim []" "delim (CHR '','' # r)" "delim (CHR '']'' # r)" "delim (CHR 0x7D # r)" "delim (CHR 0x0A # r)"
  by (simp_all add: delim_def)

lemma digits_value_append: "digits_value (xs @ ys) = digits_value xs * 10 ^ length ys + digits_value ys"
proof -
  have "fold (\<lambda>c n. 10 * n + ((of_char c :: nat) - 48)) ys a
      = a * 10 ^ length ys + fold (\<lambda>c n. 10 * n + ((of_char c :: nat) - 48)) ys 0" for a
  proof (induction ys arbitrary: a)
    case (Cons y ys)
    from Cons [of "10 * a + (of_char y - 48)"] Cons [of "of_char y - 48"]
    show ?case by (simp add: algebra_simps)
  qed simp
  from this [of "digits_value xs"] show ?thesis by (simp add: digits_value_def)
qed

lemma digits_value_digit [simp]: "n < 10 \<Longrightarrow> digits_value [digit_char n] = n"
  by (simp add: digits_value_def digit_char_def)

lemma digits_value_nat_str [simp]: "digits_value (nat_str n) = n"
proof (induction n rule: nat_str.induct)
  case (1 n)
  show ?case
  proof (cases "n < 10")
    case False
    with 1 show ?thesis by (subst nat_str.simps) (simp add: digits_value_append)
  qed (subst nat_str.simps, simp)
qed

lemma digits_value_zeros [simp]: "digits_value (replicate n CHR ''0'') = 0"
  by (induction n) (simp_all add: digits_value_def)

lemma nat_str_head: "n \<noteq> 0 \<Longrightarrow> hd (nat_str n) \<noteq> CHR ''0''"
proof (induction n rule: nat_str.induct)
  case (1 n)
  show ?case
  proof (cases "n < 10")
    case True
    have "digit_char n \<noteq> digit_char 0" using digit_char_inject [of n 0] True "1.prems" by simp
    moreover have "digit_char 0 = CHR ''0''" by code_simp
    ultimately show ?thesis using True by (subst nat_str.simps) simp
  next
    case False
    with 1 show ?thesis by (subst nat_str.simps) simp
  qed
qed

lemma nat_str_zero [simp]: "nat_str 0 = ''0''"
  by code_simp

lemma nat_str_first: "length (nat_str n) = 1 \<or> hd (nat_str n) \<noteq> CHR ''0''"
  by (cases "n = 0") (simp_all add: nat_str_head)

lemma span_digits_here:
  "list_all is_digit ds \<Longrightarrow> (r = [] \<or> \<not> is_digit (hd r)) \<Longrightarrow> span_digits (ds @ r) = (ds, r)"
  by (cases r) (auto simp: span_digits_def list_all_iff takeWhile_append dropWhile_append)

lemma delim_no_digit: "delim r \<Longrightarrow> r = [] \<or> \<not> is_digit (hd r)"
  by (auto simp: delim_def is_digit_def split: list.splits)

lemma delim_ends: "delim r \<Longrightarrow> lex_fraction r = Some ([], r)" "delim r \<Longrightarrow> lex_exponent r = Some (0, r)"
  by (auto simp: delim_def lex_fraction_def lex_exponent_def split: list.splits)

text \<open>A literal with sign, integer digits, fraction digits and exponent text.\<close>

lemma lex_number_parts:
  assumes "list_all is_digit ds" "ds \<noteq> []" "length ds = 1 \<or> hd ds \<noteq> CHR ''0''"
    and "lex_fraction t = Some (fs, u)" "lex_exponent u = Some (e, r)"
    and "t = [] \<or> \<not> is_digit (hd t)"
  shows "lex_number ((if neg then ''-'' else []) @ ds @ t)
    = Some (number_value neg (digits_value (ds @ fs)) (e - int (length fs)), r)"
proof -
  obtain c cs where c: "ds = c # cs" "is_digit c" using assms(1,2) by (cases ds) auto
  then have "(of_char c :: nat) \<noteq> 45" by (auto simp: is_digit_def)
  moreover have "span_digits (c # cs @ t) = (ds, t)"
    using span_digits_here [OF assms(1,6)] c(1) by simp
  ultimately show ?thesis using assms(2-5) c(1) by (cases neg) (auto simp: lex_number_def)
qed

lemma strip_zeros_spec:
  "strip_zeros f d e = (m, k) \<Longrightarrow> \<exists>j. d = m * 10 ^ j \<and> k = e + int j"
proof (induction f arbitrary: d e)
  case (Suc f)
  show ?case
  proof (cases "d \<noteq> 0 \<and> d mod 10 = 0")
    case True
    then have "strip_zeros f (d div 10) (e + 1) = (m, k)" using Suc.prems by simp
    from Suc.IH [OF this] obtain j where "d div 10 = m * 10 ^ j" "k = e + 1 + int j" by blast
    with True have "d = m * 10 ^ Suc j \<and> k = e + int (Suc j)" by auto
    then show ?thesis by blast
  next
    case False
    with Suc.prems have "d = m * 10 ^ 0 \<and> k = e + int 0" by auto
    then show ?thesis by blast
  qed
qed (auto intro: exI [of _ 0])

lemma number_value_int:
  assumes "d < 2 ^ 53"
  shows "number_value neg d 0 = JNum (if neg then - int d else int d)"
proof (cases "d = 0")
  case False
  obtain m k where mk: "strip_zeros d d 0 = (m, k)" by fastforce
  from strip_zeros_spec [OF mk] obtain j where j: "d = m * 10 ^ j" "k = int j" by auto
  have "10 ^ j \<le> d" using j(1) False by (cases m) auto
  have "j < 16"
  proof (rule ccontr)
    assume "\<not> j < 16"
    then have "(10 :: nat) ^ 16 \<le> 10 ^ j" by (intro power_increasing) simp_all
    with \<open>10 ^ j \<le> d\<close> assms show False by simp
  qed
  with False mk j assms show ?thesis by (simp add: number_value_def)
qed (simp add: number_value_def)


lemma next_token_number:
  assumes "lex_number s = Some (v, r)" "s \<noteq> []" "hd s = CHR ''-'' \<or> is_digit (hd s)"
  shows "lexa s = map_option ((#) (TNum v)) (lexa r)"
proof (rule lexa_token)
  obtain c cs where s: "s = c # cs" using assms(2) by (cases s) auto
  have dash: "punctuation CHR ''-'' = None" "(of_char CHR ''-'' :: nat) = 45" by code_simp+
  have "punctuation c = None \<and> (of_char c :: nat) \<noteq> 34 \<and> \<not> is_space c"
    using assms(3) dash s by (auto simp: punctuation_def Let_def is_digit_def is_space_def)
  moreover have "(of_char c :: nat) = 45 \<or> is_digit c" using assms(3) dash s by auto
  ultimately show "next_token s = Some (TNum v, r)" "\<not> is_space (hd s)"
    using assms(1) s by (simp_all add: next_token_def)
qed

lemma lexa_int:
  assumes "\<bar>i\<bar> < 2 ^ 53" "delim r"
  shows "lexa (int_str i @ r) = map_option ((#) (TNum (JNum i))) (lexa r)"
proof (rule next_token_number)
  let ?neg = "i < 0" and ?n = "nat \<bar>i\<bar>"
  have split: "int_str i = (if ?neg then ''-'' else []) @ nat_str ?n"
    by (simp add: int_str_def)
  have "?n < 2 ^ 53" using assms(1) by simp
  then have "number_value ?neg ?n 0 = JNum i" by (simp add: number_value_int)
  then show "lex_number (int_str i @ r) = Some (JNum i, r)"
    using lex_number_parts [where ds = "nat_str ?n" and t = r and fs = "[]" and u = r and e = 0 and r = r
        and neg = ?neg] nat_str_digits [of ?n] nat_str_first [of ?n] delim_ends [OF assms(2)]
      delim_no_digit [OF assms(2)]
    by (simp add: split)
  show "int_str i @ r \<noteq> []" by (simp add: split)
  have "is_digit (hd (nat_str ?n))" using nat_str_digits [of ?n] by (cases "nat_str ?n") auto
  then show "hd (int_str i @ r) = CHR ''-'' \<or> is_digit (hd (int_str i @ r))"
    by (cases "i < 0") (simp_all add: split)
qed

text \<open>A decimal that no exact integer below \<open>2 ^ 53\<close> equals, with its shortest digits.\<close>

definition true_decimal :: "nat \<Rightarrow> int \<Rightarrow> bool" where
  "true_decimal s n \<longleftrightarrow> s mod 10 \<noteq> 0 \<and>
     (let k = n - int (length (nat_str s)) in \<not> (0 \<le> k \<and> k < 16 \<and> s * 10 ^ nat k < 2 ^ 53))"

lemma strip_zeros_power: 
  "s mod 10 \<noteq> 0 \<Longrightarrow> j \<le> f \<Longrightarrow> strip_zeros f (s * 10 ^ j) e = (s, e + int j)"
proof (induction j arbitrary: f e)
  case 0
  then show ?case by (cases f) auto
next
  case (Suc j)
  then obtain g where f: "f = Suc g" by (cases f) auto
  from Suc have "strip_zeros g (s * 10 ^ j) (e + 1) = (s, e + 1 + int j)" by (simp add: f)
  moreover have "s \<noteq> 0" using Suc.prems by (cases s) auto
  ultimately show ?case by (simp add: f)
qed

lemma number_value_decimal:
  assumes "true_decimal s n" "0 \<le> j" "e = n - int (length (nat_str s)) - int j"
  shows "number_value neg (s * 10 ^ j) e = JDec neg s n"
proof -
  have s: "s mod 10 \<noteq> 0" using assms(1) by (simp add: true_decimal_def)
  then have "s * 10 ^ j \<noteq> 0" by (cases s) auto
  moreover have "j \<le> s * 10 ^ j"
  proof -
    have "j < 10 ^ j" by (induction j) auto
    also have "10 ^ j \<le> s * 10 ^ j" using s by (cases s) auto
    finally show ?thesis by simp
  qed
  ultimately show ?thesis
    using assms s strip_zeros_power [OF s]
    by (simp add: number_value_def true_decimal_def Let_def)
qed


lemma digit_zero: "is_digit CHR ''0''" "CHR ''0'' = digit_char 0"
  by code_simp+

lemma lex_fraction_dot:
  assumes "list_all is_digit fs" "fs \<noteq> []" "r = [] \<or> \<not> is_digit (hd r)"
  shows "lex_fraction (''.'' @ fs @ r) = Some (fs, r)"
proof -
  have "(of_char CHR ''.'' :: nat) = 46" by code_simp
  with assms span_digits_here [OF assms(1,3)] show ?thesis
    by (simp add: lex_fraction_def split: list.splits)
qed

lemma lex_exponent_here:
  assumes "delim r"
  shows "lex_exponent (''e'' @ (if neg then ''-'' else ''+'') @ nat_str m @ r)
    = Some (if neg then - int m else int m, r)"
proof -
  have c: "(of_char CHR ''e'' :: nat) = 101" "(of_char CHR ''-'' :: nat) = 45"
    "(of_char CHR ''+'' :: nat) = 43" by code_simp+
  have "span_digits (nat_str m @ r) = (nat_str m, r)"
    by (rule span_digits_here [OF nat_str_digits delim_no_digit [OF assms]])
  moreover obtain d ds where "nat_str m = d # ds" by (cases "nat_str m") auto
  moreover have "digits_value (d # ds) = m" using calculation(2) digits_value_nat_str [of m] by simp
  ultimately show ?thesis by (cases neg) (simp_all add: lex_exponent_def c)
qed

lemma exponent_no_fraction: "lex_fraction (''e'' @ t) = Some ([], ''e'' @ t)"
proof -
  have "(of_char CHR ''e'' :: nat) \<noteq> 46" by code_simp
  then show ?thesis by (simp add: lex_fraction_def)
qed

lemma not_digits [simp]: "\<not> is_digit CHR ''.''" "\<not> is_digit CHR ''e''"
  by code_simp+

lemma list_all_takes: "list_all P xs \<Longrightarrow> list_all P (take n xs) \<and> list_all P (drop n xs)"
  by (auto simp: list_all_iff dest: in_set_takeD in_set_dropD)

lemma digits_zeros [simp]: "list_all is_digit (replicate n CHR ''0'')"
  by (induction n) (simp_all add: digit_zero(1))

lemma lex_dec:
  assumes dec: "true_decimal s n" and r: "delim r"
  shows "lex_number (dec_str neg s n @ r) = Some (JDec neg s n, r)"
proof -
  let ?ds = "nat_str s" and ?k = "int (length (nat_str s))"
  have s0: "s \<noteq> 0" using dec by (cases s) (auto simp: true_decimal_def)
  note dig = nat_str_digits [of s] and tk = list_all_takes [OF nat_str_digits [of s]]
  have head: "hd ?ds \<noteq> CHR ''0''" by (rule nat_str_head [OF s0])
  have len: "0 < ?k" by simp
  note e = delim_ends [OF r] and nd = delim_no_digit [OF r]
  consider (big) "?k \<le> n" "n \<le> 21" | (mid) "\<not> (?k \<le> n \<and> n \<le> 21)" "0 < n" "n \<le> 21"
    | (small) "- 6 < n" "n \<le> 0" | (expo) "n > 21 \<or> n \<le> - 6" by linarith
  then show ?thesis
  proof cases
    case big
    let ?z = "replicate (nat (n - ?k)) CHR ''0''"
    have "dec_str neg s n @ r = (if neg then ''-'' else []) @ (?ds @ ?z) @ r"
      using big by (simp add: dec_str_def Let_def)
    moreover have "list_all is_digit (?ds @ ?z)" using dig by simp
    moreover have "number_value neg (s * 10 ^ nat (n - ?k)) 0 = JDec neg s n"
      using big by (intro number_value_decimal [OF dec]) auto
    ultimately show ?thesis
      using lex_number_parts [where ds = "?ds @ ?z" and t = r and fs = "[]" and u = r and e = 0 and r = r
          and neg = neg] head e nd
      by (simp add: digits_value_append)
  next
    case mid
    then have n: "0 < nat n" "nat n < length ?ds" by auto
    let ?a = "take (nat n) ?ds" and ?f = "drop (nat n) ?ds"
    have "dec_str neg s n @ r = (if neg then ''-'' else []) @ ?a @ (''.'' @ ?f @ r)"
      using mid by (simp add: dec_str_def Let_def)
    moreover have "number_value neg (digits_value (?a @ ?f)) (0 - int (length ?f)) = JDec neg s n"
      using number_value_decimal [OF dec, of 0 "0 - int (length ?f)" neg] n by simp
    moreover have "lex_fraction (''.'' @ ?f @ r) = Some (?f, r)"
      using n tk nd by (intro lex_fraction_dot) auto
    moreover have "?a \<noteq> []" "hd ?a \<noteq> CHR ''0''" using n head by (auto simp: hd_take)
    ultimately show ?thesis
      using lex_number_parts [where ds = ?a and t = "''.'' @ ?f @ r" and fs = ?f and u = r and e = 0 and r = r
          and neg = neg] tk e(2) by simp
  next
    case small
    let ?f = "replicate (nat (- n)) CHR ''0'' @ ?ds"
    have below: "\<not> ?k \<le> n" using small len by linarith
    have "dec_str neg s n @ r = (if neg then ''-'' else []) @ ''0'' @ (''.'' @ ?f @ r)"
      using small below by (simp add: dec_str_def Let_def)
    moreover have "list_all is_digit ?f" using dig by simp
    then have "lex_fraction (''.'' @ ?f @ r) = Some (?f, r)" using nd by (intro lex_fraction_dot) auto
    moreover have "digits_value (''0'' @ ?f) = s"
      using digits_value_append [of "''0''" ?f] digits_value_append [of "replicate (nat (- n)) CHR ''0''" ?ds]
        digits_value_zeros [of 1] by simp
    moreover have "number_value neg s (0 - int (length ?f)) = JDec neg s n"
      using number_value_decimal [OF dec, of 0 "0 - int (length ?f)" neg] small by simp
    ultimately show ?thesis
      using lex_number_parts [where ds = "''0''" and t = "''.'' @ ?f @ r" and fs = ?f and u = r and e = 0
          and r = r and neg = neg] digit_zero(1) e(2) by simp
  next
    case expo
    let ?a = "take 1 ?ds" and ?f = "drop 1 ?ds"
    let ?e = "''e'' @ (if n \<le> 0 then ''-'' else ''+'') @ nat_str (nat \<bar>n - 1\<bar>) @ r"
    obtain c cs where ds: "?ds = c # cs" by (cases ?ds) auto
    have ex: "lex_exponent ?e = Some (n - 1, r)"
      using lex_exponent_here [OF r, of "n \<le> 0" "nat \<bar>n - 1\<bar>"] by auto
    have dv: "digits_value (c # cs) = s" using digits_value_nat_str [of s] ds by simp
    have k1: "?k = 1 \<longleftrightarrow> ?f = []" using ds by auto
    have "dec_str neg s n @ r = (if neg then ''-'' else []) @ ?a @ (if ?f = [] then ?e else ''.'' @ ?f @ ?e)"
      using expo k1 ds by (auto simp: dec_str_def Let_def)
    moreover have "lex_fraction (if ?f = [] then ?e else ''.'' @ ?f @ ?e) = Some (?f, ?e)"
      using lex_fraction_dot [of ?f ?e] tk exponent_no_fraction by (cases "?f = []") simp_all
    moreover have "number_value neg (digits_value (?a @ ?f)) (n - 1 - int (length ?f)) = JDec neg s n"
      using number_value_decimal [OF dec, of 0 "n - 1 - int (length ?f)" neg] ds dv
      by simp
    moreover have "?a \<noteq> []" "list_all is_digit ?a" using ds dig by auto
    ultimately show ?thesis
      using lex_number_parts [where ds = ?a and t = "if ?f = [] then ?e else ''.'' @ ?f @ ?e" and fs = ?f
          and u = ?e and e = "n - 1" and r = r and neg = neg] ex ds by simp
  qed
qed


lemma dec_str_head: "dec_str neg s n \<noteq> [] \<and> (hd (dec_str neg s n) = CHR ''-'' \<or> is_digit (hd (dec_str neg s n)))"
proof -
  obtain c cs where "nat_str s = c # cs" "is_digit c" using nat_str_digits [of s] by (cases "nat_str s") auto
  then show ?thesis by (auto simp: dec_str_def Let_def take_Cons' digit_zero(1))
qed

lemma lexa_dec:
  "true_decimal s n \<Longrightarrow> delim r \<Longrightarrow>
   lexa (dec_str neg s n @ r) = map_option ((#) (TNum (JDec neg s n))) (lexa r)"
  using dec_str_head [of neg s n] by (intro next_token_number lex_dec) auto

section \<open>The tokens of a value\<close>

fun comma_tokens :: "token list list \<Rightarrow> token list" where
  "comma_tokens [] = []"
| "comma_tokens [t] = t"
| "comma_tokens (t # u # ts) = t @ TComma # comma_tokens (u # ts)"

fun tokens_of :: "json \<Rightarrow> token list" where
  "tokens_of JNull = [TNull]"
| "tokens_of (JBool b) = [if b then TTrue else TFalse]"
| "tokens_of (JNum i) = [TNum (JNum i)]"
| "tokens_of (JDec neg s n) = [TNum (JDec neg s n)]"
| "tokens_of (JStr s) = [TStr s]"
| "tokens_of (JArr xs) = TLBrack # comma_tokens (map tokens_of xs) @ [TRBrack]"
| "tokens_of (JObj ps) =
     TLBrace # comma_tokens (map (\<lambda>(k, v). TStr k # TColon # tokens_of v) ps) @ [TRBrace]"

text \<open>
  The values whose text determines them: integers a double holds exactly, decimals in shortest
  form, objects in own-property order without a repeated key.
\<close>

fun json_ok :: "json \<Rightarrow> bool" where
  "json_ok (JNum i) = (\<bar>i\<bar> < 2 ^ 53)"
| "json_ok (JDec neg s n) = true_decimal s n"
| "json_ok (JArr xs) = list_all json_ok xs"
| "json_ok (JObj ps) = (from_entries ps = ps \<and> list_all (\<lambda>(k, v). json_ok v) ps)"
| "json_ok v = True"

text \<open>\<open>JSON.stringify(v, null, 2)\<close>, the form of the memory file.\<close>

definition line_indent :: "nat \<Rightarrow> string" where
  "line_indent d = CHR 0x0A # replicate (2 * d) CHR '' ''"

fun pretty :: "nat \<Rightarrow> json \<Rightarrow> string" where
  "pretty d (JArr xs) =
     (if xs = [] then ''[]''
      else ''['' @ line_indent (Suc d) @ join_with ('','' @ line_indent (Suc d)) (map (pretty (Suc d)) xs)
             @ line_indent d @ '']'')"
| "pretty d (JObj ps) =
     (if ps = [] then [CHR 0x7B, CHR 0x7D]
      else CHR 0x7B # line_indent (Suc d)
             @ join_with ('','' @ line_indent (Suc d))
                 (map (\<lambda>(k, v). quote_string k @ '': '' @ pretty (Suc d) v) ps)
             @ line_indent d @ [CHR 0x7D])"
| "pretty d v = stringify v"

text \<open>Text \<open>s\<close> lexes to the tokens \<open>ts\<close> in front of anything that may follow a value.\<close>

definition lexes :: "string \<Rightarrow> token list \<Rightarrow> bool" where
  "lexes s ts \<longleftrightarrow> (\<forall>r. delim r \<longrightarrow> lexa (s @ r) = map_option ((@) ts) (lexa r))"

lemma lexes_D: "lexes s ts \<Longrightarrow> delim r \<Longrightarrow> lexa (s @ r) = map_option ((@) ts) (lexa r)"
  by (simp add: lexes_def)

lemma lexa_punct [simp]:
  "lexa (CHR '','' # r) = map_option ((#) TComma) (lexa r)"
  "lexa (CHR '':'' # r) = map_option ((#) TColon) (lexa r)"
  "lexa (CHR ''['' # r) = map_option ((#) TLBrack) (lexa r)"
  "lexa (CHR '']'' # r) = map_option ((#) TRBrack) (lexa r)"
  "lexa (CHR 0x7B # r) = map_option ((#) TLBrace) (lexa r)"
  "lexa (CHR 0x7D # r) = map_option ((#) TRBrace) (lexa r)"
  by (rule lexa_punctuation, code_simp)+

lemma lexa_blank [simp]: "lexa (CHR '' '' # r) = lexa r" "lexa (CHR 0x0A # r) = lexa r"
  by (rule lexa_space, code_simp)+

lemma lexa_indent [simp]: "lexa (line_indent d @ r) = lexa r"
proof -
  have "lexa (replicate n CHR '' '' @ r) = lexa r" for n by (induction n) simp_all
  then show ?thesis by (simp add: line_indent_def)
qed

lemma delim_indent [simp]: "delim (line_indent d @ r)"
  by (simp add: line_indent_def)

lemma lexa_keyword [simp]:
  "lexa (''true'' @ r) = map_option ((#) TTrue) (lexa r)"
  "lexa (''false'' @ r) = map_option ((#) TFalse) (lexa r)"
  "lexa (''null'' @ r) = map_option ((#) TNull) (lexa r)"
proof -
  have c: "punctuation CHR ''t'' = None" "punctuation CHR ''f'' = None" "punctuation CHR ''n'' = None"
    "\<not> is_digit CHR ''t''" "\<not> is_digit CHR ''f''" "\<not> is_digit CHR ''n''"
    "\<not> is_space CHR ''t''" "\<not> is_space CHR ''f''" "\<not> is_space CHR ''n''" by code_simp+
  show "lexa (''true'' @ r) = map_option ((#) TTrue) (lexa r)"
    by (rule lexa_token) (simp_all add: next_token_def keyword_def c)
  show "lexa (''false'' @ r) = map_option ((#) TFalse) (lexa r)"
    by (rule lexa_token) (simp_all add: next_token_def keyword_def c)
  show "lexa (''null'' @ r) = map_option ((#) TNull) (lexa r)"
    by (rule lexa_token) (simp_all add: next_token_def keyword_def c)
qed

lemma map_option_prefix [simp]:
  "map_option ((#) t) (map_option ((@) ts) x) = map_option ((@) (t # ts)) x"
  "map_option ((@) us) (map_option ((@) ts) x) = map_option ((@) (us @ ts)) x"
  "map_option ((@) us) (map_option ((#) t) x) = map_option ((@) (us @ [t])) x"
  "map_option ((#) u) (map_option ((#) t) x) = map_option ((@) [u, t]) x"
  "map_option ((@) []) x = x"
  by (cases x; simp)+

lemma lexes_join:
  assumes "\<And>x. x \<in> set xs \<Longrightarrow> lexes (f x) (T x)"
    and "\<And>r. delim (sep @ r)" "\<And>r. lexa (sep @ r) = map_option ((#) TComma) (lexa r)"
  shows "lexes (join_with sep (map f xs)) (comma_tokens (map T xs))"
  using assms(1)
proof (induction xs rule: induct_list012)
  case (3 x y zs)
  show ?case
    using 3(2) 3(3) [of x] 3(3)
    by (auto simp: lexes_def assms(2,3))
qed (auto simp: lexes_def)


lemma lexa_atom:
  assumes "json_ok v" "\<nexists>xs. v = JArr xs" "\<nexists>ps. v = JObj ps"
  shows "lexes (stringify v) (tokens_of v)"
proof -
  have one: "map_option ((#) t) x = map_option ((@) [t]) x" for t :: token and x by (cases x) simp_all
  show ?thesis
    using assms lexa_keyword [simplified]
    by (cases v) (auto simp: lexes_def lexa_int lexa_dec lexa_string one)
qed

lemma lexes_brackets:
  "lexes s ts \<Longrightarrow> lexes (CHR ''['' # s @ '']'') (TLBrack # ts @ [TRBrack])"
  "lexes s ts \<Longrightarrow> lexes (CHR 0x7B # s @ [CHR 0x7D]) (TLBrace # ts @ [TRBrace])"
  by (auto simp: lexes_def)

lemma lexes_indented:
  "lexes s ts \<Longrightarrow>
   lexes (CHR ''['' # line_indent a @ s @ line_indent b @ '']'') (TLBrack # ts @ [TRBrack])"
  "lexes s ts \<Longrightarrow>
   lexes (CHR 0x7B # line_indent a @ s @ line_indent b @ [CHR 0x7D]) (TLBrace # ts @ [TRBrace])"
  by (auto simp: lexes_def)

lemma lexes_member:
  "lexes s ts \<Longrightarrow> lexes (quote_string k @ '':'' @ s) (TStr k # TColon # ts)"
  "lexes s ts \<Longrightarrow> lexes (quote_string k @ '': '' @ s) (TStr k # TColon # ts)"
  by (auto simp: lexes_def lexa_string)

lemma lexes_stringify: "json_ok v \<Longrightarrow> lexes (stringify v) (tokens_of v)"
proof (induction v rule: stringify.induct)
  case (6 xs)
  then have "lexes (join_with '','' (map stringify xs)) (comma_tokens (map tokens_of xs))"
    by (intro lexes_join) (auto simp: list_all_iff)
  then show ?case by (simp add: lexes_brackets)
next
  case (7 ps)
  then have "lexes (join_with '','' (map (\<lambda>(k, v). quote_string k @ '':'' @ stringify v) ps))
      (comma_tokens (map (\<lambda>(k, v). TStr k # TColon # tokens_of v) ps))"
    by (intro lexes_join) (auto simp: list_all_iff intro!: lexes_member(1) [simplified])
  then show ?case by (simp add: lexes_brackets)
qed (simp_all only: lexa_atom json.distinct ex_simps not_ex simp_thms)

lemma lexes_pretty: "json_ok v \<Longrightarrow> lexes (pretty d v) (tokens_of v)"
proof (induction d v rule: pretty.induct)
  case (1 d xs)
  from 1(2) have "lexes (join_with ('','' @ line_indent (Suc d)) (map (pretty (Suc d)) xs))
      (comma_tokens (map tokens_of xs))"
    by (intro lexes_join 1(1)) (auto simp: list_all_iff)
  then show ?case by (cases "xs = []") (simp_all add: lexes_indented, simp add: lexes_def)
next
  case (2 d ps)
  from 2(2) have "lexes (join_with ('','' @ line_indent (Suc d)) (map (\<lambda>(k, v). quote_string k @ '': '' @ pretty (Suc d) v) ps))
      (comma_tokens (map (\<lambda>(k, v). TStr k # TColon # tokens_of v) ps))"
    by (intro lexes_join) (auto simp: list_all_iff intro!: lexes_member(2) [simplified] 2(1))
  then show ?case by (cases "ps = []") (simp_all add: lexes_indented, simp add: lexes_def)
qed (simp_all only: pretty.simps lexa_atom json.distinct ex_simps not_ex simp_thms)

section \<open>The value of a token list\<close>

definition starts_value :: "token list \<Rightarrow> bool" where
  "starts_value ts \<longleftrightarrow> (case ts of [] \<Rightarrow> False | t # _ \<Rightarrow> t \<noteq> TRBrack \<and> t \<noteq> TRBrace)"

lemma tokens_start [simp]: "starts_value (tokens_of v @ r)"
  by (cases v) (simp_all add: starts_value_def)

lemma tokens_pos [simp]: "0 < length (tokens_of v)"
  by (cases v) simp_all

lemma comma_start: "xs \<noteq> [] \<Longrightarrow> starts_value (comma_tokens (map tokens_of xs) @ r)"
  by (cases "(xs, tl xs)" rule: prod.exhaust; cases xs; cases "tl xs") simp_all

lemma parse_value_array:
  "starts_value ts \<Longrightarrow> parse_value (Suc n) (TLBrack # ts) = map_option (\<lambda>(vs, r). (JArr vs, r)) (parse_elems n ts)"
  by (cases ts) (auto simp: starts_value_def split: token.splits)

lemma parse_value_object:
  "starts_value ts \<Longrightarrow> parse_value (Suc n) (TLBrace # ts)
     = map_option (\<lambda>(ps, r). (JObj (from_entries ps), r)) (parse_members n ts)"
  by (cases ts) (auto simp: starts_value_def split: token.splits)

lemma parse_elems_tokens:
  assumes "\<And>x n r. x \<in> set xs \<Longrightarrow> 2 * length (tokens_of x) \<le> n \<Longrightarrow> parse_value n (tokens_of x @ r) = Some (x, r)"
    and "xs \<noteq> []" "2 * length (comma_tokens (map tokens_of xs)) < n"
  shows "parse_elems n (comma_tokens (map tokens_of xs) @ TRBrack # r) = Some (xs, r)"
  using assms
proof (induction xs arbitrary: n rule: induct_list012)
  case (2 x)
  then show ?case by (cases n) auto
next
  case (3 x y zs)
  then obtain m where n: "n = Suc m" by (cases n) auto
  have "parse_value m (tokens_of x @ TComma # comma_tokens (map tokens_of (y # zs)) @ TRBrack # r)
      = Some (x, TComma # comma_tokens (map tokens_of (y # zs)) @ TRBrack # r)"
    using 3(3) [of x] 3(5) n by simp
  moreover have "parse_elems m (comma_tokens (map tokens_of (y # zs)) @ TRBrack # r) = Some (y # zs, r)"
    using 3(3,5) n by (intro 3(2)) auto
  ultimately show ?case by (simp add: n)
qed simp

lemma parse_members_tokens:
  assumes "\<And>k x n r. (k, x) \<in> set ps \<Longrightarrow> 2 * length (tokens_of x) \<le> n \<Longrightarrow> parse_value n (tokens_of x @ r) = Some (x, r)"
    and "ps \<noteq> []" "2 * length (comma_tokens (map (\<lambda>(k, v). TStr k # TColon # tokens_of v) ps)) < n"
  shows "parse_members n (comma_tokens (map (\<lambda>(k, v). TStr k # TColon # tokens_of v) ps) @ TRBrace # r) = Some (ps, r)"
  using assms
proof (induction ps arbitrary: n rule: induct_list012)
  case (2 p)
  then show ?case by (cases n; cases p) auto
next
  case (3 p q zs)
  obtain k x where p: "p = (k, x)" by fastforce
  let ?T = "\<lambda>ps. comma_tokens (map (\<lambda>(k, v). TStr k # TColon # tokens_of v) ps)"
  from 3 obtain m where n: "n = Suc m" by (cases n) auto
  have "parse_value m (tokens_of x @ TComma # ?T (q # zs) @ TRBrace # r)
      = Some (x, TComma # ?T (q # zs) @ TRBrace # r)"
    using 3(3) [of k x] 3(5) n p by simp
  moreover have "parse_members m (?T (q # zs) @ TRBrace # r) = Some (q # zs, r)"
    using 3(3,5) n p by (intro 3(2)) auto
  ultimately show ?case by (simp add: n p)
qed simp

lemma parse_tokens:
  "json_ok v \<Longrightarrow> 2 * length (tokens_of v) \<le> n \<Longrightarrow> parse_value n (tokens_of v @ r) = Some (v, r)"
proof (induction v arbitrary: n r rule: tokens_of.induct)
  case (6 xs)
  then obtain m where n: "n = Suc m" by (cases n) auto
  show ?case
  proof (cases "xs = []")
    case False
    then have "parse_elems m (comma_tokens (map tokens_of xs) @ TRBrack # r) = Some (xs, r)"
      using 6 n by (intro parse_elems_tokens) (auto simp: list_all_iff)
    then show ?thesis using n False by (simp add: parse_value_array comma_start del: parse_value.simps)
  qed (simp add: n)
next
  case (7 ps)
  let ?T = "comma_tokens (map (\<lambda>(k, v). TStr k # TColon # tokens_of v) ps)"
  from 7 obtain m where n: "n = Suc m" by (cases n) auto
  show ?case
  proof (cases ps)
    case (Cons p qs)
    have "parse_value n' (tokens_of x @ r') = Some (x, r')"
      if "(k, x) \<in> set ps" "2 * length (tokens_of x) \<le> n'" for k x n' r'
      using 7(1) [of "(k, x)" k x n' r'] 7(2) that by (auto simp: list_all_iff)
    then have "parse_members m (?T @ TRBrace # r) = Some (ps, r)"
      using 7(3) n Cons by (intro parse_members_tokens) auto
    moreover have "starts_value (?T @ TRBrace # r)"
      using Cons by (cases qs; cases p) (auto simp: starts_value_def)
    ultimately show ?thesis using 7 n by (simp add: parse_value_object del: parse_value.simps)
  qed (simp add: n)
qed (auto simp: numeral_2_eq_2 dest!: Suc_le_D)

lemma json_parse_of_lexes:
  assumes "lexes s (tokens_of v)" "json_ok v"
  shows "json_parse s = Some v"
proof -
  have "lex (length s) s = Some (tokens_of v)" using lexes_D [OF assms(1), of "[]"] by (simp add: lexa_def)
  with parse_tokens [OF assms(2), of _ "[]"] show ?thesis by (simp add: json_parse_def)
qed


section \<open>What the parser yields is exact\<close>

text \<open>Own-property order: the index keys ascending, then the others; each key once.\<close>

definition key_before :: "string \<Rightarrow> string \<Rightarrow> bool" where
  "key_before a b \<longleftrightarrow> a \<noteq> b \<and> (is_index b \<longrightarrow> is_index a \<and> digits_value a < digits_value b)"

definition key_ordered :: "jobject \<Rightarrow> bool" where
  "key_ordered ps \<longleftrightarrow> sorted_wrt key_before (map_keys ps)"

lemma key_ordered_simps [simp]:
  "key_ordered []"
  "key_ordered ((k, v) # ps) \<longleftrightarrow> (\<forall>k' \<in> set (map_keys ps). key_before k k') \<and> key_ordered ps"
  by (simp_all add: key_ordered_def)

lemma key_ordered_snoc:
  "key_ordered (ps @ [(k, v)]) \<longleftrightarrow> key_ordered ps \<and> k \<notin> set (map_keys ps) \<and>
     (is_index k \<longrightarrow> list_all (\<lambda>k'. is_index k' \<and> digits_value k' < digits_value k) (map_keys ps))"
  by (auto simp: key_ordered_def sorted_wrt_append key_before_def list_all_iff)

lemma insert_index_end:
  "list_all (\<lambda>k'. is_index k' \<and> digits_value k' < digits_value k) (map_keys ps) \<Longrightarrow>
   insert_index k v ps = ps @ [(k, v)]"
  by (induction ps) auto

lemma key_ordered_from_entries: "key_ordered ps \<Longrightarrow> from_entries ps = ps"
proof (induction ps rule: rev_induct)
  case (snoc p ps)
  obtain k v where p: "p = (k, v)" by fastforce
  have "from_entries (ps @ [p]) = obj_define k v ps"
    using snoc by (simp add: from_entries_def p key_ordered_snoc)
  also have "\<dots> = ps @ [(k, v)]"
    using snoc.prems by (auto simp: obj_define_def p key_ordered_snoc insert_index_end)
  finally show ?case by (simp add: p)
qed (simp add: from_entries_def)

lemma key_ordered_update_known:
  "k \<in> set (map_keys ps) \<Longrightarrow> key_ordered ps \<Longrightarrow> key_ordered (AList.update k v ps)"
  by (simp add: key_ordered_def update_keys)

lemma digits_value_inj:
  "is_index k \<Longrightarrow> is_index k' \<Longrightarrow> digits_value k = digits_value k' \<Longrightarrow> k = k'"
proof -
  have *: "nat_str (digits_value ds) = ds"
    if "list_all is_digit ds" "ds \<noteq> []" "hd ds = CHR ''0'' \<longrightarrow> ds = ''0''" for ds
    using that
  proof (induction ds rule: rev_induct)
    case (snoc d ds)
    from snoc.prems obtain n where d: "d = digit_char n" "n < 10"
      using that [of "(of_char d :: nat) - 48"] by (force simp: is_digit_def digit_char_def)
    show ?case
    proof (cases "ds = []")
      case True
      with d show ?thesis by (subst nat_str.simps) simp
    next
      case False
      then have hd: "hd ds \<noteq> CHR ''0''" using snoc.prems by (cases ds) auto
      with snoc False have ns: "nat_str (digits_value ds) = ds" by auto
      have "digits_value ds \<noteq> 0"
      proof
        assume "digits_value ds = 0"
        then have "nat_str (digits_value ds) = ''0''" by simp
        from trans [OF ns [symmetric] this] hd show False by simp
      qed
      with d ns show ?thesis by (subst nat_str.simps) (simp add: digits_value_append)
    qed
  qed simp
  assume k: "is_index k" and k': "is_index k'" and same: "digits_value k = digits_value k'"
  have "k = nat_str (digits_value k)" using * [of k] k by (simp add: is_index_def)
  also have "\<dots> = nat_str (digits_value k')" by (simp only: same)
  also have "\<dots> = k'" using * [of k'] k' by (simp add: is_index_def)
  finally show "k = k'" .
qed

lemma key_ordered_insert_index:
  "key_ordered ps \<Longrightarrow> k \<notin> set (map_keys ps) \<Longrightarrow> is_index k \<Longrightarrow> key_ordered (insert_index k v ps)"
proof (induction ps)
  case (Cons p ps)
  obtain k' v' where p: "p = (k', v')" by fastforce
  show ?case
  proof (cases "is_index k' \<and> digits_value k' < digits_value k")
    case True
    then have "key_before k' k" by (auto simp: key_before_def)
    with True Cons p show ?thesis
      by (simp add: keys_insert_index del: set_map list.set_map)
  next
    case False
    have first: "key_before k k'" using False Cons.prems digits_value_inj [of k k'] p
      by (fastforce simp: key_before_def)
    have "key_before k k''" if "k'' \<in> set (map_keys ps)" for k''
      using that first Cons.prems p by (fastforce simp: key_before_def)
    then have "\<forall>x \<in> set ps. key_before k (fst x)" by simp
    with first Cons.prems p show ?thesis by (simp only: False insert_index.simps if_False) simp
  qed
qed simp

lemma key_ordered_define: "key_ordered ps \<Longrightarrow> key_ordered (obj_define k v ps)"
  by (auto simp: obj_define_def key_ordered_update_known key_ordered_insert_index key_ordered_snoc)

lemma key_ordered_assign: "key_ordered ps \<Longrightarrow> key_ordered (obj_assign k v ps)"
  by (simp add: obj_assign_def key_ordered_define)

lemma key_ordered_entries [simp]: "key_ordered (from_entries kvs)"
proof -
  have "key_ordered ps \<Longrightarrow> key_ordered (fold (\<lambda>(k, v). obj_define k v) kvs ps)" for ps
    by (induction kvs arbitrary: ps) (auto simp: key_ordered_define)
  then show ?thesis by (simp add: from_entries_def)
qed

lemma key_ordered_delete: "key_ordered ps \<Longrightarrow> key_ordered (AList.delete k ps)"
  by (simp add: key_ordered_def delete_keys removeAll_filter_not_eq sorted_wrt_filter)


lemma strip_zeros_done: "d \<noteq> 0 \<Longrightarrow> d \<le> f \<Longrightarrow> strip_zeros f d e = (m, k) \<Longrightarrow> m mod 10 \<noteq> 0"
proof (induction f arbitrary: d e)
  case (Suc f)
  show ?case
  proof (cases "d mod 10 = 0")
    case True
    with Suc.prems(1) have "d div 10 \<noteq> 0" "d div 10 < d" by auto
    with Suc True show ?thesis by (intro Suc.IH [of "d div 10" "e + 1"]) auto
  qed (use Suc.prems in auto)
qed simp

lemma number_value_ok: "json_ok (number_value neg d e)"
proof (cases "d = 0")
  case False
  obtain m k where mk: "strip_zeros d d e = (m, k)" by fastforce
  have "m mod 10 \<noteq> 0" using strip_zeros_done [OF False order_refl mk] .
  moreover have "int x < 2 ^ 53" if "x < 2 ^ 53" for x :: nat using that by simp
  from this [of "m * 10 ^ nat k"]
  have "m * 10 ^ nat k < 2 ^ 53 \<Longrightarrow> int m * 10 ^ nat k < 2 ^ 53" by simp
  ultimately show ?thesis using False mk by (auto simp: number_value_def true_decimal_def Let_def)
qed (simp add: number_value_def)

definition tokens_ok :: "token list \<Rightarrow> bool" where
  "tokens_ok ts \<longleftrightarrow> (\<forall>v. TNum v \<in> set ts \<longrightarrow> json_ok v)"

lemma tokens_ok_Cons [simp]: "tokens_ok (t # ts) \<longleftrightarrow> (\<forall>v. t = TNum v \<longrightarrow> json_ok v) \<and> tokens_ok ts"
  by (auto simp: tokens_ok_def)

lemma next_token_ok: "next_token s = Some (TNum v, r) \<Longrightarrow> json_ok v"
  by (auto simp: next_token_def lex_number_def keyword_def punctuation_def Let_def number_value_ok
      split: list.splits option.splits if_splits prod.splits)

lemma lex_ok: "lex n s = Some ts \<Longrightarrow> tokens_ok ts"
proof (induction n s arbitrary: ts rule: lex.induct)
  case (2 n s)
  then show ?case
    by (auto simp: tokens_ok_def dest: next_token_ok split: list.splits if_splits option.splits)
qed (simp add: tokens_ok_def split: if_splits)

lemma set_obj_define: "set (obj_define k v qs) \<subseteq> insert (k, v) (set qs)"
proof -
  have "set (insert_index k v qs) \<subseteq> insert (k, v) (set qs)"
    by (induction k v qs rule: insert_index.induct) auto
  moreover have "set (AList.update k v qs) \<subseteq> insert (k, v) (set qs)" by (induction qs) auto
  ultimately show ?thesis by (auto simp: obj_define_def)
qed

lemma set_obj_assign: "set (obj_assign k v qs) \<subseteq> insert (k, v) (set qs)"
  using set_obj_define [of k v qs] by (auto simp: obj_assign_def)

lemma entries_ok: "list_all (\<lambda>(k, v). json_ok v) ps \<Longrightarrow> json_ok (JObj (from_entries ps))"
proof -
  have "set (fold (\<lambda>(k, v). obj_define k v) ps qs) \<subseteq> set ps \<union> set qs" for qs
  proof (induction ps arbitrary: qs)
    case (Cons p ps)
    obtain k v where p: "p = (k, v)" by fastforce
    show ?case using Cons [of "obj_define k v qs"] set_obj_define [of k v qs] by (auto simp: p)
  qed simp
  from this [of "[]"] have "set (from_entries ps) \<subseteq> set ps" by (simp add: from_entries_def)
  moreover assume "list_all (\<lambda>(k, v). json_ok v) ps"
  ultimately show ?thesis by (auto simp: list_all_iff key_ordered_from_entries)
qed

lemma parse_ok:
  "(\<forall>ts v r. parse_value n ts = Some (v, r) \<and> tokens_ok ts \<longrightarrow> json_ok v \<and> tokens_ok r) \<and>
   (\<forall>ts vs r. parse_elems n ts = Some (vs, r) \<and> tokens_ok ts \<longrightarrow> list_all json_ok vs \<and> tokens_ok r) \<and>
   (\<forall>ts ps r. parse_members n ts = Some (ps, r) \<and> tokens_ok ts \<longrightarrow>
      list_all (\<lambda>(k, v). json_ok v) ps \<and> tokens_ok r)"
proof (induction n)
  case (Suc n)
  have v: "json_ok v \<and> tokens_ok r" if "parse_value n ts = Some (v, r)" "tokens_ok ts" for ts v r
    using Suc that by blast
  have e: "list_all json_ok vs \<and> tokens_ok r" if "parse_elems n ts = Some (vs, r)" "tokens_ok ts" for ts vs r
    using Suc that by blast
  have m: "list_all (\<lambda>(k, v). json_ok v) ps \<and> tokens_ok r"
    if "parse_members n ts = Some (ps, r)" "tokens_ok ts" for ts ps r
    using Suc that by blast
  show ?case
  proof (intro conjI [of _ "_ \<and> _"] conjI [of "\<forall>ts vs r. _ ts vs r"] allI impI; elim conjE)
    fix ts v' r
    assume p: "parse_value (Suc n) ts = Some (v', r)" "tokens_ok ts"
    then obtain t us where ts: "ts = t # us" by (cases ts) auto
    show "json_ok v' \<and> tokens_ok r"
    proof (cases t)
      case TLBrack
      show ?thesis
      proof (cases "us \<noteq> [] \<and> hd us = TRBrack")
        case True
        with p ts TLBrack show ?thesis by (cases us) auto
      next
        case False
        then have "parse_value (Suc n) ts = map_option (\<lambda>(vs, r). (JArr vs, r)) (parse_elems n us)"
          using ts TLBrack by (cases us) (auto split: token.splits)
        with p ts e [of us] show ?thesis by (cases "parse_elems n us") (auto simp del: parse_value.simps)
      qed
    next
      case TLBrace
      show ?thesis
      proof (cases "us \<noteq> [] \<and> hd us = TRBrace")
        case True
        with p ts TLBrace show ?thesis by (cases us) (auto simp: from_entries_def)
      next
        case False
        then have "parse_value (Suc n) ts = map_option (\<lambda>(ps, r). (JObj (from_entries ps), r)) (parse_members n us)"
          using ts TLBrace by (cases us) (auto split: token.splits)
        with p ts m [of us] show ?thesis
          by (cases "parse_members n us") (auto simp: entries_ok simp del: json_ok.simps(4) parse_value.simps)
      qed
    qed (use p ts in auto)
  next
    fix ts vs r
    assume p: "parse_elems (Suc n) ts = Some (vs, r)" "tokens_ok ts"
    then obtain x us where "parse_value n ts = Some (x, us)" by (auto split: option.splits)
    with p v [of ts x us] show "list_all json_ok vs \<and> tokens_ok r"
      by (auto split: list.splits token.splits dest!: e)
  next
    fix ts ps r
    assume p: "parse_members (Suc n) ts = Some (ps, r)" "tokens_ok ts"
    then obtain k us where ts: "ts = TStr k # TColon # us" by (auto split: list.splits token.splits)
    with p obtain x ws where "parse_value n us = Some (x, ws)" by (auto split: option.splits)
    with p ts v [of us x ws] show "list_all (\<lambda>(k, v). json_ok v) ps \<and> tokens_ok r"
      by (auto split: list.splits token.splits dest!: m)
  qed
qed simp

lemma json_parse_ok: "json_parse s = Some v \<Longrightarrow> json_ok v"
proof -
  assume "json_parse s = Some v"
  then obtain ts where "lex (length s) s = Some ts" "parse_value (2 * length ts) ts = Some (v, [])"
    by (auto simp: json_parse_def split: option.splits list.splits)
  with parse_ok [of "2 * length ts"] lex_ok show "json_ok v" by blast
qed

text \<open>Objects built by assignment from parsed values are exact.\<close>

lemma json_ok_object: "json_ok (JObj ps) \<longleftrightarrow> key_ordered ps \<and> list_all (\<lambda>(k, v). json_ok v) ps"
proof -
  have "from_entries ps = ps \<longleftrightarrow> key_ordered ps"
    using key_ordered_entries [of ps] key_ordered_from_entries [of ps] by metis
  then show ?thesis by simp
qed

lemma json_ok_assign: "json_ok (JObj ps) \<Longrightarrow> json_ok v \<Longrightarrow> json_ok (JObj (obj_assign k v ps))"
  using set_obj_assign [of k v ps]
  by (auto simp: json_ok_object key_ordered_assign list_all_iff simp del: json_ok.simps(4))

lemma set_delete_subset: "set (AList.delete k ps) \<subseteq> set ps"
  by (induction ps) auto

lemma json_ok_delete: "json_ok (JObj ps) \<Longrightarrow> json_ok (JObj (AList.delete k ps))"
  using set_delete_subset [of k ps]
  by (auto simp: json_ok_object key_ordered_delete list_all_iff simp del: json_ok.simps(4))

lemma json_roundtrip: "json_ok v \<Longrightarrow> json_parse (stringify v) = Some v"
  by (rule json_parse_of_lexes [OF lexes_stringify])

lemma json_pretty_roundtrip: "json_ok v \<Longrightarrow> json_parse (pretty 0 v) = Some v"
  by (rule json_parse_of_lexes [OF lexes_pretty])

end
