(* ===== verification/VoidTransport.thy ===== *)
theory VoidTransport
  imports VoidBus VoidParse
begin

text \<open>
  kernel/src/transport/socket.ts and kernel/src/cli.ts: the newline-delimited JSON-RPC of the
  syscall gate, from the chunks of the socket to the reply line, and the client that talks to
  it. A chunk is the result of its \<open>toString("utf8")\<close>, so a multi-byte character is taken not to
  be cut by a chunk boundary (socket.ts:19 decodes each chunk on its own). The exceptions of
  \<open>JSON.parse\<close> and of reading a field of null carry the engine's message, the argument
  \<open>engine_message\<close> of the definitions below. A handler runs to its end before the next line is
  handled; how the replies of handlers that wait are interleaved is not modelled.
\<close>

section \<open>Framing\<close>

abbreviation lf :: char where
  "lf \<equiv> CHR 0x0A"

text \<open>The \<open>while\<close> loop of the data callback: the complete lines of \<open>buf\<close> and what is left.\<close>

function drain_lines :: "string \<Rightarrow> string list \<times> string" where
  "drain_lines buf =
     (if lf \<in> set buf
      then (case drain_lines (tl (dropWhile (\<lambda>c. c \<noteq> lf) buf)) of
              (ls, rest) \<Rightarrow> (takeWhile (\<lambda>c. c \<noteq> lf) buf # ls, rest))
      else ([], buf))"
  by auto
termination
proof (relation "measure length")
  fix buf :: string
  assume "lf \<in> set buf"
  then have "0 < length buf" by (cases buf) auto
  with length_dropWhile_le [of "\<lambda>c. c \<noteq> lf" buf]
  have "length (dropWhile (\<lambda>c. c \<noteq> lf) buf) - 1 < length buf" by linarith
  then show "(tl (dropWhile (\<lambda>c. c \<noteq> lf) buf), buf) \<in> measure length" by simp
qed simp

declare drain_lines.simps [simp del]

text \<open>\<open>line.trim()\<close> is empty: only white space.\<close>

definition blank :: "string \<Rightarrow> bool" where
  "blank s \<longleftrightarrow> list_all (\<lambda>c. (of_char c :: nat) \<in> {9, 10, 11, 12, 13, 32, 160}) s"

text \<open>The data callbacks of one connection, chunk by chunk: the lines handled, the buffer left.\<close>

fun receive :: "string list \<Rightarrow> string \<Rightarrow> string list \<times> string" where
  "receive [] buf = ([], buf)"
| "receive (chunk # chunks) buf =
     (case drain_lines (buf @ chunk) of
        (ls, rest) \<Rightarrow>
          (case receive chunks rest of (ls', rest') \<Rightarrow> (filter (\<lambda>l. \<not> blank l) ls @ ls', rest')))"

section \<open>One request\<close>

definition field :: "json \<Rightarrow> string \<Rightarrow> json option" where
  "field v k = (case v of JObj ps \<Rightarrow> map_of ps k | _ \<Rightarrow> None)"

text \<open>\<open>v.k ?? null\<close>.\<close>

definition field_or_null :: "json \<Rightarrow> string \<Rightarrow> json" where
  "field_or_null v k = (case field v k of None \<Rightarrow> JNull | Some x \<Rightarrow> x)"

fun truthy :: "json \<Rightarrow> bool" where
  "truthy JNull = False"
| "truthy (JBool b) = b"
| "truthy (JNum i) = (i \<noteq> 0)"
| "truthy (JDec neg s n) = (s \<noteq> 0)"
| "truthy (JStr s) = (s \<noteq> [])"
| "truthy (JArr xs) = True"
| "truthy (JObj ps) = True"

text \<open>
  \<open>String(v)\<close>: the elements of an array joined, null ones empty; an object with an own \<open>toString\<close>
  cannot be converted (a \<open>TypeError\<close>, None), as what JSON holds is never callable.
\<close>

fun js_string :: "json \<Rightarrow> string option" where
  "js_string JNull = Some ''null''"
| "js_string (JBool b) = Some (if b then ''true'' else ''false'')"
| "js_string (JNum i) = Some (int_str i)"
| "js_string (JDec neg s n) = Some (dec_str neg s n)"
| "js_string (JStr s) = Some s"
| "js_string (JArr xs) =
     map_option (join_with '','')
       (those (map (\<lambda>x. if x = JNull then Some [] else js_string x) xs))"
| "js_string (JObj ps) =
     (if map_of ps ''toString'' = None then Some ''[object Object]'' else None)"

text \<open>The own enumerable properties of \<open>params\<close>, whatever JSON value it is.\<close>

definition own_props :: "json \<Rightarrow> jobject" where
  "own_props v =
     (case v of
        JObj ps \<Rightarrow> ps
      | JArr xs \<Rightarrow> map (\<lambda>(i, x). (nat_str i, x)) (List.enumerate 0 xs)
      | JStr s \<Rightarrow> map (\<lambda>(i, c). (nat_str i, JStr [c])) (List.enumerate 0 s)
      | _ \<Rightarrow> [])"

definition request_params :: "json \<Rightarrow> jobject" where
  "request_params req = own_props (case field_or_null req ''params'' of JNull \<Rightarrow> JObj [] | p \<Rightarrow> p)"

definition error_reply :: "json \<Rightarrow> string \<Rightarrow> string \<Rightarrow> json" where
  "error_reply rid code msg =
     JObj [(''id'', rid), (''ok'', JBool False),
           (''error'', JObj [(''code'', JStr code), (''message'', JStr msg)])]"

definition result_reply :: "json \<Rightarrow> dispatch_result \<Rightarrow> json" where
  "result_reply rid res =
     (case res of
        Inl e \<Rightarrow> error_reply rid (err_code e) (err_message e)
      | Inr v \<Rightarrow> JObj [(''id'', rid), (''ok'', JBool True), (''result'', v)])"

text \<open>
  \<open>bus.dispatch\<close> with a truthy value that is not a string: no capability has such a name, the
  refusal is audited (the entry shows the value itself) and its message converts it.
\<close>

definition dispatch_value ::
  "(string \<Rightarrow> string) \<Rightarrow> clock \<Rightarrow> 'z handler registry \<Rightarrow> string \<Rightarrow> json \<Rightarrow> json \<Rightarrow> jobject \<Rightarrow> 'z gate_scheme
     \<Rightarrow> json \<times> 'z gate_scheme" where
  "dispatch_value engine_message clk reg line rid m params s =
     (case m of
        JStr name \<Rightarrow> (case dispatch clk reg name params s of (res, s') \<Rightarrow> (result_reply rid res, s'))
      | _ \<Rightarrow>
          ((case js_string m of
              Some t \<Rightarrow> error_reply rid ''ENOSYS'' (''unknown capability: '' @ t)
            | None \<Rightarrow> error_reply rid ''EPARSE'' (engine_message line)),
           audit_append (denied_entry (at_entry clk) (stringify m) None ''ENOSYS'' None) s))"

definition handle_line ::
  "(string \<Rightarrow> string) \<Rightarrow> clock \<Rightarrow> 'z handler registry \<Rightarrow> string \<Rightarrow> 'z gate_scheme
     \<Rightarrow> json \<times> 'z gate_scheme" where
  "handle_line engine_message clk reg line s =
     (case json_parse line of
        None \<Rightarrow> (error_reply JNull ''EPARSE'' (engine_message line), s)
      | Some JNull \<Rightarrow> (error_reply JNull ''EPARSE'' (engine_message line), s)
      | Some req \<Rightarrow>
          (let rid = field_or_null req ''id''; m = field_or_null req ''method''
           in if \<not> truthy m then (error_reply rid ''EINVAL'' ''missing method'', s)
              else dispatch_value engine_message clk reg line rid m (request_params req) s))"

definition wire_line :: "json \<Rightarrow> string" where
  "wire_line v = stringify v @ [lf]"

text \<open>A connection: every line in, one line out, in order.\<close>

fun handle_lines ::
  "(string \<Rightarrow> string) \<Rightarrow> 'z handler registry \<Rightarrow> (clock \<times> string) list \<Rightarrow> 'z gate_scheme
     \<Rightarrow> string \<times> 'z gate_scheme" where
  "handle_lines engine_message reg [] s = ([], s)"
| "handle_lines engine_message reg ((clk, line) # ls) s =
     (case handle_line engine_message clk reg line s of
        (rep, s') \<Rightarrow>
          (case handle_lines engine_message reg ls s' of (out, s'') \<Rightarrow> (wire_line rep @ out, s'')))"

section \<open>The client\<close>

text \<open>One \<open>key=value\<close> argument of cli.ts; arguments without \<open>=\<close> are skipped.\<close>

definition cli_arg :: "string \<Rightarrow> jobject \<Rightarrow> jobject" where
  "cli_arg arg params =
     (if CHR ''='' \<notin> set arg then params
      else let key = takeWhile (\<lambda>c. c \<noteq> CHR ''='') arg;
               raw = tl (dropWhile (\<lambda>c. c \<noteq> CHR ''='') arg)
           in obj_assign key (case json_parse raw of Some v \<Rightarrow> v | None \<Rightarrow> JStr raw) params)"

definition cli_params :: "string list \<Rightarrow> jobject" where
  "cli_params rest = fold cli_arg rest []"

definition cli_request :: "string \<Rightarrow> string list \<Rightarrow> json" where
  "cli_request m rest =
     JObj [(''id'', JNum 1), (''method'', JStr m), (''params'', JObj (cli_params rest))]"

datatype cli_step = Waiting string | Printed string nat | Crashed

text \<open>One data callback of the client: wait for a line, print the reply, exit with its verdict.\<close>

definition cli_on_data :: "string \<Rightarrow> string \<Rightarrow> cli_step" where
  "cli_on_data buf chunk =
     (let all = buf @ chunk
      in if lf \<notin> set all then Waiting all
         else case json_parse (takeWhile (\<lambda>c. c \<noteq> lf) all) of
                None \<Rightarrow> Crashed
              | Some JNull \<Rightarrow> Crashed
              | Some resp \<Rightarrow>
                  Printed (pretty 0 resp @ [lf])
                    (if truthy (field_or_null resp ''ok'') then 0 else 1))"


section \<open>The framing does not see the chunks\<close>

text \<open>The reference: the text cut at its line feeds; the last piece is not yet a line.\<close>

fun split_lf :: "string \<Rightarrow> string list" where
  "split_lf [] = [[]]"
| "split_lf (c # cs) =
     (if c = lf then [] # split_lf cs
      else case split_lf cs of [] \<Rightarrow> [[c]] | l # ls \<Rightarrow> (c # l) # ls)"

lemma split_lf_nonempty [simp]: "split_lf s \<noteq> []"
  by (cases s) (auto split: list.splits)

lemma split_lf_no_lf: "lf \<notin> set s \<Longrightarrow> split_lf s = [s]"
  by (induction s) auto

lemma split_lf_append: "split_lf (s @ lf # t) = split_lf s @ split_lf t"
  by (induction s) (auto split: list.splits)

lemma lf_decomp: "lf \<in> set buf \<Longrightarrow>
    buf = takeWhile (\<lambda>c. c \<noteq> lf) buf @ lf # tl (dropWhile (\<lambda>c. c \<noteq> lf) buf)"
  by (induction buf) auto

lemma drain_lines_split: "drain_lines buf = (butlast (split_lf buf), last (split_lf buf))"
proof (induction buf rule: drain_lines.induct)
  case (1 buf)
  show ?case
  proof (cases "lf \<in> set buf")
    case True
    let ?a = "takeWhile (\<lambda>c. c \<noteq> lf) buf" and ?b = "tl (dropWhile (\<lambda>c. c \<noteq> lf) buf)"
    have "lf \<notin> set ?a" by (auto dest: set_takeWhileD)
    then have "split_lf buf = ?a # split_lf ?b"
      using split_lf_append [of ?a ?b] lf_decomp [OF True] split_lf_no_lf by simp
    with 1 [OF True] True show ?thesis by (subst drain_lines.simps) simp
  next
    case False
    then show ?thesis by (subst drain_lines.simps) (simp add: split_lf_no_lf)
  qed
qed

lemma split_lf_last: "split_lf (s @ t) = butlast (split_lf s) @ split_lf (last (split_lf s) @ t)"
proof (induction s)
  case (Cons c s)
  show ?case
  proof (cases "c = lf")
    case False
    obtain l ls where l: "split_lf s = l # ls" by (cases "split_lf s") auto
    show ?thesis
    proof (cases ls)
      case Nil
      with False Cons l show ?thesis by simp
    next
      case (Cons m ms)
      with False \<open>split_lf (s @ t) = _\<close> l show ?thesis by simp
    qed
  qed (use Cons in simp)
qed simp

lemma receive_split:
  "receive chunks buf =
     (filter (\<lambda>l. \<not> blank l) (butlast (split_lf (buf @ concat chunks))), last (split_lf (buf @ concat chunks)))"
  if "lf \<notin> set buf"
  using that
proof (induction chunks arbitrary: buf)
  case Nil
  then show ?case by (simp add: split_lf_no_lf)
next
  case (Cons c cs)
  let ?s = "split_lf (buf @ c)"
  have "lf \<notin> set (last (split_lf s))" for s
    by (induction s) (auto split: list.splits if_splits)
  from Cons.IH [OF this [of "buf @ c"]] show ?case
    using split_lf_last [of "buf @ c" "concat cs"] by (simp add: drain_lines_split butlast_append)
qed


lemma split_lf_wire: "split_lf (concat (map wire_line vs)) = map stringify vs @ [[]]"
proof (induction vs)
  case (Cons v vs)
  have "lf \<notin> set (stringify v)" by (rule stringify_no_newline)
  with Cons show ?case
    by (simp add: wire_line_def split_lf_append split_lf_no_lf)
qed simp

lemma stringify_not_blank: "\<not> blank (stringify v)"
proof -
  have h: "\<exists>c cs. stringify v = c # cs \<and> (of_char c :: nat) \<notin> {9, 10, 11, 12, 13, 32, 160}"
  proof (cases v)
    case (JNum i)
    obtain c cs where "nat_str (nat \<bar>i\<bar>) = c # cs" "is_digit c"
      using nat_str_digits [of "nat \<bar>i\<bar>"] by (cases "nat_str (nat \<bar>i\<bar>)") auto
    with JNum show ?thesis by (cases "i < 0") (auto simp: int_str_def is_digit_def)
  next
    case (JDec neg d n)
    obtain c cs where "dec_str neg d n = c # cs" "c = CHR ''-'' \<or> is_digit c"
      using dec_str_head [of neg d n] by (cases "dec_str neg d n") auto
    with JDec show ?thesis by (auto simp: is_digit_def)
  qed (auto simp: quote_string_def)
  then show ?thesis by (auto simp: blank_def)
qed

section \<open>What a reply is\<close>

definition error_codes :: "string list" where
  "error_codes = [''EPARSE'', ''EINVAL'', ''ENOSYS'', ''EPERM'', ''EFAULT'']"

text \<open>The two forms of \<open>RpcResponse\<close> in types.ts.\<close>

definition rpc_response :: "json \<Rightarrow> json \<Rightarrow> bool" where
  "rpc_response rid rep \<longleftrightarrow>
     (\<exists>v. rep = JObj [(''id'', rid), (''ok'', JBool True), (''result'', v)]) \<or>
     (\<exists>code msg. rep = error_reply rid code msg \<and> code \<in> set error_codes)"

lemma dispatch_error_code:
  "dispatch clk reg meth params s = (Inl e, s') \<Longrightarrow> err_code e \<in> set error_codes"
  by (auto simp: dispatch_def admit_def settle_def error_codes_def Let_def
      split: option.splits if_splits prod.splits sum.splits admission.splits)

lemma result_reply_response:
  "(\<And>e. res = Inl e \<Longrightarrow> err_code e \<in> set error_codes) \<Longrightarrow> rpc_response rid (result_reply rid res)"
  by (auto simp: result_reply_def rpc_response_def split: sum.splits)

lemma dispatch_value_response:
  "rpc_response rid (fst (dispatch_value em clk reg line rid m params s))"
proof (cases m)
  case (JStr name)
  obtain res s' where "dispatch clk reg name params s = (res, s')" by fastforce
  with JStr dispatch_error_code [of clk reg name params s] show ?thesis
    by (auto simp: dispatch_value_def intro: result_reply_response)
qed (auto simp: dispatch_value_def rpc_response_def error_codes_def split: option.splits)

section \<open>Properties\<close>

text \<open>
  Framing: whatever way a text is cut into chunks, the connection handles exactly its
  non-blank lines, in order, and keeps the unfinished last one.
\<close>

theorem gate_framing:
  "receive chunks [] =
     (filter (\<lambda>l. \<not> blank l) (butlast (split_lf (concat chunks))), last (split_lf (concat chunks)))"
  by (simp add: receive_split)



text \<open>
  C27. Every line that is handled is answered by one line, of one of the two forms of
  \<open>RpcResponse\<close>, with the id of the request (null where the line has none or is no JSON).
\<close>

theorem gate_reply_shape:
  "rpc_response (case json_parse line of None \<Rightarrow> JNull | Some req \<Rightarrow> field_or_null req ''id'')
     (fst (handle_line em clk reg line s)) \<and>
   split_lf (wire_line (fst (handle_line em clk reg line s))) =
     [stringify (fst (handle_line em clk reg line s)), []]"
proof
  show "split_lf (wire_line v) = [stringify v, []]" for v
    using split_lf_wire [of "[v]"] by simp
  have none: "rpc_response rid (error_reply rid ''EPARSE'' msg)" "rpc_response rid (error_reply rid ''EINVAL'' msg)"
    for rid msg by (auto simp: rpc_response_def error_codes_def)
  show "rpc_response (case json_parse line of None \<Rightarrow> JNull | Some req \<Rightarrow> field_or_null req ''id'')
     (fst (handle_line em clk reg line s))"
    using dispatch_value_response
    by (auto simp: handle_line_def none Let_def field_or_null_def field_def split: option.splits json.splits)
qed

text \<open>
  What cli.ts sends for its arguments is one request line, which the gate reads back as the
  method and the parameter object the client built.
\<close>

theorem cli_request_roundtrip:
  "receive [wire_line (cli_request m rest)] [] = ([stringify (cli_request m rest)], []) \<and>
   json_parse (stringify (cli_request m rest)) = Some (cli_request m rest) \<and>
   request_params (cli_request m rest) = cli_params rest"
proof -
  have arg: "json_ok (JObj (cli_arg a ps))" if "json_ok (JObj ps)" for a ps
    using that json_parse_ok by (auto simp: cli_arg_def Let_def json_ok_assign
        simp del: json_ok.simps(4) split: option.split)
  have "json_ok (JObj (fold cli_arg as ps))" if "json_ok (JObj ps)" for as ps
    using that by (induction as arbitrary: ps) (auto simp del: json_ok.simps(4) intro: arg)
  from this [of "[]" rest] have params: "json_ok (JObj (cli_params rest))"
    by (simp add: cli_params_def json_ok_object del: json_ok.simps(4))
  have "key_ordered [(''id'', JNum 1), (''method'', JStr m), (''params'', JObj (cli_params rest))]"
    by (simp add: key_before_def is_index_def is_digit_def)
  with params have ok: "json_ok (cli_request m rest)"
    by (simp only: cli_request_def json_ok_object) (simp add: key_ordered_from_entries)
  have "receive [wire_line (cli_request m rest)] [] = ([stringify (cli_request m rest)], [])"
    using receive_split [of "[]" "[wire_line (cli_request m rest)]"] split_lf_wire [of "[cli_request m rest]"]
    by (simp add: stringify_not_blank)
  moreover have "request_params (cli_request m rest) = cli_params rest"
    by (simp add: request_params_def cli_request_def field_or_null_def field_def own_props_def)
  ultimately show ?thesis using json_roundtrip [OF ok] by simp
qed

end
