(* ===== verification/VoidPath.thy ===== *)
theory VoidPath
  imports VoidJson "HOL-Library.Sublist"
begin

text \<open>
  capabilities/vpath.ts: the resolution of a rootfs path to a host path, and the part of
  node's posix \<open>path\<close> module it rests on (\<open>resolve\<close>, \<open>normalize\<close>, \<open>join\<close>), written over the
  segments between slashes. \<open>virtual_segs\<close> is the abstract specification: the segments a
  rootfs path denotes below the root, if it stays inside and outside \<open>.void\<close>;
  \<open>resolve_in_refines\<close> shows that the string-level code computes it.
\<close>

section \<open>posix paths\<close>

abbreviation slash :: char where
  "slash \<equiv> CHR ''/''"

fun split_slash :: "string \<Rightarrow> string list" where
  "split_slash [] = [[]]"
| "split_slash (c # cs) =
     (if c = slash then [] # split_slash cs
      else case split_slash cs of [] \<Rightarrow> [[c]] | s # ss \<Rightarrow> (c # s) # ss)"

text \<open>
  One segment of \<open>normalizeString(path, allowAboveRoot, '/')\<close>; the segments kept so far are
  a stack, the last one on top.
\<close>

definition push_seg :: "bool \<Rightarrow> string \<Rightarrow> string list \<Rightarrow> string list" where
  "push_seg up s st =
     (if s = [] \<or> s = ''.'' then st
      else if s = ''..'' then
        (case st of
           [] \<Rightarrow> if up then [''..''] else []
         | t # rest \<Rightarrow> if t = ''..'' then (if up then ''..'' # st else st) else rest)
      else s # st)"

definition normalize_string :: "bool \<Rightarrow> string \<Rightarrow> string" where
  "normalize_string up p = join_with [slash] (rev (fold (push_seg up) (split_slash p) []))"

text \<open>\<open>path.resolve\<close>: arguments from the right until the path is absolute, then the cwd.\<close>

fun resolve_args :: "string list \<Rightarrow> string \<Rightarrow> bool \<Rightarrow> string \<times> bool" where
  "resolve_args [] acc isabs = (acc, isabs)"
| "resolve_args (p # ps) acc isabs =
     (if isabs then (acc, isabs)
      else if p = [] then resolve_args ps acc isabs
      else resolve_args ps (p @ [slash] @ acc) (hd p = slash))"

definition path_resolve :: "string \<Rightarrow> string list \<Rightarrow> string" where
  "path_resolve cwd args =
     (case resolve_args (rev args @ [cwd]) [] False of
        (p, isabs) \<Rightarrow>
          let r = normalize_string (\<not> isabs) p
          in if isabs then slash # r else if r = [] then ''.'' else r)"

definition path_normalize :: "string \<Rightarrow> string" where
  "path_normalize p =
     (if p = [] then ''.''
      else let isabs = (hd p = slash); trailing = (last p = slash);
               r = normalize_string (\<not> isabs) p
           in if r = [] then (if isabs then ''/'' else if trailing then ''./'' else ''.'')
              else (if isabs then [slash] else []) @ r @ (if trailing then [slash] else []))"

definition path_join :: "string list \<Rightarrow> string" where
  "path_join args =
     (let ps = filter (\<lambda>p. p \<noteq> []) args
      in if ps = [] then ''.'' else path_normalize (join_with [slash] ps))"

section \<open>resolveIn\<close>

definition clean_path :: "string \<Rightarrow> string" where
  "clean_path p = dropWhile (\<lambda>c. c = slash \<or> c = CHR 0x5C) p"

definition resolve_in :: "string \<Rightarrow> string \<Rightarrow> string \<Rightarrow> string result" where
  "resolve_in cwd root p =
     (let full = path_resolve cwd [root, clean_path p] in
      if full \<noteq> root \<and> \<not> prefix (root @ [slash]) full
      then throw (''path escapes rootfs: '' @ p)
      else let control = path_resolve cwd [root, ''.void''] in
        if full = control \<or> prefix (control @ [slash]) full
        then throw (''path is in the protected control plane (.void): '' @ p)
        else return full)"

section \<open>Segments\<close>

definition proper_seg :: "string \<Rightarrow> bool" where
  "proper_seg s \<longleftrightarrow> s \<noteq> [] \<and> s \<noteq> ''.'' \<and> s \<noteq> ''..'' \<and> slash \<notin> set s"

abbreviation proper :: "string list \<Rightarrow> bool" where
  "proper ss \<equiv> list_all proper_seg ss"

text \<open>The absolute path with the given segments.\<close>

definition abs_path :: "string list \<Rightarrow> string" where
  "abs_path ss = slash # join_with [slash] ss"

text \<open>The segments denoted by \<open>p\<close> relative to the segments \<open>base\<close>.\<close>

definition walk :: "string list \<Rightarrow> string \<Rightarrow> string list" where
  "walk base p = rev (fold (push_seg False) (split_slash p) (rev base))"

text \<open>
  The specification of \<open>resolveIn\<close>: where the path leads from the root, provided it is at or
  below the root and neither is nor is below \<open>.void\<close>.
\<close>

definition virtual_segs :: "string list \<Rightarrow> string \<Rightarrow> string list option" where
  "virtual_segs rs p =
     (let ss = walk rs (clean_path p)
      in if prefix rs ss \<and> \<not> prefix (rs @ [''.void'']) ss then Some ss else None)"

lemma split_slash_nonempty [simp]: "split_slash s \<noteq> []"
  by (cases s) (auto split: list.splits)

lemma split_slash_no_slash: "slash \<notin> set s \<Longrightarrow> split_slash s = [s]"
  by (induction s) auto

lemma split_slash_append: "split_slash (s @ slash # t) = split_slash s @ split_slash t"
  by (induction s) (auto split: list.splits)

lemma split_slash_segs: "t \<in> set (split_slash s) \<Longrightarrow> slash \<notin> set t"
proof (induction s arbitrary: t)
  case (Cons c s)
  then show ?case by (cases "split_slash s") (auto split: if_splits)
qed simp

lemma split_join:
  "list_all (\<lambda>s. slash \<notin> set s) ss \<Longrightarrow> ss \<noteq> [] \<Longrightarrow> split_slash (join_with [slash] ss) = ss"
  by (induction "[slash]" ss rule: join_with.induct)
     (auto simp: split_slash_no_slash split_slash_append)

lemma proper_no_slash: "proper ss \<Longrightarrow> list_all (\<lambda>s. slash \<notin> set s) ss"
  by (auto simp: list_all_iff proper_seg_def)

lemma push_proper [simp]: "proper_seg s \<Longrightarrow> push_seg up s st = s # st"
  by (simp add: push_seg_def proper_seg_def)

lemma push_empty [simp]: "push_seg up [] st = st"
  by (simp add: push_seg_def)

lemma fold_push_proper: "proper ss \<Longrightarrow> fold (push_seg up) ss st = rev ss @ st"
  by (induction ss arbitrary: st) auto

lemma push_keeps_proper:
  "slash \<notin> set s \<Longrightarrow> proper st \<Longrightarrow> proper (push_seg False s st)"
  by (auto simp: push_seg_def proper_seg_def split: list.splits)

lemma fold_push_keeps_proper:
  "list_all (\<lambda>s. slash \<notin> set s) ss \<Longrightarrow> proper st \<Longrightarrow> proper (fold (push_seg False) ss st)"
  by (induction ss arbitrary: st) (auto intro: push_keeps_proper)

lemma walk_proper: "proper base \<Longrightarrow> proper (walk base p)"
  using fold_push_keeps_proper [of "split_slash p" "rev base"]
  by (auto simp: walk_def list_all_iff dest: split_slash_segs)

lemma walk_join_proper: "proper ss \<Longrightarrow> walk base (join_with [slash] ss) = base @ ss"
proof (cases "ss = []")
  case False
  assume "proper ss"
  with False show ?thesis
    by (simp add: walk_def split_join [OF proper_no_slash] fold_push_proper)
qed (simp add: walk_def)

lemma walk_Nil [simp]: "walk base [] = base"
  by (simp add: walk_def)

lemma join_append:
  "xs \<noteq> [] \<Longrightarrow> ys \<noteq> [] \<Longrightarrow> join_with sep (xs @ ys) = join_with sep xs @ sep @ join_with sep ys"
  by (induction sep xs rule: join_with.induct) (auto simp: neq_Nil_conv)

lemma join_split: "join_with [slash] (split_slash s) = s"
proof (induction s)
  case (Cons c s)
  then show ?case
    by (cases "split_slash s" rule: list.exhaust; cases "tl (split_slash s)") auto
qed simp

lemma split_abs_path:
  "proper ss \<Longrightarrow> split_slash (abs_path ss) = [] # (if ss = [] then [[]] else ss)"
  by (simp add: abs_path_def split_join [OF proper_no_slash])

lemma abs_path_inject:
  assumes "proper ss" "proper ts"
  shows "abs_path ss = abs_path ts \<longleftrightarrow> ss = ts"
proof
  assume "abs_path ss = abs_path ts"
  then have "split_slash (abs_path ss) = split_slash (abs_path ts)" by simp
  with assms show "ss = ts"
    by (auto simp: split_abs_path proper_seg_def split: if_splits)
qed simp

lemma abs_path_append: "rs \<noteq> [] \<Longrightarrow> ts \<noteq> [] \<Longrightarrow>
    abs_path (rs @ ts) = abs_path rs @ slash # join_with [slash] ts"
  by (simp add: abs_path_def join_append)

lemma prefix_abs_path:
  assumes "proper rs" "proper ss" "rs \<noteq> []"
  shows "prefix (abs_path rs @ [slash]) (abs_path ss) \<longleftrightarrow> strict_prefix rs ss"
proof
  assume "prefix (abs_path rs @ [slash]) (abs_path ss)"
  then obtain z where "abs_path ss = abs_path rs @ slash # z" by (auto elim: prefixE)
  then have "split_slash (abs_path ss) = split_slash (abs_path rs) @ split_slash z"
    by (simp only: split_slash_append)
  with assms have "ss = rs @ split_slash z"
    by (auto simp: split_abs_path Cons_eq_append_conv split: if_splits)
  then show "strict_prefix rs ss"
    by (simp add: strict_prefix_def)
next
  assume "strict_prefix rs ss"
  then obtain t ts where "ss = rs @ t # ts" by (auto elim: strict_prefixE')
  with assms(3) show "prefix (abs_path rs @ [slash]) (abs_path ss)"
    by (simp add: abs_path_append)
qed

lemma fold_push_abs_path: "proper rs \<Longrightarrow> fold (push_seg False) (split_slash (abs_path rs)) [] = rev rs"
  by (simp add: split_abs_path fold_push_proper)

lemma resolve_below:
  assumes "proper rs" "q = [] \<or> hd q \<noteq> slash"
  shows "path_resolve cwd [abs_path rs, q] = abs_path (walk rs q)"
proof -
  have abs: "abs_path rs \<noteq> []" "hd (abs_path rs) = slash" by (simp_all add: abs_path_def)
  show ?thesis
  proof (cases "q = []")
    case True
    with abs assms(1) show ?thesis
      using split_slash_append [of "abs_path rs" "[]"]
      by (simp add: path_resolve_def Let_def normalize_string_def fold_push_abs_path)
        (simp add: abs_path_def)
  next
    case False
    have "split_slash (abs_path rs @ slash # q @ [slash])
        = split_slash (abs_path rs) @ split_slash q @ [[]]"
      using split_slash_append [of q "[]"] by (simp add: split_slash_append)
    with False abs assms show ?thesis
      by (simp add: path_resolve_def Let_def normalize_string_def fold_push_abs_path walk_def)
        (simp add: abs_path_def)
  qed
qed

lemma clean_path_head: "clean_path p = [] \<or> hd (clean_path p) \<noteq> slash"
  by (metis (mono_tags, lifting) clean_path_def hd_dropWhile)

lemma clean_path_slashes: "clean_path (replicate n slash @ q) = clean_path q"
  by (induction n) (simp_all add: clean_path_def)

section \<open>What the sandbox guarantees\<close>

lemma resolve_in_segs:
  assumes "proper rs" "rs \<noteq> []"
  shows "resolve_in cwd (abs_path rs) p =
    (case virtual_segs rs p of
       Some ss \<Rightarrow> return (abs_path ss)
     | None \<Rightarrow>
         if prefix rs (walk rs (clean_path p))
         then throw (''path is in the protected control plane (.void): '' @ p)
         else throw (''path escapes rootfs: '' @ p))"
proof -
  let ?ss = "walk rs (clean_path p)"
  have full: "path_resolve cwd [abs_path rs, clean_path p] = abs_path ?ss"
    using assms(1) clean_path_head by (rule resolve_below)
  have void: "proper (rs @ [''.void''])" using assms(1) by (simp add: proper_seg_def)
  have "walk rs ''.void'' = rs @ [''.void'']"
    using walk_join_proper [of "[''.void'']" rs] by (simp add: proper_seg_def)
  then have control: "path_resolve cwd [abs_path rs, ''.void''] = abs_path (rs @ [''.void''])"
    using resolve_below [OF assms(1), of "''.void''" cwd] by simp
  have ss: "proper ?ss" using assms(1) by (rule walk_proper)
  have inside: "abs_path ?ss = abs_path rs \<or> prefix (abs_path rs @ [slash]) (abs_path ?ss)
      \<longleftrightarrow> prefix rs ?ss"
    using assms ss by (auto simp: abs_path_inject prefix_abs_path strict_prefix_def)
  have sealed: "abs_path ?ss = abs_path (rs @ [''.void''])
      \<or> prefix (abs_path (rs @ [''.void'']) @ [slash]) (abs_path ?ss)
      \<longleftrightarrow> prefix (rs @ [''.void'']) ?ss"
    using void ss by (auto simp: abs_path_inject prefix_abs_path strict_prefix_def)
  show ?thesis
    unfolding resolve_in_def Let_def full control virtual_segs_def
    using inside sealed by (auto split: if_splits)
qed

text \<open>
  C4. For a rootfs at a canonical absolute path other than the host's root directory,
  \<open>resolveIn\<close> computes exactly the segment-level specification: the result is the path of
  the segments the argument walks to, and the two refusals are the walk leaving the rootfs
  and the walk entering the control plane.
\<close>

theorem resolve_in_refines:
  assumes "proper rs" "rs \<noteq> []"
  shows "resolve_in cwd (abs_path rs) p =
    (case virtual_segs rs p of
       Some ss \<Rightarrow> return (abs_path ss)
     | None \<Rightarrow>
         if prefix rs (walk rs (clean_path p))
         then throw (''path is in the protected control plane (.void): '' @ p)
         else throw (''path escapes rootfs: '' @ p))"
  using assms by (rule resolve_in_segs)

lemma abs_path_ex [simp]: "abs_path [''srv'', ''void''] = ''/srv/void''"
  by (simp add: abs_path_def)

theorem resolve_in_refines_witness:
  "resolve_in ''/'' ''/srv/void'' ''/notes/../a.txt'' = return ''/srv/void/a.txt''"
  using resolve_in_refines [of "[''srv'', ''void'']" "''/''" "''/notes/../a.txt''"]
  by (simp add: proper_seg_def virtual_segs_def walk_def clean_path_def push_seg_def abs_path_def)

text \<open>The accepted paths, read off the specification.\<close>

lemma virtual_segs_Some:
  assumes "virtual_segs rs p = Some ss" "proper rs"
  obtains ts where "ss = rs @ ts" "proper ts" "ts = [] \<or> hd ts \<noteq> ''.void''"
proof -
  from assms have ss: "ss = walk rs (clean_path p)" "prefix rs ss" "\<not> prefix (rs @ [''.void'']) ss"
    by (auto simp: virtual_segs_def Let_def split: if_splits)
  then obtain ts where ts: "ss = rs @ ts" by (auto elim: prefixE)
  have "proper ts" using walk_proper [OF assms(2), of "clean_path p"] ss(1) ts
    by (metis list_all_append)
  moreover have "ts = [] \<or> hd ts \<noteq> ''.void''" using ss(3) ts by (cases ts) auto
  ultimately show thesis using that ts by blast
qed

lemma resolve_in_result:
  assumes "proper rs" "rs \<noteq> []" "resolve_in cwd (abs_path rs) p = return full"
  shows "\<exists>ss. virtual_segs rs p = Some ss \<and> full = abs_path ss"
  using assms(3) unfolding resolve_in_segs [OF assms(1,2)]
  by (auto split: option.splits if_splits)

text \<open>
  Confinement: whatever path the mind passes, an accepted path is the rootfs path followed
  by segments none of which is empty, \<open>.\<close> or \<open>..\<close>, and the first of which is not the control
  plane \<open>.void\<close>. No sequence of \<open>..\<close>, backslashes or doubled slashes leaves the rootfs.
\<close>

theorem resolve_in_confined:
  assumes "proper rs" "rs \<noteq> []" "resolve_in cwd (abs_path rs) p = return full"
  shows "\<exists>ts. full = abs_path (rs @ ts) \<and> proper ts \<and> (ts = [] \<or> hd ts \<noteq> ''.void'')"
  using resolve_in_result [OF assms] assms(1) by (metis virtual_segs_Some)

theorem resolve_in_confined_witness:
  "\<exists>ts. ''/srv/void/a/b'' = abs_path ([''srv'', ''void''] @ ts) \<and> proper ts
      \<and> (ts = [] \<or> hd ts \<noteq> ''.void'')"
proof (rule resolve_in_confined)
  show "proper [''srv'', ''void'']" by (simp add: proper_seg_def)
  show "resolve_in ''/'' (abs_path [''srv'', ''void'']) ''//a/./c/../b'' = return ''/srv/void/a/b''"
    by (simp add: resolve_in_def path_resolve_def normalize_string_def clean_path_def push_seg_def
        abs_path_def)
qed simp

text \<open>
  Nothing legitimate is refused: every list of proper segments that does not start with
  \<open>.void\<close>, written with any number of leading slashes, resolves to that place below the root.
\<close>

theorem resolve_in_complete:
  assumes "proper rs" "rs \<noteq> []" "proper ts" "ts = [] \<or> hd ts \<noteq> ''.void''"
    and "ts = [] \<or> hd (hd ts) \<noteq> CHR 0x5C"
  shows "resolve_in cwd (abs_path rs) (replicate n slash @ join_with [slash] ts)
    = return (abs_path (rs @ ts))"
proof -
  have "clean_path (replicate n slash @ join_with [slash] ts) = join_with [slash] ts"
    unfolding clean_path_slashes
  proof (cases ts)
    case Nil
    then show "clean_path (join_with [slash] ts) = join_with [slash] ts"
      by (simp add: clean_path_def)
  next
    case (Cons t ts')
    with assms(3,5) have "t \<noteq> []" "hd t \<noteq> slash" "hd t \<noteq> CHR 0x5C"
      by (auto simp: proper_seg_def) (metis hd_in_set)
    then have "join_with [slash] ts \<noteq> []" "hd (join_with [slash] ts) = hd t"
      using Cons by (cases ts'; simp)+
    with \<open>hd t \<noteq> slash\<close> \<open>hd t \<noteq> CHR 0x5C\<close> show "clean_path (join_with [slash] ts) = join_with [slash] ts"
      by (cases "join_with [slash] ts") (simp_all add: clean_path_def)
  qed
  then have "virtual_segs rs (replicate n slash @ join_with [slash] ts) = Some (rs @ ts)"
    using assms(3,4) by (cases ts) (auto simp: virtual_segs_def walk_join_proper)
  then show ?thesis by (simp add: resolve_in_segs [OF assms(1,2)])
qed

theorem resolve_in_complete_witness:
  "resolve_in ''/'' ''/srv/void'' ''///notes/todo.txt'' = return ''/srv/void/notes/todo.txt''"
  using resolve_in_complete [of "[''srv'', ''void'']" "[''notes'', ''todo.txt'']" "''/''" 3]
  by (simp add: proper_seg_def abs_path_def numeral_3_eq_3)

section \<open>Roots the code cannot serve\<close>

text \<open>
  index.ts takes \<open>VOID_ROOT\<close> as it is. The prefix test compares it with a normalised path, so a
  root that is not itself canonical matches nothing.
\<close>

definition canonical :: "string \<Rightarrow> bool" where
  "canonical r \<longleftrightarrow> (\<exists>ss. proper ss \<and> r = abs_path ss)"

lemma resolve_args_absolute:
  "cwd \<noteq> [] \<Longrightarrow> hd cwd = slash \<Longrightarrow> snd (resolve_args (ps @ [cwd]) acc b)"
  by (induction ps arbitrary: acc b) auto

lemma path_resolve_canonical:
  assumes "cwd \<noteq> []" "hd cwd = slash"
  shows "canonical (path_resolve cwd args)"
proof -
  obtain p where p: "resolve_args (rev args @ [cwd]) [] False = (p, True)"
    using resolve_args_absolute [OF assms, of "rev args" "[]" False] by (metis prod.collapse)
  have "proper (rev (fold (push_seg False) (split_slash p) []))"
    using walk_proper [of "[]" p] by (simp add: walk_def)
  then show ?thesis unfolding canonical_def
    by (intro exI [of _ "rev (fold (push_seg False) (split_slash p) [])"])
      (simp add: path_resolve_def p normalize_string_def abs_path_def)
qed

lemma prefix_of_canonical:
  assumes "canonical full" "prefix (root @ [slash]) full" "root \<noteq> []"
  shows "canonical root"
proof -
  from assms(2) obtain z where z: "full = root @ slash # z" by (auto elim: prefixE)
  with assms(1) obtain ss where ss: "proper ss" "slash # join_with [slash] ss = root @ slash # z"
    by (auto simp: canonical_def abs_path_def)
  with assms(3) obtain r where r: "root = slash # r" "join_with [slash] ss = r @ slash # z"
    by (cases root) auto
  then have "ss \<noteq> []" by auto
  then have "ss = split_slash r @ split_slash z"
    using split_join [OF proper_no_slash [OF ss(1)]] r(2) split_slash_append by metis
  with ss(1) have "proper (split_slash r)" by simp
  then show ?thesis using r(1) by (auto simp: canonical_def abs_path_def join_split)
qed

text \<open>
  A non-empty root that is not a canonical absolute path (a trailing slash, a relative
  path, a doubled slash) makes every path of every capability refused, the root itself
  included.
\<close>

theorem resolve_in_noncanonical_root:
  assumes "cwd \<noteq> []" "hd cwd = slash" "root \<noteq> []" "\<not> canonical root"
  shows "resolve_in cwd root p = throw (''path escapes rootfs: '' @ p)"
proof -
  have full: "canonical (path_resolve cwd [root, clean_path p])"
    using assms(1,2) by (rule path_resolve_canonical)
  then have "path_resolve cwd [root, clean_path p] \<noteq> root" using assms(4) by metis
  moreover have "\<not> prefix (root @ [slash]) (path_resolve cwd [root, clean_path p])"
    using prefix_of_canonical [OF full _ assms(3)] assms(4) by blast
  ultimately show ?thesis by (simp add: resolve_in_def)
qed

lemma trailing_slash_not_canonical: "\<not> canonical (s @ slash # [slash])" "s \<noteq> [] \<Longrightarrow> \<not> canonical (s @ [slash])"
proof -
  have "\<not> canonical (s @ [slash])" if "s \<noteq> []" for s
  proof
    assume "canonical (s @ [slash])"
    then obtain ss where ss: "proper ss" "s @ [slash] = abs_path ss" by (auto simp: canonical_def)
    then have "split_slash s @ [[]] = [] # (if ss = [] then [[]] else ss)"
      using split_slash_append [of s "[]"] by (metis split_abs_path split_slash.simps(1))
    with ss(1) have "split_slash s = [[]]"
      by (cases ss rule: rev_cases) (auto simp: proper_seg_def Cons_eq_append_conv)
    with that show False using join_split [of s] by simp
  qed
  from this [of "s @ [slash]"] this [of s]
  show "\<not> canonical (s @ slash # [slash])" "s \<noteq> [] \<Longrightarrow> \<not> canonical (s @ [slash])" by auto
qed

theorem resolve_in_noncanonical_root_witness:
  "resolve_in ''/'' ''/var/void/'' ''/notes.txt'' = throw ''path escapes rootfs: /notes.txt''"
  using resolve_in_noncanonical_root [of "''/''" "''/var/void/''" "''/notes.txt''"]
    trailing_slash_not_canonical(2) [of "''/var/void''"]
  by simp

lemma resolve_in_empty_root:
  "resolve_in ''/srv'' [] ''../etc/passwd'' = return ''/etc/passwd''"
  by (simp add: resolve_in_def path_resolve_def normalize_string_def clean_path_def push_seg_def)

end
