(* ===== verification/VoidTime.thy ===== *)
theory VoidTime
  imports VoidPrelude
begin

text \<open>
  \<open>Date.prototype.toISOString\<close>, with which every record of the kernel shows its instants. An
  instant is its milliseconds since 1970; the civil date is counted in eras of 400 years.
\<close>

definition pad_zeros :: "nat \<Rightarrow> nat \<Rightarrow> string" where
  "pad_zeros w n = replicate (w - length (nat_str n)) CHR ''0'' @ nat_str n"

text \<open>Year, month and day of a day number.\<close>

definition civil_date :: "int \<Rightarrow> int \<times> int \<times> int" where
  "civil_date days =
     (let z = days + 719468;
          era = z div 146097;
          doe = z mod 146097;
          yoe = (doe - doe div 1460 + doe div 36524 - doe div 146096) div 365;
          doy = doe - (365 * yoe + yoe div 4 - yoe div 100);
          mp = (5 * doy + 2) div 153;
          d = doy - (153 * mp + 2) div 5 + 1;
          m = (if mp < 10 then mp + 3 else mp - 9)
      in (yoe + era * 400 + (if m \<le> 2 then 1 else 0), m, d))"

definition year_str :: "int \<Rightarrow> string" where
  "year_str y =
     (if 0 \<le> y \<and> y \<le> 9999 then pad_zeros 4 (nat y)
      else (if y < 0 then ''-'' else ''+'') @ pad_zeros 6 (nat \<bar>y\<bar>))"

definition iso_string :: "int \<Rightarrow> string" where
  "iso_string ms =
     (case civil_date (ms div 86400000) of
        (y, m, d) \<Rightarrow>
          let r = nat (ms mod 86400000)
          in year_str y @ ''-'' @ pad_zeros 2 (nat m) @ ''-'' @ pad_zeros 2 (nat d) @ ''T'' @
             pad_zeros 2 (r div 3600000) @ '':'' @ pad_zeros 2 (r div 60000 mod 60) @ '':'' @
             pad_zeros 2 (r div 1000 mod 60) @ ''.'' @ pad_zeros 3 (r mod 1000) @ ''Z'')"

lemma iso_string_epoch: "iso_string 0 = ''1970-01-01T00:00:00.000Z''"
  by code_simp

lemma iso_string_leap: "iso_string 951868799999 = ''2000-02-29T23:59:59.999Z''"
  by code_simp

lemma iso_string_past: "iso_string (- 1) = ''1969-12-31T23:59:59.999Z''"
  by code_simp

end
