(* ===== verification/VoidHost.thy ===== *)
theory VoidHost
  imports VoidPrelude
begin

text \<open>
  What the supervisors use of node: timers (\<open>setTimeout\<close>, \<open>clearTimeout\<close>) and child processes
  (\<open>spawn\<close>, \<open>kill\<close>). The host of a component records which timers are armed, which children
  are alive and which signals were sent; the payload \<open>'c\<close> says what a callback is bound to. A
  timer callback can run only while its timer is armed, an exit event only while its child
  is alive.
\<close>

record 'c host =
  h_next :: nat
  h_timers :: "(nat \<times> 'c \<times> int) list"
  h_children :: "(nat \<times> 'c) list"
  h_signals :: "(nat \<times> string) list"

definition new_host :: "'c host" where
  "new_host = \<lparr>h_next = 0, h_timers = [], h_children = [], h_signals = []\<rparr>"

text \<open>
  The delay node uses for \<open>setTimeout(f, ms)\<close>: outside \<open>1 .. 2 ^ 31 - 1\<close> it is one millisecond.
\<close>

definition timer_delay :: "int \<Rightarrow> int" where
  "timer_delay ms = (if 1 \<le> ms \<and> ms \<le> 2147483647 then ms else 1)"

definition set_timeout :: "'c \<Rightarrow> int \<Rightarrow> 'c host \<Rightarrow> nat \<times> 'c host" where
  "set_timeout c ms h =
     (h_next h,
      h\<lparr>h_next := Suc (h_next h), h_timers := h_timers h @ [(h_next h, c, timer_delay ms)]\<rparr>)"

definition clear_timeout :: "nat \<Rightarrow> 'c host \<Rightarrow> 'c host" where
  "clear_timeout t h = h\<lparr>h_timers := AList.delete t (h_timers h)\<rparr>"

text \<open>
  \<open>spawn("/bin/sh", ["-c", cmd])\<close> returns a child with a pid, or a child without one when the
  host could not start it (it emits \<open>error\<close> and no \<open>exit\<close>), or throws: for a command that
  node or the host refuses outright, always when it holds a null unit.
\<close>

datatype spawn_result = Spawned int | NotStarted | SpawnThrew string

fun spawn_error :: "spawn_result \<Rightarrow> string option" where
  "spawn_error (SpawnThrew msg) = Some msg"
| "spawn_error res = None"

fun spawn_pid :: "spawn_result \<Rightarrow> int option" where
  "spawn_pid (Spawned p) = Some p"
| "spawn_pid res = None"

definition host_answers :: "string \<Rightarrow> spawn_result \<Rightarrow> bool" where
  "host_answers cmd res \<longleftrightarrow>
     (if CHR 0x00 \<in> set cmd then spawn_error res \<noteq> None
      else case res of Spawned p \<Rightarrow> 0 < p | _ \<Rightarrow> True)"

lemma host_answers_pid: "host_answers cmd res \<Longrightarrow> spawn_pid res = Some p \<Longrightarrow> 0 < p"
  by (cases res) (auto simp: host_answers_def split: if_splits)

definition spawn_child :: "'c \<Rightarrow> int option \<Rightarrow> 'c host \<Rightarrow> nat \<times> 'c host" where
  "spawn_child c pid h =
     (h_next h,
      h\<lparr>h_next := Suc (h_next h),
        h_children := h_children h @ (if pid = None then [] else [(h_next h, c)])\<rparr>)"

definition child_pid :: "int option \<Rightarrow> int" where
  "child_pid pid = (case pid of None \<Rightarrow> -1 | Some p \<Rightarrow> p)"

definition send_signal :: "nat \<Rightarrow> string \<Rightarrow> 'c host \<Rightarrow> 'c host" where
  "send_signal c sig h = h\<lparr>h_signals := h_signals h @ [(c, sig)]\<rparr>"

definition child_gone :: "nat \<Rightarrow> 'c host \<Rightarrow> 'c host" where
  "child_gone c h = h\<lparr>h_children := AList.delete c (h_children h)\<rparr>"

text \<open>\<open>if (e.timer) clearTimeout(e.timer)\<close> and \<open>if (e.child) e.child.kill(sig)\<close>.\<close>

definition opt_clear :: "nat option \<Rightarrow> 'c host \<Rightarrow> 'c host" where
  "opt_clear timer h = (case timer of None \<Rightarrow> h | Some t \<Rightarrow> clear_timeout t h)"

definition opt_kill :: "nat option \<Rightarrow> string \<Rightarrow> 'c host \<Rightarrow> 'c host" where
  "opt_kill child sig h = (case child of None \<Rightarrow> h | Some c \<Rightarrow> send_signal c sig h)"

text \<open>What both supervisors do with a child's output: clipping a log, reporting a spawn error.\<close>

definition clip_log :: "int \<Rightarrow> string \<Rightarrow> string" where
  "clip_log maxBytes log = (if int (length log) > maxBytes then slice_from (- maxBytes) log else log)"

definition spawn_error_text :: "string \<Rightarrow> string" where
  "spawn_error_text msg = [CHR 0x0A] @ ''[spawn error: '' @ msg @ '']'' @ [CHR 0x0A]"

text \<open>Handles are never reused.\<close>

definition host_wf :: "'c host \<Rightarrow> bool" where
  "host_wf h \<longleftrightarrow> map_wf (h_timers h) \<and> map_wf (h_children h) \<and>
     (\<forall>k. map_of (h_timers h) k \<noteq> None \<longrightarrow> k < h_next h) \<and>
     (\<forall>k. map_of (h_children h) k \<noteq> None \<longrightarrow> k < h_next h)"

lemmas host_defs = set_timeout_def clear_timeout_def spawn_child_def send_signal_def child_gone_def

lemma host_fields [simp]:
  "h_children (clear_timeout t h) = h_children h"
  "h_signals (clear_timeout t h) = h_signals h"
  "h_timers (clear_timeout t h) = AList.delete t (h_timers h)"
  "h_next (clear_timeout t h) = h_next h"
  "h_timers (send_signal c sig h) = h_timers h"
  "h_children (send_signal c sig h) = h_children h"
  "h_signals (send_signal c sig h) = h_signals h @ [(c, sig)]"
  "h_next (send_signal c sig h) = h_next h"
  "h_timers (child_gone c h) = h_timers h"
  "h_children (child_gone c h) = AList.delete c (h_children h)"
  "h_signals (child_gone c h) = h_signals h"
  "h_next (child_gone c h) = h_next h"
  by (simp_all add: host_defs)

lemma host_wf_new [simp]: "host_wf new_host"
  by (simp add: host_wf_def new_host_def)

lemma fresh_child: "host_wf h \<Longrightarrow> map_of (h_children h) (h_next h) = None"
  unfolding host_wf_def by (metis less_irrefl)

lemma fresh_timer: "host_wf h \<Longrightarrow> map_of (h_timers h) (h_next h) = None"
  unfolding host_wf_def by (metis less_irrefl)

lemma host_wf_set_timeout: "host_wf h \<Longrightarrow> host_wf (snd (set_timeout c ms h))"
  using fresh_timer [of h] by (auto simp: host_wf_def set_timeout_def map_of_snoc less_Suc_eq simp del: map_of_append)

lemma host_wf_clear: "host_wf h \<Longrightarrow> host_wf (clear_timeout t h)"
  by (auto simp: host_wf_def jm.lookup_remove split: if_splits)

lemma host_wf_spawn: "host_wf h \<Longrightarrow> host_wf (snd (spawn_child c pid h))"
  using fresh_child [of h] by (auto simp: host_wf_def spawn_child_def map_of_snoc less_Suc_eq simp del: map_of_append)

lemma host_wf_signal: "host_wf h \<Longrightarrow> host_wf (send_signal c sig h)"
  by (simp add: host_wf_def)

lemma host_wf_gone: "host_wf h \<Longrightarrow> host_wf (child_gone c h)"
  by (auto simp: host_wf_def jm.lookup_remove split: if_splits)

lemma children_after_spawn:
  assumes "host_wf h" "spawn_child c pid h = (k, h')"
  shows "map_of (h_children h') k' =
    (if k' = k then (if pid = None then None else Some c) else map_of (h_children h) k')"
    and "k = h_next h" "h_timers h' = h_timers h" "h_signals h' = h_signals h"
  using assms(2) fresh_child [OF assms(1)]
  by (auto simp: spawn_child_def map_of_snoc simp del: map_of_append)

lemma timers_after_set:
  assumes "host_wf h" "set_timeout c ms h = (k, h')"
  shows "map_of (h_timers h') k' =
    (if k' = k then Some (c, timer_delay ms) else map_of (h_timers h) k')"
    and "k = h_next h" "h_children h' = h_children h" "h_signals h' = h_signals h"
  using assms(2) fresh_timer [OF assms(1)]
  by (auto simp: set_timeout_def map_of_snoc simp del: map_of_append)

lemmas host_wf_intros [inv_intros] =
  host_wf_set_timeout host_wf_clear host_wf_spawn host_wf_signal host_wf_gone

lemma timer_delay_range: "1 \<le> timer_delay ms \<and> timer_delay ms \<le> 2147483647"
  by (simp add: timer_delay_def)


section \<open>Framing\<close>

text \<open>
  The live children and the armed timers (with their delays) that are bound to the entry \<open>r\<close>,
  and \<open>host_only r\<close>: a change of the host that concerns no other entry.
\<close>

definition live_children :: "'c host \<Rightarrow> 'c \<Rightarrow> nat set" where
  "live_children h r = {c. map_of (h_children h) c = Some r}"

definition armed :: "'c host \<Rightarrow> 'c \<Rightarrow> (nat \<times> int) set" where
  "armed h r = {(t, d). map_of (h_timers h) t = Some (r, d)}"

definition owns :: "'c host \<Rightarrow> 'c \<Rightarrow> nat \<Rightarrow> bool" where
  "owns h r t \<longleftrightarrow> t < h_next h \<and> (\<forall>p. map_of (h_timers h) t = Some p \<longrightarrow> fst p = r)"

definition host_only :: "'c \<Rightarrow> 'c host \<Rightarrow> 'c host \<Rightarrow> bool" where
  "host_only r h h' \<longleftrightarrow>
     (\<forall>r'. r' \<noteq> r \<longrightarrow> live_children h' r' = live_children h r' \<and> armed h' r' = armed h r') \<and>
     (\<forall>r' t. r' \<noteq> r \<longrightarrow> owns h r' t \<longrightarrow> owns h' r' t)"

lemma in_live: "map_of (h_children h) c = Some r \<longleftrightarrow> c \<in> live_children h r"
  by (simp add: live_children_def)

lemma in_armed: "map_of (h_timers h) t = Some (r, d) \<longleftrightarrow> (t, d) \<in> armed h r"
  by (simp add: armed_def)

lemma live_children_simps [simp]:
  "live_children (clear_timeout t h) r = live_children h r"
  "live_children (send_signal c sig h) r = live_children h r"
  "live_children (child_gone c h) r = live_children h r - {c}"
  "live_children new_host r = {}"
  by (auto simp: live_children_def jm.lookup_remove new_host_def split: if_splits)

lemma armed_simps [simp]:
  "armed (child_gone c h) r = armed h r"
  "armed (send_signal c sig h) r = armed h r"
  "armed (clear_timeout t h) r = armed h r - {t} \<times> UNIV"
  "armed new_host r = {}"
  by (auto simp: armed_def jm.lookup_remove new_host_def split: if_splits)

lemma owns_simps [simp]:
  "owns (child_gone c h) r t = owns h r t"
  "owns (send_signal c sig h) r t = owns h r t"
  by (auto simp: owns_def)

lemma owns_clear: "owns h r t \<Longrightarrow> owns (clear_timeout t' h) r t"
  by (auto simp: owns_def jm.lookup_remove split: if_splits)

lemma host_after_spawn:
  assumes "host_wf h" "spawn_child r pid h = (c, h')"
  shows "live_children h' r' = (if r' = r \<and> pid \<noteq> None then {c} else {}) \<union> live_children h r'"
    and "armed h' r' = armed h r'" "owns h r' t \<Longrightarrow> owns h' r' t" "host_wf h'"
    and "c \<notin> live_children h r'" "host_only r h h'"
proof -
  note sp = children_after_spawn [OF assms] fresh_child [OF assms(1)]
  show live: "live_children h' r' = (if r' = r \<and> pid \<noteq> None then {c} else {}) \<union> live_children h r'" for r'
    using sp by (auto simp: live_children_def split: if_splits)
  show arm: "armed h' r' = armed h r'" for r'
    using sp by (simp add: armed_def)
  show own: "owns h r' t \<Longrightarrow> owns h' r' t" for r' t
    using assms(2) by (auto simp: owns_def spawn_child_def)
  show "host_wf h'" using host_wf_spawn [OF assms(1), of r pid] assms(2) by simp
  show "c \<notin> live_children h r'" using sp by (simp add: live_children_def)
  show "host_only r h h'" by (simp add: host_only_def live arm own)
qed

lemma host_after_set:
  assumes "host_wf h" "set_timeout r ms h = (t, h')"
  shows "armed h' r' = (if r' = r then {(t, timer_delay ms)} else {}) \<union> armed h r'"
    and "live_children h' r' = live_children h r'" "owns h r' k \<Longrightarrow> owns h' r' k" "host_wf h'"
    and "owns h' r t" "host_only r h h'"
proof -
  note st = timers_after_set [OF assms] fresh_timer [OF assms(1)]
  show arm: "armed h' r' = (if r' = r then {(t, timer_delay ms)} else {}) \<union> armed h r'" for r'
    using st by (auto simp: armed_def split: if_splits)
  show live: "live_children h' r' = live_children h r'" for r'
    using st by (simp add: live_children_def)
  show own: "owns h r' k \<Longrightarrow> owns h' r' k" for r' k
    using st assms(2) by (auto simp: owns_def set_timeout_def)
  show "host_wf h'" using host_wf_set_timeout [OF assms(1), of r ms] assms(2) by simp
  show "owns h' r t" using st assms(2) by (auto simp: owns_def set_timeout_def)
  show "host_only r h h'" by (simp add: host_only_def live arm own)
qed

lemma host_only_refl [simp]: "host_only r h h"
  by (simp add: host_only_def)

lemma host_only_signal [simp]: "host_only r h (send_signal c sig h') = host_only r h h'"
  by (simp add: host_only_def)

lemma host_only_clear:
  assumes "owns h r t"
  shows "host_only r h (clear_timeout t h)"
proof -
  have "(t, d) \<notin> armed h r'" if "r' \<noteq> r" for r' d
    using assms that by (auto simp: owns_def armed_def)
  then show ?thesis by (auto simp: host_only_def owns_clear)
qed

lemma host_only_gone:
  assumes "c \<in> live_children h r"
  shows "host_only r h (child_gone c h)"
proof -
  have "c \<notin> live_children h r'" if "r' \<noteq> r" for r'
    using assms that by (auto simp: live_children_def)
  then show ?thesis by (simp add: host_only_def)
qed

lemma opt_simps [simp]:
  "live_children (opt_clear t h) r = live_children h r"
  "live_children (opt_kill c sig h) r = live_children h r"
  "armed (opt_clear t h) r = armed h r - set_option t \<times> UNIV"
  "armed (opt_kill c sig h) r = armed h r"
  "owns (opt_kill c sig h) r k = owns h r k"
  "owns h r k \<Longrightarrow> owns (opt_clear t h) r k"
  "host_wf h \<Longrightarrow> host_wf (opt_clear t h)"
  "host_wf h \<Longrightarrow> host_wf (opt_kill c sig h)"
  "host_only r h (opt_kill c sig h') = host_only r h h'"
  by (cases t; cases c; simp add: opt_clear_def opt_kill_def owns_clear host_wf_clear host_wf_signal)+

end
