(* ===== verification/VoidFs.thy ===== *)
theory VoidFs
  imports VoidPath VoidTime VoidHost VoidTypes
begin

text \<open>
  kernel/src/capabilities/fs.ts over a model of the host's file tree. A path of the host is the
  list of its segments from \<open>/\<close>; a file holds its text, a directory its entries in the order
  \<open>readdir\<close> gives them. There are no symbolic links, permissions or I/O errors in the model, and
  the steps of one handler are not interleaved with another call. \<open>env\<close> holds what a handler
  learns from the host while it runs.
\<close>

section \<open>The host's file tree\<close>

datatype node = File string int | Dir "(string \<times> node) list" int

datatype errno = ENOENT | ENOTDIR | EISDIR | EEXIST

fun walk_tree :: "string list \<Rightarrow> node \<Rightarrow> errno + node" where
  "walk_tree [] n = Inr n"
| "walk_tree (s # ss) (File c t) = Inl ENOTDIR"
| "walk_tree (s # ss) (Dir es t) =
     (case map_of es s of None \<Rightarrow> Inl ENOENT | Some n \<Rightarrow> walk_tree ss n)"

text \<open>\<open>open(path, O_WRONLY | O_CREAT | O_TRUNC)\<close> and writing the text.\<close>

fun put_file :: "string list \<Rightarrow> string \<Rightarrow> int \<Rightarrow> node \<Rightarrow> errno + node" where
  "put_file [] c now (File c' t) = Inr (File c now)"
| "put_file [] c now (Dir es t) = Inl EISDIR"
| "put_file (s # ss) c now (File c' t) = Inl ENOTDIR"
| "put_file (s # ss) c now (Dir es t) =
     (case map_of es s of
        None \<Rightarrow> if ss = [] then Inr (Dir (es @ [(s, File c now)]) now) else Inl ENOENT
      | Some n \<Rightarrow>
          (case put_file ss c now n of
             Inl e \<Rightarrow> Inl e
           | Inr n' \<Rightarrow> Inr (Dir (AList.update s n' es) t)))"

text \<open>\<open>mkdir(path, { recursive: true })\<close>.\<close>

fun new_dirs :: "string list \<Rightarrow> int \<Rightarrow> node" where
  "new_dirs [] now = Dir [] now"
| "new_dirs (s # ss) now = Dir [(s, new_dirs ss now)] now"

fun make_dirs :: "string list \<Rightarrow> int \<Rightarrow> node \<Rightarrow> errno + node" where
  "make_dirs [] now (File c t) = Inl EEXIST"
| "make_dirs [] now (Dir es t) = Inr (Dir es t)"
| "make_dirs (s # ss) now (File c t) = Inl ENOTDIR"
| "make_dirs (s # ss) now (Dir es t) =
     (case map_of es s of
        None \<Rightarrow> Inr (Dir (es @ [(s, new_dirs ss now)]) now)
      | Some n \<Rightarrow>
          (case make_dirs ss now n of
             Inl e \<Rightarrow> Inl e
           | Inr n' \<Rightarrow> Inr (Dir (AList.update s n' es) t)))"

text \<open>\<open>rm(path, { recursive: true, force: true })\<close>: a missing path is no error.\<close>

fun remove_tree :: "string list \<Rightarrow> int \<Rightarrow> node \<Rightarrow> errno + node" where
  "remove_tree [] now n = Inr (Dir [] now)"
| "remove_tree (s # ss) now (File c t) = Inl ENOTDIR"
| "remove_tree (s # ss) now (Dir es t) =
     (case map_of es s of
        None \<Rightarrow> Inr (Dir es t)
      | Some n \<Rightarrow>
          if ss = [] then Inr (Dir (AList.delete s es) now)
          else (case remove_tree ss now n of
                  Inl e \<Rightarrow> Inl e
                | Inr n' \<Rightarrow> Inr (Dir (AList.update s n' es) t)))"

fun errno_str :: "errno \<Rightarrow> string" where
  "errno_str ENOENT = ''ENOENT: no such file or directory''"
| "errno_str ENOTDIR = ''ENOTDIR: not a directory''"
| "errno_str EISDIR = ''EISDIR: illegal operation on a directory''"
| "errno_str EEXIST = ''EEXIST: file already exists''"

definition fs_error :: "errno \<Rightarrow> string \<Rightarrow> string \<Rightarrow> string" where
  "fs_error e call path = errno_str e @ '', '' @ call @ [CHR 0x20, CHR 0x27] @ path @ [CHR 0x27]"

section \<open>node:fs/promises\<close>

record env =
  en_now :: int                      \<comment> \<open>the clock\<close>
  en_cwd :: string                   \<comment> \<open>the working directory of the kernel\<close>
  en_message :: "string \<Rightarrow> string"   \<comment> \<open>the engine's message for a refused argument\<close>
  en_dir_size :: int                 \<comment> \<open>the size the host reports of a directory\<close>

definition path_segs :: "string \<Rightarrow> string list" where
  "path_segs full = filter (\<lambda>s. s \<noteq> []) (split_slash full)"

definition has_nul :: "string \<Rightarrow> bool" where
  "has_nul full \<longleftrightarrow> CHR 0x00 \<in> set full"

definition read_file :: "'e env_scheme \<Rightarrow> string \<Rightarrow> node \<Rightarrow> string result" where
  "read_file env full tree =
     (if has_nul full then throw (en_message env full)
      else case walk_tree (path_segs full) tree of
        Inl e \<Rightarrow> throw (fs_error e ''open'' full)
      | Inr (Dir es t) \<Rightarrow> throw (errno_str EISDIR @ '', read'')
      | Inr (File c t) \<Rightarrow> return c)"

definition stat_path :: "'e env_scheme \<Rightarrow> string \<Rightarrow> node \<Rightarrow> node result" where
  "stat_path env full tree =
     (if has_nul full then throw (en_message env full)
      else case walk_tree (path_segs full) tree of
        Inl e \<Rightarrow> throw (fs_error e ''stat'' full)
      | Inr n \<Rightarrow> return n)"

definition read_dir :: "'e env_scheme \<Rightarrow> string \<Rightarrow> node \<Rightarrow> (string \<times> node) list result" where
  "read_dir env full tree =
     (if has_nul full then throw (en_message env full)
      else case walk_tree (path_segs full) tree of
        Inl e \<Rightarrow> throw (fs_error e ''scandir'' full)
      | Inr (File c t) \<Rightarrow> throw (fs_error ENOTDIR ''scandir'' full)
      | Inr (Dir es t) \<Rightarrow> return es)"

definition write_file :: "'e env_scheme \<Rightarrow> string \<Rightarrow> string \<Rightarrow> node \<Rightarrow> unit result \<times> node" where
  "write_file env full c tree =
     (if has_nul full then (throw (en_message env full), tree)
      else case put_file (path_segs full) c (en_now env) tree of
        Inl e \<Rightarrow> (throw (fs_error e ''open'' full), tree)
      | Inr tree' \<Rightarrow> (return (), tree'))"

definition mkdir_p :: "'e env_scheme \<Rightarrow> string \<Rightarrow> node \<Rightarrow> unit result \<times> node" where
  "mkdir_p env full tree =
     (if has_nul full then (throw (en_message env full), tree)
      else case make_dirs (path_segs full) (en_now env) tree of
        Inl e \<Rightarrow> (throw (fs_error e ''mkdir'' full), tree)
      | Inr tree' \<Rightarrow> (return (), tree'))"

definition rm_rf :: "'e env_scheme \<Rightarrow> string \<Rightarrow> node \<Rightarrow> unit result \<times> node" where
  "rm_rf env full tree =
     (if has_nul full then (throw (en_message env full), tree)
      else case remove_tree (path_segs full) (en_now env) tree of
        Inl e \<Rightarrow> (throw (fs_error e ''lstat'' full), tree)
      | Inr tree' \<Rightarrow> (return (), tree'))"

text \<open>\<open>dirname\<close> of a canonical absolute path, \<open>Buffer.byteLength\<close>, \<open>isDirectory\<close>.\<close>

definition dirname :: "string \<Rightarrow> string" where
  "dirname full = abs_path (butlast (path_segs full))"

definition byte_length :: "string \<Rightarrow> nat" where
  "byte_length s = sum_list (map (\<lambda>c. if (of_char c :: nat) < 128 then 1 else 2) s)"

fun is_dir :: "node \<Rightarrow> bool" where
  "is_dir (File c t) = False"
| "is_dir (Dir es t) = True"

definition kind_of :: "node \<Rightarrow> string" where
  "kind_of n = (if is_dir n then ''dir'' else ''file'')"

section \<open>The fs capabilities\<close>

text \<open>Parameters that the schema makes strings, present or not.\<close>

definition arg_str :: "string \<Rightarrow> jobject \<Rightarrow> string" where
  "arg_str k args = (case map_of args k of Some (JStr s) \<Rightarrow> s | _ \<Rightarrow> [])"

definition fs_read :: "'e env_scheme \<Rightarrow> string \<Rightarrow> jobject \<Rightarrow> node \<Rightarrow> json result \<times> node" where
  "fs_read env rootfs args tree =
     (let path = arg_str ''path'' args in
      case resolve_in (en_cwd env) rootfs path of
        Inl e \<Rightarrow> (throw e, tree)
      | Inr full \<Rightarrow>
          (case read_file env full tree of
             Inl e \<Rightarrow> (throw e, tree)
           | Inr c \<Rightarrow> (return (JObj [(''path'', JStr path), (''content'', JStr c)]), tree)))"

definition fs_write :: "'e env_scheme \<Rightarrow> string \<Rightarrow> jobject \<Rightarrow> node \<Rightarrow> json result \<times> node" where
  "fs_write env rootfs args tree =
     (let path = arg_str ''path'' args; content = arg_str ''content'' args in
      case resolve_in (en_cwd env) rootfs path of
        Inl e \<Rightarrow> (throw e, tree)
      | Inr full \<Rightarrow>
          (case mkdir_p env (dirname full) tree of
             (Inl e, tree1) \<Rightarrow> (throw e, tree1)
           | (Inr _, tree1) \<Rightarrow>
               (case write_file env full content tree1 of
                  (Inl e, tree2) \<Rightarrow> (throw e, tree2)
                | (Inr _, tree2) \<Rightarrow>
                    (return (JObj [(''path'', JStr path), (''bytes'', JNum (int (byte_length content)))]),
                     tree2))))"

definition fs_list :: "'e env_scheme \<Rightarrow> string \<Rightarrow> jobject \<Rightarrow> node \<Rightarrow> json result \<times> node" where
  "fs_list env rootfs args tree =
     (let vpath = (if map_of args ''path'' = None then ''/'' else arg_str ''path'' args) in
      case resolve_in (en_cwd env) rootfs vpath of
        Inl e \<Rightarrow> (throw e, tree)
      | Inr full \<Rightarrow>
          (case read_dir env full tree of
             Inl e \<Rightarrow> (throw e, tree)
           | Inr es \<Rightarrow>
               (return (JObj
                  [(''path'', JStr vpath),
                   (''entries'', JArr (map (\<lambda>(name, n). JObj
                      [(''name'', JStr name),
                       (''path'', JStr (path_join
                          [if prefix ''/'' vpath then vpath else slash # vpath, name])),
                       (''kind'', JStr (kind_of n))]) es))]),
                tree)))"

definition fs_stat :: "'e env_scheme \<Rightarrow> string \<Rightarrow> jobject \<Rightarrow> node \<Rightarrow> json result \<times> node" where
  "fs_stat env rootfs args tree =
     (let path = arg_str ''path'' args in
      case resolve_in (en_cwd env) rootfs path of
        Inl e \<Rightarrow> (throw e, tree)
      | Inr full \<Rightarrow>
          (case stat_path env full tree of
             Inl e \<Rightarrow> (throw e, tree)
           | Inr n \<Rightarrow>
               (return (JObj
                  [(''path'', JStr path), (''kind'', JStr (kind_of n)),
                   (''size'', JNum (case n of File c t \<Rightarrow> int (byte_length c) | Dir es t \<Rightarrow> en_dir_size env)),
                   (''mtime'', JStr (iso_string (case n of File c t \<Rightarrow> t | Dir es t \<Rightarrow> t)))]),
                tree)))"

definition fs_remove :: "'e env_scheme \<Rightarrow> string \<Rightarrow> jobject \<Rightarrow> node \<Rightarrow> json result \<times> node" where
  "fs_remove env rootfs args tree =
     (let path = arg_str ''path'' args in
      case resolve_in (en_cwd env) rootfs path of
        Inl e \<Rightarrow> (throw e, tree)
      | Inr full \<Rightarrow>
          (case rm_rf env full tree of
             (Inl e, tree1) \<Rightarrow> (throw e, tree1)
           | (Inr _, tree1) \<Rightarrow>
               (return (JObj [(''path'', JStr path), (''removed'', JBool True)]), tree1)))"


text \<open>The five handlers as one operation.\<close>

datatype fs_op = FsRead | FsWrite | FsList | FsStat | FsRemove

fun fs_call :: "fs_op \<Rightarrow> 'e env_scheme \<Rightarrow> string \<Rightarrow> jobject \<Rightarrow> node \<Rightarrow> json result \<times> node" where
  "fs_call FsRead = fs_read"
| "fs_call FsWrite = fs_write"
| "fs_call FsList = fs_list"
| "fs_call FsStat = fs_stat"
| "fs_call FsRemove = fs_remove"

section \<open>Files by path\<close>

text \<open>The abstract view of a tree: which paths are files, and their text.\<close>

fun file_at :: "string list \<Rightarrow> node \<Rightarrow> string option" where
  "file_at [] (File c t) = Some c"
| "file_at [] (Dir es t) = None"
| "file_at (s # ss) (File c t) = None"
| "file_at (s # ss) (Dir es t) = (case map_of es s of None \<Rightarrow> None | Some n \<Rightarrow> file_at ss n)"

lemma file_at_walk: "file_at p n = Some c \<Longrightarrow> \<exists>t. walk_tree p n = Inr (File c t)"
  by (induction p n rule: file_at.induct) (auto split: option.splits)

lemma file_at_File: "file_at q (File c t) = (if q = [] then Some c else None)"
  by (cases q) auto

lemma file_at_put:
  "put_file p c now n = Inr n' \<Longrightarrow> file_at q n' = (if q = p then Some c else file_at q n)"
proof (induction p c now n arbitrary: n' q rule: put_file.induct)
  case (4 s ss c now es t)
  then show ?case
    by (cases q) (auto simp: update_conv' map_of_snoc file_at_File split: option.splits if_splits sum.splits)
qed (auto simp: file_at_File)

lemma file_at_new_dirs: "file_at q (new_dirs ss now) = None"
  by (induction ss arbitrary: q) (case_tac q; simp)+

lemma file_at_make_dirs: "make_dirs p now n = Inr n' \<Longrightarrow> file_at q n' = file_at q n"
proof (induction p now n arbitrary: n' q rule: make_dirs.induct)
  case (4 s ss now es t)
  then show ?case
    by (cases q) (auto simp: update_conv' map_of_snoc file_at_new_dirs split: option.splits sum.splits if_splits)
qed auto

lemma file_at_remove:
  "remove_tree p now n = Inr n' \<Longrightarrow> p \<noteq> [] \<Longrightarrow>
   file_at q n' = (if prefix p q then None else file_at q n)"
proof (induction p now n arbitrary: n' q rule: remove_tree.induct)
  case (3 s ss now es t)
  then show ?case
    by (cases q) (auto simp: update_conv' delete_conv' split: option.splits if_splits sum.splits)
qed (auto split: if_splits)

lemma path_segs_abs [simp]: "proper ss \<Longrightarrow> path_segs (abs_path ss) = ss"
  by (cases "ss = []") (auto simp: path_segs_def split_abs_path proper_seg_def list_all_iff filter_id_conv)

lemma mkdir_frame: "mkdir_p env full tree = (r, tree') \<Longrightarrow> file_at q tree' = file_at q tree"
  by (auto simp: mkdir_p_def dest: file_at_make_dirs split: if_splits sum.splits)

lemma write_frame:
  "write_file env full c tree = (r, tree') \<Longrightarrow>
   file_at q tree' = (if q = path_segs full \<and> r = return () then Some c else file_at q tree)"
  by (auto simp: write_file_def dest: file_at_put split: if_splits sum.splits)

lemma rm_frame:
  "rm_rf env full tree = (r, tree') \<Longrightarrow> path_segs full \<noteq> [] \<Longrightarrow>
   file_at q tree' = (if prefix (path_segs full) q \<and> r = return () then None else file_at q tree)"
  by (auto simp: rm_rf_def dest: file_at_remove split: if_splits sum.splits)

text \<open>What a resolved path is, for all handlers.\<close>

lemma resolved:
  assumes "proper rs" "rs \<noteq> []" "resolve_in cwd (abs_path rs) p = Inr full"
  obtains ss where "virtual_segs rs p = Some ss" "full = abs_path ss" "path_segs full = ss"
    "prefix rs ss" "\<not> prefix (rs @ [''.void'']) ss" "ss \<noteq> []"
proof -
  from resolve_in_result [OF assms] obtain ss where ss: "virtual_segs rs p = Some ss" "full = abs_path ss"
    by blast
  then have w: "ss = walk rs (clean_path p)" "prefix rs ss" "\<not> prefix (rs @ [''.void'']) ss"
    by (auto simp: virtual_segs_def Let_def split: if_splits)
  have "proper ss" using walk_proper [OF assms(1)] w(1) by simp
  with ss(2) have "path_segs full = ss" by simp
  moreover have "ss \<noteq> []" using w(2) assms(2) by auto
  ultimately show thesis using that ss w by blast
qed

lemma fs_write_effect:
  assumes "proper rs" "rs \<noteq> []" "fs_write env (abs_path rs) args tree = (r, tree')"
  shows "file_at q tree' = file_at q tree \<or>
    (\<exists>v. r = Inr v \<and> virtual_segs rs (arg_str ''path'' args) = Some q \<and> file_at q tree' = Some (arg_str ''content'' args))"
  using assms(3)
  by (auto simp: fs_write_def Let_def split: sum.splits prod.splits
      dest!: mkdir_frame [where q = q] write_frame [where q = q] elim!: resolved [OF assms(1,2)] split: if_splits)


lemma fs_remove_effect:
  assumes "proper rs" "rs \<noteq> []" "fs_remove env (abs_path rs) args tree = (r, tree')"
  shows "file_at q tree' = file_at q tree \<or>
    (\<exists>ss. virtual_segs rs (arg_str ''path'' args) = Some ss \<and> prefix rs ss \<and>
       \<not> prefix (rs @ [''.void'']) ss \<and> prefix ss q)"
proof (cases "resolve_in (en_cwd env) (abs_path rs) (arg_str ''path'' args)")
  case (Inr full)
  obtain ss where ss: "virtual_segs rs (arg_str ''path'' args) = Some ss" "path_segs full = ss"
    "prefix rs ss" "\<not> prefix (rs @ [''.void'']) ss" "ss \<noteq> []"
    using resolved [OF assms(1,2) Inr] by blast
  obtain r1 tree1 where rm: "rm_rf env full tree = (r1, tree1)" by fastforce
  then have "tree' = tree1" using assms(3) Inr by (auto simp: fs_remove_def split: sum.splits)
  with rm_frame [OF rm, of q] ss show ?thesis by auto
qed (use assms(3) in \<open>simp add: fs_remove_def\<close>)

lemma fs_reads_keep: "op \<in> {FsRead, FsList, FsStat} \<Longrightarrow> snd (fs_call op env rootfs args tree) = tree"
  by (auto simp: fs_read_def fs_list_def fs_stat_def Let_def split: sum.splits)

lemma fs_read_at:
  assumes "resolve_in (en_cwd env) rootfs (arg_str ''path'' args) = Inr full" "\<not> has_nul full"
    and "file_at (path_segs full) tree = Some c"
  shows "fs_read env rootfs args tree =
    (return (JObj [(''path'', JStr (arg_str ''path'' args)), (''content'', JStr c)]), tree)"
proof -
  obtain t where "walk_tree (path_segs full) tree = Inr (File c t)"
    using file_at_walk [OF assms(3)] by blast
  with assms(1,2) show ?thesis by (simp add: fs_read_def read_file_def)
qed

lemma fs_write_success:
  assumes "proper rs" "rs \<noteq> []" "fs_write env (abs_path rs) args tree = (Inr v, tree')"
  obtains full ss where "resolve_in (en_cwd env) (abs_path rs) (arg_str ''path'' args) = Inr full"
    "\<not> has_nul full" "path_segs full = ss" "virtual_segs rs (arg_str ''path'' args) = Some ss"
    "prefix rs ss" "\<not> prefix (rs @ [''.void'']) ss"
    "\<And>q. file_at q tree' = (if q = ss then Some (arg_str ''content'' args) else file_at q tree)"
    "v = JObj [(''path'', JStr (arg_str ''path'' args)), (''bytes'', JNum (int (byte_length (arg_str ''content'' args))))]"
proof -
  obtain full tree1 where full: "resolve_in (en_cwd env) (abs_path rs) (arg_str ''path'' args) = Inr full"
      "mkdir_p env (dirname full) tree = (Inr (), tree1)"
      "write_file env full (arg_str ''content'' args) tree1 = (Inr (), tree')"
      "v = JObj [(''path'', JStr (arg_str ''path'' args)), (''bytes'', JNum (int (byte_length (arg_str ''content'' args))))]"
    using assms(3) by (auto simp: fs_write_def Let_def split: sum.splits prod.splits)
  obtain ss where ss: "virtual_segs rs (arg_str ''path'' args) = Some ss" "path_segs full = ss"
      "prefix rs ss" "\<not> prefix (rs @ [''.void'']) ss"
    using resolved [OF assms(1,2) full(1)] by blast
  have files: "file_at q tree' = (if q = ss then Some (arg_str ''content'' args) else file_at q tree)" for q
    using write_frame [OF full(3), of q] mkdir_frame [OF full(2), of q] ss(2) by simp
  have "\<not> has_nul full" using full(3) by (auto simp: write_file_def split: if_splits)
  from that [OF full(1) this ss(2,1,3,4) files full(4)] show thesis .
qed

text \<open>
  Removing \<open>/\<close> is accepted, and takes the control plane with it: the token, the audit log and
  the memory store.
\<close>

lemma fs_remove_root_takes_control_plane:
  assumes "proper rs" "rs \<noteq> []" "walk_tree rs tree = Inr n" "\<not> has_nul (abs_path rs)"
  shows "\<exists>tree'. fs_remove env (abs_path rs) [(''path'', JStr ''/'')] tree
      = (return (JObj [(''path'', JStr ''/''), (''removed'', JBool True)]), tree') \<and>
    (\<forall>q. prefix rs q \<longrightarrow> file_at q tree' = None)"
proof -
  have "virtual_segs rs ''/'' = Some rs" by (simp add: virtual_segs_def clean_path_def Let_def)
  then have full: "resolve_in (en_cwd env) (abs_path rs) ''/'' = Inr (abs_path rs)"
    by (simp add: resolve_in_segs [OF assms(1,2)])
  have "\<exists>n'. remove_tree p now t = Inr n'" if "walk_tree p t = Inr n" for p now t
    using that
  proof (induction p now t rule: remove_tree.induct)
    case (3 s ss now es t)
    then show ?case by (auto split: option.splits)
  qed auto
  from this [OF assms(3)] obtain n' where n': "remove_tree rs (en_now env) tree = Inr n'" by blast
  with file_at_remove [OF n' assms(2)] assms(1,4) full show ?thesis
    by (simp add: fs_remove_def rm_rf_def arg_str_def)
qed

section \<open>Properties\<close>


definition demo_env :: env where
  "demo_env = \<lparr>en_now = 1000, en_cwd = ''/'', en_message = (\<lambda>s. ''refused''), en_dir_size = 4096\<rparr>"

definition demo_tree :: node where
  "demo_tree =
     Dir [(''etc'', Dir [(''passwd'', File ''root:x'' 1)] 1),
          (''srv'', Dir [(''.void'', Dir [(''operator.token'', File ''secret'' 2)] 2)] 2)] 0"


text \<open>
  A write that reports success is exactly what it says: the file at the resolved path has
  the content, every other file of the host is as it was, and \<open>fs.read\<close> of the path gives the
  content back.
\<close>

theorem fs_write_read:
  assumes "proper rs" "rs \<noteq> []" "fs_write env (abs_path rs) args tree = (Inr v, tree')"
    "path = arg_str ''path'' args" "content = arg_str ''content'' args"
  shows "\<exists>ss. virtual_segs rs path = Some ss \<and>
    (\<forall>q. file_at q tree' = (if q = ss then Some content else file_at q tree)) \<and>
    fs_read env (abs_path rs) args tree' = (return (JObj [(''path'', JStr path), (''content'', JStr content)]), tree')"
  using assms by (auto elim!: fs_write_success intro!: fs_read_at)

theorem fs_write_read_witness:
  "\<exists>tree'. fst (fs_write demo_env ''/srv'' [(''path'', JStr ''/a/b.txt''), (''content'', JStr ''hi'')] demo_tree)
      = Inr (JObj [(''path'', JStr ''/a/b.txt''), (''bytes'', JNum 2)]) \<and>
    fst (fs_read demo_env ''/srv'' [(''path'', JStr ''/a/b.txt''), (''content'', JStr ''hi'')] tree')
      = Inr (JObj [(''path'', JStr ''/a/b.txt''), (''content'', JStr ''hi'')])"
proof -
  let ?args = "[(''path'', JStr ''/a/b.txt''), (''content'', JStr ''hi'')]"
  have ok: "fst (fs_write demo_env ''/srv'' ?args demo_tree) = Inr (JObj [(''path'', JStr ''/a/b.txt''), (''bytes'', JNum 2)])"
    by code_simp
  have root: "abs_path [''srv''] = ''/srv''" by (simp add: abs_path_def)
  obtain tree' where w: "fs_write demo_env (abs_path [''srv'']) ?args demo_tree
      = (Inr (JObj [(''path'', JStr ''/a/b.txt''), (''bytes'', JNum 2)]), tree')"
    using ok root by (metis prod.collapse)
  have "proper [''srv'']" by (simp add: proper_seg_def)
  from fs_write_read [OF this _ w refl refl]
  have "fst (fs_read demo_env (abs_path [''srv'']) ?args tree')
      = Inr (JObj [(''path'', JStr ''/a/b.txt''), (''content'', JStr ''hi'')])"
    by (auto simp: arg_str_def)
  with ok root show ?thesis by auto
qed

end
