(* ===== verification/VoidMemory.thy ===== *)
theory VoidMemory
  imports VoidFs VoidParse
begin

text \<open>
  kernel/src/capabilities/memory.ts: the key/value store behind \<open>memory.*\<close>, one JSON file in the
  control plane that every call reads whole and every change writes whole. A handler is \<open>load\<close>,
  a change of the object, \<open>save\<close>; between the two it waits, so calls can overlap there, which
  \<open>memory_lost_update\<close> uses. The object inherits from \<open>Object.prototype\<close>, so \<open>key in data\<close> also
  holds of the inherited names. A store file that holds JSON other than an object is refused
  by the model (no kernel code writes one).
\<close>

section \<open>The store file\<close>

definition storePath :: "string \<Rightarrow> string" where
  "storePath rootfs = path_join [rootfs, ''.void'', ''memory.json'']"

text \<open>\<open>load\<close>: a file that is missing, unreadable or not JSON counts as empty; None is other JSON.\<close>

definition mem_load :: "'e env_scheme \<Rightarrow> string \<Rightarrow> node \<Rightarrow> jobject option" where
  "mem_load env rootfs tree =
     (case read_file env (storePath rootfs) tree of
        Inl e \<Rightarrow> Some []
      | Inr txt \<Rightarrow>
          (case json_parse txt of
             None \<Rightarrow> Some []
           | Some (JObj ps) \<Rightarrow> Some ps
           | Some v \<Rightarrow> None))"

definition mem_save :: "'e env_scheme \<Rightarrow> string \<Rightarrow> jobject \<Rightarrow> node \<Rightarrow> unit result \<times> node" where
  "mem_save env rootfs data tree =
     (case mkdir_p env (dirname (storePath rootfs)) tree of
        (Inl e, tree1) \<Rightarrow> (throw e, tree1)
      | (Inr _, tree1) \<Rightarrow> write_file env (storePath rootfs) (pretty 0 (JObj data)) tree1)"

definition has_key :: "string \<Rightarrow> jobject \<Rightarrow> bool" where
  "has_key k data \<longleftrightarrow> map_of data k \<noteq> None \<or> k \<in> set inherited_keys"

text \<open>
  The \<open>value\<close> property of a reply as JSON shows it: of the inherited names, \<open>__proto__\<close> is an object
  without own properties and the others are functions, which \<open>JSON.stringify\<close> leaves out.
\<close>

definition value_field :: "string \<Rightarrow> jobject \<Rightarrow> jobject" where
  "value_field k data =
     (case map_of data k of
        Some v \<Rightarrow> [(''value'', v)]
      | None \<Rightarrow>
          if k = ''__proto__'' then [(''value'', JObj [])]
          else if k \<in> set inherited_keys then []
          else [(''value'', JNull)])"

section \<open>The memory capabilities\<close>

definition no_object :: "'e env_scheme \<Rightarrow> string \<Rightarrow> string" where
  "no_object env rootfs = en_message env (storePath rootfs)"

definition memory_set :: "'e env_scheme \<Rightarrow> string \<Rightarrow> jobject \<Rightarrow> node \<Rightarrow> json result \<times> node" where
  "memory_set env rootfs args tree =
     (let k = arg_str ''key'' args;
          v = (case map_of args ''value'' of Some v \<Rightarrow> v | None \<Rightarrow> JNull)
      in case mem_load env rootfs tree of
           None \<Rightarrow> (throw (no_object env rootfs), tree)
         | Some data \<Rightarrow>
             (case mem_save env rootfs (obj_assign k v data) tree of
                (Inl e, tree') \<Rightarrow> (throw e, tree')
              | (Inr _, tree') \<Rightarrow> (return (JObj [(''key'', JStr k), (''stored'', JBool True)]), tree')))"

definition memory_get :: "'e env_scheme \<Rightarrow> string \<Rightarrow> jobject \<Rightarrow> node \<Rightarrow> json result \<times> node" where
  "memory_get env rootfs args tree =
     (let k = arg_str ''key'' args
      in case mem_load env rootfs tree of
           None \<Rightarrow> (throw (no_object env rootfs), tree)
         | Some data \<Rightarrow>
             (return (JObj ([(''key'', JStr k)] @ value_field k data @ [(''found'', JBool (has_key k data))])),
              tree))"

definition memory_list :: "'e env_scheme \<Rightarrow> string \<Rightarrow> jobject \<Rightarrow> node \<Rightarrow> json result \<times> node" where
  "memory_list env rootfs args tree =
     (case mem_load env rootfs tree of
        None \<Rightarrow> (throw (no_object env rootfs), tree)
      | Some data \<Rightarrow> (return (JObj [(''keys'', JArr (map JStr (map_keys data)))]), tree))"

definition memory_delete :: "'e env_scheme \<Rightarrow> string \<Rightarrow> jobject \<Rightarrow> node \<Rightarrow> json result \<times> node" where
  "memory_delete env rootfs args tree =
     (let k = arg_str ''key'' args
      in case mem_load env rootfs tree of
           None \<Rightarrow> (throw (no_object env rootfs), tree)
         | Some data \<Rightarrow>
             (case mem_save env rootfs (AList.delete k data) tree of
                (Inl e, tree') \<Rightarrow> (throw e, tree')
              | (Inr _, tree') \<Rightarrow>
                  (return (JObj [(''key'', JStr k), (''deleted'', JBool (has_key k data))]), tree')))"

datatype mem_op = MemSet | MemGet | MemList | MemDelete

fun memory_call :: "mem_op \<Rightarrow> 'e env_scheme \<Rightarrow> string \<Rightarrow> jobject \<Rightarrow> node \<Rightarrow> json result \<times> node" where
  "memory_call MemSet = memory_set"
| "memory_call MemGet = memory_get"
| "memory_call MemList = memory_list"
| "memory_call MemDelete = memory_delete"

section \<open>Saving and loading\<close>

text \<open>The store as an abstract object, and what each operation does to it.\<close>

fun mem_spec :: "mem_op \<Rightarrow> jobject \<Rightarrow> jobject \<Rightarrow> jobject" where
  "mem_spec MemSet args data =
     obj_assign (arg_str ''key'' args) (case map_of args ''value'' of Some v \<Rightarrow> v | None \<Rightarrow> JNull) data"
| "mem_spec MemDelete args data = AList.delete (arg_str ''key'' args) data"
| "mem_spec op args data = data"

lemma mem_load_ok: "mem_load env rootfs tree = Some data \<Longrightarrow> json_ok (JObj data)"
  by (auto simp: mem_load_def json_ok_object simp del: json_ok.simps(4) dest!: json_parse_ok
      split: sum.splits option.splits json.splits)

text \<open>A file of the control plane.\<close>

lemma control_path:
  assumes "proper rs" "rs \<noteq> []" "proper_seg name"
  shows "path_join [abs_path rs, ''.void'', name] = abs_path (rs @ [''.void'', name])"
proof -
  let ?ts = "[''.void'', name]"
  let ?ss = "rs @ ?ts"
  have ss: "proper ?ss" using assms(1,3) by (simp add: proper_seg_def)
  have name: "name \<noteq> []" "last name \<noteq> slash"
    using assms(3) unfolding proper_seg_def by (simp, metis last_in_set)
  have "join_with [slash] [abs_path rs, ''.void'', name] = abs_path ?ss"
    using abs_path_append [OF assms(2), of ?ts] by simp
  moreover have "normalize_string False (abs_path ?ss) = join_with [slash] ?ss"
    using fold_push_abs_path [OF ss] by (simp add: normalize_string_def)
  moreover have "last (abs_path ?ss) \<noteq> slash" "join_with [slash] ?ss \<noteq> []"
    using abs_path_append [OF assms(2), of ?ts] join_append [OF assms(2), of ?ts "[slash]"] name by simp_all
  ultimately show ?thesis
    using name by (simp add: path_join_def path_normalize_def) (simp add: abs_path_def)
qed

lemma store_path:
  assumes "proper rs" "rs \<noteq> []"
  shows "storePath (abs_path rs) = abs_path (rs @ [''.void'', ''memory.json''])"
  using control_path [OF assms] by (simp add: storePath_def proper_seg_def)

lemma mem_save_load:
  assumes "mem_save env rootfs data tree = (Inr (), tree')" "json_ok (JObj data)"
  shows "mem_load env' rootfs tree' = Some data \<and>
    (\<forall>q. q \<noteq> path_segs (storePath rootfs) \<longrightarrow> file_at q tree' = file_at q tree)"
proof -
  obtain tree1 where w: "mkdir_p env (dirname (storePath rootfs)) tree = (Inr (), tree1)"
      "write_file env (storePath rootfs) (pretty 0 (JObj data)) tree1 = (Inr (), tree')"
    using assms(1) by (auto simp: mem_save_def split: prod.splits sum.splits)
  have frame: "file_at q tree' = (if q = path_segs (storePath rootfs) then Some (pretty 0 (JObj data)) else file_at q tree)" for q
    using write_frame [OF w(2), of q] mkdir_frame [OF w(1), of q] by simp
  then obtain t where "walk_tree (path_segs (storePath rootfs)) tree' = Inr (File (pretty 0 (JObj data)) t)"
    using file_at_walk [of "path_segs (storePath rootfs)" tree'] by auto
  moreover have "\<not> has_nul (storePath rootfs)" using w(2) by (auto simp: write_file_def split: if_splits)
  ultimately have "mem_load env' rootfs tree' = Some data"
    using json_pretty_roundtrip [OF assms(2)] by (simp add: mem_load_def read_file_def)
  with frame show ?thesis by simp
qed

lemma mem_spec_ok:
  assumes "json_ok (JObj data)" "\<forall>v. map_of args ''value'' = Some v \<longrightarrow> json_ok v"
  shows "json_ok (JObj (mem_spec op args data))"
  using assms by (cases op) (auto simp: json_ok_assign json_ok_delete simp del: json_ok.simps(4) split: option.split)

lemma memory_call_saves:
  assumes "memory_call op env rootfs args tree = (Inr r, tree')" "op \<in> {MemSet, MemDelete}"
    "mem_load env rootfs tree = Some data"
  shows "mem_save env rootfs (mem_spec op args data) tree = (Inr (), tree')"
  using assms by (auto simp: memory_set_def memory_delete_def Let_def split: prod.splits sum.splits)

lemma memory_call_reads:
  "op \<in> {MemGet, MemList} \<Longrightarrow> snd (memory_call op env rootfs args tree) = tree"
  by (auto simp: memory_get_def memory_list_def Let_def split: option.split)

section \<open>Properties\<close>



text \<open>
  Two calls of \<open>memory.set\<close> that overlap (both load before either saves) lose one of the two
  values, although both report success.
\<close>

theorem memory_lost_update:
  assumes "mem_load env rootfs tree = Some data" "json_ok w"
    and "mem_save env rootfs (obj_assign k v data) tree = (Inr (), tree1)"
    and "mem_save env rootfs (obj_assign k' w data) tree1 = (Inr (), tree2)"
    and "k \<noteq> k'"
  shows "\<exists>final. mem_load env rootfs tree2 = Some final \<and> map_of final k = map_of data k"
proof -
  have "json_ok (JObj (obj_assign k' w data))"
    using json_ok_assign [OF mem_load_ok [OF assms(1)] assms(2)] .
  with mem_save_load [OF assms(4)] have "mem_load env rootfs tree2 = Some (obj_assign k' w data)" by blast
  moreover have "map_of (obj_assign k' w data) k = map_of data k"
    using assms(5) by (simp add: obj_assign_def obj_define_lookup)
  ultimately show ?thesis by blast
qed

theorem memory_lost_update_witness:
  "\<exists>final. mem_load demo_env ''/srv''
       (snd (mem_save demo_env ''/srv'' [(''b'', JNum 2)] (snd (mem_save demo_env ''/srv'' [(''a'', JNum 1)] demo_tree))))
     = Some final \<and> map_of final ''a'' = None"
proof -
  let ?s1 = "mem_save demo_env ''/srv'' [(''a'', JNum 1)] demo_tree"
  let ?s2 = "mem_save demo_env ''/srv'' [(''b'', JNum 2)] (snd ?s1)"
  have load: "mem_load demo_env ''/srv'' demo_tree = Some []" by code_simp
  have "fst ?s1 = Inr ()" "fst ?s2 = Inr ()" by code_simp+
  then have s: "mem_save demo_env ''/srv'' (obj_assign ''a'' (JNum 1) []) demo_tree = (Inr (), snd ?s1)"
    "mem_save demo_env ''/srv'' (obj_assign ''b'' (JNum 2) []) (snd ?s1) = (Inr (), snd ?s2)"
    by (auto simp: obj_assign_def obj_define_def is_index_def is_digit_def prod_eq_iff)
  show ?thesis using memory_lost_update [OF load _ s] by simp
qed

text \<open>Keys that every object inherits are found although nothing was stored.\<close>

lemma memory_finds_inherited:
  "mem_load env rootfs tree = Some [] \<Longrightarrow>
   memory_get env rootfs [(''key'', JStr ''toString'')] tree =
     (return (JObj [(''key'', JStr ''toString''), (''found'', JBool True)]), tree)"
  by (simp add: memory_get_def arg_str_def value_field_def has_key_def inherited_keys_def)

text \<open>And \<open>__proto__\<close> is reported stored, while the object that is saved does not have it.\<close>

lemma memory_drops_proto:
  "map_of data ''__proto__'' = None \<Longrightarrow>
   mem_spec MemSet [(''key'', JStr ''__proto__''), (''value'', v)] data = data"
  by (simp add: arg_str_def obj_assign_def map_of_eq_None_iff)

end
