(* ===== verification/VoidNet.thy ===== *)
theory VoidNet
  imports VoidFs
begin

text \<open>
  kernel/src/net.ts: static HTTP servers. \<open>serve\<close> has two phases: the call, which checks the name
  and starts listening, and the callback that enters the server into the map. A server is the
  index of its entry, which it shares with its pending callback. Answering one request is one
  step. What node's URL parser and \<open>decodeURIComponent\<close> make of a request target is the
  argument \<open>urlpath\<close>: None where one of them throws, as they do for \<open>/%\<close>.
\<close>

section \<open>State\<close>

definition log_cap :: nat where
  "log_cap = 200"

definition mime :: "(string \<times> string) list" where
  "mime =
     [(''.html'', ''text/html; charset=utf-8''),
      (''.css'', ''text/css; charset=utf-8''),
      (''.js'', ''text/javascript; charset=utf-8''),
      (''.json'', ''application/json; charset=utf-8''),
      (''.txt'', ''text/plain; charset=utf-8''),
      (''.md'', ''text/plain; charset=utf-8''),
      (''.png'', ''image/png''),
      (''.jpg'', ''image/jpeg''),
      (''.svg'', ''image/svg+xml'')]"

record req_log =
  rq_ts :: int
  rq_method :: string
  rq_path :: string
  rq_status :: nat

datatype server_status = Listening | StoppedServer

record server_record =
  ns_name :: string
  ns_port :: int
  ns_host :: string
  ns_serveRoot :: string
  ns_status :: server_status
  ns_requests :: nat
  ns_startedAt :: int

record server_entry = server_record +
  ns_log :: "req_log list"

record net =
  nt_root :: string
  nt_entries :: "server_entry list"
  nt_servers :: "(string \<times> nat) list"
  nt_pending :: "nat list"
  nt_open :: "nat list"
  nt_fatal :: bool

definition new_net :: "string \<Rightarrow> net" where
  "new_net rootfs = \<lparr>nt_root = rootfs, nt_entries = [], nt_servers = [], nt_pending = [], nt_open = [],
                     nt_fatal = False\<rparr>"

abbreviation server_at :: "net \<Rightarrow> nat \<Rightarrow> server_entry" where
  "server_at s h \<equiv> nt_entries s ! h"

abbreviation server_rec :: "server_entry \<Rightarrow> server_record" where
  "server_rec e \<equiv> server_record.truncate e"

definition set_server :: "nat \<Rightarrow> (server_entry \<Rightarrow> server_entry) \<Rightarrow> net \<Rightarrow> net" where
  "set_server h f s = s\<lparr>nt_entries := (nt_entries s)[h := f (server_at s h)]\<rparr>"

section \<open>Methods\<close>

definition server_exists :: "string \<Rightarrow> string" where
  "server_exists name = ''server already exists: '' @ name @ '' (stop it first)''"

definition no_server :: "string \<Rightarrow> string" where
  "no_server name = ''no such server: '' @ name"

text \<open>\<open>listen\<close> throws at once for a port that is no port; \<open>bad_port\<close> is its message.\<close>

definition net_serve ::
  "(int \<Rightarrow> string) \<Rightarrow> string \<Rightarrow> int \<Rightarrow> string \<Rightarrow> string \<Rightarrow> int \<Rightarrow> net \<Rightarrow> nat result \<times> net" where
  "net_serve bad_port name port serveRoot host now s =
     (if map_of (nt_servers s) name \<noteq> None then (throw (server_exists name), s)
      else if \<not> (0 \<le> port \<and> port < 65536) then (throw (bad_port port), s)
      else
        let h = length (nt_entries s);
            e = \<lparr>ns_name = name, ns_port = port, ns_host = host, ns_serveRoot = serveRoot,
                 ns_status = Listening, ns_requests = 0, ns_startedAt = now, ns_log = []\<rparr>
        in (return h, s\<lparr>nt_entries := nt_entries s @ [e], nt_pending := nt_pending s @ [h]\<rparr>))"

definition net_listening :: "nat \<Rightarrow> net \<Rightarrow> server_record \<times> net" where
  "net_listening h s =
     (server_rec (server_at s h),
      s\<lparr>nt_pending := removeAll h (nt_pending s), nt_open := nt_open s @ [h],
        nt_servers := AList.update (ns_name (server_at s h)) h (nt_servers s)\<rparr>)"

definition net_error :: "nat \<Rightarrow> net \<Rightarrow> net" where
  "net_error h s = s\<lparr>nt_pending := removeAll h (nt_pending s)\<rparr>"

definition net_list :: "net \<Rightarrow> server_record list" where
  "net_list s = map (\<lambda>h. server_rec (server_at s h)) (map_values (nt_servers s))"

definition net_get :: "string \<Rightarrow> net \<Rightarrow> server_record result" where
  "net_get name s =
     (case map_of (nt_servers s) name of
        None \<Rightarrow> throw (no_server name)
      | Some h \<Rightarrow> return (server_rec (server_at s h)))"

definition net_requests :: "string \<Rightarrow> int \<Rightarrow> net \<Rightarrow> req_log list result" where
  "net_requests name limit s =
     (case map_of (nt_servers s) name of
        None \<Rightarrow> throw (no_server name)
      | Some h \<Rightarrow> return (slice_from (- limit) (ns_log (server_at s h))))"

definition net_stop :: "string \<Rightarrow> net \<Rightarrow> server_record result \<times> net" where
  "net_stop name s =
     (case map_of (nt_servers s) name of
        None \<Rightarrow> (throw (no_server name), s)
      | Some h \<Rightarrow>
          let s1 = set_server h (\<lambda>e. e\<lparr>ns_status := StoppedServer\<rparr>) s
          in (return (server_rec (server_at s1 h)),
              s1\<lparr>nt_open := removeAll h (nt_open s1), nt_servers := AList.delete name (nt_servers s1)\<rparr>))"

definition net_shutdown :: "net \<Rightarrow> net" where
  "net_shutdown s = s\<lparr>nt_open := filter (\<lambda>h. h \<notin> set (map_values (nt_servers s))) (nt_open s)\<rparr>"

section \<open>Answering a request\<close>

text \<open>\<open>extname\<close>: from the last dot of the last segment, unless that dot is its first character.\<close>

definition base_name :: "string \<Rightarrow> string" where
  "base_name p = rev (takeWhile (\<lambda>c. c \<noteq> slash) (rev p))"

definition extname :: "string \<Rightarrow> string" where
  "extname p =
     (let b = base_name p; suffix = rev (takeWhile (\<lambda>c. c \<noteq> CHR ''.'') (rev b))
      in if length suffix + 1 < length b \<and> b \<noteq> ''..'' then CHR ''.'' # suffix else [])"

datatype http_response = Response (status_of: nat) (content_type: string) (body_of: string)

definition content_type_for :: "string \<Rightarrow> string" where
  "content_type_for full =
     (case map_of mime (extname full) of Some t \<Rightarrow> t | None \<Rightarrow> ''application/octet-stream'')"

definition not_found :: http_response where
  "not_found = Response 404 ''text/plain; charset=utf-8'' (''voidOS: not found'' @ [CHR 0x0A])"

text \<open>The \<open>try\<close> block: the file at the resolved path, or the index page of a directory.\<close>

definition serve_path :: "'e env_scheme \<Rightarrow> string \<Rightarrow> string \<Rightarrow> string \<Rightarrow> node \<Rightarrow> http_response" where
  "serve_path env rootfs serveRoot urlPath tree =
     (case resolve_in (en_cwd env) rootfs (path_join [serveRoot, urlPath]) of
        Inl e \<Rightarrow> not_found
      | Inr full0 \<Rightarrow>
          (case stat_path env full0 tree of
             Inl e \<Rightarrow> not_found
           | Inr n \<Rightarrow>
               let full = (if is_dir n then path_join [full0, ''index.html''] else full0)
               in case stat_path env full tree of
                    Inl e \<Rightarrow> not_found
                  | Inr n' \<Rightarrow>
                      (case read_file env full tree of
                         Inl e \<Rightarrow> not_found
                       | Inr body \<Rightarrow> Response 200 (content_type_for full) body)))"

definition log_request :: "req_log \<Rightarrow> server_entry \<Rightarrow> server_entry" where
  "log_request r e =
     (let l = ns_log e @ [r]
      in e\<lparr>ns_requests := ns_requests e + 1, ns_log := (if length l > log_cap then tl l else l)\<rparr>)"

text \<open>
  \<open>handle\<close> of the server with handle \<open>h\<close>: a target that the parser or the decoder rejects is an
  unhandled rejection, which ends the kernel; the log entry goes to whatever server has the
  name now.
\<close>

definition net_handle ::
  "'e env_scheme \<Rightarrow> (string \<Rightarrow> string option) \<Rightarrow> nat \<Rightarrow> string \<Rightarrow> string \<Rightarrow> node \<Rightarrow> net
     \<Rightarrow> http_response option \<times> net" where
  "net_handle env urlpath h meth url tree s =
     (case urlpath url of
        None \<Rightarrow> (None, s\<lparr>nt_fatal := True\<rparr>)
      | Some path \<Rightarrow>
          (let resp = serve_path env (nt_root s) (ns_serveRoot (server_at s h)) path tree;
               r = \<lparr>rq_ts = en_now env, rq_method = meth, rq_path = path, rq_status = status_of resp\<rparr>
           in (Some resp,
               case map_of (nt_servers s) (ns_name (server_at s h)) of
                 None \<Rightarrow> s
               | Some h' \<Rightarrow> set_server h' (log_request r) s)))"

section \<open>The machine\<close>

datatype net_event =
    NServe string int string string int
  | NListening nat
  | NError nat
  | NStop string
  | NShutdown
  | NRequest nat string string env node

fun net_step :: "(int \<Rightarrow> string) \<Rightarrow> (string \<Rightarrow> string option) \<Rightarrow> net_event \<Rightarrow> net \<Rightarrow> net" where
  "net_step bad_port urlpath (NServe name port serveRoot host now) s =
     snd (net_serve bad_port name port serveRoot host now s)"
| "net_step bad_port urlpath (NListening h) s = snd (net_listening h s)"
| "net_step bad_port urlpath (NError h) s = net_error h s"
| "net_step bad_port urlpath (NStop name) s = snd (net_stop name s)"
| "net_step bad_port urlpath NShutdown s = net_shutdown s"
| "net_step bad_port urlpath (NRequest h meth url env tree) s = snd (net_handle env urlpath h meth url tree s)"

text \<open>A callback comes once for a server that is starting, a request only to an open one.\<close>

fun net_enabled :: "net_event \<Rightarrow> net \<Rightarrow> bool" where
  "net_enabled (NListening h) s = (\<not> nt_fatal s \<and> h \<in> set (nt_pending s))"
| "net_enabled (NError h) s = (\<not> nt_fatal s \<and> h \<in> set (nt_pending s))"
| "net_enabled (NRequest h meth url env tree) s = (\<not> nt_fatal s \<and> h \<in> set (nt_open s))"
| "net_enabled e s = (\<not> nt_fatal s)"

text \<open>
  The invariant: handles name entries; a starting server is not yet open; a named server has
  that name and is listening; the log of a server holds its last \<open>log_cap\<close> requests.
\<close>

definition log_ok :: "server_entry \<Rightarrow> bool" where
  "log_ok e \<longleftrightarrow> length (ns_log e) = min log_cap (ns_requests e) \<and>
     list_all (\<lambda>r. rq_status r \<in> {200, 404}) (ns_log e)"

definition net_inv :: "net \<Rightarrow> bool" where
  "net_inv s \<longleftrightarrow>
     map_wf (nt_servers s) \<and> distinct (nt_pending s) \<and> distinct (nt_open s) \<and>
     set (nt_pending s) \<inter> set (nt_open s) = {} \<and>
     (\<forall>h \<in> set (nt_pending s) \<union> set (nt_open s). h < length (nt_entries s)) \<and>
     (\<forall>h \<in> set (nt_pending s). ns_status (server_at s h) = Listening) \<and>
     (\<forall>h < length (nt_entries s). log_ok (server_at s h)) \<and>
     (\<forall>name h. map_of (nt_servers s) name = Some h \<longrightarrow>
        h < length (nt_entries s) \<and> h \<notin> set (nt_pending s) \<and> ns_name (server_at s h) = name \<and>
        ns_status (server_at s h) = Listening)"


lemma net_invI:
  assumes "map_wf (nt_servers s)" "distinct (nt_pending s)" "distinct (nt_open s)"
    "set (nt_pending s) \<inter> set (nt_open s) = {}"
    "\<And>h. h \<in> set (nt_pending s) \<union> set (nt_open s) \<Longrightarrow> h < length (nt_entries s)"
    "\<And>h. h \<in> set (nt_pending s) \<Longrightarrow> ns_status (server_at s h) = Listening"
    "\<And>h. h < length (nt_entries s) \<Longrightarrow> log_ok (server_at s h)"
    "\<And>name h. map_of (nt_servers s) name = Some h \<Longrightarrow>
       h < length (nt_entries s) \<and> h \<notin> set (nt_pending s) \<and> ns_name (server_at s h) = name \<and>
       ns_status (server_at s h) = Listening"
  shows "net_inv s"
  using assms by (simp add: net_inv_def)

lemma net_invD:
  assumes "net_inv s"
  shows "map_wf (nt_servers s)" "distinct (nt_pending s)" "distinct (nt_open s)"
    "set (nt_pending s) \<inter> set (nt_open s) = {}"
    "h \<in> set (nt_pending s) \<union> set (nt_open s) \<Longrightarrow> h < length (nt_entries s)"
    "h \<in> set (nt_pending s) \<Longrightarrow> ns_status (server_at s h) = Listening"
    "h < length (nt_entries s) \<Longrightarrow> log_ok (server_at s h)"
    "map_of (nt_servers s) name = Some h \<Longrightarrow>
       h < length (nt_entries s) \<and> h \<notin> set (nt_pending s) \<and> ns_name (server_at s h) = name \<and>
       ns_status (server_at s h) = Listening"
  using assms by (simp_all add: net_inv_def)

lemma set_server_fields [simp]:
  "nt_servers (set_server h f s) = nt_servers s" "nt_pending (set_server h f s) = nt_pending s"
  "nt_open (set_server h f s) = nt_open s" "nt_fatal (set_server h f s) = nt_fatal s"
  "nt_root (set_server h f s) = nt_root s" "length (nt_entries (set_server h f s)) = length (nt_entries s)"
  by (simp_all add: set_server_def)

lemma set_server_at:
  "h < length (nt_entries s) \<Longrightarrow> server_at (set_server h f s) h' = (if h' = h then f (server_at s h) else server_at s h')"
  by (simp add: set_server_def)

lemma serve_path_status: "status_of (serve_path env rootfs serveRoot path tree) \<in> {200, 404}"
  by (simp add: serve_path_def not_found_def Let_def split: sum.split)

lemma log_request_ok:
  assumes "log_ok e" "rq_status r \<in> {200, 404}"
  shows "log_ok (log_request r e)"
proof -
  have "list_all P (tl xs)" if "list_all P xs" for P and xs :: "req_log list"
    using that by (cases xs) auto
  with assms show ?thesis by (auto simp: log_ok_def log_request_def Let_def log_cap_def)
qed

lemma log_request_fields [simp]:
  "ns_name (log_request r e) = ns_name e" "ns_status (log_request r e) = ns_status e"
  by (simp_all add: log_request_def Let_def)

lemma net_inv_serve: "net_inv s \<Longrightarrow> net_inv (snd (net_serve bp name port sroot host now s))"
proof (cases "map_of (nt_servers s) name \<noteq> None \<or> \<not> (0 \<le> port \<and> port < 65536)")
  case False
  assume inv: "net_inv s"
  note I = net_invD [OF inv]
  have old: "h \<noteq> length (nt_entries s)" if "h \<in> set (nt_pending s) \<union> set (nt_open s)" for h
    using I(5) [OF that] by simp
  show ?thesis
  proof (rule net_invI, goal_cases)
    case (8 n h)
    with False I(8) [of n h] show ?case by (simp add: net_serve_def Let_def nth_append)
  qed (use False I old in \<open>auto simp: net_serve_def Let_def nth_append less_Suc_eq log_ok_def\<close>)
qed (auto simp: net_serve_def)

lemma net_inv_listening:
  assumes "net_inv s" "h \<in> set (nt_pending s)"
  shows "net_inv (snd (net_listening h s))"
proof -
  note I = net_invD [OF assms(1)]
  show ?thesis
  proof (rule net_invI, goal_cases)
    case (8 n h')
    with assms(2) I(5) [of h] I(6) [of h] I(8) [of n h'] show ?case
      by (auto simp: net_listening_def jm.lookup_store split: if_splits)
  qed (use I assms(2) in \<open>auto simp: net_listening_def distinct_removeAll\<close>)
qed

lemma net_inv_error: "net_inv s \<Longrightarrow> net_inv (net_error h s)"
  by (auto simp: net_inv_def net_error_def distinct_removeAll)

lemma net_inv_shutdown: "net_inv s \<Longrightarrow> net_inv (net_shutdown s)"
  by (auto simp: net_inv_def net_shutdown_def)

lemma net_inv_stop:
  assumes "net_inv s"
  shows "net_inv (snd (net_stop name s))"
proof (cases "map_of (nt_servers s) name")
  case (Some h)
  note I = net_invD [OF assms]
  note h = I(8) [OF Some]
  show ?thesis
  proof (rule net_invI, goal_cases)
    case (6 h')
    then show ?case using Some h I(6) [of h'] by (auto simp: net_stop_def Let_def set_server_at)
  next
    case (7 h')
    then show ?case using Some h I(7) [of h'] I(7) [of h]
      by (auto simp: net_stop_def Let_def set_server_at log_ok_def)
  next
    case (8 n h')
    then have "n \<noteq> name" "map_of (nt_servers s) n = Some h'"
      using Some by (auto simp: net_stop_def Let_def jm.lookup_remove split: if_splits)
    with I(8) [of n h'] h have "h' \<noteq> h" by auto
    with I(8) [of n h'] \<open>map_of (nt_servers s) n = Some h'\<close> Some h show ?case
      by (simp add: net_stop_def Let_def set_server_at)
  qed (use Some I in \<open>auto simp: net_stop_def Let_def distinct_removeAll\<close>)
qed (use assms in \<open>simp add: net_stop_def\<close>)

lemma net_inv_set:
  assumes "net_inv s" "h < length (nt_entries s)"
    and "log_ok (f (server_at s h))" "ns_name (f (server_at s h)) = ns_name (server_at s h)"
    "ns_status (f (server_at s h)) = ns_status (server_at s h)"
  shows "net_inv (set_server h f s)"
proof -
  note I = net_invD [OF assms(1)]
  show ?thesis
  proof (rule net_invI, goal_cases)
    case (8 n h')
    with I(8) [of n h'] assms(2,4,5) show ?case by (auto simp: set_server_at)
  qed (use I assms in \<open>auto simp: set_server_at\<close>)
qed

text \<open>Runs end where a request ended the kernel.\<close>

definition net_safe :: "net \<Rightarrow> bool" where
  "net_safe s \<longleftrightarrow> nt_fatal s \<or> net_inv s"

lemma net_safe_step:
  assumes "net_safe s" "net_enabled e s"
  shows "net_safe (net_step bp up e s)"
proof -
  have inv: "net_inv s" using assms by (cases e) (auto simp: net_safe_def)
  show ?thesis
  proof (cases e)
    case (NRequest h meth url env tree)
    show ?thesis
    proof (cases "map_of (nt_servers s) (ns_name (server_at s h))")
      case (Some h')
      note h' = net_invD(8) [OF inv Some]
      have "log_ok (log_request r (server_at s h'))" if "rq_status r \<in> {200, 404}" for r
        using log_request_ok [OF _ that] net_invD(7) [OF inv] h' by blast
      then have "net_inv (set_server h' (log_request r) s)" if "rq_status r \<in> {200, 404}" for r
        using that net_inv_set [OF inv] h' by simp
      with Some NRequest show ?thesis
        using serve_path_status [of env "nt_root s" "ns_serveRoot (server_at s h)" _ tree]
        by (cases "up url") (simp_all add: net_handle_def Let_def net_safe_def)
    qed (use NRequest inv in \<open>auto simp: net_handle_def Let_def net_safe_def split: option.split\<close>)
  qed (use inv assms(2) in \<open>auto simp: net_safe_def net_inv_serve net_inv_listening net_inv_error
      net_inv_stop net_inv_shutdown\<close>)
qed

interpretation netm: event_machine "net_step bp up" net_enabled net_safe for bp up
  by unfold_locales (rule net_safe_step)

lemma net_inv_new: "net_inv (new_net rootfs)"
  by (simp add: net_inv_def new_net_def)

section \<open>What is served\<close>

lemma read_file_at: "read_file env full tree = Inr c \<Longrightarrow> file_at (path_segs full) tree = Some c"
proof -
  have "walk_tree p t = Inr (File c m) \<Longrightarrow> file_at p t = Some c" for p t m
    by (induction p t rule: walk_tree.induct) (auto split: option.splits)
  then show "read_file env full tree = Inr c \<Longrightarrow> ?thesis"
    by (auto simp: read_file_def split: if_splits sum.splits node.splits)
qed

lemma join_below:
  assumes "proper ss" "ss \<noteq> []" "proper_seg x"
  shows "path_join [abs_path ss, x] = abs_path (ss @ [x])"
proof -
  have x: "x \<noteq> []" "slash \<notin> set x" using assms(3) by (simp_all add: proper_seg_def)
  have p: "proper (ss @ [x])" using assms(1,3) by simp
  have a: "abs_path (ss @ [x]) = abs_path ss @ slash # x"
    using abs_path_append [OF assms(2), of "[x]"] by simp
  have "last (abs_path (ss @ [x])) \<noteq> slash" unfolding a using x by (auto dest: last_in_set)
  moreover have "normalize_string False (abs_path (ss @ [x])) = join_with [slash] (ss @ [x])"
    using fold_push_abs_path [OF p] by (simp add: normalize_string_def)
  moreover have "join_with [slash] (ss @ [x]) \<noteq> []" using join_append [OF assms(2), of "[x]" "[slash]"] by simp
  ultimately show ?thesis
    using x a by (simp add: path_join_def path_normalize_def abs_path_def)
qed


section \<open>Properties\<close>

text \<open>
  On every run of calls, callbacks and requests, until a request ends the kernel: a name
  stands for one listening server of that name, and each server's log holds its last 200
  requests, answered 200 or 404.
\<close>

theorem net_runs_safe:
  assumes "runs (net_step bad_port urlpath) net_enabled (new_net rootfs) es"
    and "\<not> nt_fatal (fold (net_step bad_port urlpath) es (new_net rootfs))"
  shows "net_inv (fold (net_step bad_port urlpath) es (new_net rootfs))"
  using netm.run_inv [OF _ assms(1)] assms(2) net_inv_new by (simp add: net_safe_def)

definition net_demo :: "net_event list" where
  "net_demo =
     [NServe ''www'' 8080 ''/pub'' ''0.0.0.0'' 5, NListening 0,
      NRequest 0 ''GET'' ''/..%2fnotes'' demo_env (Dir [(''srv'', Dir [(''notes'', File ''hi'' 1)] 1)] 0),
      NStop ''www'']"

definition demo_urlpath :: "string \<Rightarrow> string option" where
  "demo_urlpath url = (if url = ''/%'' then None else if url = ''/..%2fnotes'' then Some ''/../notes'' else Some url)"

theorem net_runs_safe_witness:
  "net_inv (fold (net_step (\<lambda>p. ''bad port'') demo_urlpath) (take 3 net_demo) (new_net ''/srv''))"
  by (rule net_runs_safe; code_simp)

text \<open>
  C18. An answer never shows more than the rootfs without its control plane: a 200 carries the
  text of a file below the root and outside \<open>.void\<close>, anything else is the fixed 404.
\<close>

theorem net_serves_only_rootfs:
  assumes "proper rs" "rs \<noteq> []" "nt_root s = abs_path rs"
    and "net_handle env urlpath h meth url tree s = (Some resp, s')"
  shows "resp = not_found \<or>
    (\<exists>ss. prefix rs ss \<and> \<not> prefix (rs @ [''.void'']) ss \<and> status_of resp = 200 \<and>
       file_at ss tree = Some (body_of resp))"
proof -
  obtain path where resp: "resp = serve_path env (abs_path rs) (ns_serveRoot (server_at s h)) path tree"
    using assms(3,4) by (auto simp: net_handle_def Let_def split: option.splits)
  show ?thesis
  proof (cases "resolve_in (en_cwd env) (abs_path rs) (path_join [ns_serveRoot (server_at s h), path])")
    case (Inr full)
    obtain ss where ss: "full = abs_path ss" "path_segs full = ss" "prefix rs ss"
      "\<not> prefix (rs @ [''.void'']) ss" "ss \<noteq> []"
      and v: "virtual_segs rs (path_join [ns_serveRoot (server_at s h), path]) = Some ss"
      using resolved [OF assms(1,2) Inr] by blast
    have "proper ss" using v walk_proper [OF assms(1)] by (auto simp: virtual_segs_def Let_def split: if_splits)
    moreover have index: "proper_seg ''index.html''" by (simp add: proper_seg_def)
    ultimately have join: "path_join [full, ''index.html''] = abs_path (ss @ [''index.html''])"
      "path_segs (path_join [full, ''index.html'']) = ss @ [''index.html'']"
      using join_below [OF _ ss(5)] ss(1) by simp_all
    have out: "\<not> prefix (rs @ [''.void'']) (ss @ [''index.html''])" "prefix rs (ss @ [''index.html''])"
      using ss(3,4) by auto
    show ?thesis
    proof (cases "stat_path env full tree")
      case (Inr n)
      define target where "target = (if is_dir n then path_join [full, ''index.html''] else full)"
      have t: "prefix rs (path_segs target)" "\<not> prefix (rs @ [''.void'']) (path_segs target)"
        using ss(2-4) join(2) out by (simp_all add: target_def)
      from \<open>resolve_in _ _ _ = Inr full\<close> Inr resp show ?thesis
        by (auto simp: serve_path_def Let_def simp flip: target_def split: sum.splits
            dest!: read_file_at intro!: t exI [of _ "path_segs target"])
    qed (use Inr resp in \<open>simp add: serve_path_def\<close>)
  qed (use resp in \<open>simp add: serve_path_def\<close>)
qed

definition net_demo_state :: net where
  "net_demo_state = fold (net_step (\<lambda>p. ''bad port'') demo_urlpath) (take 2 net_demo) (new_net ''/srv'')"

theorem net_serves_only_rootfs_witness:
  "\<exists>ss. prefix [''srv''] ss \<and> \<not> prefix [''srv'', ''.void''] ss \<and>
     file_at ss (Dir [(''srv'', Dir [(''notes'', File ''hi'' 1)] 1)] 0) = Some ''hi''"
proof -
  let ?tree = "Dir [(''srv'', Dir [(''notes'', File ''hi'' 1)] 1)] 0"
  let ?s = "snd (net_serve (\<lambda>p. ''bad port'') ''www'' 80 ''/'' ''h'' 1 (new_net ''/srv''))"
  have "fst (net_handle demo_env demo_urlpath 0 ''GET'' ''/notes'' ?tree ?s)
      = Some (Response 200 ''application/octet-stream'' ''hi'')" by code_simp
  then have r: "net_handle demo_env demo_urlpath 0 ''GET'' ''/notes'' ?tree ?s
      = (Some (Response 200 ''application/octet-stream'' ''hi''),
         snd (net_handle demo_env demo_urlpath 0 ''GET'' ''/notes'' ?tree ?s))"
    by (metis prod.collapse)
  have root: "nt_root ?s = abs_path [''srv'']"
    by (simp add: abs_path_def net_serve_def new_net_def Let_def)
  from net_serves_only_rootfs [OF _ _ root r] show ?thesis
    by (auto simp: proper_seg_def not_found_def)
qed

text \<open>
  The directory a server was given is no boundary: an encoded slash survives the URL parser, so
  a target can climb out of it, within the rootfs.
\<close>

lemma net_climbs_out_of_dir:
  "map_option body_of (fst (net_handle demo_env demo_urlpath 0 ''GET'' ''/..%2fnotes''
       (Dir [(''srv'', Dir [(''notes'', File ''hi'' 1), (''pub'', Dir [] 1)] 1)] 0) net_demo_state))
     = Some ''hi'' \<and> ns_serveRoot (server_at net_demo_state 0) = ''/pub''"
  by code_simp

text \<open>A request target that does not decode ends the kernel, whatever the server.\<close>

lemma net_bad_target_is_fatal:
  "urlpath url = None \<Longrightarrow> nt_fatal (snd (net_handle env urlpath h meth url tree s))"
  by (simp add: net_handle_def)

text \<open>
  Two overlapping calls of \<open>serve\<close> with one name both succeed; the first server stays open with
  nothing left to stop it by.
\<close>

lemma net_serve_race:
  "let s = fold (net_step (\<lambda>p. ''bad port'') demo_urlpath)
         [NServe ''www'' 8080 ''/'' ''0.0.0.0'' 1, NServe ''www'' 8081 ''/'' ''0.0.0.0'' 1, NListening 0,
          NListening 1, NStop ''www''] (new_net ''/srv'')
   in nt_open s = [0] \<and> nt_servers s = []"
  by code_simp

end
