(* ===== verification/VoidShell.thy ===== *)
theory VoidShell
  imports VoidFs
begin

text \<open>
  kernel/src/capabilities/shell.ts: \<open>shell.exec\<close> and its backstop. The patterns of
  \<open>destructiveReason\<close> are terms of \<open>rx\<close>; \<open>rx_ends\<close> gives the positions where a match from a
  given position can end, so that \<open>rx_test\<close> is \<open>RegExp.test\<close>, which asks for a match anywhere.
  The fuel of a repetition is the length of what is left: only rounds that advance add
  positions. A command's run is the events of its child up to the one that ends the call.
\<close>

section \<open>Regular expressions\<close>

datatype rx =
    Ch "char \<Rightarrow> bool"
  | Cat rx rx
  | Or rx rx
  | Rep rx
  | Eps
  | Boundary
  | At_end

definition is_word :: "char \<Rightarrow> bool" where
  "is_word c \<longleftrightarrow>
     (let n = (of_char c :: nat)
      in 48 \<le> n \<and> n \<le> 57 \<or> 65 \<le> n \<and> n \<le> 90 \<or> 97 \<le> n \<and> n \<le> 122 \<or> n = 95)"

definition is_blank :: "char \<Rightarrow> bool" where
  "is_blank c \<longleftrightarrow> (let n = (of_char c :: nat) in 9 \<le> n \<and> n \<le> 13 \<or> n = 32 \<or> n = 160)"

definition word_at :: "string \<Rightarrow> nat \<Rightarrow> bool" where
  "word_at s i \<longleftrightarrow> i < length s \<and> is_word (s ! i)"

text \<open>The positions reached by repeated rounds; each round starts from the new ones.\<close>

fun star_ends :: "(nat \<Rightarrow> nat list) \<Rightarrow> nat \<Rightarrow> nat list \<Rightarrow> nat list \<Rightarrow> nat list" where
  "star_ends f 0 seen new = seen"
| "star_ends f (Suc n) seen new =
     (case filter (\<lambda>j. j \<notin> set seen) (remdups (concat (map f new))) of
        [] \<Rightarrow> seen
      | js \<Rightarrow> star_ends f n (seen @ js) js)"

primrec rx_ends :: "rx \<Rightarrow> string \<Rightarrow> nat \<Rightarrow> nat list" where
  "rx_ends (Ch P) s i = (if i < length s \<and> P (s ! i) then [i + 1] else [])"
| "rx_ends (Cat a b) s i = remdups (concat (map (rx_ends b s) (rx_ends a s i)))"
| "rx_ends (Or a b) s i = remdups (rx_ends a s i @ rx_ends b s i)"
| "rx_ends (Rep a) s i =
     star_ends (rx_ends a s) (length s - i) [i] [i]"
| "rx_ends Eps s i = [i]"
| "rx_ends Boundary s i = (if (0 < i \<and> word_at s (i - 1)) \<noteq> word_at s i then [i] else [])"
| "rx_ends At_end s i = (if i = length s then [i] else [])"

definition rx_test :: "rx \<Rightarrow> string \<Rightarrow> bool" where
  "rx_test r s \<longleftrightarrow> list_ex (\<lambda>i. rx_ends r s i \<noteq> []) [0..<length s + 1]"

fun lit :: "string \<Rightarrow> rx" where
  "lit [] = Eps"
| "lit (c # cs) = Cat (Ch (\<lambda>x. x = c)) (lit cs)"

fun one_of :: "rx list \<Rightarrow> rx" where
  "one_of [] = Ch (\<lambda>x. False)"
| "one_of [r] = r"
| "one_of (r # s # rs) = Or r (one_of (s # rs))"

fun seq :: "rx list \<Rightarrow> rx" where
  "seq [] = Eps"
| "seq [r] = r"
| "seq (r # s # rs) = Cat r (seq (s # rs))"

definition blanks :: rx where "blanks = Rep (Ch is_blank)"
definition blanks1 :: rx where "blanks1 = Cat (Ch is_blank) (Rep (Ch is_blank))"

text \<open>\<open>[^|;&]*\<close>, and \<open>[a-z]*\<close> with the \<open>i\<close> flag.\<close>

definition same_command :: rx where
  "same_command = Rep (Ch (\<lambda>c. c \<notin> {CHR ''|'', CHR '';'', CHR ''&''}))"

definition is_letter :: "char \<Rightarrow> bool" where
  "is_letter c \<longleftrightarrow> (let n = (of_char c :: nat) in 65 \<le> n \<and> n \<le> 90 \<or> 97 \<le> n \<and> n \<le> 122)"

definition letters :: rx where "letters = Rep (Ch is_letter)"

definition lower_alnum :: "char \<Rightarrow> bool" where
  "lower_alnum c \<longleftrightarrow> (let n = (of_char c :: nat) in 97 \<le> n \<and> n \<le> 122 \<or> 48 \<le> n \<and> n \<le> 57)"

definition to_lower :: "char \<Rightarrow> char" where
  "to_lower c =
     (let n = (of_char c :: nat)
      in if 65 \<le> n \<and> n \<le> 90 \<or> 192 \<le> n \<and> n \<le> 222 \<and> n \<noteq> 215 then char_of (n + 32) else c)"

text \<open>A literal under the \<open>i\<close> flag.\<close>

fun ilit :: "string \<Rightarrow> rx" where
  "ilit [] = Eps"
| "ilit (c # cs) = Cat (Ch (\<lambda>x. to_lower x = c)) (ilit cs)"

definition words :: "string list \<Rightarrow> rx" where
  "words ws = seq [Boundary, one_of (map lit ws), Boundary]"

section \<open>destructiveReason\<close>

definition disk_device :: rx where
  "disk_device = Cat (lit ''/dev/'') (one_of (map lit [''sd'', ''nvme'', ''vd'', ''mmcblk'', ''hd'', ''disk'']))"

definition power_off :: "string \<Rightarrow> bool" where
  "power_off c \<longleftrightarrow>
     rx_test (words [''shutdown'', ''poweroff'', ''halt'']) c \<or>
     rx_test (words [''reboot'']) c \<or>
     rx_test (seq [Boundary, lit ''init'', blanks1, Ch (\<lambda>x. x \<in> {CHR ''0'', CHR ''6''}), Boundary]) c \<or>
     rx_test (seq [Boundary, lit ''systemctl'', Boundary, same_command, Boundary,
                   one_of (map lit [''poweroff'', ''reboot'', ''halt'', ''emergency'', ''kexec'']), Boundary]) c"

definition disk_destruction :: "string \<Rightarrow> bool" where
  "disk_destruction c \<longleftrightarrow>
     rx_test (seq [Boundary, lit ''mkfs'',
                   Or (seq [lit ''.'', Ch lower_alnum, Rep (Ch lower_alnum)]) Eps, Boundary]) c \<or>
     rx_test (words [''wipefs'']) c \<or>
     rx_test (seq [Boundary, lit ''dd'', Boundary, same_command, Boundary, lit ''of='', blanks, disk_device]) c \<or>
     rx_test (seq [lit ''>'', blanks, disk_device]) c"

definition fork_bomb :: "string \<Rightarrow> bool" where
  "fork_bomb cmd \<longleftrightarrow>
     rx_test (seq [lit '':'', blanks, lit ''('', blanks, lit '')'', blanks, lit [CHR 0x7B], blanks, lit '':'',
                   blanks, lit ''|'', blanks, lit '':'', blanks, lit ''&'', blanks, lit [CHR 0x7D], blanks,
                   lit '';'', blanks, lit '':'']) cmd"

definition recursive_force :: "string \<Rightarrow> bool" where
  "recursive_force cmd \<longleftrightarrow>
     rx_test (seq [Boundary, ilit ''rm'', Boundary, same_command,
       one_of
         [seq [lit ''-'', letters, ilit ''r'', letters, ilit ''f''],
          seq [lit ''-'', letters, ilit ''f'', letters, ilit ''r''],
          seq [ilit ''--recursive'', same_command, ilit ''--force''],
          seq [ilit ''--force'', same_command, ilit ''--recursive''],
          seq [lit ''-'', Or (ilit ''r'') (ilit ''f''), blanks1, lit ''-'', Or (ilit ''r'') (ilit ''f'')]]]) cmd"

definition system_path :: "string \<Rightarrow> bool" where
  "system_path c \<longleftrightarrow>
     rx_test (seq [Or (Ch is_blank) (lit ''=''),
       one_of
         ([lit ''/'', lit ''/*'', Cat (lit ''~'') (Or (lit ''/'') Eps), Cat (lit ''$home'') Boundary] @
          map lit [''/etc'', ''/usr'', ''/var'', ''/boot'', ''/bin'', ''/sbin'', ''/lib'', ''/opt'', ''/home'', ''/root'']),
       one_of [Ch is_blank, lit ''/'', lit ''*'', At_end]]) ([CHR 0x20] @ c @ [CHR 0x20])"

definition destructiveReason :: "string \<Rightarrow> string option" where
  "destructiveReason cmd =
     (let c = map to_lower cmd
      in if power_off c then Some ''power-off / reboot''
         else if disk_destruction c then Some ''disk / filesystem destruction''
         else if fork_bomb cmd then Some ''fork bomb''
         else if recursive_force cmd \<and> system_path c
           then Some ''recursive force-delete of a system/home path''
         else None)"

section \<open>shell.exec\<close>

definition max_output :: nat where
  "max_output = 1024 * 1024"

datatype exec_event = OutData string | ErrData string | TimerFired

datatype exec_end = CloseEvent "int option" | ErrorEvent

text \<open>What the host answers to one \<open>shell.exec\<close>: the spawn, the events, the end of the child.\<close>

record exec_run =
  xr_allow :: bool           \<comment> \<open>VOID_ALLOW_DESTRUCTIVE is 1\<close>
  xr_spawn :: spawn_result
  xr_events :: "exec_event list"
  xr_end :: exec_end

definition take_output :: "string \<Rightarrow> string \<Rightarrow> string" where
  "take_output out d = (if length out < max_output then out @ d else out)"

fun exec_step :: "exec_event \<Rightarrow> string \<times> string \<times> bool \<Rightarrow> string \<times> string \<times> bool" where
  "exec_step (OutData d) (out, err, killed) = (take_output out d, err, killed)"
| "exec_step (ErrData d) (out, err, killed) = (out, take_output err d, killed)"
| "exec_step TimerFired (out, err, killed) = (out, err, True)"

definition exec_code :: "bool \<Rightarrow> exec_end \<Rightarrow> int" where
  "exec_code killed e =
     (case e of
        CloseEvent code \<Rightarrow> if killed then 124 else (case code of None \<Rightarrow> 0 | Some n \<Rightarrow> n)
      | ErrorEvent \<Rightarrow> 127)"

text \<open>A number as a template literal prints it.\<close>

definition num_str :: "json \<Rightarrow> string" where
  "num_str v = (case v of JNum i \<Rightarrow> int_str i | JDec neg s n \<Rightarrow> dec_str neg s n | _ \<Rightarrow> [])"

definition exec_timeout :: "jobject \<Rightarrow> json" where
  "exec_timeout args =
     (case map_of args ''timeout_ms'' of
        Some v \<Rightarrow> if jsonType v = ''number'' then v else JNum 15000
      | None \<Rightarrow> JNum 15000)"

definition blocked_reply :: "string \<Rightarrow> string \<Rightarrow> json" where
  "blocked_reply cmd why =
     JObj [(''cmd'', JStr cmd), (''code'', JNum 126), (''stdout'', JStr []),
           (''stderr'', JStr (''refused by voidOS safety policy: '' @ why @ ''. A human must run this directly.'')),
           (''blocked'', JBool True)]"

definition exec_reply :: "string \<Rightarrow> json \<Rightarrow> exec_run \<Rightarrow> json" where
  "exec_reply cmd timeout run =
     (case fold exec_step (xr_events run) ([], [], False) of
        (out, err, killed) \<Rightarrow>
          JObj [(''cmd'', JStr cmd), (''code'', JNum (exec_code killed (xr_end run))),
                (''stdout'', JStr out),
                (''stderr'', JStr (if killed
                   then err @ [CHR 0x0A] @ ''[void] killed: no result after '' @ num_str timeout @ ''ms''
                   else err)),
                (''timedOut'', JBool killed)])"

text \<open>The reply, and whether a process was started.\<close>

definition shell_exec :: "exec_run \<Rightarrow> jobject \<Rightarrow> json result \<times> bool" where
  "shell_exec run args =
     (let cmd = arg_str ''cmd'' args in
      case (if xr_allow run then None else destructiveReason cmd) of
        Some why \<Rightarrow> (return (blocked_reply cmd why), False)
      | None \<Rightarrow>
          (case spawn_error (xr_spawn run) of
             Some msg \<Rightarrow> (throw msg, False)
           | None \<Rightarrow> (return (exec_reply cmd (exec_timeout args) run), True)))"


section \<open>The matcher decides the language\<close>

inductive rx_match :: "rx \<Rightarrow> string \<Rightarrow> nat \<Rightarrow> nat \<Rightarrow> bool" where
  char: "i < length s \<Longrightarrow> P (s ! i) \<Longrightarrow> rx_match (Ch P) s i (i + 1)"
| cat: "rx_match a s i k \<Longrightarrow> rx_match b s k j \<Longrightarrow> rx_match (Cat a b) s i j"
| left: "rx_match a s i j \<Longrightarrow> rx_match (Or a b) s i j"
| right: "rx_match b s i j \<Longrightarrow> rx_match (Or a b) s i j"
| none: "rx_match (Rep a) s i i"
| more: "rx_match a s i k \<Longrightarrow> rx_match (Rep a) s k j \<Longrightarrow> rx_match (Rep a) s i j"
| eps: "rx_match Eps s i i"
| boundary: "(0 < i \<and> word_at s (i - 1)) \<noteq> word_at s i \<Longrightarrow> rx_match Boundary s i i"
| at_end: "rx_match At_end s (length s) (length s)"

inductive_cases match_CatE: "rx_match (Cat a b) s i j"
inductive_cases match_RepE: "rx_match (Rep a) s i j"

inductive_simps match_simps:
  "rx_match (Ch P) s i j" "rx_match (Cat a b) s i j" "rx_match (Or a b) s i j"
  "rx_match Eps s i j" "rx_match Boundary s i j" "rx_match At_end s i j"

lemma star_ends_grows: "set seen \<subseteq> set (star_ends f n seen new)"
  by (induction f n seen new rule: star_ends.induct) (auto split: list.split)

lemma star_ends_sound:
  assumes "\<And>x y. R x \<Longrightarrow> y \<in> set (f x) \<Longrightarrow> R y" "\<forall>x \<in> set seen. R x" "set new \<subseteq> set seen"
  shows "\<forall>x \<in> set (star_ends f n seen new). R x"
  using assms(2,3)
proof (induction n arbitrary: seen new)
  case (Suc n)
  define js where "js = filter (\<lambda>j. j \<notin> set seen) (remdups (concat (map f new)))"
  have "\<forall>x \<in> set (seen @ js). R x" using Suc.prems assms(1) by (auto simp: js_def)
  with Suc.IH [of "seen @ js" js] Suc.prems(1) show ?case
    by (auto simp flip: js_def split: list.split)
qed simp

text \<open>With a round for every position that is not yet seen, the result is closed.\<close>

lemma star_ends_closed:
  assumes "\<And>x y. x \<in> X \<Longrightarrow> y \<in> set (f x) \<Longrightarrow> y \<in> X" "finite X"
    and "set seen \<subseteq> X" "set new \<subseteq> set seen" "\<forall>x \<in> set seen - set new. set (f x) \<subseteq> set seen"
    and "card (X - set seen) \<le> n"
  shows "\<forall>x \<in> set (star_ends f n seen new). set (f x) \<subseteq> set (star_ends f n seen new)"
  using assms(3-6)
proof (induction n arbitrary: seen new)
  case 0
  with assms(2) have "set seen = X" by auto
  with assms(1) show ?case by auto
next
  case (Suc n)
  define js where "js = filter (\<lambda>j. j \<notin> set seen) (remdups (concat (map f new)))"
  have next_ok: "set (f x) \<subseteq> set seen \<union> set js" if "x \<in> set seen" for x
    using that Suc.prems(3) by (auto simp: js_def)
  show ?case
  proof (cases "js = []")
    case True
    with next_ok show ?thesis by (simp flip: js_def)
  next
    case False
    have sub: "set js \<subseteq> X" "set js \<inter> set seen = {}"
      using Suc.prems(1,2) assms(1) by (auto simp: js_def)
    obtain y where y: "y \<in> set js" using False by (cases js) auto
    have "X - set (seen @ js) \<subset> X - set seen" using y sub by auto
    then have "card (X - set (seen @ js)) < card (X - set seen)"
      using assms(2) by (intro psubset_card_mono) auto
    with Suc.prems(4) have "card (X - set (seen @ js)) \<le> n" by simp
    moreover have "\<forall>x \<in> set (seen @ js) - set js. set (f x) \<subseteq> set (seen @ js)"
      using next_ok by auto
    ultimately have "\<forall>x \<in> set (star_ends f n (seen @ js) js). set (f x) \<subseteq> set (star_ends f n (seen @ js) js)"
      using Suc.prems(1) sub by (intro Suc.IH) auto
    moreover have "star_ends f (Suc n) seen new = star_ends f n (seen @ js) js"
      using False by (cases js) (simp_all flip: js_def)
    ultimately show ?thesis by simp
  qed
qed

lemma rx_match_bounds: "rx_match r s i j \<Longrightarrow> i \<le> length s \<Longrightarrow> i \<le> j \<and> j \<le> length s"
  by (induction rule: rx_match.induct) auto

lemma rep_trans: "rx_match (Rep a) s i k \<Longrightarrow> rx_match a s k j \<Longrightarrow> rx_match (Rep a) s i j"
  by (induction "Rep a" s i k rule: rx_match.induct) (auto intro: rx_match.more rx_match.none)

lemma rep_in_closed:
  "rx_match r s x j \<Longrightarrow> r = Rep a \<Longrightarrow> (\<And>y z. y \<in> E \<Longrightarrow> rx_match a s y z \<Longrightarrow> z \<in> E) \<Longrightarrow> x \<in> E \<Longrightarrow> j \<in> E"
  by (induction rule: rx_match.induct) auto

lemma star_ends_match:
  assumes f: "\<And>x y. x \<le> length s \<Longrightarrow> y \<in> set (f x) \<longleftrightarrow> rx_match a s x y" and i: "i \<le> length s"
  shows "j \<in> set (star_ends f (length s - i) [i] [i]) \<longleftrightarrow> rx_match (Rep a) s i j"
proof -
  let ?X = "{i..length s}" and ?E = "set (star_ends f (length s - i) [i] [i])"
  have step: "y \<in> ?X" if "x \<in> ?X" "y \<in> set (f x)" for x y
  proof -
    have x: "i \<le> x" "x \<le> length s" using that(1) by simp_all
    then have "rx_match a s x y" using f that(2) by blast
    from rx_match_bounds [OF this x(2)] x show ?thesis by simp
  qed
  have closed: "\<forall>x \<in> ?E. set (f x) \<subseteq> ?E"
  proof (rule star_ends_closed [where X = ?X])
    show "card (?X - set [i]) \<le> length s - i" using i by (simp add: card_Diff_subset)
    show "y \<in> ?X" if "x \<in> ?X" "y \<in> set (f x)" for x y using that by (rule step)
  qed (use i in simp_all)
  have sound: "\<forall>x \<in> ?E. x \<in> ?X \<and> rx_match (Rep a) s i x"
  proof (rule star_ends_sound [where R = "\<lambda>x. x \<in> ?X \<and> rx_match (Rep a) s i x"])
    fix x y
    assume x: "x \<in> ?X \<and> rx_match (Rep a) s i x" and y: "y \<in> set (f x)"
    then have "rx_match a s x y" using f [of x y] by simp
    with x have "rx_match (Rep a) s i y" using rep_trans by metis
    moreover have "y \<in> ?X" using step x y by blast
    ultimately show "y \<in> ?X \<and> rx_match (Rep a) s i y" by simp
  qed (use i in \<open>simp_all add: rx_match.none\<close>)
  have "z \<in> ?E" if "y \<in> ?E" "rx_match a s y z" for y z
  proof -
    have "y \<le> length s" using that(1) sound by (simp only: atLeastAtMost_iff)
    then have "z \<in> set (f y)" using f [of y z] that(2) by blast
    then show ?thesis using closed that(1) by blast
  qed
  then have "rx_match (Rep a) s i j \<Longrightarrow> i \<in> ?E \<Longrightarrow> j \<in> ?E"
    using rep_in_closed [OF _ refl, of a s i j ?E] by metis
  moreover have "i \<in> ?E" using star_ends_grows [of "[i]" f "length s - i" "[i]"] by simp
  ultimately show ?thesis using sound by blast
qed

text \<open>\<open>rx_ends\<close> computes exactly the ends of the matches.\<close>

lemma rx_ends_match: "i \<le> length s \<Longrightarrow> j \<in> set (rx_ends r s i) \<longleftrightarrow> rx_match r s i j"
proof (induction r arbitrary: i j)
  case (Cat a b)
  have "j \<in> set (rx_ends b s k) \<longleftrightarrow> rx_match b s k j" if "rx_match a s i k" for k
    using Cat.IH(2) [of k j] rx_match_bounds [OF that Cat.prems] by simp
  moreover have "k \<in> set (rx_ends a s i) \<longleftrightarrow> rx_match a s i k" for k
    by (rule Cat.IH(1) [OF Cat.prems])
  ultimately show ?case by (simp add: match_simps) blast
next
  case (Rep a)
  show ?case unfolding rx_ends.simps by (rule star_ends_match [OF Rep.IH Rep.prems])
qed (auto simp: match_simps)


lemma rx_test_iff: "rx_test r s \<longleftrightarrow> (\<exists>i j. i \<le> length s \<and> rx_match r s i j)"
proof -
  have "rx_ends r s i \<noteq> [] \<longleftrightarrow> (\<exists>j. rx_match r s i j)" if "i \<le> length s" for i
    using rx_ends_match [OF that, of _ r] by (metis empty_set last_in_set list.set_intros(1) neq_Nil_conv empty_iff)
  moreover have "set [0..<length s + 1] = {i. i \<le> length s}" by auto
  ultimately show ?thesis unfolding rx_test_def list_ex_iff by blast
qed

lemma rx_testI: "rx_match r s i j \<Longrightarrow> i \<le> length s \<Longrightarrow> rx_test r s"
  using rx_test_iff by blast

section \<open>Words that are always refused\<close>

lemma lit_match: "rx_match (lit w) (pre @ w @ post) (length pre) (length pre + length w)"
proof (induction w arbitrary: pre)
  case (Cons c w)
  from Cons [of "pre @ [c]"] have "rx_match (lit w) (pre @ (c # w) @ post) (Suc (length pre)) (length pre + length (c # w))"
    by simp
  moreover have "rx_match (Ch (\<lambda>x. x = c)) (pre @ (c # w) @ post) (length pre) (Suc (length pre))"
    by (simp add: match_simps)
  ultimately show ?case by (auto intro: rx_match.cat)
qed (simp add: rx_match.eps)

lemma one_of_match: "r \<in> set rs \<Longrightarrow> rx_match r s i j \<Longrightarrow> rx_match (one_of rs) s i j"
  by (induction rs rule: one_of.induct) (auto intro: rx_match.left rx_match.right)

lemma word_boundaries:
  assumes "w \<noteq> []" "list_all is_word w" "pre = [] \<or> \<not> is_word (last pre)" "post = [] \<or> \<not> is_word (hd post)"
  shows "rx_match Boundary (pre @ w @ post) (length pre) (length pre)"
    "rx_match Boundary (pre @ w @ post) (length pre + length w) (length pre + length w)"
proof -
  let ?s = "pre @ w @ post"
  obtain c cs where w: "w = c # cs" "is_word c" using assms(1,2) by (cases w) auto
  obtain d ds where l: "w = ds @ [d]" "is_word d" using assms(1,2) by (cases w rule: rev_cases) auto
  have "word_at ?s (length pre)" using w by (simp add: word_at_def nth_append)
  moreover have "\<not> (0 < length pre \<and> word_at ?s (length pre - 1))"
    using assms(3) by (cases pre rule: rev_cases) (auto simp: word_at_def nth_append)
  ultimately show "rx_match Boundary ?s (length pre) (length pre)" by (simp add: match_simps)
  have "word_at ?s (length pre + length w - 1)" using l by (simp add: word_at_def nth_append)
  moreover have "\<not> word_at ?s (length pre + length w)"
    using assms(4) by (cases post) (auto simp: word_at_def nth_append)
  ultimately show "rx_match Boundary ?s (length pre + length w) (length pre + length w)"
    using w(1) by (simp add: match_simps)
qed

definition refused_words :: "string list" where
  "refused_words = [''shutdown'', ''poweroff'', ''halt'', ''reboot'', ''wipefs'', ''mkfs'']"

lemma refused_word_reason:
  assumes "w \<in> set refused_words" "map to_lower cmd = pre @ w @ post"
    "pre = [] \<or> \<not> is_word (last pre)" "post = [] \<or> \<not> is_word (hd post)"
  shows "destructiveReason cmd \<noteq> None"
proof -
  let ?s = "pre @ w @ post"
  have w: "w \<noteq> []" "list_all is_word w"
    using assms(1) by (auto simp: refused_words_def is_word_def)
  note b = word_boundaries [OF w assms(3,4)]
  have word: "rx_test (words ws) ?s" if "w \<in> set ws" for ws
  proof -
    have "rx_match (one_of (map lit ws)) ?s (length pre) (length pre + length w)"
      using that lit_match [of w pre post] by (intro one_of_match [of "lit w"]) auto
    with b have "rx_match (words ws) ?s (length pre) (length pre + length w)"
      unfolding words_def seq.simps by (blast intro: rx_match.cat)
    then show ?thesis by (rule rx_testI) simp
  qed
  have mkfs: "disk_destruction ?s" if "w = ''mkfs''"
  proof -
    let ?ext = "seq [lit ''.'', Ch lower_alnum, Rep (Ch lower_alnum)]"
    have "rx_match (Or ?ext Eps) ?s (length pre + length w) (length pre + length w)"
      by (intro rx_match.right rx_match.eps)
    with b lit_match [of w pre post]
    have "rx_match (seq [Boundary, lit w, Or ?ext Eps, Boundary]) ?s (length pre) (length pre + length w)"
      unfolding seq.simps by (blast intro: rx_match.cat)
    then have "rx_test (seq [Boundary, lit w, Or ?ext Eps, Boundary]) ?s"
      by (rule rx_testI) simp
    with that show ?thesis unfolding disk_destruction_def by blast
  qed
  have "power_off ?s \<or> disk_destruction ?s"
    using assms(1) word [of "[''shutdown'', ''poweroff'', ''halt'']"] word [of "[''reboot'']"]
      word [of "[''wipefs'']"] mkfs
    unfolding refused_words_def power_off_def disk_destruction_def by auto
  then show ?thesis using assms(2) by (auto simp: destructiveReason_def Let_def)
qed

section \<open>Properties\<close>

text \<open>
  C21. The backstop: unless the operator has opted out, a command in which one of the words
  \<open>shutdown\<close>, \<open>poweroff\<close>, \<open>halt\<close>, \<open>reboot\<close>, \<open>wipefs\<close>, \<open>mkfs\<close> stands as a word, in any case and
  context, is answered with code 126 and starts no process.
\<close>

theorem shell_backstop:
  assumes "\<not> xr_allow run" "cmd = arg_str ''cmd'' args"
    "w \<in> set refused_words" "map to_lower cmd = pre @ w @ post"
    "pre = [] \<or> \<not> is_word (last pre)" "post = [] \<or> \<not> is_word (hd post)"
  shows "\<exists>why. shell_exec run args = (return (blocked_reply cmd why), False)"
  using refused_word_reason [OF assms(3-6)] assms(1,2) by (auto simp: shell_exec_def)

theorem shell_backstop_witness:
  "\<exists>why. shell_exec \<lparr>xr_allow = False, xr_spawn = Spawned 7, xr_events = [], xr_end = CloseEvent (Some 0)\<rparr>
     [(''cmd'', JStr ''sudo REBOOT -f'')] = (return (blocked_reply ''sudo REBOOT -f'' why), False)"
proof (rule shell_backstop [where w = "''reboot''" and pre = "''sudo ''" and post = "'' -f''"])
  show "map to_lower ''sudo REBOOT -f'' = ''sudo '' @ ''reboot'' @ '' -f''" by code_simp
  show "''sudo '' = [] \<or> \<not> is_word (last ''sudo '')" by code_simp
  show "'' -f'' = [] \<or> \<not> is_word (hd '' -f'')" by code_simp
qed (simp_all add: arg_str_def refused_words_def)

text \<open>
  What gets past it: the path pattern wants white space, a slash, a star or the end after a
  system path, so a separator or a quote behind it hides the path.
\<close>

lemma shell_backstop_separator: "destructiveReason ''rm -rf /etc;'' = None"
  by code_simp

lemma shell_backstop_option_order: "destructiveReason ''rm -r /etc -f'' = None"
  by code_simp

lemma shell_backstop_plain: "destructiveReason ''rm -rf /etc'' = Some ''recursive force-delete of a system/home path''"
  by code_simp

text \<open>A child that a signal ended reports no code, which the reply shows as 0, a success.\<close>

lemma exec_signal_is_success: "exec_code False (CloseEvent None) = 0"
  by (simp add: exec_code_def)

end
