(* ===== verification/VoidProc.thy ===== *)
theory VoidProc
  imports VoidHost
begin

text \<open>
  kernel/src/procman.ts: the supervisor of background processes. The methods of
  \<open>ProcessManager\<close> and the callbacks its children raise are the events of one machine.
\<close>

section \<open>State\<close>

definition max_log :: nat where
  "max_log = 65536"

datatype proc_status = PRunning | PExited

fun proc_status_str :: "proc_status \<Rightarrow> string" where
  "proc_status_str PRunning = ''running''"
| "proc_status_str PExited = ''exited''"

record proc_record =
  pr_id :: string
  pr_cmd :: string
  pr_pid :: int
  pr_status :: proc_status
  pr_startedAt :: int
  pr_endedAt :: "int option"
  pr_exitCode :: "int option"
  pr_signal :: "string option"

record proc_entry = proc_record +
  pe_child :: nat
  pe_log :: string

record procman =
  pm_procs :: "(string \<times> proc_entry) list"
  pm_seq :: nat
  pm_host :: "string host"

definition new_procman :: procman where
  "new_procman = \<lparr>pm_procs = [], pm_seq = 0, pm_host = new_host\<rparr>"

section \<open>Methods\<close>

definition no_process :: "string \<Rightarrow> string" where
  "no_process key = ''no such process: '' @ key"

definition proc_id :: "nat \<Rightarrow> string" where
  "proc_id n = ''p'' @ nat_str n"

lemma proc_id_inject [simp]: "proc_id m = proc_id n \<longleftrightarrow> m = n"
  by (simp add: proc_id_def)

definition pm_append :: "string \<Rightarrow> proc_entry \<Rightarrow> proc_entry" where
  "pm_append text e = e\<lparr>pe_log := cap_log max_log (pe_log e @ text)\<rparr>"

definition pm_spawn ::
  "string \<Rightarrow> spawn_result \<Rightarrow> int \<Rightarrow> procman \<Rightarrow> proc_record result \<times> procman" where
  "pm_spawn cmd res now pm =
     (let n = Suc (pm_seq pm); key = proc_id n
      in case spawn_error res of Some msg \<Rightarrow> (throw msg, pm\<lparr>pm_seq := n\<rparr>)
       | None \<Rightarrow> case spawn_child key (spawn_pid res) (pm_host pm) of (c, h) \<Rightarrow>
           let e = \<lparr>pr_id = key, pr_cmd = cmd, pr_pid = child_pid (spawn_pid res), pr_status = PRunning,
                    pr_startedAt = now, pr_endedAt = None, pr_exitCode = None, pr_signal = None,
                    pe_child = c, pe_log = []\<rparr>
           in (return (proc_record.truncate e),
               \<lparr>pm_procs = AList.update key e (pm_procs pm), pm_seq = n, pm_host = h\<rparr>))"

definition pm_list :: "procman \<Rightarrow> proc_record list" where
  "pm_list pm = map proc_record.truncate (map_values (pm_procs pm))"

definition pm_get :: "string \<Rightarrow> procman \<Rightarrow> proc_record result" where
  "pm_get key pm =
     (case map_of (pm_procs pm) key of
        None \<Rightarrow> throw (no_process key)
      | Some e \<Rightarrow> return (proc_record.truncate e))"

definition pm_logs :: "string \<Rightarrow> int option \<Rightarrow> procman \<Rightarrow> (string \<times> proc_status \<times> string) result" where
  "pm_logs key maxBytes pm =
     (case map_of (pm_procs pm) key of
        None \<Rightarrow> throw (no_process key)
      | Some e \<Rightarrow>
          return (key, pr_status e,
            clip_log (case maxBytes of None \<Rightarrow> int max_log | Some n \<Rightarrow> n) (pe_log e)))"

text \<open>
  \<open>stop(id, signal)\<close>; \<open>known\<close> are the signal names of the platform, for any other \<open>kill\<close> throws.
\<close>

definition pm_stop ::
  "(string \<Rightarrow> bool) \<Rightarrow> string \<Rightarrow> string option \<Rightarrow> procman \<Rightarrow> proc_record result \<times> procman" where
  "pm_stop known key signal pm =
     (let sig = (case signal of None \<Rightarrow> ''SIGTERM'' | Some s \<Rightarrow> s) in
      case map_of (pm_procs pm) key of
        None \<Rightarrow> (throw (no_process key), pm)
      | Some e \<Rightarrow>
          if pr_status e = PRunning then
            if known sig
            then (return (proc_record.truncate e),
                  pm\<lparr>pm_host := send_signal (pe_child e) sig (pm_host pm)\<rparr>)
            else (throw (''Unknown signal: '' @ sig), pm)
          else (return (proc_record.truncate e), pm))"

definition pm_remove :: "string \<Rightarrow> procman \<Rightarrow> unit result \<times> procman" where
  "pm_remove key pm =
     (case map_of (pm_procs pm) key of
        None \<Rightarrow> (throw (no_process key), pm)
      | Some e \<Rightarrow>
          if pr_status e = PRunning
          then (throw (''process '' @ key @ '' is still running; stop it first''), pm)
          else (return (), pm\<lparr>pm_procs := AList.delete key (pm_procs pm)\<rparr>))"

definition pm_shutdown :: "procman \<Rightarrow> procman" where
  "pm_shutdown pm =
     pm\<lparr>pm_host := fold (\<lambda>e h. if pr_status e = PRunning then send_signal (pe_child e) ''SIGTERM'' h else h)
                    (map_values (pm_procs pm)) (pm_host pm)\<rparr>"

section \<open>Callbacks\<close>

text \<open>A callback works on the entry it was created with, which stays in the map under its id.\<close>

definition pm_update :: "string \<Rightarrow> (proc_entry \<Rightarrow> proc_entry) \<Rightarrow> procman \<Rightarrow> procman" where
  "pm_update key f pm =
     (case map_of (pm_procs pm) key of
        None \<Rightarrow> pm
      | Some e \<Rightarrow> pm\<lparr>pm_procs := AList.update key (f e) (pm_procs pm)\<rparr>)"

definition pm_on_data :: "string \<Rightarrow> string \<Rightarrow> procman \<Rightarrow> procman" where
  "pm_on_data key text pm = pm_update key (pm_append text) pm"

definition pm_on_error :: "string \<Rightarrow> string \<Rightarrow> procman \<Rightarrow> procman" where
  "pm_on_error key msg pm = pm_update key (pm_append (spawn_error_text msg)) pm"

definition pm_on_exit ::
  "nat \<Rightarrow> string \<Rightarrow> int option \<Rightarrow> string option \<Rightarrow> int \<Rightarrow> procman \<Rightarrow> procman" where
  "pm_on_exit c key code sig now pm =
     (let pm' = pm_update key (\<lambda>e. e\<lparr>pr_status := PExited, pr_exitCode := code, pr_signal := sig,
                                  pr_endedAt := Some now\<rparr>) pm
      in pm'\<lparr>pm_host := child_gone c (pm_host pm')\<rparr>)"

section \<open>The machine\<close>

datatype proc_event =
    PSpawn string spawn_result int
  | PStop string "string option"
  | PRemove string
  | PData string string
  | PError string string
  | PExit nat string "int option" "string option" int

fun proc_step :: "(string \<Rightarrow> bool) \<Rightarrow> proc_event \<Rightarrow> procman \<Rightarrow> procman" where
  "proc_step known (PSpawn cmd res now) pm = snd (pm_spawn cmd res now pm)"
| "proc_step known (PStop key sig) pm = snd (pm_stop known key sig pm)"
| "proc_step known (PRemove key) pm = snd (pm_remove key pm)"
| "proc_step known (PData key text) pm = pm_on_data key text pm"
| "proc_step known (PError key msg) pm = pm_on_error key msg pm"
| "proc_step known (PExit c key code sig now) pm = pm_on_exit c key code sig now pm"

text \<open>
  The host raises an exit only for a live child, and only to the entry it was spawned for; a
  pid it reports is positive; output comes only from a child that was spawned.
\<close>

definition issued_id :: "procman \<Rightarrow> string \<Rightarrow> bool" where
  "issued_id pm key \<longleftrightarrow> key \<in> proc_id ` {1..pm_seq pm}"

fun proc_enabled :: "proc_event \<Rightarrow> procman \<Rightarrow> bool" where
  "proc_enabled (PSpawn cmd res now) pm = host_answers cmd res"
| "proc_enabled (PData key text) pm = issued_id pm key"
| "proc_enabled (PError key msg) pm = issued_id pm key"
| "proc_enabled (PExit c key code sig now) pm = (map_of (h_children (pm_host pm)) c = Some key)"
| "proc_enabled e pm = True"

text \<open>
  The invariant: ids are the counter's values so far, each entry is under its id with a capped
  log and an end time exactly when it has exited, a live child belongs to a running entry, and a
  running entry that got a pid has its child alive.
\<close>

definition proc_entry_ok :: "nat \<Rightarrow> string \<Rightarrow> proc_entry \<Rightarrow> bool" where
  "proc_entry_ok seq key e \<longleftrightarrow>
     pr_id e = key \<and> (\<exists>n. key = proc_id n \<and> 1 \<le> n \<and> n \<le> seq) \<and>
     length (pe_log e) \<le> max_log \<and> (pr_endedAt e = None \<longleftrightarrow> pr_status e = PRunning)"

definition proc_inv :: "procman \<Rightarrow> bool" where
  "proc_inv pm \<longleftrightarrow>
     host_wf (pm_host pm) \<and> map_wf (pm_procs pm) \<and>
     (\<forall>key e. map_of (pm_procs pm) key = Some e \<longrightarrow> proc_entry_ok (pm_seq pm) key e) \<and>
     (\<forall>c key. map_of (h_children (pm_host pm)) c = Some key \<longrightarrow>
        (\<exists>e. map_of (pm_procs pm) key = Some e \<and> pe_child e = c \<and> pr_status e = PRunning)) \<and>
     (\<forall>key e. map_of (pm_procs pm) key = Some e \<and> pr_status e = PRunning \<and> pr_pid e \<noteq> -1 \<longrightarrow>
        map_of (h_children (pm_host pm)) (pe_child e) = Some key)"

lemma pm_append_simps [simp]:
  "pr_id (pm_append t e) = pr_id e" "pr_status (pm_append t e) = pr_status e"
  "pr_endedAt (pm_append t e) = pr_endedAt e" "pr_pid (pm_append t e) = pr_pid e" "pe_child (pm_append t e) = pe_child e"
  "length (pe_log (pm_append t e)) \<le> max_log"
  by (simp_all add: pm_append_def cap_log_length max_log_def)

lemma fresh_proc_id:
  "proc_inv pm \<Longrightarrow> map_of (pm_procs pm) (proc_id (Suc (pm_seq pm))) = None"
  using proc_inv_def proc_entry_ok_def by (metis Suc_n_not_le_n not_None_eq proc_id_inject)

lemma pm_update_lookup:
  "map_of (pm_procs (pm_update key f pm)) key' =
     (if key' = key then map_option f (map_of (pm_procs pm) key) else map_of (pm_procs pm) key')"
  by (auto simp: pm_update_def jm.lookup_store split: option.splits)

lemma pm_update_simps [simp]:
  "pm_seq (pm_update key f pm) = pm_seq pm" "pm_host (pm_update key f pm) = pm_host pm"
  "map_wf (pm_procs pm) \<Longrightarrow> map_wf (pm_procs (pm_update key f pm))"
  by (auto simp: pm_update_def split: option.splits)

lemma proc_invD:
  assumes "proc_inv pm"
  shows "host_wf (pm_host pm)" "map_wf (pm_procs pm)"
    "map_of (pm_procs pm) key = Some e \<Longrightarrow> proc_entry_ok (pm_seq pm) key e"
    "map_of (h_children (pm_host pm)) c = Some key \<Longrightarrow>
       \<exists>e. map_of (pm_procs pm) key = Some e \<and> pe_child e = c \<and> pr_status e = PRunning"
    "map_of (pm_procs pm) key = Some e \<Longrightarrow> pr_status e = PRunning \<Longrightarrow> pr_pid e \<noteq> -1 \<Longrightarrow>
       map_of (h_children (pm_host pm)) (pe_child e) = Some key"
  using assms by (auto simp: proc_inv_def)

lemma proc_invI:
  assumes "host_wf (pm_host pm)" "map_wf (pm_procs pm)"
    and "\<And>key e. map_of (pm_procs pm) key = Some e \<Longrightarrow> proc_entry_ok (pm_seq pm) key e"
    and "\<And>c key. map_of (h_children (pm_host pm)) c = Some key \<Longrightarrow>
       \<exists>e. map_of (pm_procs pm) key = Some e \<and> pe_child e = c \<and> pr_status e = PRunning"
    and "\<And>key e. map_of (pm_procs pm) key = Some e \<Longrightarrow> pr_status e = PRunning \<Longrightarrow>
       pr_pid e \<noteq> -1 \<Longrightarrow> map_of (h_children (pm_host pm)) (pe_child e) = Some key"
  shows "proc_inv pm"
  using assms by (simp add: proc_inv_def)

lemma proc_entry_ok_mono: "proc_entry_ok n key e \<Longrightarrow> proc_entry_ok (Suc n) key e"
  by (auto simp: proc_entry_ok_def le_Suc_eq)

lemma pm_spawn_ok:
  assumes "spawn_error res = None" "spawn_child (proc_id (Suc (pm_seq pm))) (spawn_pid res) (pm_host pm) = (c, h)"
  shows "pm_spawn cmd res now pm =
    (let e = \<lparr>pr_id = proc_id (Suc (pm_seq pm)), pr_cmd = cmd, pr_pid = child_pid (spawn_pid res),
              pr_status = PRunning, pr_startedAt = now, pr_endedAt = None, pr_exitCode = None,
              pr_signal = None, pe_child = c, pe_log = []\<rparr>
     in (return (proc_record.truncate e),
         \<lparr>pm_procs = AList.update (pr_id e) e (pm_procs pm), pm_seq = Suc (pm_seq pm), pm_host = h\<rparr>))"
  using assms by (simp add: pm_spawn_def Let_def)

lemma proc_inv_spawn:
  assumes inv: "proc_inv pm" and ans: "host_answers cmd res"
  shows "proc_inv (snd (pm_spawn cmd res now pm))"
proof (cases "spawn_error res")
  case (Some msg)
  with inv show ?thesis
    by (auto simp: proc_inv_def pm_spawn_def Let_def intro: proc_entry_ok_mono)
next
  case None
  let ?key = "proc_id (Suc (pm_seq pm))"
  obtain c h where sp: "spawn_child ?key (spawn_pid res) (pm_host pm) = (c, h)" by fastforce
  note hs = children_after_spawn [OF proc_invD(1) [OF inv] sp]
  have wf: "host_wf h" using host_wf_spawn [OF proc_invD(1) [OF inv], of ?key "spawn_pid res"] sp by simp
  note inv' = proc_invD [OF inv] and fresh = fresh_proc_id [OF inv] fresh_child [OF proc_invD(1) [OF inv]]
  show ?thesis
    unfolding pm_spawn_ok [OF None sp] Let_def
  proof (rule proc_invI, simp_all add: wf inv' hs(1), goal_cases)
    case (1 key e)
    then show ?case
      using inv'(3) by (auto simp: jm.lookup_store proc_entry_ok_mono split: if_splits)
        (simp add: proc_entry_ok_def)
  next
    case (2 c' key)
    then show ?case
      using inv'(4) [of c' key] fresh by (auto simp: jm.lookup_store split: if_splits)
  next
    case (3 key e)
    then show ?case
      using inv'(5) [of key e] fresh host_answers_pid [OF ans] hs(2)
      by (auto simp: jm.lookup_store child_pid_def split: if_splits option.splits)
  qed
qed

lemma proc_inv_update:
  assumes inv: "proc_inv pm"
    and ok: "\<And>e. proc_entry_ok (pm_seq pm) key e \<Longrightarrow> proc_entry_ok (pm_seq pm) key (f e)"
    and same: "\<And>e. pe_child (f e) = pe_child e" "\<And>e. pr_status (f e) = pr_status e" "\<And>e. pr_pid (f e) = pr_pid e"
  shows "proc_inv (pm_update key f pm)"
  using proc_invD [OF inv] unfolding proc_inv_def
  by (auto simp: pm_update_lookup same intro!: ok split: if_splits) (metis same option.map(2))

lemma proc_inv_append: "proc_inv pm \<Longrightarrow> proc_inv (pm_update key (pm_append t) pm)"
  by (rule proc_inv_update) (simp_all add: proc_entry_ok_def)

lemma pm_on_exit_fields:
  "pm_seq (pm_on_exit c key code sig now pm) = pm_seq pm"
  "pm_host (pm_on_exit c key code sig now pm) = child_gone c (pm_host pm)"
  "map_wf (pm_procs pm) \<Longrightarrow> map_wf (pm_procs (pm_on_exit c key code sig now pm))"
  "map_of (pm_procs (pm_on_exit c key code sig now pm)) key' =
     (if key' = key
      then map_option (\<lambda>e. e\<lparr>pr_status := PExited, pr_exitCode := code, pr_signal := sig,
                            pr_endedAt := Some now\<rparr>) (map_of (pm_procs pm) key)
      else map_of (pm_procs pm) key')"
  by (simp_all add: pm_on_exit_def Let_def pm_update_lookup)

lemma proc_inv_exit:
  assumes inv: "proc_inv pm" and c: "map_of (h_children (pm_host pm)) c = Some key"
  shows "proc_inv (pm_on_exit c key code sig now pm)"
proof (rule proc_invI, unfold pm_on_exit_fields host_fields, goal_cases)
  case 1
  show ?case by (rule host_wf_gone [OF proc_invD(1) [OF inv]])
next
  case 2
  show ?case by (rule pm_on_exit_fields(3) [OF proc_invD(2) [OF inv]])
next
  case (3 key' e)
  then show ?case
    using proc_invD(3) [OF inv] by (auto simp: proc_entry_ok_def split: if_splits)
next
  case (4 c' key')
  then show ?case
    using proc_invD(4) [OF inv c] proc_invD(4) [OF inv, of c' key']
    by (auto simp: jm.lookup_remove split: if_splits)
next
  case (5 key' e)
  then show ?case
    using proc_invD(5) [OF inv, of key' e] c
    by (auto simp: jm.lookup_remove split: if_splits)
qed

lemma proc_inv_stop: "proc_inv pm \<Longrightarrow> proc_inv (snd (pm_stop known key sig pm))"
  by (auto simp: proc_inv_def pm_stop_def Let_def host_wf_signal split: option.splits)

lemma proc_inv_remove:
  assumes inv: "proc_inv pm"
  shows "proc_inv (snd (pm_remove key pm))"
proof (cases "\<exists>e. map_of (pm_procs pm) key = Some e \<and> pr_status e = PExited")
  case True
  then obtain e where e: "map_of (pm_procs pm) key = Some e" "pr_status e = PExited" by blast
  have "k \<noteq> key" if "map_of (h_children (pm_host pm)) c = Some k" for c k
    using proc_invD(4) [OF inv that] e by auto
  with e proc_invD [OF inv] show ?thesis
    by (auto simp: proc_inv_def pm_remove_def jm.lookup_remove split: if_splits)
next
  case False
  then have "snd (pm_remove key pm) = pm"
    by (cases "map_of (pm_procs pm) key")
      (auto simp: pm_remove_def intro: proc_status.exhaust)
  with inv show ?thesis by simp
qed

lemma proc_inv_new: "proc_inv new_procman"
  by (simp add: proc_inv_def new_procman_def) (simp add: new_host_def)


interpretation pmm: event_machine "proc_step known" proc_enabled proc_inv
  for known
proof
  fix e :: proc_event and pm
  assume "proc_inv pm" "proc_enabled e pm"
  then show "proc_inv (proc_step known e pm)"
    by (cases e) (auto simp: proc_inv_spawn proc_inv_stop proc_inv_remove pm_on_data_def
        pm_on_error_def proc_inv_append proc_inv_exit)
qed


lemma proc_spawn_lookup:
  "map_of (pm_procs (snd (pm_spawn cmd res now pm))) key =
    (if key = proc_id (Suc (pm_seq pm)) \<and> spawn_error res = None
     then Some \<lparr>pr_id = key, pr_cmd = cmd, pr_pid = child_pid (spawn_pid res), pr_status = PRunning,
                pr_startedAt = now, pr_endedAt = None, pr_exitCode = None, pr_signal = None,
                pe_child = h_next (pm_host pm), pe_log = []\<rparr>
     else map_of (pm_procs pm) key)"
  by (auto simp: pm_spawn_def Let_def spawn_child_def jm.lookup_store split: option.splits)

lemma proc_spawn_seq: "pm_seq (snd (pm_spawn cmd res now pm)) = Suc (pm_seq pm)"
  by (simp add: pm_spawn_def Let_def spawn_child_def split: option.splits)

lemma proc_stop_procs [simp]:
  "pm_procs (snd (pm_stop known key sig pm)) = pm_procs pm"
  "pm_seq (snd (pm_stop known key sig pm)) = pm_seq pm"
  by (auto simp: pm_stop_def Let_def split: option.splits)

lemma proc_remove_lookup:
  "map_of (pm_procs (snd (pm_remove key pm))) key' =
     (if key' = key \<and> (\<exists>e. map_of (pm_procs pm) key = Some e \<and> pr_status e = PExited) then None
      else map_of (pm_procs pm) key')"
  by (cases "map_of (pm_procs pm) key")
    (auto simp: pm_remove_def jm.lookup_remove intro: proc_status.exhaust)

lemma proc_remove_seq [simp]: "pm_seq (snd (pm_remove key pm)) = pm_seq pm"
  by (auto simp: pm_remove_def split: option.splits)

text \<open>What the child of a process printed during a run, spawn errors included.\<close>

fun emitted :: "string \<Rightarrow> proc_event \<Rightarrow> string" where
  "emitted key (PData k text) = (if k = key then text else [])"
| "emitted key (PError k msg) = (if k = key then spawn_error_text msg else [])"
| "emitted key e = []"

definition proc_output :: "string \<Rightarrow> proc_event list \<Rightarrow> string" where
  "proc_output key es = concat (map (emitted key) es)"

lemma proc_output_snoc [simp]: "proc_output key (es @ [e]) = proc_output key es @ emitted key e"
  by (simp add: proc_output_def)

definition logs_match :: "proc_event list \<Rightarrow> procman \<Rightarrow> bool" where
  "logs_match es pm \<longleftrightarrow>
     (\<forall>key e. map_of (pm_procs pm) key = Some e \<longrightarrow> pe_log e = cap_log max_log (proc_output key es)) \<and>
     (\<forall>n. pm_seq pm < n \<longrightarrow> proc_output (proc_id n) es = [])"

lemma cap_log_output:
  "cap_log max_log (cap_log max_log xs @ ys) = cap_log max_log (xs @ ys)"
  by (rule cap_log_append) (simp add: max_log_def)

lemma logs_match_append:
  assumes "logs_match es pm" "issued_id pm key" "\<And>k. emitted k e = (if k = key then t else [])"
  shows "logs_match (es @ [e]) (pm_update key (pm_append t) pm)"
  using assms
  by (auto simp: logs_match_def pm_update_lookup pm_append_def cap_log_output issued_id_def)

lemma logs_match_step:
  assumes "logs_match es pm" "proc_inv pm" "proc_enabled e pm"
  shows "logs_match (es @ [e]) (proc_step known e pm)"
proof (cases e)
  case (PSpawn cmd res now)
  with assms show ?thesis
    by (auto simp: logs_match_def proc_spawn_lookup proc_spawn_seq cap_log_def split: if_splits)
next
  case (PRemove key)
  with assms show ?thesis
    by (auto simp: logs_match_def proc_remove_lookup split: if_splits)
next
  case (PExit c key code sig now)
  with assms show ?thesis
    by (auto simp: logs_match_def pm_on_exit_fields split: if_splits)
next
  case (PData key out)
  with assms show ?thesis by (auto simp: pm_on_data_def intro!: logs_match_append)
next
  case (PError key msg)
  with assms show ?thesis by (auto simp: pm_on_error_def intro!: logs_match_append)
next
  case (PStop key sig)
  with assms show ?thesis by (simp add: logs_match_def)
qed

lemma logs_match_run:
  "runs (proc_step known) proc_enabled new_procman es \<Longrightarrow>
   logs_match es (fold (proc_step known) es new_procman)"
proof (induction es rule: rev_induct)
  case Nil
  then show ?case by (simp add: logs_match_def new_procman_def proc_output_def)
next
  case (snoc e es)
  then show ?case
    by (auto simp: runs_append intro!: logs_match_step pmm.run_inv [OF proc_inv_new])
qed

lemma proc_ids_run:
  assumes "runs (proc_step known) proc_enabled new_procman es"
    and "map_of (pm_procs (fold (proc_step known) es new_procman)) key = Some e"
  shows "issued_id (fold (proc_step known) es new_procman) key"
  using proc_invD(3) [OF pmm.run_inv [OF proc_inv_new assms(1)] assms(2)]
  by (auto simp: proc_entry_ok_def issued_id_def)

text \<open>An entry whose spawn failed can only gain output; one that exited keeps its verdict.\<close>

definition stuck :: "string \<Rightarrow> procman \<Rightarrow> bool" where
  "stuck key pm \<longleftrightarrow>
     (\<exists>e. map_of (pm_procs pm) key = Some e \<and> pr_status e = PRunning \<and> pr_pid e = -1 \<and>
        map_of (h_children (pm_host pm)) (pe_child e) = None \<and> pe_child e < h_next (pm_host pm))"

lemma children_of_stop [simp]:
  "h_children (pm_host (snd (pm_stop known key sig pm))) = h_children (pm_host pm)"
  "h_next (pm_host (snd (pm_stop known key sig pm))) = h_next (pm_host pm)"
  by (auto simp: pm_stop_def Let_def split: option.splits)

lemma host_of_remove [simp]: "pm_host (snd (pm_remove key pm)) = pm_host pm"
  by (auto simp: pm_remove_def split: option.splits)


lemma stuck_step:
  assumes "proc_inv pm" "proc_enabled e pm" "stuck key pm"
  shows "stuck key (proc_step known e pm)"
proof -
  obtain en where en: "map_of (pm_procs pm) key = Some en" "pr_status en = PRunning" "pr_pid en = -1"
    "map_of (h_children (pm_host pm)) (pe_child en) = None" "pe_child en < h_next (pm_host pm)"
    using assms(3) by (auto simp: stuck_def)
  show ?thesis
  proof (cases e)
    case (PSpawn cmd res now)
    have "key \<noteq> proc_id (Suc (pm_seq pm))" using en(1) fresh_proc_id [OF assms(1)] by auto
    with en PSpawn show ?thesis
      by (auto simp: stuck_def proc_spawn_lookup pm_spawn_def Let_def spawn_child_def jm.lookup_store
          map_add_def split: option.splits)
  next
    case (PExit c k code sig now)
    with en assms(2) proc_invD(4) [OF assms(1), of c k] show ?thesis
      by (auto simp: stuck_def pm_on_exit_fields jm.lookup_remove)
  qed (use en in \<open>auto simp: stuck_def proc_remove_lookup pm_update_lookup pm_on_data_def
      pm_on_error_def pm_append_def\<close>)
qed

definition exited_with :: "string \<Rightarrow> int option \<Rightarrow> string option \<Rightarrow> int \<Rightarrow> procman \<Rightarrow> bool" where
  "exited_with key code sig at pm \<longleftrightarrow> issued_id pm key \<and>
     (case map_of (pm_procs pm) key of
        None \<Rightarrow> True
      | Some e \<Rightarrow> pr_status e = PExited \<and> pr_exitCode e = code \<and> pr_signal e = sig \<and>
          pr_endedAt e = Some at)"

lemma issued_mono: "issued_id pm key \<Longrightarrow> pm_seq pm \<le> pm_seq pm' \<Longrightarrow> issued_id pm' key"
  unfolding issued_id_def by fastforce

lemma exited_with_step:
  assumes "proc_inv pm" "proc_enabled e pm" "exited_with key code sig at pm"
  shows "exited_with key code sig at (proc_step known e pm)"
proof (cases e)
  case (PSpawn cmd res now)
  have "key \<noteq> proc_id (Suc (pm_seq pm))" using assms(3) by (auto simp: exited_with_def issued_id_def)
  with assms(3) PSpawn show ?thesis
    by (auto simp: exited_with_def proc_spawn_lookup proc_spawn_seq intro: issued_mono
        split: option.splits)
next
  case (PExit c k code' sig' now)
  with assms proc_invD(4) [OF assms(1), of c k] have "k \<noteq> key"
    by (auto simp: exited_with_def)
  with PExit assms(3) show ?thesis
    by (auto simp: exited_with_def pm_on_exit_fields issued_id_def)
qed (use assms in \<open>auto simp: exited_with_def proc_remove_lookup pm_update_lookup pm_on_data_def
      pm_on_error_def pm_append_def issued_id_def split: option.splits\<close>)


section \<open>Properties\<close>

text \<open>
  C26. Process supervisor safety. From boot, along any interleaving of spawns, stops, removals,
  output, spawn errors and exits that the host can produce: ids are never reused, each
  table entry is under its own id, its log holds at most 65536 units, it has an end time exactly
  when it has exited, every live child belongs to a running entry (none is lost), and every
  running entry that got a pid has its child alive.
\<close>

theorem proc_runs_safe:
  assumes "runs (proc_step known) proc_enabled new_procman es"
  shows "proc_inv (fold (proc_step known) es new_procman)"
  by (rule pmm.run_inv [OF proc_inv_new assms])

definition posix_signal :: "string \<Rightarrow> bool" where
  "posix_signal sig \<longleftrightarrow> sig \<in> set [''SIGTERM'', ''SIGKILL'', ''SIGINT'', ''SIGHUP'']"

definition proc_demo :: "proc_event list" where
  "proc_demo =
     [PSpawn ''tail'' (Spawned 41) 5, PSpawn ''x'' NotStarted 6, PData ''p1'' ''hi'', PError ''p2'' ''EAGAIN'',
      PStop ''p1'' None, PExit 0 ''p1'' None (Some ''SIGTERM'') 9]"

lemma proc_demo_runs: "runs (proc_step posix_signal) proc_enabled new_procman proc_demo"
  by code_simp

theorem proc_runs_safe_witness:
  "proc_inv (fold (proc_step posix_signal) proc_demo new_procman)"
  by (rule proc_runs_safe [OF proc_demo_runs])

text \<open>
  Captured output. Along any run from boot, the log of every process in the table is the
  last 65536 units of everything its child has printed, spawn errors included: nothing is
  lost before the cap, nothing is duplicated, and no output of another process is mixed in.
\<close>

theorem proc_log_is_tail:
  assumes "runs (proc_step known) proc_enabled new_procman es"
    and "map_of (pm_procs (fold (proc_step known) es new_procman)) key = Some e"
  shows "pe_log e = drop (length (proc_output key es) - max_log) (proc_output key es)"
  using logs_match_run [OF assms(1)] assms(2)
  by (simp add: logs_match_def cap_log_last max_log_def)

theorem proc_log_is_tail_witness:
  "\<exists>e. map_of (pm_procs (fold (proc_step posix_signal) proc_demo new_procman)) ''p1'' = Some e \<and>
     pe_log e = ''hi''"
proof -
  have "map_of (pm_procs (fold (proc_step posix_signal) proc_demo new_procman)) ''p1'' \<noteq> None"
    by code_simp
  then obtain e where e: "map_of (pm_procs (fold (proc_step posix_signal) proc_demo new_procman)) ''p1'' = Some e"
    by blast
  have "proc_output ''p1'' proc_demo = ''hi''" by code_simp
  with proc_log_is_tail [OF proc_demo_runs e] e show ?thesis by (simp add: max_log_def)
qed

text \<open>
  An exit is final. Once the exit of a live child has been handled, then along every
  continuation of the run the process is either removed from the table or still shown as
  exited with that exit code, that signal and that end time; its id never shows another
  process.
\<close>

theorem proc_exit_final:
  assumes "runs (proc_step known) proc_enabled new_procman (es @ [PExit c key code sig at] @ fs)"
    and "map_of (pm_procs (fold (proc_step known) (es @ [PExit c key code sig at] @ fs) new_procman)) key
           = Some e"
  shows "pr_status e = PExited \<and> pr_exitCode e = code \<and> pr_signal e = sig \<and> pr_endedAt e = Some at"
proof -
  let ?pm = "fold (proc_step known) es new_procman"
  have runs: "runs (proc_step known) proc_enabled new_procman es"
    "proc_enabled (PExit c key code sig at) ?pm"
    "runs (proc_step known) proc_enabled (pm_on_exit c key code sig at ?pm) fs"
    using assms(1) by (auto simp: runs_append)
  have inv: "proc_inv ?pm" by (rule pmm.run_inv [OF proc_inv_new runs(1)])
  obtain e0 where "map_of (pm_procs ?pm) key = Some e0" "proc_entry_ok (pm_seq ?pm) key e0"
    using proc_invD(3,4) [OF inv] runs(2) by fastforce
  moreover have "issued_id (pm_on_exit c key code sig at ?pm) key"
    using proc_ids_run [OF runs(1)] calculation(1) by (auto simp: issued_id_def pm_on_exit_fields)
  ultimately have "exited_with key code sig at (pm_on_exit c key code sig at ?pm)"
    by (simp add: exited_with_def pm_on_exit_fields)
  moreover have "proc_inv (pm_on_exit c key code sig at ?pm)"
    by (rule proc_inv_exit [OF inv]) (use runs(2) in simp)
  ultimately have "exited_with key code sig at (fold (proc_step known) fs (pm_on_exit c key code sig at ?pm))"
    using pmm.run_preserves [where P = "exited_with key code sig at", OF _ runs(3)] exited_with_step
    by blast
  with assms(2) show ?thesis by (simp add: exited_with_def)
qed

theorem proc_exit_final_witness:
  "\<exists>e. map_of (pm_procs (fold (proc_step posix_signal) proc_demo new_procman)) ''p1'' = Some e \<and>
     pr_status e = PExited \<and> pr_signal e = Some ''SIGTERM''"
proof -
  have d: "take 5 proc_demo @ [PExit 0 ''p1'' None (Some ''SIGTERM'') 9] @ [] = proc_demo"
    by (simp add: proc_demo_def)
  have "map_of (pm_procs (fold (proc_step posix_signal) proc_demo new_procman)) ''p1'' \<noteq> None"
    by code_simp
  then obtain e where e: "map_of (pm_procs (fold (proc_step posix_signal) proc_demo new_procman)) ''p1'' = Some e"
    by blast
  from proc_exit_final [of posix_signal "take 5 proc_demo" 0 "''p1''" None "Some ''SIGTERM''" 9 "[]" e,
    unfolded d, OF proc_demo_runs e] e show ?thesis by blast
qed

text \<open>
  A process whose spawn failed can never be cleaned up. When the host could not start the
  child (no pid), the entry stays ``running'' for ever: along every continuation it is still
  in the table, \<open>proc.remove\<close> answers ``still running; stop it first'', and a stop
  sends a signal to a child that does not exist without changing the table.
\<close>

theorem proc_failed_spawn_is_stuck:
  assumes "runs (proc_step known) proc_enabled new_procman (es @ PSpawn cmd NotStarted now # fs)"
    and "key = proc_id (Suc (pm_seq (fold (proc_step known) es new_procman)))"
    and "pm = fold (proc_step known) (es @ PSpawn cmd NotStarted now # fs) new_procman"
  shows "pm_remove key pm = (throw (''process '' @ key @ '' is still running; stop it first''), pm)
    \<and> pm_procs (snd (pm_stop known key sig pm)) = pm_procs pm"
proof -
  let ?pm = "fold (proc_step known) es new_procman"
  let ?pm' = "snd (pm_spawn cmd NotStarted now ?pm)"
  have runs: "runs (proc_step known) proc_enabled new_procman es"
    "runs (proc_step known) proc_enabled ?pm' fs" "host_answers cmd NotStarted"
    using assms(1) by (auto simp: runs_append)
  have inv: "proc_inv ?pm" by (rule pmm.run_inv [OF proc_inv_new runs(1)])
  have "stuck key ?pm'"
    using assms(2) fresh_child [OF proc_invD(1) [OF inv]]
    by (auto simp: stuck_def proc_spawn_lookup child_pid_def pm_spawn_def Let_def spawn_child_def)
  then have "stuck key (fold (proc_step known) fs ?pm')"
    by (rule pmm.run_preserves [where P = "stuck key", OF proc_inv_spawn [OF inv runs(3)] runs(2)])
      (simp_all add: stuck_step)
  then have "stuck key pm" by (simp add: assms(3))
  then show "pm_remove key pm = (throw (''process '' @ key @ '' is still running; stop it first''), pm)
    \<and> pm_procs (snd (pm_stop known key sig pm)) = pm_procs pm"
    by (auto simp: stuck_def pm_remove_def)
qed

theorem proc_failed_spawn_is_stuck_witness:
  "fst (pm_remove ''p2'' (fold (proc_step posix_signal) proc_demo new_procman))
     = throw ''process p2 is still running; stop it first''"
proof -
  have d: "take 1 proc_demo @ PSpawn ''x'' NotStarted 6 # drop 2 proc_demo = proc_demo"
    by (simp add: proc_demo_def)
  have "''p2'' = proc_id (Suc (pm_seq (fold (proc_step posix_signal) (take 1 proc_demo) new_procman)))"
    by code_simp
  from proc_failed_spawn_is_stuck [OF _ this refl, of "''x''" 6 "drop 2 proc_demo", unfolded d, OF proc_demo_runs]
  show ?thesis by simp
qed

end
