(* ===== verification/VoidServices.thy ===== *)
theory VoidServices
  imports VoidHost
begin

text \<open>
  kernel/src/services.ts: the supervisor of declared services. Entries are mutable objects
  captured by the callbacks of their children and timers, and \<open>remove\<close> leaves such an object
  alive outside the map; so entries live in a heap, and the \<open>services\<close> map and the host's
  callbacks hold references into it.
\<close>

section \<open>State\<close>

definition svc_max_log :: nat where
  "svc_max_log = 65536"

definition stable_ms :: int where
  "stable_ms = 10000"

definition base_backoff :: int where
  "base_backoff = 500"

definition max_backoff :: int where
  "max_backoff = 5000"

datatype restart_policy = Always | OnFailure | NoRestart

datatype desired = WantRunning | WantStopped

datatype service_status = Running | Restarting | Stopped | Failed

record service_record =
  sr_name :: string
  sr_cmd :: string
  sr_restart :: restart_policy
  sr_maxRestarts :: int
  sr_desired :: desired
  sr_status :: service_status
  sr_pid :: int
  sr_restarts :: int
  sr_startedAt :: "int option"
  sr_lastExit :: "(int option \<times> string option \<times> int) option"

record service_entry = service_record +
  se_child :: "nat option"
  se_log :: string
  se_lastStartMs :: int
  se_timer :: "nat option"

record supervisor =
  sv_heap :: "service_entry list"
  sv_names :: "(string \<times> nat) list"
  sv_host :: "nat host"
  sv_fatal :: "string option"

definition new_supervisor :: supervisor where
  "new_supervisor = \<lparr>sv_heap = [], sv_names = [], sv_host = new_host, sv_fatal = None\<rparr>"

abbreviation service_rec :: "service_entry \<Rightarrow> service_record" where
  "service_rec e \<equiv> service_record.truncate e"

abbreviation entry_at :: "supervisor \<Rightarrow> nat \<Rightarrow> service_entry" where
  "entry_at s r \<equiv> sv_heap s ! r"

text \<open>Assignments to the fields of the entry object \<open>r\<close>.\<close>

definition sv_set :: "nat \<Rightarrow> (service_entry \<Rightarrow> service_entry) \<Rightarrow> supervisor \<Rightarrow> supervisor" where
  "sv_set r f s = s\<lparr>sv_heap := (sv_heap s)[r := f (entry_at s r)]\<rparr>"

definition sv_with_host :: "(nat host \<Rightarrow> nat host) \<Rightarrow> supervisor \<Rightarrow> supervisor" where
  "sv_with_host f s = s\<lparr>sv_host := f (sv_host s)\<rparr>"

section \<open>Private methods\<close>

definition no_service :: "string \<Rightarrow> string" where
  "no_service name = ''no such service: '' @ name"

definition sv_launch ::
  "nat \<Rightarrow> spawn_result \<Rightarrow> int \<Rightarrow> supervisor \<Rightarrow> unit result \<times> supervisor" where
  "sv_launch r res now s =
     (case spawn_error res of
        Some msg \<Rightarrow> (throw msg, s)
      | None \<Rightarrow>
          (case spawn_child r (spawn_pid res) (sv_host s) of (c, h) \<Rightarrow>
             (return (),
              sv_set r (\<lambda>e. e\<lparr>se_child := Some c, sr_pid := child_pid (spawn_pid res),
                             sr_status := Running, sr_startedAt := Some now,
                             se_lastStartMs := now\<rparr>) (s\<lparr>sv_host := h\<rparr>))))"

definition should_restart :: "restart_policy \<Rightarrow> int option \<Rightarrow> bool" where
  "should_restart policy code =
     (case policy of Always \<Rightarrow> True | OnFailure \<Rightarrow> code \<noteq> Some 0 | NoRestart \<Rightarrow> False)"

definition sv_on_exit ::
  "nat \<Rightarrow> int option \<Rightarrow> string option \<Rightarrow> int \<Rightarrow> supervisor \<Rightarrow> supervisor" where
  "sv_on_exit r code sig now s0 =
     (let s = sv_set r (\<lambda>e. e\<lparr>se_child := None, sr_pid := -1,
                             sr_lastExit := Some (code, sig, now)\<rparr>) s0;
          e = entry_at s r;
          ranMs = now - se_lastStartMs e
      in if sr_desired e = WantStopped then sv_set r (\<lambda>e. e\<lparr>sr_status := Stopped\<rparr>) s
         else if \<not> should_restart (sr_restart e) code
         then sv_set r (\<lambda>e. e\<lparr>sr_status := Stopped\<rparr>) s
         else
           let n = (if ranMs > stable_ms then 0 else sr_restarts e) + 1
           in if n > sr_maxRestarts e
              then sv_set r (\<lambda>e. e\<lparr>sr_restarts := n, sr_status := Failed\<rparr>) s
              else
                let backoff = min (base_backoff * n) max_backoff
                in case set_timeout r backoff (sv_host s) of (t, h) \<Rightarrow>
                     sv_set r (\<lambda>e. e\<lparr>sr_restarts := n, sr_status := Restarting, se_timer := Some t\<rparr>)
                       (s\<lparr>sv_host := h\<rparr>))"

text \<open>
  The restart timer's callback. A throw inside it is caught by nobody and ends the kernel,
  which \<open>sv_fatal\<close> records.
\<close>

definition sv_fire :: "nat \<Rightarrow> nat \<Rightarrow> spawn_result \<Rightarrow> int \<Rightarrow> supervisor \<Rightarrow> supervisor" where
  "sv_fire t r res now s0 =
     (let s = sv_set r (\<lambda>e. e\<lparr>se_timer := None\<rparr>) (sv_with_host (clear_timeout t) s0)
      in if sr_desired (entry_at s r) = WantRunning
         then case sv_launch r res now s of
                (Inl msg, s') \<Rightarrow> s'\<lparr>sv_fatal := Some msg\<rparr>
              | (Inr _, s') \<Rightarrow> s'
         else s)"

section \<open>Methods\<close>

definition sv_start ::
  "string \<Rightarrow> spawn_result \<Rightarrow> int \<Rightarrow> supervisor \<Rightarrow> service_record result \<times> supervisor" where
  "sv_start name res now s =
     (case map_of (sv_names s) name of
        None \<Rightarrow> (throw (no_service name), s)
      | Some r \<Rightarrow>
          if sr_status (entry_at s r) = Running \<or> sr_status (entry_at s r) = Restarting
          then (return (service_rec (entry_at s r)), s)
          else
            (case sv_launch r res now
                    (sv_set r (\<lambda>e. e\<lparr>sr_desired := WantRunning, sr_restarts := 0\<rparr>) s) of
               (Inl msg, s') \<Rightarrow> (throw msg, s')
             | (Inr _, s') \<Rightarrow> (return (service_rec (entry_at s' r)), s')))"

definition fresh_service ::
  "string \<Rightarrow> string \<Rightarrow> restart_policy option \<Rightarrow> int option \<Rightarrow> service_entry" where
  "fresh_service name cmd restart maxRestarts =
     \<lparr>sr_name = name, sr_cmd = cmd,
      sr_restart = (case restart of None \<Rightarrow> Always | Some p \<Rightarrow> p),
      sr_maxRestarts = (case maxRestarts of None \<Rightarrow> 5 | Some n \<Rightarrow> n),
      sr_desired = WantStopped, sr_status = Stopped, sr_pid = -1, sr_restarts = 0,
      sr_startedAt = None, sr_lastExit = None,
      se_child = None, se_log = [], se_lastStartMs = 0, se_timer = None\<rparr>"

definition sv_define ::
  "string \<Rightarrow> string \<Rightarrow> restart_policy option \<Rightarrow> int option \<Rightarrow> bool option \<Rightarrow> spawn_result \<Rightarrow> int \<Rightarrow>
   supervisor \<Rightarrow> service_record result \<times> supervisor" where
  "sv_define name cmd restart maxRestarts autostart res now s =
     (if map_of (sv_names s) name \<noteq> None
      then (throw (''service already exists: '' @ name @ '' (remove it first)''), s)
      else
        let r = length (sv_heap s);
            e = fresh_service name cmd restart maxRestarts;
            s1 = s\<lparr>sv_heap := sv_heap s @ [e], sv_names := AList.update name r (sv_names s)\<rparr>
        in if (case autostart of None \<Rightarrow> True | Some b \<Rightarrow> b)
           then (case sv_start name res now s1 of
                   (Inl msg, s2) \<Rightarrow> (throw msg, s2)
                 | (Inr _, s2) \<Rightarrow> (return (service_rec (entry_at s2 r)), s2))
           else (return (service_rec e), s1))"

definition sv_stop :: "string \<Rightarrow> supervisor \<Rightarrow> service_record result \<times> supervisor" where
  "sv_stop name s =
     (case map_of (sv_names s) name of
        None \<Rightarrow> (throw (no_service name), s)
      | Some r \<Rightarrow>
          let timer = se_timer (entry_at s r);
              s1 = sv_with_host (opt_clear timer)
                     (sv_set r (\<lambda>e. e\<lparr>sr_desired := WantStopped, se_timer := None\<rparr>) s);
              e = entry_at s1 r;
              s2 = (if se_child e \<noteq> None \<and> sr_status e = Running
                    then sv_with_host (opt_kill (se_child e) ''SIGTERM'') s1
                    else sv_set r (\<lambda>e. e\<lparr>sr_status := Stopped\<rparr>) s1)
          in (return (service_rec (entry_at s2 r)), s2))"

definition sv_remove :: "string \<Rightarrow> supervisor \<Rightarrow> unit result \<times> supervisor" where
  "sv_remove name s =
     (case map_of (sv_names s) name of
        None \<Rightarrow> (throw (no_service name), s)
      | Some r \<Rightarrow>
          let e = entry_at s r;
              s1 = sv_set r (\<lambda>e. e\<lparr>sr_desired := WantStopped\<rparr>) s;
              s2 = sv_with_host (opt_kill (se_child e) ''SIGKILL'' \<circ> opt_clear (se_timer e)) s1
          in (return (), s2\<lparr>sv_names := AList.delete name (sv_names s2)\<rparr>))"

definition sv_list :: "supervisor \<Rightarrow> service_record list" where
  "sv_list s = map (\<lambda>r. service_rec (entry_at s r)) (map_values (sv_names s))"

definition sv_get :: "string \<Rightarrow> supervisor \<Rightarrow> service_record result" where
  "sv_get name s =
     (case map_of (sv_names s) name of
        None \<Rightarrow> throw (no_service name)
      | Some r \<Rightarrow> return (service_rec (entry_at s r)))"

definition sv_logs ::
  "string \<Rightarrow> int option \<Rightarrow> supervisor \<Rightarrow> (string \<times> service_status \<times> string) result" where
  "sv_logs name maxBytes s =
     (case map_of (sv_names s) name of
        None \<Rightarrow> throw (no_service name)
      | Some r \<Rightarrow>
          return (name, sr_status (entry_at s r),
            clip_log (case maxBytes of None \<Rightarrow> int svc_max_log | Some n \<Rightarrow> n) (se_log (entry_at s r))))"

definition sv_shutdown_one :: "nat \<Rightarrow> supervisor \<Rightarrow> supervisor" where
  "sv_shutdown_one r s =
     (let e = entry_at s r
      in sv_with_host (opt_kill (se_child e) ''SIGTERM'' \<circ> opt_clear (se_timer e))
           (sv_set r (\<lambda>e. e\<lparr>sr_desired := WantStopped\<rparr>) s))"

definition sv_shutdown :: "supervisor \<Rightarrow> supervisor" where
  "sv_shutdown s = fold sv_shutdown_one (map_values (sv_names s)) s"

section \<open>Output callbacks\<close>

definition sv_append :: "string \<Rightarrow> service_entry \<Rightarrow> service_entry" where
  "sv_append out e = e\<lparr>se_log := cap_log svc_max_log (se_log e @ out)\<rparr>"

definition sv_on_data :: "nat \<Rightarrow> string \<Rightarrow> supervisor \<Rightarrow> supervisor" where
  "sv_on_data r out s = sv_set r (sv_append out) s"

definition sv_on_error :: "nat \<Rightarrow> string \<Rightarrow> supervisor \<Rightarrow> supervisor" where
  "sv_on_error r msg s = sv_set r (sv_append (spawn_error_text msg)) s"

section \<open>The machine\<close>

datatype svc_event =
    SDefine string string "restart_policy option" "int option" "bool option" spawn_result int
  | SStart string spawn_result int
  | SStop string
  | SRemove string
  | SShutdown
  | SData nat string
  | SError nat string
  | SExit nat nat "int option" "string option" int
  | SFire nat nat spawn_result int

fun svc_step :: "svc_event \<Rightarrow> supervisor \<Rightarrow> supervisor" where
  "svc_step (SDefine name cmd restart mx auto res now) s =
     snd (sv_define name cmd restart mx auto res now s)"
| "svc_step (SStart name res now) s = snd (sv_start name res now s)"
| "svc_step (SStop name) s = snd (sv_stop name s)"
| "svc_step (SRemove name) s = snd (sv_remove name s)"
| "svc_step SShutdown s = sv_shutdown s"
| "svc_step (SData r out) s = sv_on_data r out s"
| "svc_step (SError r msg) s = sv_on_error r msg s"
| "svc_step (SExit c r code sig now) s =
     sv_on_exit r code sig now (sv_with_host (child_gone c) s)"
| "svc_step (SFire t r res now) s = sv_fire t r res now s"

text \<open>
  The host raises an exit for a live child only and a timeout for an armed timer only, on the
  entry the callback captured; output comes from a child of an existing entry; a spawned
  child has a positive pid.
\<close>

definition pid_ok :: "spawn_result \<Rightarrow> bool" where
  "pid_ok res \<longleftrightarrow> (case spawn_pid res of None \<Rightarrow> True | Some p \<Rightarrow> 0 < p)"

fun svc_enabled :: "svc_event \<Rightarrow> supervisor \<Rightarrow> bool" where
  "svc_enabled (SDefine name cmd restart mx auto res now) s = (sv_fatal s = None \<and> host_answers cmd res)"
| "svc_enabled (SStart name res now) s = (sv_fatal s = None \<and> pid_ok res)"
| "svc_enabled (SData r out) s = (sv_fatal s = None \<and> r < length (sv_heap s))"
| "svc_enabled (SError r msg) s = (sv_fatal s = None \<and> r < length (sv_heap s))"
| "svc_enabled (SExit c r code sig now) s =
     (sv_fatal s = None \<and> map_of (h_children (sv_host s)) c = Some r)"
| "svc_enabled (SFire t r res now) s =
     (sv_fatal s = None \<and> pid_ok res \<and> map_option fst (map_of (h_timers (sv_host s)) t) = Some r)"
| "svc_enabled e s = (sv_fatal s = None)"


section \<open>The invariant\<close>

text \<open>
  What an entry and the host agree on: the log is capped; there is a child object exactly while
  the status is ``running''; a live child of the entry is that object, and is alive when it has
  a pid; a restarting entry has used at least one and at most the allowed restarts, and is
  waiting for its armed timer unless it was told to stop; and an armed timer means restarting,
  wanted, with a delay within the backoff bounds. A timer handle an entry keeps is never the
  timer of another entry.
\<close>

definition svc_local :: "nat host \<Rightarrow> nat \<Rightarrow> service_entry \<Rightarrow> bool" where
  "svc_local h r e \<longleftrightarrow>
     length (se_log e) \<le> svc_max_log \<and>
     (se_child e \<noteq> None \<longleftrightarrow> sr_status e = Running) \<and>
     live_children h r \<subseteq> set_option (se_child e) \<and>
     (sr_pid e \<noteq> -1 \<longrightarrow> live_children h r \<noteq> {}) \<and>
     0 \<le> sr_restarts e \<and>
     (sr_status e = Restarting \<longrightarrow> 1 \<le> sr_restarts e \<and> sr_restarts e \<le> sr_maxRestarts e) \<and>
     (armed h r \<noteq> {} \<longleftrightarrow> sr_status e = Restarting \<and> sr_desired e = WantRunning) \<and>
     armed h r \<subseteq> set_option (se_timer e) \<times> {base_backoff..max_backoff} \<and>
     (\<forall>t \<in> set_option (se_timer e). owns h r t)"

definition svc_inv :: "supervisor \<Rightarrow> bool" where
  "svc_inv s \<longleftrightarrow>
     host_wf (sv_host s) \<and> map_wf (sv_names s) \<and>
     (\<forall>n r. map_of (sv_names s) n = Some r \<longrightarrow> r < length (sv_heap s) \<and> sr_name (entry_at s r) = n) \<and>
     (\<forall>r. live_children (sv_host s) r \<noteq> {} \<or> armed (sv_host s) r \<noteq> {} \<longrightarrow> r < length (sv_heap s)) \<and>
     (\<forall>r < length (sv_heap s). svc_local (sv_host s) r (entry_at s r)) \<and>
     (\<forall>r < length (sv_heap s). sr_desired (entry_at s r) = WantRunning \<longrightarrow>
        map_of (sv_names s) (sr_name (entry_at s r)) = Some r)"

lemma svc_invD:
  assumes "svc_inv s"
  shows "host_wf (sv_host s)" "map_wf (sv_names s)"
    "map_of (sv_names s) n = Some r \<Longrightarrow> r < length (sv_heap s)"
    "map_of (sv_names s) n = Some r \<Longrightarrow> sr_name (entry_at s r) = n"
    "c \<in> live_children (sv_host s) r \<Longrightarrow> r < length (sv_heap s)"
    "p \<in> armed (sv_host s) r \<Longrightarrow> r < length (sv_heap s)"
    "r < length (sv_heap s) \<Longrightarrow> svc_local (sv_host s) r (entry_at s r)"
    "r < length (sv_heap s) \<Longrightarrow> sr_desired (entry_at s r) = WantRunning \<Longrightarrow>
       map_of (sv_names s) (sr_name (entry_at s r)) = Some r"
  using assms unfolding svc_inv_def by blast+

lemma svc_invI:
  assumes "host_wf (sv_host s)" "map_wf (sv_names s)"
    and "\<And>n r. map_of (sv_names s) n = Some r \<Longrightarrow> r < length (sv_heap s) \<and> sr_name (entry_at s r) = n"
    and "\<And>c r. c \<in> live_children (sv_host s) r \<Longrightarrow> r < length (sv_heap s)"
    and "\<And>p r. p \<in> armed (sv_host s) r \<Longrightarrow> r < length (sv_heap s)"
    and "\<And>r. r < length (sv_heap s) \<Longrightarrow> svc_local (sv_host s) r (entry_at s r)"
    and "\<And>r. r < length (sv_heap s) \<Longrightarrow> sr_desired (entry_at s r) = WantRunning \<Longrightarrow>
       map_of (sv_names s) (sr_name (entry_at s r)) = Some r"
  shows "svc_inv s"
  using assms unfolding svc_inv_def by blast

lemma svc_local_frame:
  "host_only r h h' \<Longrightarrow> r' \<noteq> r \<Longrightarrow> svc_local h r' e \<Longrightarrow> svc_local h' r' e"
  by (simp add: svc_local_def host_only_def)

text \<open>Every operation changes one entry and, for that entry only, the host.\<close>

lemma svc_inv_change:
  assumes inv: "svc_inv s" and r: "r < length (sv_heap s)"
    and host: "host_wf h'" "host_only r (sv_host s) h'"
    and loc: "svc_local h' r e'" "sr_name e' = sr_name (entry_at s r)"
    and want: "sr_desired e' = WantRunning \<Longrightarrow>
      sr_desired (entry_at s r) = WantRunning \<or> map_of (sv_names s) (sr_name e') = Some r"
  shows "svc_inv (s\<lparr>sv_heap := (sv_heap s)[r := e'], sv_host := h'\<rparr>)"
proof (rule svc_invI, goal_cases)
  note inv' = svc_invD [OF inv]
  {
    case 1
    show ?case by (simp add: host)
  next
    case 2
    show ?case by (simp add: inv'(2))
  next
    case (3 n r')
    then show ?case using inv'(3,4) loc(2) r by (cases "r' = r") auto
  next
    case (4 c r')
    then show ?case using host(2) r inv'(5) by (cases "r' = r") (auto simp: host_only_def)
  next
    case (5 p r')
    then show ?case using host(2) r inv'(6) by (cases "r' = r") (auto simp: host_only_def)
  next
    case (6 r')
    then show ?case using loc(1) svc_local_frame [OF host(2) _ inv'(7)] r by (cases "r' = r") auto
  next
    case (7 r')
    then show ?case using want inv'(8) loc(2) r by (cases "r' = r") auto
  }
qed

lemma sv_set_entry [simp]: "r < length (sv_heap s) \<Longrightarrow> entry_at (sv_set r f s) r = f (entry_at s r)"
  by (simp add: sv_set_def)

lemma sv_set_simps [simp]:
  "length (sv_heap (sv_set r f s)) = length (sv_heap s)" "sv_names (sv_set r f s) = sv_names s"
  "sv_host (sv_set r f s) = sv_host s" "sv_fatal (sv_set r f s) = sv_fatal s"
  "sv_heap (sv_with_host g s) = sv_heap s" "sv_names (sv_with_host g s) = sv_names s"
  "sv_host (sv_with_host g s) = g (sv_host s)" "sv_fatal (sv_with_host g s) = sv_fatal s"
  by (simp_all add: sv_set_def sv_with_host_def)

text \<open>The shape in which \<open>svc_inv_change\<close> sees an operation.\<close>

lemma sv_change_eqs:
  "sv_with_host g (sv_set r f s) = s\<lparr>sv_heap := (sv_heap s)[r := f (entry_at s r)], sv_host := g (sv_host s)\<rparr>"
  "sv_set r f (sv_with_host g s) = s\<lparr>sv_heap := (sv_heap s)[r := f (entry_at s r)], sv_host := g (sv_host s)\<rparr>"
  "sv_set r f (s\<lparr>sv_host := h\<rparr>) = s\<lparr>sv_heap := (sv_heap s)[r := f (entry_at s r)], sv_host := h\<rparr>"
  "sv_set r f s = s\<lparr>sv_heap := (sv_heap s)[r := f (entry_at s r)], sv_host := sv_host s\<rparr>"
  by (simp_all add: sv_set_def sv_with_host_def)

lemma sv_set_set: "sv_set r f (sv_set r g s) = sv_set r (f \<circ> g) s"
  by (cases "r < length (sv_heap s)") (simp_all add: sv_set_def list_update_beyond)

lemma svc_inv_set:
  assumes "svc_inv s" "r < length (sv_heap s)" "svc_local (sv_host s) r (f (entry_at s r))"
    and "sr_name (f (entry_at s r)) = sr_name (entry_at s r)"
    and "sr_desired (f (entry_at s r)) = WantRunning \<Longrightarrow>
      sr_desired (entry_at s r) = WantRunning \<or> map_of (sv_names s) (sr_name (entry_at s r)) = Some r"
  shows "svc_inv (sv_set r f s)"
  unfolding sv_change_eqs(4)
  by (rule svc_inv_change) (use assms svc_invD(1) in auto)

lemma svc_inv_launch:
  assumes inv: "svc_inv s" and r: "r < length (sv_heap s)" and pid: "pid_ok res"
    and idle: "sr_status (entry_at s r) \<noteq> Running" "armed (sv_host s) r = {}"
  shows "svc_inv (snd (sv_launch r res now s))"
proof (cases "spawn_error res")
  case None
  obtain c h where sp: "spawn_child r (spawn_pid res) (sv_host s) = (c, h)" by fastforce
  note hs = host_after_spawn [OF svc_invD(1) [OF inv] sp]
  let ?f = "\<lambda>e. e\<lparr>se_child := Some c, sr_pid := child_pid (spawn_pid res), sr_status := Running,
    sr_startedAt := Some now, se_lastStartMs := now\<rparr>"
  have "svc_local h r (?f (entry_at s r))"
    using svc_invD(7) [OF inv r] idle pid
    by (auto simp: svc_local_def hs child_pid_def pid_ok_def split: option.splits if_splits)
  then have "svc_inv (s\<lparr>sv_heap := (sv_heap s)[r := ?f (entry_at s r)], sv_host := h\<rparr>)"
    by (intro svc_inv_change [OF inv r hs(4,6)]) auto
  then show ?thesis
    by (simp add: sv_launch_def None sp sv_change_eqs(3))
qed (use inv in \<open>simp add: sv_launch_def\<close>)

lemma svc_inv_start:
  assumes inv: "svc_inv s" and pid: "pid_ok res"
  shows "svc_inv (snd (sv_start name res now s))"
proof (cases "map_of (sv_names s) name")
  case (Some r)
  note r = svc_invD(3,4) [OF inv Some] and loc = svc_invD(7) [OF inv svc_invD(3) [OF inv Some]]
  let ?s = "sv_set r (\<lambda>e. e\<lparr>sr_desired := WantRunning, sr_restarts := 0\<rparr>) s"
  show ?thesis
  proof (cases "sr_status (entry_at s r) = Running \<or> sr_status (entry_at s r) = Restarting")
    case False
    then have "svc_inv ?s"
      using loc r Some by (intro svc_inv_set [OF inv r(1)]) (auto simp: svc_local_def)
    then have "svc_inv (snd (sv_launch r res now ?s))"
      by (rule svc_inv_launch) (use False loc pid r in \<open>auto simp: svc_local_def\<close>)
    with False Some show ?thesis
      by (auto simp: sv_start_def split: prod.splits sum.splits)
  qed (use inv Some in \<open>auto simp: sv_start_def\<close>)
qed (use inv in \<open>simp add: sv_start_def\<close>)


lemma svc_inv_add:
  assumes inv: "svc_inv s" and new: "map_of (sv_names s) (sr_name e) = None"
    and e: "se_log e = []" "se_timer e = None" "se_child e = None" "sr_status e = Stopped"
      "sr_pid e = -1" "sr_desired e = WantStopped" "sr_restarts e = 0"
  shows "svc_inv (s\<lparr>sv_heap := sv_heap s @ [e],
                   sv_names := AList.update (sr_name e) (length (sv_heap s)) (sv_names s)\<rparr>)"
proof (rule svc_invI, goal_cases)
  let ?r = "length (sv_heap s)"
  note inv' = svc_invD [OF inv]
  {
    case 1
    show ?case by (simp add: inv')
  next
    case 2
    show ?case by (simp add: inv'(2))
  next
    case (3 n r)
    then show ?case
      using inv'(3,4) [of n r] by (auto simp: jm.lookup_store nth_append split: if_splits)
  next
    case (4 c r)
    then show ?case using inv'(5) by (simp add: less_SucI)
  next
    case (5 p r)
    then show ?case using inv'(6) [of p r] by (simp add: less_SucI)
  next
    case (6 r)
    have "live_children (sv_host s) ?r = {}" "armed (sv_host s) ?r = {}"
      using inv'(5,6) [of _ ?r] by auto
    then have "svc_local (sv_host s) ?r e" using e by (simp add: svc_local_def)
    with 6 show ?case using inv'(7) by (cases "r = ?r") (auto simp: nth_append)
  next
    case (7 r)
    then show ?case
      using inv'(8) [of r] e new
      by (auto simp: jm.lookup_store nth_append less_Suc_eq split: if_splits)
  }
qed

definition with_service ::
  "string \<Rightarrow> string \<Rightarrow> restart_policy option \<Rightarrow> int option \<Rightarrow> supervisor \<Rightarrow> supervisor" where
  "with_service name cmd restart mx s =
     s\<lparr>sv_heap := sv_heap s @ [fresh_service name cmd restart mx],
       sv_names := AList.update name (length (sv_heap s)) (sv_names s)\<rparr>"

lemma sv_define_state:
  "snd (sv_define name cmd restart mx auto res now s) =
     (if map_of (sv_names s) name \<noteq> None then s
      else if auto = Some False then with_service name cmd restart mx s
      else snd (sv_start name res now (with_service name cmd restart mx s)))"
  by (auto simp: sv_define_def with_service_def Let_def split: prod.splits sum.splits option.splits)

lemma svc_inv_define:
  assumes inv: "svc_inv s" and pid: "pid_ok res"
  shows "svc_inv (snd (sv_define name cmd restart mx auto res now s))"
proof (cases "map_of (sv_names s) name")
  case None
  then have "svc_inv (with_service name cmd restart mx s)"
    using svc_inv_add [OF inv, of "fresh_service name cmd restart mx"]
    by (simp add: with_service_def fresh_service_def)
  with None svc_inv_start [OF _ pid] show ?thesis by (simp add: sv_define_state)
qed (use inv in \<open>simp add: sv_define_def\<close>)

text \<open>Clearing the timer of an entry and signalling its child.\<close>

lemma host_only_opt_clear:
  "svc_local h r e \<Longrightarrow> host_only r h (opt_clear (se_timer e) h)"
  by (cases "se_timer e") (auto simp: opt_clear_def svc_local_def host_only_clear)

lemma armed_cleared:
  "svc_local h r e \<Longrightarrow> armed h r - set_option (se_timer e) \<times> UNIV = {}"
  by (auto simp: svc_local_def)

lemma svc_inv_stop: 
  assumes inv: "svc_inv s"
  shows "svc_inv (snd (sv_stop name s))"
proof (cases "map_of (sv_names s) name")
  case (Some r)
  note r = svc_invD(3,4) [OF inv Some] and loc = svc_invD(7) [OF inv svc_invD(3) [OF inv Some]]
  let ?e = "entry_at s r"
  let ?h = "opt_clear (se_timer ?e) (sv_host s)"
  let ?e1 = "?e\<lparr>sr_desired := WantStopped, se_timer := None\<rparr>"
  note frame = svc_invD(1) [OF inv] host_only_opt_clear [OF loc] armed_cleared [OF loc]
  show ?thesis
  proof (cases "sr_status ?e = Running")
    case True
    then have "snd (sv_stop name s)
        = s\<lparr>sv_heap := (sv_heap s)[r := ?e1], sv_host := opt_kill (se_child ?e) ''SIGTERM'' ?h\<rparr>"
      using Some r loc by (auto simp: sv_stop_def Let_def sv_set_def sv_with_host_def svc_local_def)
    also have "svc_inv \<dots>"
      by (intro svc_inv_change [OF inv r(1)])
        (use True loc frame in \<open>auto simp: svc_local_def\<close>)
    finally show ?thesis .
  next
    case False
    then have "snd (sv_stop name s)
        = s\<lparr>sv_heap := (sv_heap s)[r := ?e1\<lparr>sr_status := Stopped\<rparr>], sv_host := ?h\<rparr>"
      using Some r by (simp add: sv_stop_def Let_def sv_set_def sv_with_host_def)
    also have "svc_inv \<dots>"
      by (intro svc_inv_change [OF inv r(1)])
        (use False loc frame in \<open>auto simp: svc_local_def\<close>)
    finally show ?thesis .
  qed
qed (use inv in \<open>simp add: sv_stop_def\<close>)

lemma svc_inv_unname:
  assumes inv: "svc_inv s" and name: "map_of (sv_names s) n = Some r"
    and down: "sr_desired (entry_at s r) = WantStopped"
  shows "svc_inv (s\<lparr>sv_names := AList.delete n (sv_names s)\<rparr>)"
proof -
  have "sr_name (entry_at s r') \<noteq> n"
    if "r' < length (sv_heap s)" "sr_desired (entry_at s r') = WantRunning" for r'
    using svc_invD(8) [OF inv that] name down that by auto
  with inv show ?thesis
    unfolding svc_inv_def by (auto simp: jm.lookup_remove split: if_splits)
qed

text \<open>What \<open>remove\<close> and \<open>shutdown\<close> do to one entry.\<close>

lemma svc_inv_retire:
  assumes inv: "svc_inv s" and r: "r < length (sv_heap s)"
  shows "svc_inv (sv_with_host (opt_kill (se_child (entry_at s r)) sig \<circ> opt_clear (se_timer (entry_at s r)))
           (sv_set r (\<lambda>e. e\<lparr>sr_desired := WantStopped\<rparr>) s))"
proof -
  note loc = svc_invD(7) [OF inv r]
  note frame = svc_invD(1) [OF inv] host_only_opt_clear [OF loc] armed_cleared [OF loc]
  show ?thesis
    unfolding sv_change_eqs(1)
    by (intro svc_inv_change [OF inv r]) (use loc frame in \<open>auto simp: svc_local_def\<close>)
qed

lemma svc_inv_remove:
  assumes inv: "svc_inv s"
  shows "svc_inv (snd (sv_remove name s))"
proof (cases "map_of (sv_names s) name")
  case (Some r)
  note r = svc_invD(3) [OF inv Some]
  show ?thesis
    using svc_inv_unname [OF svc_inv_retire [OF inv r, of "''SIGKILL''"], where n = name and r = r] Some r
    by (simp add: sv_remove_def Let_def)
qed (use inv in \<open>simp add: sv_remove_def\<close>)

lemma svc_inv_shutdown: 
  assumes "svc_inv s"
  shows "svc_inv (sv_shutdown s)"
proof -
  have "svc_inv (fold sv_shutdown_one rs s)"
    if "\<forall>r \<in> set rs. r < length (sv_heap s)" "svc_inv s" for rs s
    using that
    by (induction rs arbitrary: s) (simp_all add: sv_shutdown_one_def Let_def svc_inv_retire)
  moreover have "\<forall>r \<in> set (map_values (sv_names s)). r < length (sv_heap s)"
    using svc_invD(2,3) [OF assms] by (force simp: map_wf_def)
  ultimately show ?thesis using assms by (simp add: sv_shutdown_def)
qed

lemma svc_inv_log:
  assumes inv: "svc_inv s" and r: "r < length (sv_heap s)"
  shows "svc_inv (sv_set r (sv_append out) s)"
  using svc_invD(7) [OF inv r]
  by (intro svc_inv_set [OF inv r])
    (simp_all add: svc_local_def sv_append_def cap_log_length svc_max_log_def)


text \<open>The three outcomes of an exit.\<close>

definition exited :: "int option \<Rightarrow> string option \<Rightarrow> int \<Rightarrow> service_entry \<Rightarrow> service_entry" where
  "exited code sig now e = e\<lparr>se_child := None, sr_pid := -1, sr_lastExit := Some (code, sig, now)\<rparr>"

definition next_restart :: "int \<Rightarrow> service_entry \<Rightarrow> int" where
  "next_restart now e = (if now - se_lastStartMs e > stable_ms then 0 else sr_restarts e) + 1"

definition wants_restart :: "int option \<Rightarrow> service_entry \<Rightarrow> bool" where
  "wants_restart code e \<longleftrightarrow> sr_desired e = WantRunning \<and> should_restart (sr_restart e) code"

definition backoff_ms :: "int \<Rightarrow> int" where
  "backoff_ms n = min (base_backoff * n) max_backoff"

lemma desired_cases: "sr_desired e \<noteq> WantStopped \<longleftrightarrow> sr_desired e = WantRunning"
  by (cases "sr_desired e") simp_all

lemma exit_stops:
  assumes "r < length (sv_heap s)" "\<not> wants_restart code (entry_at s r)"
  shows "sv_on_exit r code sig now (sv_with_host (child_gone c) s) =
    s\<lparr>sv_heap := (sv_heap s)[r := exited code sig now (entry_at s r)\<lparr>sr_status := Stopped\<rparr>],
      sv_host := child_gone c (sv_host s)\<rparr>"
  using assms
  by (auto simp: sv_on_exit_def Let_def sv_set_def sv_with_host_def exited_def wants_restart_def desired_cases)

lemma exit_fails:
  assumes "r < length (sv_heap s)" "wants_restart code (entry_at s r)"
    and "next_restart now (entry_at s r) > sr_maxRestarts (entry_at s r)"
  shows "sv_on_exit r code sig now (sv_with_host (child_gone c) s) =
    s\<lparr>sv_heap := (sv_heap s)[r := exited code sig now (entry_at s r)
          \<lparr>sr_restarts := next_restart now (entry_at s r), sr_status := Failed\<rparr>],
      sv_host := child_gone c (sv_host s)\<rparr>"
  using assms
  by (cases "stable_ms < now - se_lastStartMs (entry_at s r)")
    (simp_all add: sv_on_exit_def Let_def sv_set_def sv_with_host_def exited_def wants_restart_def next_restart_def)

lemma exit_restarts:
  assumes "r < length (sv_heap s)" "wants_restart code (entry_at s r)"
    and "next_restart now (entry_at s r) \<le> sr_maxRestarts (entry_at s r)"
    and "set_timeout r (backoff_ms (next_restart now (entry_at s r))) (child_gone c (sv_host s)) = (t, h)"
  shows "sv_on_exit r code sig now (sv_with_host (child_gone c) s) =
    s\<lparr>sv_heap := (sv_heap s)[r := exited code sig now (entry_at s r)
          \<lparr>sr_restarts := next_restart now (entry_at s r), sr_status := Restarting, se_timer := Some t\<rparr>],
      sv_host := h\<rparr>"
  using assms
  by (cases "stable_ms < now - se_lastStartMs (entry_at s r)")
    (simp_all add: sv_on_exit_def Let_def sv_set_def sv_with_host_def exited_def wants_restart_def
      next_restart_def backoff_ms_def)

lemma exited_simps [simp]:
  "se_log (exited code sig now e) = se_log e" "se_child (exited code sig now e) = None"
  "sr_pid (exited code sig now e) = -1" "se_timer (exited code sig now e) = se_timer e"
  "sr_name (exited code sig now e) = sr_name e" "sr_desired (exited code sig now e) = sr_desired e"
  "sr_maxRestarts (exited code sig now e) = sr_maxRestarts e"
  "sr_restarts (exited code sig now e) = sr_restarts e"
  by (simp_all add: exited_def)

lemma backoff_range: "1 \<le> n \<Longrightarrow> base_backoff \<le> backoff_ms n \<and> backoff_ms n \<le> max_backoff"
  by (simp add: backoff_ms_def base_backoff_def max_backoff_def)

lemma backoff_delay: "1 \<le> n \<Longrightarrow> timer_delay (backoff_ms n) = backoff_ms n"
  using backoff_range [of n] by (simp add: timer_delay_def base_backoff_def max_backoff_def)

lemma svc_exit_local:
  assumes inv: "svc_inv s" and c: "c \<in> live_children (sv_host s) r"
  shows "r < length (sv_heap s)" "sr_status (entry_at s r) = Running" "se_child (entry_at s r) = Some c"
    "live_children (sv_host s) r = {c}" "armed (sv_host s) r = {}"
proof -
  show r: "r < length (sv_heap s)" by (rule svc_invD(5) [OF inv c])
  note loc = svc_invD(7) [OF inv r]
  have "live_children (sv_host s) r \<subseteq> set_option (se_child (entry_at s r))"
    using loc by (simp add: svc_local_def)
  with c show child: "se_child (entry_at s r) = Some c" and "live_children (sv_host s) r = {c}"
    by (cases "se_child (entry_at s r)"; auto)+
  then show running: "sr_status (entry_at s r) = Running" using loc by (simp add: svc_local_def)
  show "armed (sv_host s) r = {}" using loc running by (simp add: svc_local_def)
qed

lemma next_restart_pos:
  "0 \<le> sr_restarts e \<Longrightarrow> 1 \<le> next_restart now e"
  by (simp add: next_restart_def)


lemma svc_inv_exit:
  assumes inv: "svc_inv s" and c: "c \<in> live_children (sv_host s) r"
  shows "svc_inv (sv_on_exit r code sig now (sv_with_host (child_gone c) s))"
proof -
  let ?e = "entry_at s r" and ?h = "child_gone c (sv_host s)"
  note ex = svc_exit_local [OF inv c] and loc = svc_invD(7) [OF inv svc_exit_local(1) [OF inv c]]
  have gone: "host_wf ?h" "host_only r (sv_host s) ?h" "live_children ?h r = {}" "armed ?h r = {}"
    using host_wf_gone [OF svc_invD(1) [OF inv]] host_only_gone [OF c] ex by auto
  have n: "1 \<le> next_restart now ?e" using loc by (intro next_restart_pos) (simp add: svc_local_def)
  consider (stop) "\<not> wants_restart code ?e"
    | (fail) "wants_restart code ?e" "next_restart now ?e > sr_maxRestarts ?e"
    | (again) "wants_restart code ?e" "next_restart now ?e \<le> sr_maxRestarts ?e"
    by linarith
  then show ?thesis
  proof cases
    case stop
    have "svc_local ?h r (exited code sig now ?e\<lparr>sr_status := Stopped\<rparr>)"
      using loc gone by (simp add: svc_local_def)
    then show ?thesis
      unfolding exit_stops [OF ex(1) stop]
      by (rule svc_inv_change [OF inv ex(1) gone(1,2)]) simp_all
  next
    case fail
    have "svc_local ?h r (exited code sig now ?e\<lparr>sr_restarts := next_restart now ?e, sr_status := Failed\<rparr>)"
      using loc gone n by (simp add: svc_local_def)
    then show ?thesis
      unfolding exit_fails [OF ex(1) fail]
      by (rule svc_inv_change [OF inv ex(1) gone(1,2)]) simp_all
  next
    case again
    obtain t h where st: "set_timeout r (backoff_ms (next_restart now ?e)) ?h = (t, h)" by fastforce
    note hs = host_after_set [OF gone(1) st]
    have only: "host_only r (sv_host s) h"
      using gone(2) hs(6) by (simp add: host_only_def)
    have "svc_local h r (exited code sig now ?e\<lparr>sr_restarts := next_restart now ?e,
        sr_status := Restarting, se_timer := Some t\<rparr>)"
      using loc again n gone(3,4) backoff_range [OF n]
      by (simp add: svc_local_def wants_restart_def hs(1,2,5) backoff_delay [OF n])
    then show ?thesis
      unfolding exit_restarts [OF ex(1) again st]
      by (rule svc_inv_change [OF inv ex(1) hs(4) only]) simp_all
  qed
qed

text \<open>The invariant of a kernel that is still up.\<close>

definition svc_safe :: "supervisor \<Rightarrow> bool" where
  "svc_safe s \<longleftrightarrow> (sv_fatal s = None \<longrightarrow> svc_inv s)"

lemma svc_armed_local:
  assumes inv: "svc_inv s" and t: "(t, d) \<in> armed (sv_host s) r"
  shows "r < length (sv_heap s)" "sr_status (entry_at s r) = Restarting"
    "sr_desired (entry_at s r) = WantRunning" "se_timer (entry_at s r) = Some t" "owns (sv_host s) r t"
    "live_children (sv_host s) r = {}"
  using svc_invD(6) [OF inv t] svc_invD(7) [OF inv svc_invD(6) [OF inv t]] t
  by (auto simp: svc_local_def)

lemma fire_launches:
  assumes "svc_inv s" "(t, d) \<in> armed (sv_host s) r" "spawn_error res = None"
    and "spawn_child r (spawn_pid res) (clear_timeout t (sv_host s)) = (c, h)"
  shows "sv_fire t r res now s = s\<lparr>sv_heap := (sv_heap s)[r := (entry_at s r)\<lparr>se_timer := None,
      se_child := Some c, sr_pid := child_pid (spawn_pid res), sr_status := Running,
      sr_startedAt := Some now, se_lastStartMs := now\<rparr>], sv_host := h\<rparr>"
  using svc_armed_local [OF assms(1,2)] assms(3,4)
  by (simp add: sv_fire_def Let_def sv_launch_def sv_set_def sv_with_host_def)

lemma svc_inv_fire:
  assumes inv: "svc_inv s" and t: "(t, d) \<in> armed (sv_host s) r" and pid: "pid_ok res"
    and ok: "spawn_error res = None"
  shows "svc_inv (sv_fire t r res now s)"
proof -
  note e = svc_armed_local [OF inv t] and loc = svc_invD(7) [OF inv svc_invD(6) [OF inv t]]
  obtain c h where sp: "spawn_child r (spawn_pid res) (clear_timeout t (sv_host s)) = (c, h)" by fastforce
  note hs = host_after_spawn [OF host_wf_clear [OF svc_invD(1) [OF inv]] sp]
  let ?e = "(entry_at s r)\<lparr>se_timer := None, se_child := Some c, sr_pid := child_pid (spawn_pid res),
    sr_status := Running, sr_startedAt := Some now, se_lastStartMs := now\<rparr>"
  have only: "host_only r (sv_host s) h"
    using host_only_clear [OF e(5)] hs(6) by (simp add: host_only_def)
  have "armed (clear_timeout t (sv_host s)) r = {}"
    using armed_cleared [OF loc] e by simp
  then have "svc_local h r ?e"
    using loc e pid by (simp add: svc_local_def hs(1,2) child_pid_def pid_ok_def split: option.splits)
  then show ?thesis
    unfolding fire_launches [OF inv t ok sp]
    by (rule svc_inv_change [OF inv e(1) hs(4) only]) simp_all
qed

lemma svc_safe_fire:
  assumes inv: "svc_inv s" and t: "(t, d) \<in> armed (sv_host s) r" and pid: "pid_ok res"
  shows "svc_safe (sv_fire t r res now s)"
proof (cases "spawn_error res")
  case (Some msg)
  then show ?thesis
    using svc_armed_local [OF inv t] by (simp add: svc_safe_def sv_fire_def Let_def sv_launch_def)
qed (simp add: svc_safe_def svc_inv_fire [OF assms])

lemma svc_safe_step:
  assumes "svc_safe s" "svc_enabled e s"
  shows "svc_safe (svc_step e s)"
proof -
  have up: "sv_fatal s = None" using assms(2) by (cases e) simp_all
  then have inv: "svc_inv s" using assms(1) by (simp add: svc_safe_def)
  have pid: "pid_ok res" if "host_answers cmd res" for cmd res
    using host_answers_pid [OF that] by (auto simp: pid_ok_def split: option.splits)
  show ?thesis
  proof (cases e)
    case (SFire t r res now)
    then obtain d where "(t, d) \<in> armed (sv_host s) r" "pid_ok res"
      using assms(2) by (auto simp: armed_def)
    with SFire svc_safe_fire [OF inv] show ?thesis by simp
  next
    case (SExit c r code sig now)
    then have "c \<in> live_children (sv_host s) r" using assms(2) by (simp add: live_children_def)
    with SExit svc_inv_exit [OF inv] show ?thesis by (simp add: svc_safe_def)
  next
    case (SDefine name cmd restart mx auto res now)
    with assms(2) have "pid_ok res" using pid by auto
    with SDefine svc_inv_define [OF inv] show ?thesis by (simp add: svc_safe_def)
  qed (use inv assms(2) in \<open>simp_all add: svc_safe_def svc_inv_start svc_inv_stop
      svc_inv_remove svc_inv_shutdown sv_on_data_def sv_on_error_def svc_inv_log\<close>)
qed

interpretation svm: event_machine svc_step svc_enabled svc_safe
  by unfold_locales (rule svc_safe_step)

lemma svc_inv_new: "svc_inv new_supervisor"
  by (simp add: svc_inv_def new_supervisor_def)

lemma svc_safe_new: "svc_safe new_supervisor"
  by (simp add: svc_safe_def svc_inv_new)


section \<open>Who can bring a service up\<close>

fun starts_service :: "string \<Rightarrow> svc_event \<Rightarrow> bool" where
  "starts_service n (SStart name res now) = (name = n)"
| "starts_service n e = False"

text \<open>The entry \<open>r\<close> is a service called \<open>n\<close> that is to stay down, with no child outside \<open>cs\<close>.\<close>

definition kept_down :: "nat \<Rightarrow> string \<Rightarrow> nat set \<Rightarrow> supervisor \<Rightarrow> bool" where
  "kept_down r n cs s \<longleftrightarrow> r < length (sv_heap s) \<and> sr_name (entry_at s r) = n \<and>
     sr_desired (entry_at s r) = WantStopped \<and> live_children (sv_host s) r \<subseteq> cs"

lemma kept_down_set:
  assumes "kept_down r n cs s" "r' = r \<Longrightarrow> sr_name (f (entry_at s r)) = sr_name (entry_at s r) \<and>
      sr_desired (f (entry_at s r)) = WantStopped"
  shows "kept_down r n cs (sv_set r' f s)"
  using assms by (cases "r' = r") (auto simp: kept_down_def sv_set_def)

lemma kept_down_host:
  "kept_down r n cs s \<Longrightarrow> live_children (g (sv_host s)) r \<subseteq> live_children (sv_host s) r \<Longrightarrow>
   kept_down r n cs (sv_with_host g s)"
  by (auto simp: kept_down_def)

lemma kept_down_launch:
  assumes "kept_down r n cs s" "r' \<noteq> r" "host_wf (sv_host s)"
  shows "kept_down r n cs (snd (sv_launch r' res now s))"
proof (cases "spawn_error res")
  case None
  obtain c h where sp: "spawn_child r' (spawn_pid res) (sv_host s) = (c, h)" by fastforce
  have "kept_down r n cs (s\<lparr>sv_host := h\<rparr>)"
    using assms host_after_spawn(1) [OF assms(3) sp] by (simp add: kept_down_def)
  with None sp assms(2) show ?thesis
    by (simp add: sv_launch_def kept_down_set)
qed (use assms in \<open>simp add: sv_launch_def\<close>)

lemma kept_down_start:
  assumes "kept_down r n cs s" "map_of (sv_names s) name \<noteq> Some r" "host_wf (sv_host s)"
  shows "kept_down r n cs (snd (sv_start name res now s))"
proof (cases "map_of (sv_names s) name")
  case (Some r')
  with assms have "kept_down r n cs (snd (sv_launch r' res now
      (sv_set r' (\<lambda>e. e\<lparr>sr_desired := WantRunning, sr_restarts := 0\<rparr>) s)))"
    by (intro kept_down_launch kept_down_set) auto
  with assms Some show ?thesis by (auto simp: sv_start_def split: prod.splits sum.splits)
qed (use assms in \<open>simp add: sv_start_def\<close>)

lemma kept_down_define:
  assumes "kept_down r n cs s" "host_wf (sv_host s)"
  shows "kept_down r n cs (snd (sv_define name cmd restart mx auto res now s))"
proof (cases "map_of (sv_names s) name")
  case None
  have r: "r < length (sv_heap s)" using assms(1) by (simp add: kept_down_def)
  have add: "kept_down r n cs (with_service name cmd restart mx s)"
    using assms(1) by (simp add: kept_down_def with_service_def nth_append)
  then have "kept_down r n cs (snd (sv_start name res now (with_service name cmd restart mx s)))"
    using r assms(2) by (intro kept_down_start) (auto simp: with_service_def)
  with add None show ?thesis by (simp add: sv_define_state)
qed (use assms in \<open>simp add: sv_define_def\<close>)

lemma kept_down_exit:
  assumes "kept_down r n cs s" "host_wf (sv_host s)"
  shows "kept_down r n cs (sv_on_exit r' code sig now (sv_with_host (child_gone c) s))"
proof -
  let ?s = "sv_with_host (child_gone c) s"
  have down: "kept_down r n cs ?s" by (rule kept_down_host [OF assms(1)]) auto
  have step: "kept_down r n cs (sv_set r' f s')"
    if "kept_down r n cs s'" "\<And>e. sr_name (f e) = sr_name e" "\<And>e. sr_desired (f e) = sr_desired e"
    for f s' using that by (intro kept_down_set) (auto simp: kept_down_def)
  have timer: "kept_down r n cs (s'\<lparr>sv_host := h\<rparr>)"
    if "kept_down r n cs s'" "set_timeout r' ms (sv_host s') = (t, h)" "host_wf (sv_host s')" for s' h t ms
    using that host_after_set(2) [OF that(3,2)] by (simp add: kept_down_def)
  show ?thesis
    using down step timer assms(2)
    by (simp add: sv_on_exit_def Let_def host_wf_gone split: prod.splits)
qed

lemma kept_down_fire:
  assumes "kept_down r n cs s" "r' \<noteq> r" "host_wf (sv_host s)"
  shows "kept_down r n cs (sv_fire t r' res now s)"
proof -
  let ?s = "sv_set r' (\<lambda>e. e\<lparr>se_timer := None\<rparr>) (sv_with_host (clear_timeout t) s)"
  have "kept_down r n cs ?s"
    using assms by (intro kept_down_set kept_down_host) auto
  moreover from this have "kept_down r n cs (snd (sv_launch r' res now ?s))"
    using assms by (intro kept_down_launch) (auto simp: host_wf_clear)
  ultimately show ?thesis
    by (auto simp: sv_fire_def Let_def kept_down_def split: prod.splits sum.splits)
qed

lemma kept_down_log:
  "kept_down r n cs s \<Longrightarrow> kept_down r n cs (sv_set r' (sv_append out) s)"
  by (rule kept_down_set) (auto simp: sv_append_def kept_down_def)

lemma kept_down_step:
  assumes "svc_safe s" "svc_enabled e s" "kept_down r n cs s" "\<not> starts_service n e"
  shows "kept_down r n cs (svc_step e s)"
proof -
  have "sv_fatal s = None" using assms(2) by (cases e) simp_all
  then have inv: "svc_inv s" using assms(1) by (simp add: svc_safe_def)
  note wf = svc_invD(1) [OF inv]
  show ?thesis
  proof (cases e)
    case (SStart name res now)
    then have "map_of (sv_names s) name \<noteq> Some r"
      using assms(3,4) svc_invD(4) [OF inv, of name r] by (auto simp: kept_down_def)
    with SStart assms(3) wf show ?thesis by (simp add: kept_down_start)
  next
    case (SStop name)
    have "kept_down r n cs (sv_with_host (opt_clear t) (sv_set r' (\<lambda>e. e\<lparr>sr_desired := WantStopped, se_timer := None\<rparr>) s))"
      for t r' using assms(3) by (intro kept_down_host kept_down_set) (auto simp: kept_down_def)
    with SStop assms(3) show ?thesis
      by (auto simp: sv_stop_def Let_def intro!: kept_down_host kept_down_set split: option.splits)
        (auto simp: kept_down_def)
  next
    case (SRemove name)
    have "kept_down r n cs (s'\<lparr>sv_names := m\<rparr>) = kept_down r n cs s'" for s' m
      by (simp add: kept_down_def)
    with SRemove assms(3) show ?thesis
      by (auto simp: sv_remove_def Let_def intro!: kept_down_host kept_down_set split: option.splits)
  next
    case SShutdown
    have "kept_down r n cs (sv_shutdown_one r' s)" if "kept_down r n cs s" for r' s
      using that by (auto simp: sv_shutdown_one_def Let_def intro!: kept_down_host kept_down_set)
    then have "kept_down r n cs (fold sv_shutdown_one rs s)" if "kept_down r n cs s" for rs s
      using that by (induction rs arbitrary: s) simp_all
    with SShutdown assms(3) show ?thesis by (simp add: sv_shutdown_def)
  next
    case (SFire t r' res now)
    then obtain d where "(t, d) \<in> armed (sv_host s) r'" using assms(2) by (auto simp: armed_def)
    then have "r' \<noteq> r" using assms(3) svc_invD(7) [OF inv, of r] by (auto simp: kept_down_def svc_local_def)
    with SFire assms(3) wf show ?thesis by (simp add: kept_down_fire)
  qed (use assms(3) wf kept_down_log in \<open>simp_all add: kept_down_define kept_down_exit sv_on_data_def
      sv_on_error_def\<close>)
qed


lemma svc_runs_inv:
  "runs svc_step svc_enabled new_supervisor es \<Longrightarrow> sv_fatal (fold svc_step es new_supervisor) = None \<Longrightarrow>
   svc_inv (fold svc_step es new_supervisor)"
  using svm.run_inv [OF svc_safe_new] by (simp add: svc_safe_def)

section \<open>Properties\<close>

text \<open>
  C9. Service supervisor safety. From boot, along any interleaving of definitions, starts,
  stops, removals, shutdowns, output, exits and timeouts: the map and the entries agree on
  the names; every live child and armed timer belongs to an entry; each entry's log is
  capped; it has a child exactly while it is ``running'' and never two; it has an armed restart
  timer exactly while it is ``restarting'' and wanted, one timer, with a delay between 500 and
  5000 ms; a restarting entry is within its restart limit; and an entry that left the map is
  never wanted. (While no restart's spawn threw, which would end the kernel.)
\<close>

theorem svc_runs_safe:
  assumes "runs svc_step svc_enabled new_supervisor es"
    and "sv_fatal (fold svc_step es new_supervisor) = None"
  shows "svc_inv (fold svc_step es new_supervisor)"
  by (rule svc_runs_inv [OF assms])

definition svc_demo :: "svc_event list" where
  "svc_demo =
     [SDefine ''web'' ''httpd'' None (Some 2) None (Spawned 7) 100,
      SDefine ''job'' ''batch'' (Some OnFailure) None (Some False) NotStarted 120,
      SData 0 ''up'', SExit 0 0 (Some 1) None 900, SFire 1 0 (Spawned 8) 1400,
      SStart ''job'' (Spawned 9) 1500]"

lemma svc_demo_runs:
  "runs svc_step svc_enabled new_supervisor svc_demo"
  "sv_fatal (fold svc_step svc_demo new_supervisor) = None"
  by code_simp+

theorem svc_runs_safe_witness: "svc_inv (fold svc_step svc_demo new_supervisor)"
  by (rule svc_runs_safe [OF svc_demo_runs])



text \<open>
  A start right after a stop is lost. While the child of a stopped service is still
  shutting down, the status is still ``running'', so \<open>svc.start\<close> answers with the record and
  changes nothing; when the child then exits the service goes down and no restart is
  scheduled, although the last command the supervisor accepted was a start.
\<close>

theorem svc_start_after_stop_lost:
  assumes "runs svc_step svc_enabled new_supervisor es" and "s = fold svc_step es new_supervisor"
    and "sv_fatal s = None"
    and "map_of (sv_names s) name = Some r" and "c \<in> live_children (sv_host s) r"
    and "s1 = snd (sv_stop name s)"
  shows "(\<exists>rec. sv_start name res now s1 = (return rec, s1) \<and> sr_status rec = Running) \<and>
    (let s2 = svc_step (SExit c r code sig now') s1
     in sr_status (entry_at s2 r) = Stopped \<and> live_children (sv_host s2) r = {} \<and>
        armed (sv_host s2) r = {})"
proof -
  have inv: "svc_inv s" using svc_runs_inv assms(1-3) by blast
  note ex = svc_exit_local [OF inv assms(5)]
  have inv1: "svc_inv s1" using svc_inv_stop [OF inv] assms(6) by simp
  have s1: "map_of (sv_names s1) name = Some r" "sr_status (entry_at s1 r) = Running"
    "sr_desired (entry_at s1 r) = WantStopped" "c \<in> live_children (sv_host s1) r"
    "r < length (sv_heap s1)"
    using assms(4,5,6) ex by (auto simp: sv_stop_def Let_def)
  have "sv_start name res now s1 = (return (service_rec (entry_at s1 r)), s1)"
    using s1 by (simp add: sv_start_def)
  moreover have "svc_inv (svc_step (SExit c r code sig now') s1)"
    using svc_inv_exit [OF inv1 s1(4)] by simp
  moreover have "svc_step (SExit c r code sig now') s1 =
      s1\<lparr>sv_heap := (sv_heap s1)[r := exited code sig now' (entry_at s1 r)\<lparr>sr_status := Stopped\<rparr>],
        sv_host := child_gone c (sv_host s1)\<rparr>"
    using exit_stops [OF s1(5)] s1(3) by (simp add: wants_restart_def)
  moreover have "live_children (sv_host s1) r = {c}" "armed (sv_host s1) r = {}"
    using svc_exit_local [OF inv1 s1(4)] by simp_all
  ultimately show ?thesis
    using s1 by (simp add: service_record.truncate_def)
qed

theorem svc_start_after_stop_lost_witness:
  "let s1 = snd (sv_stop ''web'' (fold svc_step svc_demo new_supervisor));
       s2 = svc_step (SExit 2 0 None (Some ''SIGTERM'') 2000) s1
   in snd (sv_start ''web'' (Spawned 11) 1900 s1) = s1 \<and> sr_status (entry_at s2 0) = Stopped"
proof -
  let ?s = "fold svc_step svc_demo new_supervisor"
  have "map_of (sv_names ?s) ''web'' = Some 0" "map_of (h_children (sv_host ?s)) 2 = Some 0"
    by code_simp+
  then show ?thesis
    using svc_start_after_stop_lost [OF svc_demo_runs(1) refl svc_demo_runs(2) _ _ refl,
        of "''web''" 0 2 "Spawned 11" 1900 None "Some ''SIGTERM''" 2000]
    by (auto simp: in_live Let_def)
qed


text \<open>
  One crash of the service \<open>r\<close> at time \<open>x\<close>, and the firing of its restart timer at time \<open>f\<close>, which
  gets a child with pid \<open>p\<close>.
\<close>

definition crash :: "nat \<Rightarrow> int option \<Rightarrow> int \<Rightarrow> supervisor \<Rightarrow> supervisor" where
  "crash r code x s = svc_step (SExit (the (se_child (entry_at s r))) r code None x) s"

definition refire :: "nat \<Rightarrow> int \<Rightarrow> int \<Rightarrow> supervisor \<Rightarrow> supervisor" where
  "refire r f p s = svc_step (SFire (the (se_timer (entry_at s r))) r (Spawned p) f) s"

fun crash_loop :: "nat \<Rightarrow> int option \<Rightarrow> (int \<times> int \<times> int) list \<Rightarrow> supervisor \<Rightarrow> supervisor" where
  "crash_loop r code [] s = s"
| "crash_loop r code ((x, f, p) # cs) s = crash_loop r code cs (refire r f p (crash r code x s))"

text \<open>Every run of the loop is at most ten seconds long, the last one ending at \<open>x\<close>.\<close>

fun short_runs :: "int \<Rightarrow> (int \<times> int \<times> int) list \<Rightarrow> int \<Rightarrow> bool" where
  "short_runs start [] final = (final - start \<le> stable_ms)"
| "short_runs start ((x, f, p) # cs) final =
     (x - start \<le> stable_ms \<and> 0 < p \<and> short_runs f cs final)"

text \<open>A wanted service with a live child that its policy restarts after the exit code \<open>code\<close>.\<close>

definition up :: "nat \<Rightarrow> int option \<Rightarrow> supervisor \<Rightarrow> bool" where
  "up r code s \<longleftrightarrow> svc_inv s \<and> r < length (sv_heap s) \<and> live_children (sv_host s) r \<noteq> {} \<and>
     wants_restart code (entry_at s r)"

lemma up_child:
  assumes "up r code s"
  obtains c where "c \<in> live_children (sv_host s) r" "se_child (entry_at s r) = Some c"
  using assms svc_exit_local(3) by (auto simp: up_def)

lemma crash_restarts:
  assumes up: "up r code s" and n: "n = next_restart x (entry_at s r)" "n \<le> sr_maxRestarts (entry_at s r)"
  shows "svc_inv (crash r code x s)" "armed (sv_host (crash r code x s)) r \<noteq> {}"
    "\<And>t d. (t, d) \<in> armed (sv_host (crash r code x s)) r \<Longrightarrow> d = backoff_ms n"
    "sr_restarts (entry_at (crash r code x s) r) = n"
    "sr_maxRestarts (entry_at (crash r code x s) r) = sr_maxRestarts (entry_at s r)"
    "sr_restart (entry_at (crash r code x s) r) = sr_restart (entry_at s r)"
    "sr_status (entry_at (crash r code x s) r) = Restarting"
proof -
  obtain c where c: "c \<in> live_children (sv_host s) r" "se_child (entry_at s r) = Some c"
    using up_child [OF up] .
  have inv: "svc_inv s" and r: "r < length (sv_heap s)" and w: "wants_restart code (entry_at s r)"
    using up by (simp_all add: up_def)
  obtain t h where st: "set_timeout r (backoff_ms n) (child_gone c (sv_host s)) = (t, h)" by fastforce
  have eq: "crash r code x s = s\<lparr>sv_heap := (sv_heap s)[r := exited code None x (entry_at s r)
          \<lparr>sr_restarts := n, sr_status := Restarting, se_timer := Some t\<rparr>], sv_host := h\<rparr>"
    using exit_restarts [OF r w] n st c(2) by (simp add: crash_def)
  show "svc_inv (crash r code x s)"
    using svc_inv_exit [OF inv c(1)] c(2) by (simp add: crash_def)
  have "1 \<le> n" using svc_invD(7) [OF inv r] n(1) by (simp add: next_restart_pos svc_local_def)
  then have "armed h r = {(t, backoff_ms n)}"
    using host_after_set(1) [OF host_wf_gone [OF svc_invD(1) [OF inv]] st] svc_exit_local(5) [OF inv c(1)]
    by (simp add: backoff_delay)
  then show "armed (sv_host (crash r code x s)) r \<noteq> {}"
    "\<And>t d. (t, d) \<in> armed (sv_host (crash r code x s)) r \<Longrightarrow> d = backoff_ms n"
    by (simp_all add: eq)
  show "sr_restarts (entry_at (crash r code x s) r) = n"
    "sr_maxRestarts (entry_at (crash r code x s) r) = sr_maxRestarts (entry_at s r)"
    "sr_restart (entry_at (crash r code x s) r) = sr_restart (entry_at s r)"
    "sr_status (entry_at (crash r code x s) r) = Restarting"
    using r by (simp_all add: eq exited_def)
qed

lemma refire_up:
  assumes "svc_inv s" "armed (sv_host s) r \<noteq> {}" "0 < p" "should_restart (sr_restart (entry_at s r)) code"
  shows "up r code (refire r f p s)"
    "sr_restarts (entry_at (refire r f p s) r) = sr_restarts (entry_at s r)"
    "sr_maxRestarts (entry_at (refire r f p s) r) = sr_maxRestarts (entry_at s r)"
    "se_lastStartMs (entry_at (refire r f p s) r) = f"
    "sr_status (entry_at (refire r f p s) r) = Running"
proof -
  obtain t d where t: "(t, d) \<in> armed (sv_host s) r" using assms(2) by auto
  note loc = svc_armed_local [OF assms(1) t]
  obtain c h where sp: "spawn_child r (Some p) (clear_timeout t (sv_host s)) = (c, h)" by fastforce
  have eq: "refire r f p s = s\<lparr>sv_heap := (sv_heap s)[r := (entry_at s r)\<lparr>se_timer := None,
      se_child := Some c, sr_pid := p, sr_status := Running,
      sr_startedAt := Some f, se_lastStartMs := f\<rparr>], sv_host := h\<rparr>"
    using fire_launches [OF assms(1) t, of "Spawned p"] sp loc(4) by (simp add: refire_def child_pid_def)
  have "svc_inv (refire r f p s)"
    using svc_inv_fire [OF assms(1) t, of "Spawned p" f] assms(3) loc(4)
    by (simp add: refire_def pid_ok_def)
  moreover have "live_children h r \<noteq> {}"
    using host_after_spawn(1) [OF host_wf_clear [OF svc_invD(1) [OF assms(1)]] sp] by simp
  ultimately show "up r code (refire r f p s)"
    using loc(1,3) assms(4) by (simp add: up_def eq wants_restart_def)
  show "sr_restarts (entry_at (refire r f p s) r) = sr_restarts (entry_at s r)"
    "sr_maxRestarts (entry_at (refire r f p s) r) = sr_maxRestarts (entry_at s r)"
    "se_lastStartMs (entry_at (refire r f p s) r) = f"
    "sr_status (entry_at (refire r f p s) r) = Running"
    using loc(1) by (simp_all add: eq)
qed


lemma crash_cycle:
  assumes up: "up r code s" and le: "sr_restarts (entry_at s r) < sr_maxRestarts (entry_at s r)"
    and short: "x - se_lastStartMs (entry_at s r) \<le> stable_ms" and p: "0 < p"
  shows "up r code (refire r f p (crash r code x s))" "sr_restarts (entry_at (refire r f p (crash r code x s)) r) = sr_restarts (entry_at s r) + 1"
    "sr_maxRestarts (entry_at (refire r f p (crash r code x s)) r) = sr_maxRestarts (entry_at s r)"
    "se_lastStartMs (entry_at (refire r f p (crash r code x s)) r) = f"
proof -
  have n: "sr_restarts (entry_at s r) + 1 = next_restart x (entry_at s r)"
    using short by (simp add: next_restart_def)
  have "sr_restarts (entry_at s r) + 1 \<le> sr_maxRestarts (entry_at s r)" using le by simp
  note c = crash_restarts [OF up n this]
  have "should_restart (sr_restart (entry_at (crash r code x s) r)) code"
    using up c(6) by (simp add: up_def wants_restart_def)
  note f = refire_up [OF c(1,2) p this, of f]
  show "up r code (refire r f p (crash r code x s))"
    "sr_restarts (entry_at (refire r f p (crash r code x s)) r) = sr_restarts (entry_at s r) + 1"
    "sr_maxRestarts (entry_at (refire r f p (crash r code x s)) r) = sr_maxRestarts (entry_at s r)"
    "se_lastStartMs (entry_at (refire r f p (crash r code x s)) r) = f"
    using f c(4,5) by simp_all
qed

lemma crash_loop_runs:
  "up r code s \<Longrightarrow> int (length cs) = sr_maxRestarts (entry_at s r) - sr_restarts (entry_at s r) \<Longrightarrow>
   short_runs (se_lastStartMs (entry_at s r)) cs x \<Longrightarrow>
   up r code (crash_loop r code cs s) \<and>
   sr_restarts (entry_at (crash_loop r code cs s) r) = sr_maxRestarts (entry_at (crash_loop r code cs s) r) \<and>
   x - se_lastStartMs (entry_at (crash_loop r code cs s) r) \<le> stable_ms"
proof (induction r code cs s rule: crash_loop.induct)
  case (2 r code x1 f p cs s)
  then have "sr_restarts (entry_at s r) < sr_maxRestarts (entry_at s r)"
    "x1 - se_lastStartMs (entry_at s r) \<le> stable_ms" "0 < p" by simp_all
  note c = crash_cycle [OF "2.prems"(1) this, of f]
  have "int (length cs) = sr_maxRestarts (entry_at s r) - (sr_restarts (entry_at s r) + 1)"
    "short_runs f cs x" using "2.prems" by simp_all
  with "2.IH" [OF c(1)] c(2-4) show ?case by simp
qed simp

text \<open>
  C15. Crash-loop guard. A running service whose policy restarts it, and which keeps crashing
  within ten seconds of each start, is restarted exactly as often as its limit allows: after
  that many crash-and-restart rounds it is running with its counter at the limit, and the
  next crash makes it ``failed'', with no child and no timer, so it is not restarted again.
\<close>

theorem svc_crash_loop_fails:
  assumes "runs svc_step svc_enabled new_supervisor es" and "s = fold svc_step es new_supervisor"
    and "sv_fatal s = None"
    and "c \<in> live_children (sv_host s) r" and "sr_desired (entry_at s r) = WantRunning"
    and "should_restart (sr_restart (entry_at s r)) code"
    and "int (length cs) = sr_maxRestarts (entry_at s r) - sr_restarts (entry_at s r)"
    and "short_runs (se_lastStartMs (entry_at s r)) cs x"
  shows "let s1 = crash_loop r code cs s; s2 = crash r code x s1
    in sr_status (entry_at s1 r) = Running \<and>
       sr_restarts (entry_at s1 r) = sr_maxRestarts (entry_at s1 r) \<and>
       sr_status (entry_at s2 r) = Failed \<and> live_children (sv_host s2) r = {} \<and>
       armed (sv_host s2) r = {}"
proof -
  let ?s1 = "crash_loop r code cs s"
  have inv: "svc_inv s" using svc_runs_inv assms(1-3) by blast
  have "up r code s"
    using svc_exit_local [OF inv assms(4)] inv assms(5,6) by (simp add: up_def wants_restart_def)
  from crash_loop_runs [OF this assms(7,8)] have loop: "up r code ?s1"
    "sr_restarts (entry_at ?s1 r) = sr_maxRestarts (entry_at ?s1 r)"
    "x - se_lastStartMs (entry_at ?s1 r) \<le> stable_ms" by auto
  obtain c1 where c1: "c1 \<in> live_children (sv_host ?s1) r" "se_child (entry_at ?s1 r) = Some c1"
    using up_child [OF loop(1)] .
  have inv1: "svc_inv ?s1" and w: "wants_restart code (entry_at ?s1 r)"
    using loop(1) by (simp_all add: up_def)
  note ex = svc_exit_local [OF inv1 c1(1)]
  have "next_restart x (entry_at ?s1 r) > sr_maxRestarts (entry_at ?s1 r)"
    using loop(2,3) by (simp add: next_restart_def)
  from exit_fails [OF ex(1) w this, of None c1] show ?thesis
    using ex loop(2) by (simp add: Let_def crash_def c1(2))
qed

theorem svc_crash_loop_fails_witness:
  "sr_status (entry_at (crash 0 (Some 1) 2600 (crash_loop 0 (Some 1) [(1500, 2500, 9)]
     (fold svc_step svc_demo new_supervisor))) 0) = Failed"
proof -
  let ?s = "fold svc_step svc_demo new_supervisor"
  have "map_of (h_children (sv_host ?s)) 2 = Some 0" by code_simp
  then have c: "2 \<in> live_children (sv_host ?s) 0" by (simp add: in_live)
  have "sr_desired (entry_at ?s 0) = WantRunning" "should_restart (sr_restart (entry_at ?s 0)) (Some 1)"
    "int (length [(1500::int, 2500::int, 9::int)]) = sr_maxRestarts (entry_at ?s 0) - sr_restarts (entry_at ?s 0)"
    "short_runs (se_lastStartMs (entry_at ?s 0)) [(1500, 2500, 9)] 2600"
    by code_simp+
  from svc_crash_loop_fails [OF svc_demo_runs(1) refl svc_demo_runs(2) c this]
  show ?thesis by (simp add: Let_def)
qed

text \<open>
  C14. Self-healing. When the child of a wanted service exits with a code its policy restarts
  and the limit is not reached, the service becomes ``restarting'' with one armed timer whose
  delay is 500 ms times the restart count, at most 5000 ms; and when that timer fires and the
  host starts the command, the service is running again with a live child.
\<close>

theorem svc_restarts_with_backoff:
  assumes "runs svc_step svc_enabled new_supervisor es" and "s = fold svc_step es new_supervisor"
    and "sv_fatal s = None"
    and "c \<in> live_children (sv_host s) r" and "sr_desired (entry_at s r) = WantRunning"
    and "should_restart (sr_restart (entry_at s r)) code"
    and "n = (if x - se_lastStartMs (entry_at s r) > 10000 then 1 else sr_restarts (entry_at s r) + 1)"
    and "n \<le> sr_maxRestarts (entry_at s r)" and "0 < p"
  shows "let s1 = crash r code x s; s2 = refire r f p s1
    in sr_status (entry_at s1 r) = Restarting \<and> snd ` armed (sv_host s1) r = {min (500 * n) 5000} \<and>
       sr_status (entry_at s2 r) = Running \<and> live_children (sv_host s2) r \<noteq> {}"
proof -
  have inv: "svc_inv s" using svc_runs_inv assms(1-3) by blast
  have up: "up r code s"
    using svc_exit_local [OF inv assms(4)] inv assms(5,6) by (simp add: up_def wants_restart_def)
  have "n = next_restart x (entry_at s r)" using assms(7) by (simp add: next_restart_def stable_ms_def)
  note c = crash_restarts [OF up this assms(8)]
  have "snd ` armed (sv_host (crash r code x s)) r = {min (500 * n) 5000}"
    using c(2,3) by (force simp: backoff_ms_def base_backoff_def max_backoff_def)
  moreover have "should_restart (sr_restart (entry_at (crash r code x s) r)) code"
    using c(6) assms(6) by simp
  note refire_up [OF c(1,2) assms(9) this, of f]
  ultimately show ?thesis using c(7) by (simp add: Let_def up_def)
qed

theorem svc_restarts_with_backoff_witness:
  "snd ` armed (sv_host (crash 0 (Some 1) 1500 (fold svc_step svc_demo new_supervisor))) 0 = {1000}"
proof -
  let ?s = "fold svc_step svc_demo new_supervisor"
  have "map_of (h_children (sv_host ?s)) 2 = Some 0" by code_simp
  then have c: "2 \<in> live_children (sv_host ?s) 0" by (simp add: in_live)
  have "sr_desired (entry_at ?s 0) = WantRunning" "should_restart (sr_restart (entry_at ?s 0)) (Some 1)"
    "2 = (if 1500 - se_lastStartMs (entry_at ?s 0) > 10000 then 1 else sr_restarts (entry_at ?s 0) + 1)"
    "2 \<le> sr_maxRestarts (entry_at ?s 0)" "0 < (9::int)"
    by code_simp+
  from svc_restarts_with_backoff [OF svc_demo_runs(1) refl svc_demo_runs(2) c this, of 0]
  show ?thesis by (simp add: Let_def)
qed

end
