(* ===== verification/VoidScheduler.thy ===== *)
theory VoidScheduler
  imports VoidHost
begin

text \<open>
  kernel/src/scheduler.ts: jobs on timers. A shell job runs a command when it fires, a wake job
  queues a prompt for the mind. Entries are mutable objects captured by timers and children,
  so they live in a heap; \<open>cancel\<close> only takes them out of the \<open>jobs\<close> map. A run in progress is
  a child handle with the closure's entry and its \<open>out\<close> buffer. Instants are milliseconds.
\<close>

section \<open>State\<close>

definition output_cap :: int where
  "output_cap = 2000"

datatype job_kind = Shell | Wake

datatype job_result = Queued string | SpawnFailed string | Finished "int option" string

record job_record =
  jr_name :: string
  jr_kind :: job_kind
  jr_schedule :: string
  jr_enabled :: bool
  jr_runs :: int
  jr_maxRuns :: "int option"
  jr_createdAt :: int
  jr_nextRunAt :: "int option"
  jr_lastRunAt :: "int option"
  jr_lastResult :: "job_result option"
  jr_cmd :: "string option"
  jr_prompt :: "string option"

record job_entry = job_record +
  je_everyMs :: "int option"
  je_timer :: "nat option"

record wakeup =
  wk_id :: string
  wk_job :: string
  wk_prompt :: string
  wk_firedAt :: int

record scheduler =
  sc_heap :: "job_entry list"
  sc_names :: "(string \<times> nat) list"
  sc_wakeQueue :: "wakeup list"
  sc_seq :: nat
  sc_runs :: "(nat \<times> nat \<times> string) list"
  sc_host :: "nat host"
  sc_fatal :: "string option"

definition new_scheduler :: scheduler where
  "new_scheduler = \<lparr>sc_heap = [], sc_names = [], sc_wakeQueue = [], sc_seq = 0, sc_runs = [],
                    sc_host = new_host, sc_fatal = None\<rparr>"

abbreviation job_at :: "scheduler \<Rightarrow> nat \<Rightarrow> job_entry" where
  "job_at s r \<equiv> sc_heap s ! r"

abbreviation job_rec :: "job_entry \<Rightarrow> job_record" where
  "job_rec e \<equiv> job_record.truncate e"

definition sc_set :: "nat \<Rightarrow> (job_entry \<Rightarrow> job_entry) \<Rightarrow> scheduler \<Rightarrow> scheduler" where
  "sc_set r f s = s\<lparr>sc_heap := (sc_heap s)[r := f (job_at s r)]\<rparr>"

section \<open>Dates and texts\<close>

text \<open>\<open>toISOString\<close> of an instant more than 100 million days from the epoch throws.\<close>

definition valid_date :: "int \<Rightarrow> bool" where
  "valid_date ms \<longleftrightarrow> \<bar>ms\<bar> \<le> 8640000000000000"

definition invalid_time :: string where
  "invalid_time = ''Invalid time value''"

text \<open>The decimal that \<open>ms / 1000\<close> prints as.\<close>

definition seconds_str :: "int \<Rightarrow> string" where
  "seconds_str ms =
     (let a = nat \<bar>ms\<bar>; q = a div 1000; f = a mod 1000
      in (if ms < 0 then ''-'' else []) @ nat_str q @
         (if f = 0 then []
          else ''.'' @ (if f mod 100 = 0 then nat_str (f div 100)
                        else if f mod 10 = 0
                        then (if f < 100 then ''0'' else []) @ nat_str (f div 10)
                        else (if f < 10 then ''00'' else if f < 100 then ''0'' else []) @ nat_str f)))"

definition schedule_text :: "int option \<Rightarrow> int \<Rightarrow> int option \<Rightarrow> string" where
  "schedule_text everyMs firstDelayMs maxRuns =
     (case everyMs of
        Some ms \<Rightarrow> ''every '' @ seconds_str ms @ ''s'' @
          (case maxRuns of
             Some m \<Rightarrow> if m \<noteq> 0 then [CHR 0x20, CHR 0xD7] @ int_str m else []
           | None \<Rightarrow> [])
      | None \<Rightarrow> ''once in '' @ int_str ((firstDelayMs + 500) div 1000) @ ''s'')"

section \<open>Methods\<close>

definition no_job :: "string \<Rightarrow> string" where
  "no_job name = ''no such job: '' @ name"

definition fresh_job ::
  "string \<Rightarrow> string option \<Rightarrow> string option \<Rightarrow> int option \<Rightarrow> int \<Rightarrow> int option \<Rightarrow> int \<Rightarrow> job_entry" where
  "fresh_job name cmd prompt everyMs firstDelayMs maxRuns now =
     \<lparr>jr_name = name, jr_kind = (if cmd \<noteq> None then Shell else Wake),
      jr_schedule = schedule_text everyMs firstDelayMs maxRuns, jr_enabled = True, jr_runs = 0,
      jr_maxRuns = maxRuns, jr_createdAt = now, jr_nextRunAt = Some (now + firstDelayMs),
      jr_lastRunAt = None, jr_lastResult = None, jr_cmd = cmd, jr_prompt = prompt,
      je_everyMs = everyMs, je_timer = None\<rparr>"

definition sc_schedule ::
  "string \<Rightarrow> string option \<Rightarrow> string option \<Rightarrow> int option \<Rightarrow> int \<Rightarrow> int option \<Rightarrow> int \<Rightarrow>
   scheduler \<Rightarrow> job_record result \<times> scheduler" where
  "sc_schedule name cmd prompt everyMs firstDelayMs maxRuns now s =
     (if map_of (sc_names s) name \<noteq> None
      then (throw (''job already exists: '' @ name @ '' (cancel it first)''), s)
      else if \<not> valid_date (now + firstDelayMs) then (throw invalid_time, s)
      else
        let r = length (sc_heap s);
            e = fresh_job name cmd prompt everyMs firstDelayMs maxRuns now
        in case set_timeout r firstDelayMs (sc_host s) of (t, h) \<Rightarrow>
             (return (job_rec e),
              s\<lparr>sc_heap := sc_heap s @ [e\<lparr>je_timer := Some t\<rparr>],
                sc_names := AList.update name r (sc_names s), sc_host := h\<rparr>))"

definition sc_list :: "scheduler \<Rightarrow> job_record list" where
  "sc_list s = map (\<lambda>r. job_rec (job_at s r)) (map_values (sc_names s))"

definition sc_get :: "string \<Rightarrow> scheduler \<Rightarrow> job_record result" where
  "sc_get name s =
     (case map_of (sc_names s) name of
        None \<Rightarrow> throw (no_job name)
      | Some r \<Rightarrow> return (job_rec (job_at s r)))"

definition sc_cancel :: "string \<Rightarrow> scheduler \<Rightarrow> unit result \<times> scheduler" where
  "sc_cancel name s =
     (case map_of (sc_names s) name of
        None \<Rightarrow> (throw (no_job name), s)
      | Some r \<Rightarrow>
          (return (),
           s\<lparr>sc_host := opt_clear (je_timer (job_at s r)) (sc_host s),
             sc_names := AList.delete name (sc_names s)\<rparr>))"

definition sc_drain :: "scheduler \<Rightarrow> wakeup list \<times> scheduler" where
  "sc_drain s = (sc_wakeQueue s, s\<lparr>sc_wakeQueue := []\<rparr>)"

definition sc_shutdown :: "scheduler \<Rightarrow> scheduler" where
  "sc_shutdown s = s\<lparr>sc_host :=
     fold (\<lambda>r. opt_clear (je_timer (job_at s r)))
       (map_values (sc_names s)) (sc_host s)\<rparr>"

section \<open>Firing\<close>

definition reached_max :: "job_entry \<Rightarrow> bool" where
  "reached_max e = (case jr_maxRuns e of None \<Rightarrow> False | Some m \<Rightarrow> jr_runs e \<ge> m)"

text \<open>
  A throw in a callback ends the kernel, which \<open>sc_fatal\<close> records: here of \<open>toISOString\<close>, in
  \<open>sc_fire\<close> of \<open>spawn\<close>.
\<close>

definition sc_afterFire :: "nat \<Rightarrow> int \<Rightarrow> scheduler \<Rightarrow> scheduler" where
  "sc_afterFire r now s =
     (let e = job_at s r in
      case (if reached_max e \<or> \<not> jr_enabled e then None else je_everyMs e) of
        Some ms \<Rightarrow>
          if \<not> valid_date (now + ms) then s\<lparr>sc_fatal := Some invalid_time\<rparr>
          else (case set_timeout r ms (sc_host s) of (t, h) \<Rightarrow>
                  sc_set r (\<lambda>e. e\<lparr>jr_nextRunAt := Some (now + ms), je_timer := Some t\<rparr>)
                    (s\<lparr>sc_host := h\<rparr>))
      | None \<Rightarrow> sc_set r (\<lambda>e. e\<lparr>jr_nextRunAt := None, jr_enabled := False\<rparr>) s)"

definition wake_id :: "nat \<Rightarrow> string" where
  "wake_id n = ''w'' @ nat_str n"

definition sc_wake :: "nat \<Rightarrow> int \<Rightarrow> scheduler \<Rightarrow> scheduler" where
  "sc_wake r now s =
     (let e = job_at s r;
          n = Suc (sc_seq s);
          w = \<lparr>wk_id = wake_id n, wk_job = jr_name e,
               wk_prompt = (case jr_prompt e of None \<Rightarrow> [] | Some p \<Rightarrow> p), wk_firedAt = now\<rparr>
      in sc_set r (\<lambda>e. e\<lparr>jr_lastResult := Some (Queued (wk_id w))\<rparr>)
           (s\<lparr>sc_seq := n, sc_wakeQueue := sc_wakeQueue s @ [w]\<rparr>))"

definition sc_run :: "nat \<Rightarrow> spawn_result \<Rightarrow> scheduler \<Rightarrow> scheduler" where
  "sc_run r res s =
     (case spawn_error res of
        Some msg \<Rightarrow> s\<lparr>sc_fatal := Some msg\<rparr>
      | None \<Rightarrow>
          (case spawn_child r (spawn_pid res) (sc_host s) of (c, h) \<Rightarrow>
             s\<lparr>sc_runs := AList.update c (r, []) (sc_runs s), sc_host := h\<rparr>))"

definition sc_fire :: "nat \<Rightarrow> nat \<Rightarrow> spawn_result \<Rightarrow> int \<Rightarrow> scheduler \<Rightarrow> scheduler" where
  "sc_fire t r res now s0 =
     (let s = sc_set r (\<lambda>e. e\<lparr>je_timer := None, jr_runs := jr_runs e + 1, jr_lastRunAt := Some now\<rparr>)
                (s0\<lparr>sc_host := clear_timeout t (sc_host s0)\<rparr>)
      in if jr_kind (job_at s r) = Wake then sc_afterFire r now (sc_wake r now s)
         else sc_run r res s)"

definition sc_on_data :: "nat \<Rightarrow> string \<Rightarrow> scheduler \<Rightarrow> scheduler" where
  "sc_on_data c buf s =
     (case map_of (sc_runs s) c of
        None \<Rightarrow> s
      | Some (r, out) \<Rightarrow> s\<lparr>sc_runs := AList.update c (r, out @ buf) (sc_runs s)\<rparr>)"

definition sc_end_run :: "nat \<Rightarrow> nat \<Rightarrow> job_result \<Rightarrow> int \<Rightarrow> scheduler \<Rightarrow> scheduler" where
  "sc_end_run c r res now s =
     sc_afterFire r now
       (sc_set r (\<lambda>e. e\<lparr>jr_lastResult := Some res\<rparr>)
         (s\<lparr>sc_runs := AList.delete c (sc_runs s), sc_host := child_gone c (sc_host s)\<rparr>))"

definition sc_on_error :: "nat \<Rightarrow> string \<Rightarrow> int \<Rightarrow> scheduler \<Rightarrow> scheduler" where
  "sc_on_error c msg now s =
     (case map_of (sc_runs s) c of
        None \<Rightarrow> s
      | Some (r, out) \<Rightarrow> sc_end_run c r (SpawnFailed msg) now s)"

definition sc_on_exit :: "nat \<Rightarrow> int option \<Rightarrow> int \<Rightarrow> scheduler \<Rightarrow> scheduler" where
  "sc_on_exit c code now s =
     (case map_of (sc_runs s) c of
        None \<Rightarrow> s
      | Some (r, out) \<Rightarrow> sc_end_run c r (Finished code (slice_from (- output_cap) out)) now s)"

section \<open>The machine\<close>

datatype cron_event =
    JSchedule string "string option" "string option" "int option" int "int option" int
  | JCancel string
  | JDrain
  | JFire nat nat spawn_result int
  | JData nat string
  | JError nat string int
  | JExit nat "int option" int

fun cron_step :: "cron_event \<Rightarrow> scheduler \<Rightarrow> scheduler" where
  "cron_step (JSchedule name cmd prompt every first mx now) s =
     snd (sc_schedule name cmd prompt every first mx now s)"
| "cron_step (JCancel name) s = snd (sc_cancel name s)"
| "cron_step JDrain s = snd (sc_drain s)"
| "cron_step (JFire t r res now) s = sc_fire t r res now s"
| "cron_step (JData c buf) s = sc_on_data c buf s"
| "cron_step (JError c msg now) s = sc_on_error c msg now s"
| "cron_step (JExit c code now) s = sc_on_exit c code now s"

text \<open>
  Timeouts come from armed timers, exits from live children, and the spawn error from a child
  that was not started. A child is spawned for a shell job only.
\<close>

fun cron_enabled :: "cron_event \<Rightarrow> scheduler \<Rightarrow> bool" where
  "cron_enabled (JFire t r res now) s =
     (sc_fatal s = None \<and> map_option fst (map_of (h_timers (sc_host s)) t) = Some r \<and>
      (case jr_cmd (job_at s r) of None \<Rightarrow> True | Some cmd \<Rightarrow> host_answers cmd res))"
| "cron_enabled (JError c msg now) s =
     (sc_fatal s = None \<and> map_of (h_children (sc_host s)) c = None)"
| "cron_enabled (JExit c code now) s =
     (sc_fatal s = None \<and> map_of (h_children (sc_host s)) c \<noteq> None)"
| "cron_enabled e s = (sc_fatal s = None)"


section \<open>The invariant\<close>

definition runs_of :: "(nat \<times> nat \<times> string) list \<Rightarrow> nat \<Rightarrow> nat set" where
  "runs_of rs r = {c. \<exists>out. map_of rs c = Some (r, out)}"

abbreviation running :: "scheduler \<Rightarrow> nat \<Rightarrow> nat set" where
  "running s r \<equiv> runs_of (sc_runs s) r"

lemma runs_of_delete [simp]: "runs_of (AList.delete c rs) r = runs_of rs r - {c}"
  by (auto simp: runs_of_def jm.lookup_remove split: if_splits)

lemma runs_of_update:
  "runs_of (AList.update c (r, out) rs) r' = (if r' = r then insert c (runs_of rs r') else runs_of rs r' - {c})"
  by (auto simp: runs_of_def jm.lookup_store split: if_splits)

definition within_limit :: "int \<Rightarrow> int option \<Rightarrow> int option \<Rightarrow> bool" where
  "within_limit n everyMs maxRuns \<longleftrightarrow>
     (case everyMs of
        None \<Rightarrow> n \<le> 1
      | Some ms \<Rightarrow> (case maxRuns of None \<Rightarrow> True | Some m \<Rightarrow> n \<le> max 1 m))"

abbreviation job_limit_ok :: "int \<Rightarrow> job_entry \<Rightarrow> bool" where
  "job_limit_ok n e \<equiv> within_limit n (je_everyMs e) (jr_maxRuns e)"

text \<open>
  What an entry, the host and the runs in progress agree on. A job waits for at most one timer
  or is in at most one run, never both; while it does either it is enabled; and it has not
  fired more often than its limit allows, nor will it when the armed timer fires.
\<close>

definition job_local :: "nat host \<Rightarrow> nat set \<Rightarrow> nat \<Rightarrow> job_entry \<Rightarrow> bool" where
  "job_local h run r e \<longleftrightarrow>
     live_children h r \<subseteq> run \<and>
     (run = {} \<or> (\<exists>c. run = {c})) \<and>
     (armed h r = {} \<or> run = {}) \<and>
     armed h r \<subseteq> set_option (je_timer e) \<times> UNIV \<and>
     (\<forall>t \<in> set_option (je_timer e). owns h r t) \<and>
     (armed h r \<noteq> {} \<or> run \<noteq> {} \<longrightarrow> jr_enabled e) \<and>
     (jr_kind e = Shell \<longleftrightarrow> jr_cmd e \<noteq> None) \<and>
     (jr_kind e = Wake \<longrightarrow> run = {}) \<and>
     0 \<le> jr_runs e \<and> job_limit_ok (jr_runs e) e \<and>
     (armed h r \<noteq> {} \<longrightarrow> job_limit_ok (jr_runs e + 1) e)"

definition cron_inv :: "scheduler \<Rightarrow> bool" where
  "cron_inv s \<longleftrightarrow>
     host_wf (sc_host s) \<and> map_wf (sc_names s) \<and>
     (\<forall>c p. map_of (sc_runs s) c = Some p \<longrightarrow> c < h_next (sc_host s)) \<and>
     (\<forall>n r. map_of (sc_names s) n = Some r \<longrightarrow> r < length (sc_heap s) \<and> jr_name (job_at s r) = n) \<and>
     (\<forall>r. live_children (sc_host s) r \<noteq> {} \<or> armed (sc_host s) r \<noteq> {} \<or> running s r \<noteq> {} \<longrightarrow>
        r < length (sc_heap s)) \<and>
     (\<forall>r < length (sc_heap s). job_local (sc_host s) (running s r) r (job_at s r)) \<and>
     (\<forall>n r. map_of (sc_names s) n = Some r \<longrightarrow> jr_enabled (job_at s r) \<longrightarrow>
        armed (sc_host s) r \<noteq> {} \<or> running s r \<noteq> {})"

lemma cron_invD:
  assumes "cron_inv s"
  shows "host_wf (sc_host s)" "map_wf (sc_names s)"
    "map_of (sc_runs s) c = Some p \<Longrightarrow> c < h_next (sc_host s)"
    "map_of (sc_names s) n = Some r \<Longrightarrow> r < length (sc_heap s)"
    "map_of (sc_names s) n = Some r \<Longrightarrow> jr_name (job_at s r) = n"
    "c \<in> live_children (sc_host s) r \<Longrightarrow> r < length (sc_heap s)"
    "q \<in> armed (sc_host s) r \<Longrightarrow> r < length (sc_heap s)"
    "c \<in> running s r \<Longrightarrow> r < length (sc_heap s)"
    "r < length (sc_heap s) \<Longrightarrow> job_local (sc_host s) (running s r) r (job_at s r)"
    "map_of (sc_names s) n = Some r \<Longrightarrow> jr_enabled (job_at s r) \<Longrightarrow>
        armed (sc_host s) r \<noteq> {} \<or> running s r \<noteq> {}"
  using assms unfolding cron_inv_def by blast+

lemma cron_invI:
  assumes "host_wf (sc_host s)" "map_wf (sc_names s)"
    and "\<And>c p. map_of (sc_runs s) c = Some p \<Longrightarrow> c < h_next (sc_host s)"
    and "\<And>n r. map_of (sc_names s) n = Some r \<Longrightarrow> r < length (sc_heap s) \<and> jr_name (job_at s r) = n"
    and "\<And>c r. c \<in> live_children (sc_host s) r \<Longrightarrow> r < length (sc_heap s)"
    and "\<And>q r. q \<in> armed (sc_host s) r \<Longrightarrow> r < length (sc_heap s)"
    and "\<And>c r. c \<in> running s r \<Longrightarrow> r < length (sc_heap s)"
    and "\<And>r. r < length (sc_heap s) \<Longrightarrow> job_local (sc_host s) (running s r) r (job_at s r)"
    and "\<And>n r. map_of (sc_names s) n = Some r \<Longrightarrow> jr_enabled (job_at s r) \<Longrightarrow>
        armed (sc_host s) r \<noteq> {} \<or> running s r \<noteq> {}"
  shows "cron_inv s"
  using assms unfolding cron_inv_def by blast

lemma job_local_frame:
  "host_only r h h' \<Longrightarrow> r' \<noteq> r \<Longrightarrow> job_local h run r' e \<Longrightarrow> job_local h' run r' e"
  by (simp add: job_local_def host_only_def)

lemma cron_inv_change:
  assumes inv: "cron_inv s" and r: "r < length (sc_heap s)"
    and s': "sc_heap s' = (sc_heap s)[r := e']" "sc_names s' = sc_names s"
    and host: "host_wf (sc_host s')" "host_only r (sc_host s) (sc_host s')"
    and runs: "\<And>r'. r' \<noteq> r \<Longrightarrow> running s' r' = running s r'"
      "\<And>c p. map_of (sc_runs s') c = Some p \<Longrightarrow> c < h_next (sc_host s')"
    and loc: "job_local (sc_host s') (running s' r) r e'" "jr_name e' = jr_name (job_at s r)"
    and busy: "jr_enabled e' \<Longrightarrow> armed (sc_host s') r = {} \<Longrightarrow> running s' r = {} \<Longrightarrow>
      jr_enabled (job_at s r) \<and> armed (sc_host s) r = {} \<and> running s r = {}"
  shows "cron_inv s'"
proof (rule cron_invI, goal_cases)
  note inv' = cron_invD [OF inv]
  {
    case 1
    show ?case by (rule host)
  next
    case 2
    show ?case by (simp add: inv'(2) s')
  next
    case (3 c p)
    then show ?case by (rule runs)
  next
    case (4 n r')
    then show ?case using inv'(4,5) loc(2) r s' by (cases "r' = r") auto
  next
    case (5 c r')
    then show ?case using host(2) r s' inv'(6) by (cases "r' = r") (auto simp: host_only_def)
  next
    case (6 q r')
    then show ?case using host(2) r s' inv'(7) by (cases "r' = r") (auto simp: host_only_def)
  next
    case (7 c r')
    then show ?case using runs(1) r s' inv'(8) by (cases "r' = r") auto
  next
    case (8 r')
    then show ?case
      using loc(1) job_local_frame [OF host(2) _ inv'(9)] r s' runs(1) by (cases "r' = r") auto
  next
    case (9 n r')
    then show ?case
      using inv'(10) [of n r'] busy r s' runs(1) host(2) by (cases "r' = r") (auto simp: host_only_def)
  }
qed

lemma cron_inv_schedule:
  assumes inv: "cron_inv s"
  shows "cron_inv (snd (sc_schedule name cmd prompt every first mx now s))"
proof (cases "map_of (sc_names s) name = None \<and> valid_date (now + first)")
  case True
  let ?r = "length (sc_heap s)" and ?e = "fresh_job name cmd prompt every first mx now"
  obtain t h where st: "set_timeout ?r first (sc_host s) = (t, h)" by fastforce
  note inv' = cron_invD [OF inv] and hs = host_after_set [OF cron_invD(1) [OF inv] st]
  let ?s = "s\<lparr>sc_heap := sc_heap s @ [?e\<lparr>je_timer := Some t\<rparr>],
    sc_names := AList.update name ?r (sc_names s), sc_host := h\<rparr>"
  have none: "live_children (sc_host s) ?r = {}" "armed (sc_host s) ?r = {}" "running s ?r = {}"
    using inv'(6,7,8) [of _ ?r] by auto
  have next': "h_next h = Suc (h_next (sc_host s))" using st by (auto simp: set_timeout_def)
  have "cron_inv ?s"
  proof (rule cron_invI, goal_cases)
    case 1
    show ?case by (simp add: hs(4))
  next
    case 2
    show ?case by (simp add: inv'(2))
  next
    case (3 c p)
    then show ?case using inv'(3) [of c p] next' by simp
  next
    case (4 n r)
    then show ?case
      using inv'(4,5) [of n r]
      by (auto simp: jm.lookup_store nth_append fresh_job_def split: if_splits)
  next
    case (5 c r)
    then show ?case using inv'(6) [of c r] by (simp add: hs(2))
  next
    case (6 q r)
    then show ?case using inv'(7) [of q r] by (auto simp: hs(1) split: if_splits)
  next
    case (7 c r)
    then show ?case using inv'(8) [of c r] by simp
  next
    case (8 r)
    have "job_local h {} ?r (?e\<lparr>je_timer := Some t\<rparr>)"
      using none hs(1,2,5)
      by (auto simp: job_local_def fresh_job_def within_limit_def split: option.splits)
    with 8 show ?case
      using job_local_frame [OF hs(6) _ inv'(9)] none by (cases "r = ?r") (auto simp: nth_append)
  next
    case (9 n r)
    then show ?case
      using inv'(10) [of n r] inv'(4) [of n r]
      by (auto simp: jm.lookup_store nth_append hs(1) split: if_splits)
  qed
  with True st show ?thesis by (simp add: sc_schedule_def Let_def)
qed (use inv in \<open>auto simp: sc_schedule_def\<close>)


text \<open>
  Clearing the timer of an entry that is still in the table would leave an enabled job that
  waits for nothing; so the clause on the table is left out here and restored by the
  deletion from the map.
\<close>

lemma cron_inv_cancel:
  assumes inv: "cron_inv s"
  shows "cron_inv (snd (sc_cancel name s))"
proof (cases "map_of (sc_names s) name")
  case (Some r)
  let ?e = "job_at s r"
  let ?h = "opt_clear (je_timer ?e) (sc_host s)"
  let ?s = "s\<lparr>sc_host := ?h, sc_names := AList.delete name (sc_names s)\<rparr>"
  note inv' = cron_invD [OF inv] and r = cron_invD(4) [OF inv Some]
  note loc = inv'(9) [OF r]
  have only: "host_only r (sc_host s) ?h"
    using loc by (cases "je_timer ?e") (simp_all add: job_local_def host_only_clear opt_clear_def)
  have next': "h_next ?h = h_next (sc_host s)"
    by (cases "je_timer ?e") (simp_all add: opt_clear_def)
  have "armed ?h r = {}"
    using loc by (auto simp: job_local_def)
  moreover have "owns ?h r t" if "t \<in> set_option (je_timer ?e)" for t
    using loc that by (simp add: job_local_def)
  ultimately have local: "job_local ?h (running s r) r ?e"
    using loc unfolding job_local_def by (elim conjE) (intro conjI; auto)
  have "cron_inv ?s"
  proof (rule cron_invI, goal_cases)
    case 1
    show ?case by (simp add: inv'(1))
  next
    case 2
    show ?case by (simp add: inv'(2))
  next
    case (3 c p)
    then show ?case using inv'(3) [of c p] by (simp add: next')
  next
    case (4 n r')
    then show ?case using inv'(4,5) [of n r'] by (simp add: jm.lookup_remove split: if_splits)
  next
    case (5 c r')
    then show ?case using inv'(6) [of c r'] by simp
  next
    case (6 q r')
    then show ?case using inv'(7) [of q r'] by simp
  next
    case (7 c r')
    then show ?case using inv'(8) [of c r'] by simp
  next
    case (8 r')
    then show ?case using local job_local_frame [OF only _ inv'(9)] by (cases "r' = r") simp_all
  next
    case (9 n r')
    then have n: "map_of (sc_names s) n = Some r'" "n \<noteq> name"
      by (simp_all add: jm.lookup_remove split: if_splits)
    then have "r' \<noteq> r" using inv'(5) [OF Some] inv'(5) [OF n(1)] by blast
    with 9 only inv'(10) [OF n(1)] show ?case by (simp add: host_only_def)
  qed
  with Some show ?thesis by (simp add: sc_cancel_def)
qed (use inv in \<open>simp add: sc_cancel_def\<close>)

lemma cron_inv_fields:
  assumes "sc_heap s' = sc_heap s" "sc_names s' = sc_names s" "sc_host s' = sc_host s"
    and "runs_of (sc_runs s') = runs_of (sc_runs s)" "\<And>c p. map_of (sc_runs s') c = Some p \<Longrightarrow> c < h_next (sc_host s)"
    and "cron_inv s"
  shows "cron_inv s'"
  using assms(5,6) unfolding cron_inv_def assms(1-4) by blast

lemma cron_inv_drain: "cron_inv s \<Longrightarrow> cron_inv (snd (sc_drain s))"
  by (rule cron_inv_fields [of _ s]) (simp_all add: sc_drain_def cron_invD(3))

lemma cron_inv_data: 
  assumes "cron_inv s"
  shows "cron_inv (sc_on_data c buf s)"
proof (cases "map_of (sc_runs s) c")
  case (Some p)
  then obtain r out where p: "map_of (sc_runs s) c = Some (r, out)" by (cases p) auto
  then have "c \<in> running s r" "r' \<noteq> r \<Longrightarrow> c \<notin> running s r'" for r'
    by (simp_all add: runs_of_def)
  then have "runs_of (AList.update c (r, out @ buf) (sc_runs s)) r' = running s r'" for r'
    by (cases "r' = r") (auto simp: runs_of_update)
  then have "runs_of (AList.update c (r, out @ buf) (sc_runs s)) = runs_of (sc_runs s)" by (simp add: fun_eq_iff)
  moreover have "c' < h_next (sc_host s)"
    if "map_of (AList.update c (r, out @ buf) (sc_runs s)) c' = Some q" for c' q
    using that cron_invD(3) [OF assms p] cron_invD(3) [OF assms, of c' q]
    by (cases "c' = c") simp_all
  moreover have "sc_on_data c buf s = s\<lparr>sc_runs := AList.update c (r, out @ buf) (sc_runs s)\<rparr>"
    using p by (simp add: sc_on_data_def)
  ultimately show ?thesis
    by (intro cron_inv_fields [OF _ _ _ _ _ assms]) auto
qed (use assms in \<open>simp add: sc_on_data_def\<close>)

definition cron_safe :: "scheduler \<Rightarrow> bool" where
  "cron_safe s \<longleftrightarrow> (sc_fatal s = None \<longrightarrow> cron_inv s)"

lemma cron_safe_afterFire:
  assumes inv: "cron_inv s0" and r: "r < length (sc_heap s0)"
    and s: "sc_heap s = (sc_heap s0)[r := e]" "sc_names s = sc_names s0"
    and host: "host_wf (sc_host s)" "host_only r (sc_host s0) (sc_host s)"
    and runs: "\<And>r'. r' \<noteq> r \<Longrightarrow> running s r' = running s0 r'"
      "\<And>c p. map_of (sc_runs s) c = Some p \<Longrightarrow> c < h_next (sc_host s)"
    and idle: "armed (sc_host s) r = {}" "running s r = {}" "live_children (sc_host s) r = {}"
    and e: "jr_name e = jr_name (job_at s0 r)" "jr_kind e = Shell \<longleftrightarrow> jr_cmd e \<noteq> None"
      "0 \<le> jr_runs e" "job_limit_ok (jr_runs e) e" "\<forall>t \<in> set_option (je_timer e). owns (sc_host s) r t"
  shows "cron_safe (sc_afterFire r now s)"
proof -
  have at: "job_at s r = e" using s(1) r by simp
  show ?thesis
  proof (cases "if reached_max e \<or> \<not> jr_enabled e then None else je_everyMs e")
    case None
    let ?s = "sc_set r (\<lambda>e. e\<lparr>jr_nextRunAt := None, jr_enabled := False\<rparr>) s"
      have "job_local (sc_host s) {} r (e\<lparr>jr_nextRunAt := None, jr_enabled := False\<rparr>)"
      using idle e by (simp add: job_local_def)
    note loc = this
    have "cron_inv ?s"
    proof (rule cron_inv_change [OF inv r, where e' = "e\<lparr>jr_nextRunAt := None, jr_enabled := False\<rparr>"],
        goal_cases)
      case (5 r')
      then show ?case using runs(1) by (simp add: sc_set_def)
    next
      case (6 c p)
      then show ?case using runs(2) [of c p] by (simp add: sc_set_def)
    qed (use loc r in \<open>simp_all add: sc_set_def s host idle(2) e(1)\<close>)
    with None show ?thesis by (simp add: sc_afterFire_def at cron_safe_def)
  next
    case (Some ms)
    then have more: "jr_enabled e" "\<not> reached_max e" "je_everyMs e = Some ms" by (simp_all split: if_splits)
    show ?thesis
    proof (cases "valid_date (now + ms)")
      case True
      obtain t h where st: "set_timeout r ms (sc_host s) = (t, h)" by fastforce
      note hs = host_after_set [OF host(1) st]
      let ?f = "\<lambda>e. e\<lparr>jr_nextRunAt := Some (now + ms), je_timer := Some t\<rparr>"
      let ?s = "sc_set r ?f (s\<lparr>sc_host := h\<rparr>)"
          have only: "host_only r (sc_host s0) h"
        using host(2) hs(6) by (simp add: host_only_def)
      have next': "h_next h = Suc (h_next (sc_host s))" using st by (auto simp: set_timeout_def)
      have loc: "job_local h {} r (?f e)"
        using idle more e hs(1,2,5)
        by (auto simp: job_local_def within_limit_def reached_max_def split: option.splits)
      have "cron_inv ?s"
      proof (rule cron_inv_change [OF inv r, where e' = "?f e"], goal_cases)
        case (5 r')
        then show ?case using runs(1) by (simp add: sc_set_def)
      next
        case (6 c p)
        then show ?case using runs(2) [of c p] next' by (simp add: sc_set_def)
      qed (use loc only r in \<open>simp_all add: sc_set_def s idle(2) e(1) hs(1,4)\<close>)
      with True Some st show ?thesis by (simp add: sc_afterFire_def at cron_safe_def)
    qed (use Some in \<open>simp add: sc_afterFire_def at cron_safe_def\<close>)
  qed
qed


lemma cron_fire_local:
  assumes inv: "cron_inv s" and t: "(t, d) \<in> armed (sc_host s) r"
  shows "r < length (sc_heap s)" "je_timer (job_at s r) = Some t" "owns (sc_host s) r t"
    "running s r = {}" "live_children (sc_host s) r = {}" "jr_enabled (job_at s r)"
    "job_limit_ok (jr_runs (job_at s r) + 1) (job_at s r)" "0 \<le> jr_runs (job_at s r)"
    "jr_kind (job_at s r) = Shell \<longleftrightarrow> jr_cmd (job_at s r) \<noteq> None"
    "armed (clear_timeout t (sc_host s)) r = {}"
proof -
  show r: "r < length (sc_heap s)" by (rule cron_invD(7) [OF inv t])
  have loc: "job_local (sc_host s) (running s r) r (job_at s r)" by (rule cron_invD(9) [OF inv r])
  have ne: "armed (sc_host s) r \<noteq> {}" using t by auto
  show timer: "je_timer (job_at s r) = Some t"
    using loc t by (cases "je_timer (job_at s r)") (auto simp: job_local_def)
  show "owns (sc_host s) r t" using loc timer by (simp add: job_local_def)
  show run: "running s r = {}" using loc ne by (simp add: job_local_def)
  show "live_children (sc_host s) r = {}" using loc run by (simp add: job_local_def)
  show "jr_enabled (job_at s r)" "job_limit_ok (jr_runs (job_at s r) + 1) (job_at s r)"
    "0 \<le> jr_runs (job_at s r)" "jr_kind (job_at s r) = Shell \<longleftrightarrow> jr_cmd (job_at s r) \<noteq> None"
    using loc ne by (simp_all add: job_local_def)
  show "armed (clear_timeout t (sc_host s)) r = {}"
    using loc timer by (auto simp: job_local_def)
qed

lemma cron_safe_fire:
  assumes inv: "cron_inv s" and t: "(t, d) \<in> armed (sc_host s) r"
  shows "cron_safe (sc_fire t r res now s)"
proof -
  note loc = cron_fire_local [OF inv t] and inv' = cron_invD [OF inv]
  let ?h = "clear_timeout t (sc_host s)"
  let ?e = "(job_at s r)\<lparr>je_timer := None, jr_runs := jr_runs (job_at s r) + 1, jr_lastRunAt := Some now\<rparr>"
  let ?s = "sc_set r (\<lambda>e. e\<lparr>je_timer := None, jr_runs := jr_runs e + 1, jr_lastRunAt := Some now\<rparr>)
              (s\<lparr>sc_host := ?h\<rparr>)"
  have s1: "?s = s\<lparr>sc_heap := (sc_heap s)[r := ?e], sc_host := ?h\<rparr>"
    by (simp add: sc_set_def)
  have wf: "host_wf ?h" by (rule host_wf_clear [OF inv'(1)])
  have only: "host_only r (sc_host s) ?h" by (rule host_only_clear [OF loc(3)])
  show ?thesis
  proof (cases "jr_kind (job_at s r)")
    case Wake
    let ?w = "sc_wake r now ?s"
    let ?e' = "?e\<lparr>jr_lastResult := Some (Queued (wake_id (Suc (sc_seq s))))\<rparr>"
    have w: "sc_heap ?w = (sc_heap s)[r := ?e']" "sc_names ?w = sc_names s" "sc_host ?w = ?h"
      "sc_runs ?w = sc_runs s"
      by (simp_all add: s1 sc_wake_def Let_def sc_set_def loc(1))
    have "cron_safe (sc_afterFire r now ?w)"
      by (rule cron_safe_afterFire [OF inv loc(1) w(1,2)])
        (use loc wf only inv'(3) in \<open>simp_all add: w\<close>)
    with Wake show ?thesis
      by (simp add: sc_fire_def Let_def s1 loc(1))
  next
    case Shell
    show ?thesis
    proof (cases "spawn_error res")
      case None
      obtain c h where sp: "spawn_child r (spawn_pid res) ?h = (c, h)" by fastforce
      note hs = host_after_spawn [OF wf sp]
      have c: "c = h_next (sc_host s)" "h_next h = Suc (h_next (sc_host s))"
        using sp by (auto simp: spawn_child_def)
      have fresh: "c \<notin> running s r'" for r'
        using inv'(3) [of c] c(1) by (auto simp: runs_of_def)
      let ?s' = "s\<lparr>sc_heap := (sc_heap s)[r := ?e], sc_runs := AList.update c (r, []) (sc_runs s), sc_host := h\<rparr>"
      have runs: "runs_of (AList.update c (r, []) (sc_runs s)) r' = (if r' = r then {c} else running s r')" for r'
        using fresh [of r'] loc(4) by (auto simp: runs_of_update)
      have job: "job_local h {c} r ?e"
        using loc Shell by (simp add: job_local_def hs(1,2))
      have "cron_inv ?s'"
      proof (rule cron_inv_change [OF inv loc(1), where e' = ?e], goal_cases)
        case 4
        then show ?case using only hs(6) by (simp add: host_only_def)
      next
        case (6 c' p)
        then show ?case
          using inv'(3) [of c' p] c by (cases "c' = c") simp_all
      qed (use job in \<open>simp_all add: hs(4) runs\<close>)
      moreover have "sc_fire t r res now s = ?s'"
        using Shell None sp by (simp add: sc_fire_def Let_def s1 loc(1) sc_run_def)
      ultimately show ?thesis by (simp add: cron_safe_def)
    next
      case (Some msg)
      with Shell show ?thesis
        by (simp add: sc_fire_def Let_def s1 loc(1) sc_run_def cron_safe_def)
    qed
  qed
qed


lemma cron_safe_end_run:
  assumes inv: "cron_inv s" and c: "map_of (sc_runs s) c = Some (r, out)"
  shows "cron_safe (sc_end_run c r res now s)"
proof -
  note inv' = cron_invD [OF inv]
  have run: "c \<in> running s r" using c by (simp add: runs_of_def)
  have r: "r < length (sc_heap s)" by (rule inv'(8) [OF run])
  have loc: "job_local (sc_host s) (running s r) r (job_at s r)" by (rule inv'(9) [OF r])
  have only1: "running s r = {c}"
    using loc run by (auto simp: job_local_def)
  have idle: "armed (sc_host s) r = {}" "live_children (sc_host s) r \<subseteq> {c}"
    using loc only1 by (simp_all add: job_local_def)
  have e: "0 \<le> jr_runs (job_at s r)" "job_limit_ok (jr_runs (job_at s r)) (job_at s r)"
    "jr_kind (job_at s r) = Shell \<longleftrightarrow> jr_cmd (job_at s r) \<noteq> None"
    "\<forall>t \<in> set_option (je_timer (job_at s r)). owns (sc_host s) r t"
    using loc by (simp_all add: job_local_def)
  have other: "c \<notin> running s r'" "c \<notin> live_children (sc_host s) r'" if "r' \<noteq> r" for r'
  proof -
    show not: "c \<notin> running s r'" using c that by (simp add: runs_of_def)
    show "c \<notin> live_children (sc_host s) r'"
    proof
      assume l: "c \<in> live_children (sc_host s) r'"
      from inv'(9) [OF inv'(6) [OF l]] have "live_children (sc_host s) r' \<subseteq> running s r'"
        by (simp add: job_local_def)
      with l not show False by auto
    qed
  qed
  let ?f = "\<lambda>e. e\<lparr>jr_lastResult := Some res\<rparr>"
  let ?s = "sc_set r ?f (s\<lparr>sc_runs := AList.delete c (sc_runs s), sc_host := child_gone c (sc_host s)\<rparr>)"
  have "cron_safe (sc_afterFire r now ?s)"
  proof (rule cron_safe_afterFire [OF inv r, where e = "?f (job_at s r)"], goal_cases)
    case 4
    show ?case using other by (simp add: sc_set_def host_only_def)
  next
    case (5 r')
    then show ?case using other [of r'] by (simp add: sc_set_def)
  next
    case (6 c' p)
    then show ?case using inv'(3) [of c' p] by (simp add: sc_set_def jm.lookup_remove split: if_splits)
  next
    case 9
    show ?case using idle by (auto simp: sc_set_def)
  qed (use e idle only1 inv'(1) in \<open>simp_all add: sc_set_def host_wf_gone\<close>)
  then show ?thesis by (simp add: sc_end_run_def)
qed

lemma cron_safe_step:
  assumes "cron_safe s" "cron_enabled e s"
  shows "cron_safe (cron_step e s)"
proof -
  have up: "sc_fatal s = None" using assms(2) by (cases e) simp_all
  then have inv: "cron_inv s" using assms(1) by (simp add: cron_safe_def)
  show ?thesis
  proof (cases e)
    case (JFire t r res now)
    then obtain d where "(t, d) \<in> armed (sc_host s) r" using assms(2) by (auto simp: armed_def)
    with JFire cron_safe_fire [OF inv] show ?thesis by simp
  next
    case (JError c msg now)
    with inv cron_safe_end_run [OF inv, of c] show ?thesis
      by (auto simp: sc_on_error_def cron_safe_def split: option.splits)
  next
    case (JExit c code now)
    with inv cron_safe_end_run [OF inv, of c] show ?thesis
      by (auto simp: sc_on_exit_def cron_safe_def split: option.splits)
  qed (use inv in \<open>simp_all add: cron_safe_def cron_inv_schedule cron_inv_cancel cron_inv_drain cron_inv_data\<close>)
qed

interpretation cronm: event_machine cron_step cron_enabled cron_safe
  by unfold_locales (rule cron_safe_step)

lemma cron_safe_new: "cron_safe new_scheduler"
  by (simp add: cron_safe_def cron_inv_def new_scheduler_def runs_of_def)


lemma cron_runs_inv:
  "runs cron_step cron_enabled new_scheduler es \<Longrightarrow> sc_fatal (fold cron_step es new_scheduler) = None \<Longrightarrow>
   cron_inv (fold cron_step es new_scheduler)"
  using cronm.run_inv [OF cron_safe_new] by (simp add: cron_safe_def)

section \<open>Wakeups\<close>

lemma sc_set_fields [simp]:
  "sc_names (sc_set r f s) = sc_names s" "sc_wakeQueue (sc_set r f s) = sc_wakeQueue s"
  "sc_seq (sc_set r f s) = sc_seq s" "sc_runs (sc_set r f s) = sc_runs s"
  "sc_host (sc_set r f s) = sc_host s" "sc_fatal (sc_set r f s) = sc_fatal s"
  "length (sc_heap (sc_set r f s)) = length (sc_heap s)"
  by (simp_all add: sc_set_def)

lemma sc_set_same:
  "(\<And>e. g (f e) = g e) \<Longrightarrow> g (job_at (sc_set r f s) r') = g (job_at s r')"
  by (cases "r < length (sc_heap s)"; cases "r' = r") (simp_all add: sc_set_def list_update_beyond)

lemma afterFire_fields [simp]:
  "sc_names (sc_afterFire r now s) = sc_names s" "sc_wakeQueue (sc_afterFire r now s) = sc_wakeQueue s"
  "sc_seq (sc_afterFire r now s) = sc_seq s" "sc_runs (sc_afterFire r now s) = sc_runs s"
  "length (sc_heap (sc_afterFire r now s)) = length (sc_heap s)"
  "jr_runs (job_at (sc_afterFire r now s) r') = jr_runs (job_at s r')"
  by (simp_all add: sc_afterFire_def Let_def sc_set_same split: option.splits prod.splits)

definition fired_by :: "scheduler \<Rightarrow> cron_event \<Rightarrow> (string \<times> string \<times> int) list" where
  "fired_by s e =
     (case e of
        JFire t r res now \<Rightarrow>
          let job = job_at s r
          in if jr_kind job = Wake
             then [(jr_name job, (case jr_prompt job of None \<Rightarrow> [] | Some p \<Rightarrow> p), now)] else []
      | _ \<Rightarrow> [])"

definition drained_by :: "scheduler \<Rightarrow> cron_event \<Rightarrow> wakeup list" where
  "drained_by s e = (case e of JDrain \<Rightarrow> fst (sc_drain s) | _ \<Rightarrow> [])"

text \<open>All prompts fired, and all wakeups handed out by \<open>drainWakeups\<close>, along a run.\<close>

fun fired_prompts :: "scheduler \<Rightarrow> cron_event list \<Rightarrow> (string \<times> string \<times> int) list" where
  "fired_prompts s [] = []"
| "fired_prompts s (e # es) = fired_by s e @ fired_prompts (cron_step e s) es"

fun drained :: "scheduler \<Rightarrow> cron_event list \<Rightarrow> wakeup list" where
  "drained s [] = []"
| "drained s (e # es) = drained_by s e @ drained (cron_step e s) es"

definition wake_content :: "wakeup \<Rightarrow> string \<times> string \<times> int" where
  "wake_content w = (wk_job w, wk_prompt w, wk_firedAt w)"

lemma sc_run_fields [simp]:
  "sc_names (sc_run r res s) = sc_names s" "sc_wakeQueue (sc_run r res s) = sc_wakeQueue s"
  "sc_seq (sc_run r res s) = sc_seq s" "sc_heap (sc_run r res s) = sc_heap s"
  by (simp_all add: sc_run_def split: option.splits prod.splits)

lemma sc_end_run_fields [simp]:
  "sc_wakeQueue (sc_end_run c r res now s) = sc_wakeQueue s" "sc_seq (sc_end_run c r res now s) = sc_seq s"
  "sc_names (sc_end_run c r res now s) = sc_names s"
  "length (sc_heap (sc_end_run c r res now s)) = length (sc_heap s)"
  "jr_runs (job_at (sc_end_run c r res now s) r') = jr_runs (job_at s r')"
  using sc_set_same [of jr_runs] by (simp_all add: sc_end_run_def)

lemma wakeups_step:
  "map wake_content (drained_by s e @ sc_wakeQueue (cron_step e s))
     = map wake_content (sc_wakeQueue s) @ fired_by s e \<and>
   map wk_id (drained_by s e @ sc_wakeQueue (cron_step e s))
     = map wk_id (sc_wakeQueue s) @ map wake_id [Suc (sc_seq s)..<Suc (sc_seq (cron_step e s))] \<and>
   sc_seq (cron_step e s) = sc_seq s + length (fired_by s e)"
proof (cases e)
  case (JFire t r res now)
  let ?s = "sc_set r (\<lambda>e. e\<lparr>je_timer := None, jr_runs := jr_runs e + 1, jr_lastRunAt := Some now\<rparr>)
              (s\<lparr>sc_host := clear_timeout t (sc_host s)\<rparr>)"
  have same: "jr_kind (job_at ?s r) = jr_kind (job_at s r)" "jr_name (job_at ?s r) = jr_name (job_at s r)"
    "jr_prompt (job_at ?s r) = jr_prompt (job_at s r)"
    by (simp_all add: sc_set_same)
  show ?thesis
    by (simp add: JFire sc_fire_def Let_def fired_by_def drained_by_def same)
      (simp add: sc_wake_def Let_def same wake_content_def)
qed (simp_all add: drained_by_def fired_by_def sc_drain_def sc_schedule_def sc_cancel_def sc_on_data_def
    sc_on_error_def sc_on_exit_def Let_def split: option.splits prod.splits)

lemma wakeups_run:
  "map wake_content (drained s es @ sc_wakeQueue (fold cron_step es s))
     = map wake_content (sc_wakeQueue s) @ fired_prompts s es \<and>
   map wk_id (drained s es @ sc_wakeQueue (fold cron_step es s))
     = map wk_id (sc_wakeQueue s) @ map wake_id [Suc (sc_seq s)..<Suc (sc_seq s + length (fired_prompts s es))]"
proof (induction es arbitrary: s)
  case (Cons e es)
  let ?s = "cron_step e s"
  have seq: "sc_seq ?s = sc_seq s + length (fired_by s e)" using wakeups_step [of s e] by blast
  have ups: "[Suc (sc_seq s)..<Suc (sc_seq ?s)] @ [Suc (sc_seq ?s)..<Suc (sc_seq ?s + n)]
      = [Suc (sc_seq s)..<Suc (sc_seq s + length (fired_by s e) + n)]" for n
    using upt_add_eq_append [of "Suc (sc_seq s)" "Suc (sc_seq ?s)" n] seq by simp
  have c: "map wake_content (drained_by s e) @ map wake_content (sc_wakeQueue ?s)
      = map wake_content (sc_wakeQueue s) @ fired_by s e"
    and i: "map wk_id (drained_by s e) @ map wk_id (sc_wakeQueue ?s)
      = map wk_id (sc_wakeQueue s) @ map wake_id [Suc (sc_seq s)..<Suc (sc_seq ?s)]"
    using wakeups_step [of s e] by simp_all
  let ?rest = "drained ?s es @ sc_wakeQueue (fold cron_step es ?s)"
  have split: "map f (drained s (e # es) @ sc_wakeQueue (fold cron_step (e # es) s))
      = map f (drained_by s e) @ map f ?rest" for f :: "wakeup \<Rightarrow> 'z" by simp
  have "map wake_content (drained_by s e) @ map wake_content ?rest
      = map wake_content (sc_wakeQueue s) @ fired_prompts s (e # es)"
    unfolding conjunct1 [OF Cons.IH] append_assoc [symmetric] c by simp
  moreover have "map wk_id (drained_by s e) @ map wk_id ?rest = map wk_id (sc_wakeQueue s) @
      map wake_id [Suc (sc_seq s)..<Suc (sc_seq s + length (fired_prompts s (e # es)))]"
    unfolding conjunct2 [OF Cons.IH] append_assoc [symmetric] i
    by (simp only: append_assoc map_append [symmetric] ups) (simp add: add.assoc)
  ultimately show ?case unfolding split by blast
qed simp


section \<open>Run counts\<close>

definition fires :: "nat \<Rightarrow> cron_event \<Rightarrow> bool" where
  "fires r e = (case e of JFire t r' res now \<Rightarrow> r' = r | _ \<Rightarrow> False)"

lemma runs_step:
  assumes "cron_inv s" "cron_enabled e s" "r < length (sc_heap s)"
  shows "jr_runs (job_at (cron_step e s) r) = jr_runs (job_at s r) + of_bool (fires r e)"
    "length (sc_heap s) \<le> length (sc_heap (cron_step e s))"
proof -
  have "jr_runs (job_at (cron_step e s) r) = jr_runs (job_at s r) + of_bool (fires r e) \<and>
    length (sc_heap s) \<le> length (sc_heap (cron_step e s))"
  proof (cases e)
    case (JFire t r' res now)
    then obtain d where "(t, d) \<in> armed (sc_host s) r'" using assms(2) by (auto simp: armed_def)
    note r' = cron_fire_local(1) [OF assms(1) this]
    let ?f = "\<lambda>e. e\<lparr>je_timer := None, jr_runs := jr_runs e + 1, jr_lastRunAt := Some now\<rparr>"
    let ?s = "sc_set r' ?f (s\<lparr>sc_host := clear_timeout t (sc_host s)\<rparr>)"
    have "jr_runs (job_at ?s r) = jr_runs (job_at s r) + of_bool (r' = r)"
      using assms(3) r' by (auto simp: sc_set_def)
    moreover have "jr_runs (job_at (sc_wake r' now ?s) r) = jr_runs (job_at ?s r)"
      by (simp add: sc_wake_def Let_def sc_set_same)
    moreover have "length (sc_heap (sc_wake r' now ?s)) = length (sc_heap s)"
      by (simp add: sc_wake_def Let_def)
    ultimately show ?thesis by (simp add: JFire sc_fire_def Let_def fires_def)
  qed (use assms(3) in \<open>simp_all add: fires_def sc_drain_def sc_schedule_def sc_cancel_def sc_on_data_def
      sc_on_error_def sc_on_exit_def Let_def nth_append split: option.splits prod.splits\<close>)
  then show "jr_runs (job_at (cron_step e s) r) = jr_runs (job_at s r) + of_bool (fires r e)"
    "length (sc_heap s) \<le> length (sc_heap (cron_step e s))" by simp_all
qed

lemma new_job_runs:
  assumes "cron_inv s" "\<not> r < length (sc_heap s)" "r < length (sc_heap (cron_step e s))"
  shows "jr_runs (job_at (cron_step e s) r) = 0 \<and> \<not> fires r e"
proof (cases e)
  case (JSchedule name cmd prompt every first mx now)
  with assms show ?thesis
    by (auto simp: fires_def sc_schedule_def Let_def nth_append fresh_job_def split: prod.splits if_splits)
qed (use assms in \<open>auto simp: fires_def sc_drain_def sc_cancel_def sc_on_data_def sc_fire_def sc_wake_def
    sc_on_error_def sc_on_exit_def Let_def split: option.splits prod.splits if_splits\<close>)


lemma counted_runs:
  "runs cron_step cron_enabled new_scheduler es \<Longrightarrow>
   int (length (filter (fires r) es)) =
     (let s = fold cron_step es new_scheduler
      in if r < length (sc_heap s) then jr_runs (job_at s r) else 0)"
proof (induction es rule: rev_induct)
  case (snoc e es)
  let ?s = "fold cron_step es new_scheduler"
  have runs: "runs cron_step cron_enabled new_scheduler es" and en: "cron_enabled e ?s"
    using snoc.prems by (simp_all add: runs_append)
  have "sc_fatal ?s = None" using en by (cases e) simp_all
  then have inv: "cron_inv ?s" using cron_runs_inv [OF runs] by simp
  note IH = snoc.IH [OF runs]
  show ?case
  proof (cases "r < length (sc_heap ?s)")
    case True
    with IH runs_step [OF inv en True] show ?thesis by (simp add: Let_def)
  next
    case False
    have "\<not> fires r e"
    proof
      assume f: "fires r e"
      then obtain t res now where "e = JFire t r res now"
        by (auto simp: fires_def split: cron_event.splits)
      with en obtain d where "(t, d) \<in> armed (sc_host ?s) r" by (auto simp: armed_def)
      with False cron_invD(7) [OF inv] show False by blast
    qed
    with False IH new_job_runs [OF inv False, of e] show ?thesis by (simp add: Let_def)
  qed
qed (simp add: new_scheduler_def)

section \<open>Properties\<close>


definition cron_demo :: "cron_event list" where
  "cron_demo =
     [JSchedule ''tick'' None (Some ''think'') (Some 1000) 1000 (Some 2) 0,
      JSchedule ''backup'' (Some ''tar'') None (Some 60000) 60000 None 5,
      JFire 0 0 NotStarted 1000, JDrain, JFire 1 1 (Spawned 77) 60005, JFire 2 0 NotStarted 2000,
      JData 3 ''ok'']"

lemma cron_demo_runs:
  "runs cron_step cron_enabled new_scheduler cron_demo"
  "sc_fatal (fold cron_step cron_demo new_scheduler) = None"
  by code_simp+


text \<open>
  C16. Wakeups are delivered exactly once and in order. Along any sequence of events whatever,
  what \<open>drainWakeups\<close> has handed out followed by what is still queued is the sequence of the
  prompts fired, with their job and instant, and their ids are \<open>w1\<close>, \<open>w2\<close>, \<open>w3\<close> and so on without
  a gap or a repetition.
\<close>

theorem cron_wakeups_exactly_once:
  "map wake_content (drained new_scheduler es @ sc_wakeQueue (fold cron_step es new_scheduler))
     = fired_prompts new_scheduler es \<and>
   map wk_id (drained new_scheduler es @ sc_wakeQueue (fold cron_step es new_scheduler))
     = map wake_id [1..<Suc (length (fired_prompts new_scheduler es))]"
  using wakeups_run [of new_scheduler es] by (simp add: new_scheduler_def)

text \<open>
  Run limits. Along any run from boot, \<open>runs\<close> counts exactly the timeouts that fired the
  job; a one-shot job fires at most once, and a recurring job with a positive \<open>count\<close> at most
  \<open>count\<close> times (with a \<open>count\<close> of zero or less, once).
\<close>

theorem cron_run_limit:
  assumes "runs cron_step cron_enabled new_scheduler es"
    and "s = fold cron_step es new_scheduler" and "sc_fatal s = None"
    and "r < length (sc_heap s)"
  shows "int (length (filter (fires r) es)) = jr_runs (job_at s r) \<and>
    (case je_everyMs (job_at s r) of
       None \<Rightarrow> length (filter (fires r) es) \<le> 1
     | Some ms \<Rightarrow> (case jr_maxRuns (job_at s r) of
           None \<Rightarrow> True
         | Some m \<Rightarrow> int (length (filter (fires r) es)) \<le> max 1 m))"
proof -
  have "job_local (sc_host s) (running s r) r (job_at s r)"
    using cron_invD(9) [OF cron_runs_inv [OF assms(1)]] assms(2-4) by simp
  then have "within_limit (jr_runs (job_at s r)) (je_everyMs (job_at s r)) (jr_maxRuns (job_at s r))"
    by (simp add: job_local_def)
  then show ?thesis
    using counted_runs [OF assms(1), of r] assms(2,4)
    by (auto simp: within_limit_def Let_def split: option.splits)
qed

theorem cron_run_limit_witness:
  "length (filter (fires 0) cron_demo) = 2 \<and>
   jr_runs (job_at (fold cron_step cron_demo new_scheduler) 0) = 2"
proof -
  have "0 < length (sc_heap (fold cron_step cron_demo new_scheduler))" by code_simp
  from cron_run_limit [OF cron_demo_runs(1) refl cron_demo_runs(2) this]
  show ?thesis by (simp add: cron_demo_def fires_def)
qed

text \<open>
  Cancelling a job does not stop it when its command is running. If a recurring shell job
  is cancelled while its child lives, the exit of the child arms its timer again: the job goes
  on firing, but it is no longer in the table, so it cannot be seen or cancelled.
\<close>

theorem cron_cancel_running_job_survives:
  assumes "runs cron_step cron_enabled new_scheduler es"
    and "s = fold cron_step es new_scheduler" and "sc_fatal s = None"
    and "map_of (sc_names s) name = Some r" and "c \<in> live_children (sc_host s) r"
    and "je_everyMs (job_at s r) = Some ms" and "\<not> reached_max (job_at s r)"
    and "valid_date (now + ms)"
    and "s' = cron_step (JExit c code now) (snd (sc_cancel name s))"
  shows "armed (sc_host s') r \<noteq> {} \<and> r \<notin> set (map_values (sc_names s')) \<and>
    sc_get name s' = throw (no_job name) \<and> fst (sc_cancel name s') = throw (no_job name)"
proof -
  have inv: "cron_inv s" using cron_runs_inv assms(1-3) by blast
  note inv' = cron_invD [OF inv] and r = cron_invD(4) [OF inv assms(4)]
  have loc: "job_local (sc_host s) (running s r) r (job_at s r)" by (rule inv'(9) [OF r])
  then have "c \<in> running s r" using assms(5) by (auto simp: job_local_def)
  then obtain out where out: "map_of (sc_runs s) c = Some (r, out)" by (auto simp: runs_of_def)
  have en: "jr_enabled (job_at s r)" using loc \<open>c \<in> running s r\<close> by (auto simp: job_local_def)
  let ?s1 = "snd (sc_cancel name s)"
  let ?h1 = "child_gone c (opt_clear (je_timer (job_at s r)) (sc_host s))"
  have s1: "sc_names ?s1 = AList.delete name (sc_names s)" "sc_heap ?s1 = sc_heap s"
    "sc_runs ?s1 = sc_runs s" "sc_host ?s1 = opt_clear (je_timer (job_at s r)) (sc_host s)"
    using assms(4) by (simp_all add: sc_cancel_def)
  obtain t h where st: "set_timeout r ms ?h1 = (t, h)" by fastforce
  have wf: "host_wf ?h1" using inv'(1) by (simp add: host_wf_gone)
  have "sc_host s' = h" "sc_names s' = AList.delete name (sc_names s)"
    using out en st assms(6-9) r s1
    by (auto simp: sc_on_exit_def sc_end_run_def sc_afterFire_def Let_def sc_set_def reached_max_def
        split: option.splits)
  moreover have "armed h r \<noteq> {}" using host_after_set(1) [OF wf st] by simp
  moreover have "r \<notin> set (map_values (AList.delete name (sc_names s)))"
  proof
    assume "r \<in> set (map_values (AList.delete name (sc_names s)))"
    then obtain n where "(n, r) \<in> set (AList.delete name (sc_names s))" by auto
    then have "map_of (AList.delete name (sc_names s)) n = Some r"
      using inv'(2) by (intro map_of_is_SomeI) (simp_all add: jm.wf_remove flip: map_wf_def)
    then have "map_of (sc_names s) n = Some r" "n \<noteq> name"
      by (simp_all add: jm.lookup_remove split: if_splits)
    with inv'(5) assms(4) show False by blast
  qed
  ultimately show ?thesis by (simp add: sc_get_def sc_cancel_def)
qed

theorem cron_cancel_running_job_survives_witness:
  "let s = cron_step (JExit 3 (Some 0) 60100)
             (snd (sc_cancel ''backup'' (fold cron_step cron_demo new_scheduler)))
   in armed (sc_host s) 1 \<noteq> {} \<and> sc_get ''backup'' s = throw ''no such job: backup''"
proof -
  let ?s = "fold cron_step cron_demo new_scheduler"
  have "map_of (h_children (sc_host ?s)) 3 = Some 1" by code_simp
  then have c: "3 \<in> live_children (sc_host ?s) 1" by (simp add: in_live)
  have n: "map_of (sc_names ?s) ''backup'' = Some 1" by code_simp
  have "je_everyMs (job_at ?s 1) = Some 60000" "\<not> reached_max (job_at ?s 1)"
    "valid_date (60100 + 60000)" by code_simp+
  from cron_cancel_running_job_survives [OF cron_demo_runs(1) refl cron_demo_runs(2) n c this refl,
    of "Some 0"] show ?thesis by (simp add: Let_def no_job_def)
qed

text \<open>
  Node cannot wait longer than \<open>2 ^ 31 - 1\<close> milliseconds: a job with a longer interval is shown
  as due after that interval, and its timer is armed with one millisecond.
\<close>

lemma cron_long_interval:
  assumes "host_wf (sc_host s)" "map_of (sc_names s) name = None" "2147483647 < first"
    and "valid_date (now + first)"
    and "sc_schedule name cmd prompt every first mx now s = (return rec, s')"
  shows "jr_nextRunAt rec = Some (now + first)"
    "\<exists>t. (t, 1) \<in> armed (sc_host s') (length (sc_heap s))"
proof -
  obtain t h where st: "set_timeout (length (sc_heap s)) first (sc_host s) = (t, h)" by fastforce
  with assms show "jr_nextRunAt rec = Some (now + first)"
    by (auto simp: sc_schedule_def Let_def fresh_job_def job_record.truncate_def)
  have "(t, 1) \<in> armed h (length (sc_heap s))"
    using host_after_set(1) [OF assms(1) st] assms(3) by (simp add: timer_delay_def)
  then show "\<exists>t. (t, 1) \<in> armed (sc_host s') (length (sc_heap s))"
    using assms st by (auto simp: sc_schedule_def Let_def)
qed

end
