(* ===== verification/VoidDouble.thy ===== *)
theory VoidDouble
  imports VoidPrelude "HOL-Library.Log_Nat"
begin

text \<open>
  The doubles the compositor computes with: a mantissa and a power of two, every operation exact
  and then rounded to 53 bits, a tie to the even mantissa. Overflow, underflow and the special
  values do not occur in what is drawn (all magnitudes lie between \<open>2 ^ -60\<close> and \<open>2 ^ 31\<close>).
\<close>

datatype double = Dbl (mant: int) (expo: int)

definition bit_length :: "nat \<Rightarrow> nat" where
  "bit_length n = floorlog 2 n"

text \<open>The quotient rounded to the nearest number, a tie to the even one.\<close>

definition div_even :: "nat \<Rightarrow> nat \<Rightarrow> nat" where
  "div_even p q =
     (let d = p div q; r = p mod q
      in if 2 * r < q \<or> (2 * r = q \<and> even d) then d else Suc d)"

definition signed :: "int \<Rightarrow> nat \<Rightarrow> int" where
  "signed s n = (if s < 0 then - int n else int n)"

definition round53 :: "int \<Rightarrow> int \<Rightarrow> double" where
  "round53 m e =
     (let k = bit_length (nat \<bar>m\<bar>) - 53
      in if k = 0 then Dbl m e else Dbl (signed m (div_even (nat \<bar>m\<bar>) (2 ^ k))) (e + int k))"

definition dbl :: "int \<Rightarrow> double" where
  "dbl i = Dbl i 0"

definition dmul :: "double \<Rightarrow> double \<Rightarrow> double" where
  "dmul x y = round53 (mant x * mant y) (expo x + expo y)"

definition dadd :: "double \<Rightarrow> double \<Rightarrow> double" where
  "dadd x y =
     (let e = min (expo x) (expo y)
      in round53 (mant x * 2 ^ nat (expo x - e) + mant y * 2 ^ nat (expo y - e)) e)"

definition dsub :: "double \<Rightarrow> double \<Rightarrow> double" where
  "dsub x y = dadd x (Dbl (- mant y) (expo y))"

text \<open>
  The quotient of two mantissas that are not zero: scaled so that it lies between \<open>2 ^ 52\<close> and
  \<open>2 ^ 54\<close>, and halved once more when it has 54 bits.
\<close>

definition ddiv :: "double \<Rightarrow> double \<Rightarrow> double" where
  "ddiv x y =
     (if mant x = 0 then Dbl 0 0
      else
        let p = nat \<bar>mant x\<bar>; q = nat \<bar>mant y\<bar>;
            e = int (bit_length p) - int (bit_length q) - 53;
            p1 = p * 2 ^ nat (- e); q1 = q * 2 ^ nat e;
            wide = p1 \<ge> 2 ^ 53 * q1;
            n = (if wide then div_even p1 (2 * q1) else div_even p1 q1)
        in Dbl (signed (mant x * mant y) n) (e + (if wide then 1 else 0) + expo x - expo y))"

text \<open>\<open>x | 0\<close> of a number in the range of 32 bits: towards zero.\<close>

definition dtrunc :: "double \<Rightarrow> int" where
  "dtrunc x =
     (if 0 \<le> expo x then mant x * 2 ^ nat (expo x)
      else signed (mant x) (nat \<bar>mant x\<bar> div 2 ^ nat (- expo x)))"

definition dle :: "double \<Rightarrow> double \<Rightarrow> bool" where
  "dle x y \<longleftrightarrow>
     (let e = min (expo x) (expo y)
      in mant x * 2 ^ nat (expo x - e) \<le> mant y * 2 ^ nat (expo y - e))"

text \<open>A decimal literal is the double nearest to it.\<close>

definition lit_frac :: "int \<Rightarrow> int \<Rightarrow> double" where
  "lit_frac p q = ddiv (dbl p) (dbl q)"

text \<open>Rounding keeps what 53 bits hold, and whole numbers are exact.\<close>

lemma round53_exact: "\<bar>m\<bar> < 2 ^ 53 \<Longrightarrow> round53 m e = Dbl m e"
proof -
  assume "\<bar>m\<bar> < 2 ^ 53"
  then have "nat \<bar>m\<bar> < 2 ^ 53" by (simp add: nat_less_iff)
  then have "bit_length (nat \<bar>m\<bar>) \<le> 53"
    by (cases "nat \<bar>m\<bar> = 0") (simp_all add: bit_length_def floorlog_le_iff floorlog_eq_zero_iff)
  then show ?thesis by (simp add: round53_def)
qed

lemma dbl_exact:
  "dmul (dbl 1) (dbl i) = round53 i 0" "dadd (dbl i) (dbl j) = round53 (i + j) 0"
  "dtrunc (dbl i) = i" "dle (dbl i) (dbl j) \<longleftrightarrow> i \<le> j"
  by (simp_all add: dbl_def dmul_def dadd_def dtrunc_def dle_def)

end
