(* ===== verification/VoidTheme.thy ===== *)
theory VoidTheme
  imports VoidPrelude
begin

text \<open>
  kernel/src/desktop/theme.ts: palette, application table and dock geometry. A colour is its
  three channels, a length a whole number of pixels.
\<close>

type_synonym rgb = "int \<times> int \<times> int"

definition c_bgTop :: rgb where "c_bgTop = (9, 12, 16)"
definition c_bgBot :: rgb where "c_bgBot = (13, 24, 33)"
definition c_panel :: rgb where "c_panel = (17, 22, 28)"
definition c_winBody :: rgb where "c_winBody = (13, 17, 23)"
definition c_winHead :: rgb where "c_winHead = (20, 26, 33)"
definition c_line :: rgb where "c_line = (31, 38, 48)"
definition c_fg :: rgb where "c_fg = (201, 209, 217)"
definition c_dim :: rgb where "c_dim = (107, 117, 133)"
definition c_white :: rgb where "c_white = (230, 237, 243)"
definition c_cyan :: rgb where "c_cyan = (23, 147, 209)"
definition c_green :: rgb where "c_green = (33, 208, 122)"
definition c_amber :: rgb where "c_amber = (210, 153, 34)"
definition c_red :: rgb where "c_red = (248, 81, 73)"

definition panel_h :: int where "panel_h = 28"
definition title_h :: int where "title_h = 22"

record app_def =
  ad_id :: string
  ad_label :: string
  ad_title :: string
  ad_accent :: rgb
  ad_w :: int
  ad_h :: int

definition apps :: "app_def list" where
  "apps =
     [\<lparr>ad_id = ''files'', ad_label = ''FS'', ad_title = ''FILES'', ad_accent = c_cyan, ad_w = 460, ad_h = 300\<rparr>,
      \<lparr>ad_id = ''system'', ad_label = ''SYS'', ad_title = ''SYSTEM'', ad_accent = c_cyan, ad_w = 430, ad_h = 250\<rparr>,
      \<lparr>ad_id = ''services'', ad_label = ''SVC'', ad_title = ''SERVICES'', ad_accent = c_green, ad_w = 430, ad_h = 250\<rparr>,
      \<lparr>ad_id = ''procs'', ad_label = ''PROC'', ad_title = ''PROCESSES'', ad_accent = c_amber, ad_w = 540, ad_h = 250\<rparr>,
      \<lparr>ad_id = ''net'', ad_label = ''NET'', ad_title = ''SERVERS'', ad_accent = c_green, ad_w = 470, ad_h = 210\<rparr>,
      \<lparr>ad_id = ''cron'', ad_label = ''CRON'', ad_title = ''CRON'', ad_accent = c_cyan, ad_w = 470, ad_h = 210\<rparr>,
      \<lparr>ad_id = ''audit'', ad_label = ''LOG'', ad_title = ''AUDIT'', ad_accent = c_cyan, ad_w = 540, ad_h = 300\<rparr>]"

text \<open>The dock's \<open>tile\<close>, \<open>gap\<close>, \<open>pad\<close>, \<open>bottom\<close>.\<close>

definition dock_tile :: int where "dock_tile = 50"
definition dock_gap :: int where "dock_gap = 12"
definition dock_pad :: int where "dock_pad = 14"
definition dock_bottom :: int where "dock_bottom = 18"

record dock_rect =
  dr_app :: string
  dr_label :: string
  dr_accent :: rgb
  dr_x :: int
  dr_y :: int
  dr_w :: int
  dr_h :: int

record dock =
  dk_x :: int
  dk_y :: int
  dk_w :: int
  dk_h :: int
  dk_rects :: "dock_rect list"

text \<open>\<open>Math.round(n / 2)\<close> rounds a half up.\<close>

definition dockLayout :: "int \<Rightarrow> int \<Rightarrow> dock" where
  "dockLayout W H =
     (let n = int (length apps);
          dockW = n * dock_tile + (n - 1) * dock_gap + dock_pad * 2;
          x = (W - dockW + 1) div 2;
          y = H - dock_tile - dock_pad * 2 - dock_bottom
      in \<lparr>dk_x = x, dk_y = y, dk_w = dockW, dk_h = dock_tile + dock_pad * 2,
          dk_rects =
            map (\<lambda>(i, a). \<lparr>dr_app = ad_id a, dr_label = ad_label a, dr_accent = ad_accent a,
                            dr_x = x + dock_pad + int i * (dock_tile + dock_gap), dr_y = y + dock_pad,
                            dr_w = dock_tile, dr_h = dock_tile\<rparr>)
              (enumerate 0 apps)\<rparr>)"

lemmas dock_defs = dock_tile_def dock_gap_def dock_pad_def dock_bottom_def

lemma app_ids_distinct: "distinct (map ad_id apps)"
  by (simp add: apps_def)

text \<open>The tiles lie inside the dock, left to right, a gap apart.\<close>

lemma dock_rect_inside:
  assumes "r \<in> set (dk_rects (dockLayout W H))"
  shows "dk_x (dockLayout W H) \<le> dr_x r \<and>
    dr_x r + dr_w r \<le> dk_x (dockLayout W H) + dk_w (dockLayout W H) \<and>
    dk_y (dockLayout W H) \<le> dr_y r \<and>
    dr_y r + dr_h r \<le> dk_y (dockLayout W H) + dk_h (dockLayout W H) \<and>
    dr_app r \<in> set (map ad_id apps)"
  using assms by (auto simp: dockLayout_def Let_def apps_def dock_defs)

end
