(* ===== verification/VoidPaint.thy ===== *)
theory VoidPaint
  imports VoidDouble VoidTheme "HOL-Library.Word"
begin

text \<open>
  kernel/src/desktop/compositor.ts: the framebuffer and its drawing primitives. The pixels are
  the bytes of the \<open>Uint8Array\<close>, row by row, four a pixel; a stored number is cut to its low eight
  bits. Coordinates are whole and below \<open>2 ^ 31\<close>, so that \<open>| 0\<close> leaves them alone; only the centre
  of a circle may be a fraction. An alpha is a double.
\<close>

section \<open>Framebuffer\<close>

type_synonym byte = "8 word"

record framebuffer =
  fb_w :: int
  fb_h :: int
  fb_px :: "byte list"

definition new_framebuffer :: "int \<Rightarrow> int \<Rightarrow> framebuffer" where
  "new_framebuffer w h = \<lparr>fb_w = w, fb_h = h, fb_px = replicate (nat (w * h * 4)) 0\<rparr>"

definition pixel_index :: "framebuffer \<Rightarrow> int \<Rightarrow> int \<Rightarrow> nat" where
  "pixel_index fb x y = nat ((y * fb_w fb + x) * 4)"

definition set_pixel :: "nat \<Rightarrow> rgb \<Rightarrow> framebuffer \<Rightarrow> framebuffer" where
  "set_pixel i c fb =
     (case c of (r, g, b) \<Rightarrow>
        fb\<lparr>fb_px := (fb_px fb)[i := word_of_int r, i + 1 := word_of_int g, i + 2 := word_of_int b, i + 3 := 255]\<rparr>)"

text \<open>One channel: \<open>(c * a + px * (1 - a)) | 0\<close>.\<close>

definition mix :: "int \<Rightarrow> double \<Rightarrow> byte \<Rightarrow> int" where
  "mix c a old = dtrunc (dadd (dmul (dbl c) a) (dmul (dbl (uint old)) (dsub (dbl 1) a)))"

definition blend :: "int \<Rightarrow> int \<Rightarrow> rgb \<Rightarrow> double \<Rightarrow> framebuffer \<Rightarrow> framebuffer" where
  "blend x y c a fb =
     (if x < 0 \<or> y < 0 \<or> x \<ge> fb_w fb \<or> y \<ge> fb_h fb \<or> dle a (dbl 0) then fb
      else
        let i = pixel_index fb x y
        in if dle (dbl 1) a then set_pixel i c fb
           else case c of (r, g, b) \<Rightarrow>
             set_pixel i
               (mix r a (fb_px fb ! i), mix g a (fb_px fb ! (i + 1)), mix b a (fb_px fb ! (i + 2))) fb)"

section \<open>Shapes\<close>

text \<open>The opaque alpha, and the loop over a rectangle, row by row.\<close>

definition opaque :: double where
  "opaque = dbl 1"

definition each_pixel ::
  "int \<Rightarrow> int \<Rightarrow> int \<Rightarrow> int \<Rightarrow> (int \<Rightarrow> int \<Rightarrow> framebuffer \<Rightarrow> framebuffer) \<Rightarrow> framebuffer \<Rightarrow> framebuffer" where
  "each_pixel x0 y0 x1 y1 f fb = fold (\<lambda>yy. fold (\<lambda>xx. f xx yy) [x0..x1 - 1]) [y0..y1 - 1] fb"

definition fillRect ::
  "int \<Rightarrow> int \<Rightarrow> int \<Rightarrow> int \<Rightarrow> rgb \<Rightarrow> double \<Rightarrow> framebuffer \<Rightarrow> framebuffer" where
  "fillRect x y w h c a fb =
     each_pixel (max 0 x) (max 0 y) (min (fb_w fb) (x + w)) (min (fb_h fb) (y + h))
       (\<lambda>xx yy. blend xx yy c a) fb"

definition fill :: "rgb \<Rightarrow> framebuffer \<Rightarrow> framebuffer" where
  "fill c fb = fillRect 0 0 (fb_w fb) (fb_h fb) c opaque fb"

text \<open>One channel of a gradient: \<open>(from + (to - from) * t) | 0\<close>.\<close>

definition lerp_channel :: "int \<Rightarrow> int \<Rightarrow> double \<Rightarrow> int" where
  "lerp_channel a b t = dtrunc (dadd (dbl a) (dmul (dbl (b - a)) t))"

fun lerp :: "rgb \<Rightarrow> rgb \<Rightarrow> double \<Rightarrow> rgb" where
  "lerp (r, g, b) (r', g', b') t = (lerp_channel r r' t, lerp_channel g g' t, lerp_channel b b' t)"

definition vGradient ::
  "int \<Rightarrow> int \<Rightarrow> int \<Rightarrow> int \<Rightarrow> rgb \<Rightarrow> rgb \<Rightarrow> framebuffer \<Rightarrow> framebuffer" where
  "vGradient x y w h upper lower fb =
     fold (\<lambda>yy. fillRect x (y + yy) w 1
              (lerp upper lower (if h \<le> 1 then dbl 0 else ddiv (dbl yy) (dbl (h - 1)))) opaque)
       [0..h - 1] fb"

text \<open>The offset into a rounded corner, or \<open>(-1, -1)\<close> away from the corners.\<close>

definition corner_offset :: "int \<Rightarrow> int \<Rightarrow> int \<Rightarrow> int \<Rightarrow> int \<Rightarrow> int \<times> int" where
  "corner_offset w h r xx yy =
     (if xx < r \<and> yy < r then (r - 1 - xx, r - 1 - yy)
      else if xx \<ge> w - r \<and> yy < r then (xx - (w - r), r - 1 - yy)
      else if xx < r \<and> yy \<ge> h - r then (r - 1 - xx, yy - (h - r))
      else if xx \<ge> w - r \<and> yy \<ge> h - r then (xx - (w - r), yy - (h - r))
      else (- 1, - 1))"

definition roundRect ::
  "int \<Rightarrow> int \<Rightarrow> int \<Rightarrow> int \<Rightarrow> int \<Rightarrow> rgb \<Rightarrow> double \<Rightarrow> framebuffer \<Rightarrow> framebuffer" where
  "roundRect x y w h r c a fb =
     each_pixel 0 0 w h
       (\<lambda>xx yy. case corner_offset w h r xx yy of (dx, dy) \<Rightarrow>
          if dx \<ge> 0 \<and> dx * dx + dy * dy > r * r then id else blend (x + xx) (y + yy) c a) fb"

definition strokeRect ::
  "int \<Rightarrow> int \<Rightarrow> int \<Rightarrow> int \<Rightarrow> rgb \<Rightarrow> double \<Rightarrow> framebuffer \<Rightarrow> framebuffer" where
  "strokeRect x y w h c a fb =
     fillRect (x + w - 1) y 1 h c a
       (fillRect x y 1 h c a (fillRect x (y + h - 1) w 1 c a (fillRect x y w 1 c a fb)))"

definition circle :: "double \<Rightarrow> double \<Rightarrow> int \<Rightarrow> rgb \<Rightarrow> double \<Rightarrow> framebuffer \<Rightarrow> framebuffer" where
  "circle cx cy r c a fb =
     each_pixel (- r) (- r) (r + 1) (r + 1)
       (\<lambda>xx yy. if xx * xx + yy * yy \<le> r * r
                 then blend (dtrunc (dadd cx (dbl xx))) (dtrunc (dadd cy (dbl yy))) c a else id) fb"

section \<open>Text\<close>

definition font :: "(char \<times> string list) list" where
  "font =
     [
(CHR '' '', [''...'', ''...'', ''...'', ''...'', ''...'']),
      (CHR ''A'', [''.#.'', ''#.#'', ''###'', ''#.#'', ''#.#'']),
      (CHR ''B'', [''##.'', ''#.#'', ''##.'', ''#.#'', ''##.'']),
      (CHR ''C'', [''.##'', ''#..'', ''#..'', ''#..'', ''.##'']),
      (CHR ''D'', [''##.'', ''#.#'', ''#.#'', ''#.#'', ''##.'']),
      (CHR ''E'', [''###'', ''#..'', ''##.'', ''#..'', ''###'']),
      (CHR ''F'', [''###'', ''#..'', ''##.'', ''#..'', ''#..'']),
      (CHR ''G'', [''.##'', ''#..'', ''#.#'', ''#.#'', ''.##'']),
      (CHR ''H'', [''#.#'', ''#.#'', ''###'', ''#.#'', ''#.#'']),
      (CHR ''I'', [''###'', ''.#.'', ''.#.'', ''.#.'', ''###'']),
      (CHR ''J'', [''..#'', ''..#'', ''..#'', ''#.#'', ''.#.'']),
      (CHR ''K'', [''#.#'', ''#.#'', ''##.'', ''#.#'', ''#.#'']),
      (CHR ''L'', [''#..'', ''#..'', ''#..'', ''#..'', ''###'']),
      (CHR ''M'', [''#.#'', ''###'', ''###'', ''#.#'', ''#.#'']),
      (CHR ''N'', [''#.#'', ''##.'', ''#.#'', ''.##'', ''#.#'']),
      (CHR ''O'', [''###'', ''#.#'', ''#.#'', ''#.#'', ''###'']),
      (CHR ''P'', [''##.'', ''#.#'', ''##.'', ''#..'', ''#..'']),
      (CHR ''Q'', [''###'', ''#.#'', ''#.#'', ''###'', ''..#'']),
      (CHR ''R'', [''##.'', ''#.#'', ''##.'', ''#.#'', ''#.#'']),
      (CHR ''S'', [''.##'', ''#..'', ''.#.'', ''..#'', ''##.'']),
      (CHR ''T'', [''###'', ''.#.'', ''.#.'', ''.#.'', ''.#.'']),
      (CHR ''U'', [''#.#'', ''#.#'', ''#.#'', ''#.#'', ''###'']),
      (CHR ''V'', [''#.#'', ''#.#'', ''#.#'', ''#.#'', ''.#.'']),
      (CHR ''W'', [''#.#'', ''#.#'', ''###'', ''###'', ''#.#'']),
      (CHR ''X'', [''#.#'', ''#.#'', ''.#.'', ''#.#'', ''#.#'']),
      (CHR ''Y'', [''#.#'', ''#.#'', ''.#.'', ''.#.'', ''.#.'']),
      (CHR ''Z'', [''###'', ''..#'', ''.#.'', ''#..'', ''###'']),
      (CHR ''0'', [''###'', ''#.#'', ''#.#'', ''#.#'', ''###'']),
      (CHR ''1'', [''.#.'', ''##.'', ''.#.'', ''.#.'', ''###'']),
      (CHR ''2'', [''##.'', ''..#'', ''.#.'', ''#..'', ''###'']),
      (CHR ''3'', [''###'', ''..#'', ''.##'', ''..#'', ''###'']),
      (CHR ''4'', [''#.#'', ''#.#'', ''###'', ''..#'', ''..#'']),
      (CHR ''5'', [''###'', ''#..'', ''###'', ''..#'', ''##.'']),
      (CHR ''6'', [''.##'', ''#..'', ''###'', ''#.#'', ''###'']),
      (CHR ''7'', [''###'', ''..#'', ''.#.'', ''.#.'', ''.#.'']),
      (CHR ''8'', [''###'', ''#.#'', ''###'', ''#.#'', ''###'']),
      (CHR ''9'', [''###'', ''#.#'', ''###'', ''..#'', ''##.'']),
      (CHR ''.'', [''...'', ''...'', ''...'', ''...'', ''.#.'']),
      (CHR '','', [''...'', ''...'', ''...'', ''.#.'', ''#..'']),
      (CHR '':'', [''...'', ''.#.'', ''...'', ''.#.'', ''...'']),
      (CHR ''-'', [''...'', ''...'', ''###'', ''...'', ''...'']),
      (CHR ''_'', [''...'', ''...'', ''...'', ''...'', ''###'']),
      (CHR ''/'', [''..#'', ''..#'', ''.#.'', ''#..'', ''#..'']),
      (CHR ''>'', [''#..'', ''.#.'', ''..#'', ''.#.'', ''#..'']),
      (CHR ''<'', [''..#'', ''.#.'', ''#..'', ''.#.'', ''..#'']),
      (CHR ''%'', [''#.#'', ''..#'', ''.#.'', ''#..'', ''#.#'']),
      (CHR ''#'', [''#.#'', ''###'', ''#.#'', ''###'', ''#.#'']),
      (CHR ''+'', [''...'', ''.#.'', ''###'', ''.#.'', ''...'']),
      (CHR ''('', [''.#.'', ''#..'', ''#..'', ''#..'', ''.#.'']),
      (CHR '')'', [''.#.'', ''..#'', ''..#'', ''..#'', ''.#.'']),
      (CHR ''*'', [''...'', ''#.#'', ''.#.'', ''#.#'', ''...'']),
      (CHR ''!'', [''.#.'', ''.#.'', ''.#.'', ''...'', ''.#.'']),
      (CHR ''?'', [''##.'', ''..#'', ''.#.'', ''...'', ''.#.''])
     ]"

text \<open>
  \<open>toUpperCase\<close>. The sharp s becomes two letters; two letters (U+00B5, U+00FF) whose capital is
  outside Latin-1 stay, as there is a glyph for neither.
\<close>

definition upper_char :: "char \<Rightarrow> string" where
  "upper_char c =
     (let n = of_char c :: nat
      in if n = 0xDF then ''SS''
         else if (97 \<le> n \<and> n \<le> 122) \<or> (0xE0 \<le> n \<and> n \<le> 0xFE \<and> n \<noteq> 0xF7) then [char_of (n - 32)]
         else [c])"

definition toUpperCase :: "string \<Rightarrow> string" where
  "toUpperCase s = concat (map upper_char s)"

definition draw_glyph ::
  "string list \<Rightarrow> int \<Rightarrow> int \<Rightarrow> int \<Rightarrow> rgb \<Rightarrow> double \<Rightarrow> framebuffer \<Rightarrow> framebuffer" where
  "draw_glyph g x y scale c a fb =
     fold (\<lambda>r. fold (\<lambda>col.
             if g ! r ! col = CHR ''#''
             then fillRect (x + int col * scale) (y + int r * scale) scale scale c a else id) [0..<3])
       [0..<5] fb"

fun draw_chars ::
  "string \<Rightarrow> int \<Rightarrow> int \<Rightarrow> int \<Rightarrow> rgb \<Rightarrow> double \<Rightarrow> framebuffer \<Rightarrow> framebuffer" where
  "draw_chars [] x y scale c a fb = fb"
| "draw_chars (ch # cs) x y scale c a fb =
     draw_chars cs (x + 4 * scale) y scale c a
       (case map_of font ch of None \<Rightarrow> fb | Some g \<Rightarrow> draw_glyph g x y scale c a fb)"

definition draw_text ::
  "string \<Rightarrow> int \<Rightarrow> int \<Rightarrow> int \<Rightarrow> rgb \<Rightarrow> double \<Rightarrow> framebuffer \<Rightarrow> framebuffer" where
  "draw_text str x y scale c a = draw_chars (toUpperCase str) x y scale c a"

definition textWidth :: "string \<Rightarrow> int \<Rightarrow> int" where
  "textWidth str scale = int (length str) * 4 * scale"

lemma font_shape: "map_of font ch = Some g \<Longrightarrow> length g = 5 \<and> list_all (\<lambda>row. length row = 3) g"
proof -
  have "list_all (\<lambda>(ch, g). length g = 5 \<and> list_all (\<lambda>row. length row = 3) g) font" by code_simp
  then show "map_of font ch = Some g \<Longrightarrow> ?thesis" by (auto simp: list_all_iff dest!: map_of_SomeD)
qed

section \<open>What a drawing operation may change\<close>

definition on_screen :: "framebuffer \<Rightarrow> int \<Rightarrow> int \<Rightarrow> bool" where
  "on_screen fb x y \<longleftrightarrow> 0 \<le> x \<and> x < fb_w fb \<and> 0 \<le> y \<and> y < fb_h fb"

definition pixel :: "framebuffer \<Rightarrow> int \<Rightarrow> int \<Rightarrow> byte list" where
  "pixel fb x y = take 4 (drop (pixel_index fb x y) (fb_px fb))"

definition is_opaque :: "framebuffer \<Rightarrow> int \<Rightarrow> int \<Rightarrow> bool" where
  "is_opaque fb x y \<longleftrightarrow> pixel fb x y ! 3 = 255"

definition fb_wf :: "framebuffer \<Rightarrow> bool" where
  "fb_wf fb \<longleftrightarrow> 0 \<le> fb_w fb \<and> 0 \<le> fb_h fb \<and> length (fb_px fb) = nat (fb_w fb * fb_h fb * 4)"

text \<open>
  \<open>paints R f\<close>: on a framebuffer that is well-formed, \<open>f\<close> keeps it so and of its size, changes no
  pixel outside \<open>R\<close>, and leaves every opaque pixel opaque.
\<close>

definition paints :: "(int \<times> int) set \<Rightarrow> (framebuffer \<Rightarrow> framebuffer) \<Rightarrow> bool" where
  "paints R f \<longleftrightarrow> (\<forall>fb. fb_wf fb \<longrightarrow>
     fb_wf (f fb) \<and> fb_w (f fb) = fb_w fb \<and> fb_h (f fb) = fb_h fb \<and>
     (\<forall>x y. on_screen fb x y \<longrightarrow>
        ((x, y) \<notin> R \<longrightarrow> pixel (f fb) x y = pixel fb x y) \<and> (is_opaque fb x y \<longrightarrow> is_opaque (f fb) x y)))"

named_theorems paint_intros

lemma paintsD:
  assumes "paints R f" "fb_wf fb"
  shows "fb_wf (f fb)" "fb_w (f fb) = fb_w fb" "fb_h (f fb) = fb_h fb"
    "on_screen fb x y \<Longrightarrow> (x, y) \<notin> R \<Longrightarrow> pixel (f fb) x y = pixel fb x y"
    "on_screen fb x y \<Longrightarrow> is_opaque fb x y \<Longrightarrow> is_opaque (f fb) x y"
    "on_screen (f fb) x y \<longleftrightarrow> on_screen fb x y"
  using assms by (simp_all add: paints_def on_screen_def)

lemma paints_id [paint_intros]: "paints R id" "paints R (\<lambda>fb. fb)"
  by (simp_all add: paints_def)

lemma paints_mono: "paints R f \<Longrightarrow> R \<subseteq> S \<Longrightarrow> paints S f"
  unfolding paints_def by blast

lemma paints_after:
  assumes "paints R f" "paints R g"
  shows "paints R (\<lambda>fb. g (f fb))"
  using assms by (simp add: paints_def on_screen_def)

lemma paints_comp: "paints R f \<Longrightarrow> paints R g \<Longrightarrow> paints R (g \<circ> f)"
  using paints_after by (simp add: comp_def)

lemma paints_if [paint_intros]: "(b \<Longrightarrow> paints R f) \<Longrightarrow> (\<not> b \<Longrightarrow> paints R g) \<Longrightarrow> paints R (if b then f else g)"
  by simp

lemma paints_fold: "(\<And>x. x \<in> set xs \<Longrightarrow> paints R (f x)) \<Longrightarrow> paints R (fold f xs)"
  by (induction xs) (auto intro: paints_id paints_comp)

text \<open>An operation that looks at the size of the framebuffer first.\<close>

lemma paints_size: "(\<And>w h. paints R (f w h)) \<Longrightarrow> paints R (\<lambda>fb. f (fb_w fb) (fb_h fb) fb)"
  by (simp add: paints_def)

lemma index_bound:
  assumes "on_screen fb x y" "fb_wf fb"
  shows "pixel_index fb x y + 4 \<le> length (fb_px fb)"
proof -
  have s: "0 \<le> x" "x < fb_w fb" "0 \<le> y" "y < fb_h fb" using assms(1) by (simp_all add: on_screen_def)
  have "(y + 1) * fb_w fb \<le> fb_h fb * fb_w fb" using s by (intro mult_right_mono) simp_all
  then have "(y * fb_w fb + x) * 4 + 4 \<le> fb_w fb * fb_h fb * 4"
    using s(2) by (simp add: algebra_simps)
  moreover have "0 \<le> y * fb_w fb + x" using s by simp
  moreover have "0 \<le> k \<Longrightarrow> k * 4 + 4 \<le> n \<Longrightarrow> nat (k * 4) + 4 \<le> nat n" for k n :: int by linarith
  ultimately have "nat ((y * fb_w fb + x) * 4) + 4 \<le> nat (fb_w fb * fb_h fb * 4)" by blast
  then show ?thesis using assms(2) by (simp add: pixel_index_def fb_wf_def)
qed

lemma index_inject:
  assumes "on_screen fb x y" "on_screen fb x' y'" "(x, y) \<noteq> (x', y')"
  shows "pixel_index fb x y + 4 \<le> pixel_index fb x' y' \<or> pixel_index fb x' y' + 4 \<le> pixel_index fb x y"
proof -
  have s: "0 \<le> x" "x < fb_w fb" "0 \<le> y" "0 \<le> x'" "x' < fb_w fb" "0 \<le> y'"
    using assms(1,2) by (simp_all add: on_screen_def)
  have "y * fb_w fb + x \<noteq> y' * fb_w fb + x'"
  proof
    assume eq: "y * fb_w fb + x = y' * fb_w fb + x'"
    have "(y * fb_w fb + x) div fb_w fb = y" "(y' * fb_w fb + x') div fb_w fb = y'"
      using s by (simp_all add: div_add1_eq div_pos_pos_trivial)
    with eq have "y = y'" by simp
    with eq assms(3) show False by simp
  qed
  moreover have "0 \<le> y * fb_w fb + x" "0 \<le> y' * fb_w fb + x'" using s by simp_all
  ultimately show ?thesis by (simp add: pixel_index_def) linarith
qed

lemma set_pixel_fields [simp]:
  "fb_w (set_pixel i c fb) = fb_w fb" "fb_h (set_pixel i c fb) = fb_h fb"
  "length (fb_px (set_pixel i c fb)) = length (fb_px fb)"
  by (simp_all add: set_pixel_def split: prod.split)

lemma set_pixel_here:
  assumes "i + 4 \<le> length (fb_px fb)"
  shows "take 4 (drop i (fb_px (set_pixel i (r, g, b) fb))) = [word_of_int r, word_of_int g, word_of_int b, 255]"
  using assms
  by (intro nth_equalityI) (auto simp: set_pixel_def less_Suc_eq numeral_eq_Suc)

lemma set_pixel_there:
  assumes "j + 4 \<le> i \<or> i + 4 \<le> j"
  shows "take 4 (drop j (fb_px (set_pixel i c fb))) = take 4 (drop j (fb_px fb))"
  using assms
  by (intro nth_equalityI) (auto simp: set_pixel_def nth_list_update split: prod.split)

lemma paints_set_pixel:
  assumes "on_screen fb x y" "fb_wf fb" and fb'_def: "fb' = set_pixel (pixel_index fb x y) c fb"
  shows "fb_wf fb'" "on_screen fb x' y' \<Longrightarrow> (x', y') \<noteq> (x, y) \<Longrightarrow> pixel fb' x' y' = pixel fb x' y'"
    "pixel fb' x y = [word_of_int (fst c), word_of_int (fst (snd c)), word_of_int (snd (snd c)), 255]"
proof -
  have ix: "pixel_index fb' x' y' = pixel_index fb x' y'" for x' y' by (simp add: fb'_def pixel_index_def)
  show "fb_wf fb'" using assms(2) by (simp add: fb_wf_def fb'_def)
  show "pixel fb' x' y' = pixel fb x' y'" if "on_screen fb x' y'" "(x', y') \<noteq> (x, y)"
    using index_inject [OF that(1) assms(1) that(2)] by (simp add: pixel_def ix) (simp add: fb'_def set_pixel_there)
  show "pixel fb' x y = [word_of_int (fst c), word_of_int (fst (snd c)), word_of_int (snd (snd c)), 255]"
    using set_pixel_here [OF index_bound [OF assms(1,2)], of "fst c" "fst (snd c)" "snd (snd c)"]
    by (simp add: pixel_def ix) (simp add: fb'_def)
qed

text \<open>A blend writes one pixel, which it makes opaque, or none.\<close>

lemma blend_cases:
  obtains "blend x y c a fb = fb"
  | c' where "on_screen fb x y" "blend x y c a fb = set_pixel (pixel_index fb x y) c' fb"
  by (cases "blend x y c a fb = fb") (auto simp: blend_def Let_def on_screen_def not_le not_less split: if_splits prod.splits)

lemma paints_blend [paint_intros]:
  assumes "(x, y) \<in> R"
  shows "paints R (blend x y c a)"
  unfolding paints_def
proof (intro allI impI)
  fix fb
  assume wf: "fb_wf fb"
  show "fb_wf (blend x y c a fb) \<and> fb_w (blend x y c a fb) = fb_w fb \<and> fb_h (blend x y c a fb) = fb_h fb \<and>
     (\<forall>x' y'. on_screen fb x' y' \<longrightarrow>
        ((x', y') \<notin> R \<longrightarrow> pixel (blend x y c a fb) x' y' = pixel fb x' y') \<and>
        (is_opaque fb x' y' \<longrightarrow> is_opaque (blend x y c a fb) x' y'))"
  proof (cases rule: blend_cases [of x y c a fb])
    case (2 c')
    note set = paints_set_pixel [OF 2(1) wf 2(2)]
    have "is_opaque (blend x y c a fb) x' y'" if "on_screen fb x' y'" "is_opaque fb x' y'" for x' y'
      using that set(2) [OF that(1)] set(3) by (cases "(x', y') = (x, y)") (auto simp: is_opaque_def)
    with set 2(2) assms show ?thesis by auto
  qed (simp add: wf)
qed

text \<open>The regions of the shapes.\<close>

definition box :: "int \<Rightarrow> int \<Rightarrow> int \<Rightarrow> int \<Rightarrow> (int \<times> int) set" where
  "box x y w h = {(u, v). x \<le> u \<and> u < x + w \<and> y \<le> v \<and> v < y + h}"

lemma in_box [simp]: "(u, v) \<in> box x y w h \<longleftrightarrow> x \<le> u \<and> u < x + w \<and> y \<le> v \<and> v < y + h"
  by (simp add: box_def)

lemma box_sub:
  "x' \<le> x \<Longrightarrow> x + w \<le> x' + w' \<Longrightarrow> y' \<le> y \<Longrightarrow> y + h \<le> y' + h' \<Longrightarrow> box x y w h \<subseteq> box x' y' w' h'"
  by (auto simp: box_def)

lemma paints_each_pixel:
  assumes "\<And>xx yy. x0 \<le> xx \<Longrightarrow> xx < x1 \<Longrightarrow> y0 \<le> yy \<Longrightarrow> yy < y1 \<Longrightarrow> paints R (f xx yy)"
  shows "paints R (each_pixel x0 y0 x1 y1 f)"
  unfolding each_pixel_def using assms by (intro paints_fold) auto

lemma paints_fillRect [paint_intros]:
  assumes "box x y w h \<subseteq> R"
  shows "paints R (fillRect x y w h c a)"
proof -
  have "paints R (each_pixel (max 0 x) (max 0 y) (min fw (x + w)) (min fh (y + h)) (\<lambda>xx yy. blend xx yy c a))"
    for fw fh using assms by (intro paints_each_pixel paints_blend) auto
  from paints_size [OF this] show ?thesis by (simp add: fillRect_def [abs_def])
qed

lemma paints_vGradient [paint_intros]:
  assumes "box x y w h \<subseteq> R"
  shows "paints R (vGradient x y w h upper lower)"
proof -
  have "paints R (fillRect x (y + yy) w 1 c opaque)" if "0 \<le> yy" "yy < h" for yy c
    by (rule paints_fillRect) (use box_sub [of x x w w y "y + yy" 1 h] that assms in auto)
  then show ?thesis unfolding vGradient_def by (intro paints_fold) simp
qed

lemma paints_roundRect [paint_intros]:
  assumes "box x y w h \<subseteq> R"
  shows "paints R (roundRect x y w h r c a)"
proof -
  have "paints R (case corner_offset w h r xx yy of (dx, dy) \<Rightarrow>
      if dx \<ge> 0 \<and> dx * dx + dy * dy > r * r then id else blend (x + xx) (y + yy) c a)"
    if "0 \<le> xx" "xx < w" "0 \<le> yy" "yy < h" for xx yy
  proof -
    have "(x + xx, y + yy) \<in> R" using that assms by (intro subsetD [OF assms]) simp
    then have one: "paints R (blend (x + xx) (y + yy) c a)" by (rule paints_blend)
    obtain dx dy where "corner_offset w h r xx yy = (dx, dy)" by fastforce
    then show ?thesis by (simp only: prod.case) (rule paints_if [OF paints_id(1) one])
  qed
  then show ?thesis unfolding roundRect_def by (intro paints_each_pixel)
qed

lemma paints_strokeRect [paint_intros]:
  assumes "box x y w h \<subseteq> R" "1 \<le> w" "1 \<le> h"
  shows "paints R (strokeRect x y w h c a)"
proof -
  have edge: "paints R (fillRect u v w' h' c a)"
    if "x \<le> u" "u + w' \<le> x + w" "y \<le> v" "v + h' \<le> y + h" for u v w' h'
    by (rule paints_fillRect) (use box_sub [OF that] assms(1) in blast)
  have "paints R (fillRect x y w 1 c a)" "paints R (fillRect x (y + h - 1) w 1 c a)"
    "paints R (fillRect x y 1 h c a)" "paints R (fillRect (x + w - 1) y 1 h c a)"
    using assms(2,3) by (simp_all add: edge)
  from paints_after [OF paints_after [OF paints_after [OF this(1,2)] this(3)] this(4)]
  show ?thesis by (simp add: strokeRect_def [abs_def])
qed

lemma whole_centre: "\<bar>cx + xx\<bar> < 2 ^ 53 \<Longrightarrow> dtrunc (dadd (dbl cx) (dbl xx)) = cx + xx"
  by (simp add: dbl_exact round53_exact) (simp add: dtrunc_def)

lemma paints_circle [paint_intros]:
  assumes "box (cx - r) (cy - r) (2 * r + 1) (2 * r + 1) \<subseteq> R" "\<bar>cx\<bar> + r < 2 ^ 53" "\<bar>cy\<bar> + r < 2 ^ 53"
  shows "paints R (circle (dbl cx) (dbl cy) r c a)"
proof -
  have "paints R (if xx * xx + yy * yy \<le> r * r
      then blend (dtrunc (dadd (dbl cx) (dbl xx))) (dtrunc (dadd (dbl cy) (dbl yy))) c a else id)"
    if "- r \<le> xx" "xx < r + 1" "- r \<le> yy" "yy < r + 1" for xx yy
  proof -
    have "\<bar>cx + xx\<bar> < 2 ^ 53" "\<bar>cy + yy\<bar> < 2 ^ 53" using that assms(2,3) by linarith+
    then have "dtrunc (dadd (dbl cx) (dbl xx)) = cx + xx" "dtrunc (dadd (dbl cy) (dbl yy)) = cy + yy"
      by (simp_all only: whole_centre)
    with that assms(1) show ?thesis by (auto intro!: paint_intros)
  qed
  then show ?thesis unfolding circle_def by (intro paints_each_pixel)
qed

lemma paints_any_circle: "paints UNIV (circle cx cy r c a)"
  unfolding circle_def by (intro paints_each_pixel) (auto intro: paint_intros)

lemma paints_glyph:
  assumes "box x y (3 * scale) (5 * scale) \<subseteq> R" "0 \<le> scale"
  shows "paints R (draw_glyph g x y scale c a)"
proof -
  have sub: "box (x + int col * scale) (y + int r * scale) scale scale \<subseteq> R" if "r < 5" "col < 3" for r col
  proof -
    have "int col * scale + scale \<le> 3 * scale" "int r * scale + scale \<le> 5 * scale"
      using mult_right_mono [of "int col + 1" 3 scale] mult_right_mono [of "int r + 1" 5 scale] that assms(2)
      by (simp_all add: algebra_simps)
    moreover have "0 \<le> int col * scale" "0 \<le> int r * scale" using assms(2) by simp_all
    ultimately have "box (x + int col * scale) (y + int r * scale) scale scale \<subseteq> box x y (3 * scale) (5 * scale)"
      by (intro box_sub) linarith+
    with assms(1) show ?thesis by blast
  qed
  show ?thesis unfolding draw_glyph_def by (intro paints_fold) (auto intro!: paint_intros dest!: sub)
qed

lemma paints_chars:
  assumes "0 \<le> scale" "box x y (4 * scale * int (length cs)) (5 * scale) \<subseteq> R"
  shows "paints R (draw_chars cs x y scale c a)"
  using assms(2)
proof (induction cs arbitrary: x)
  case (Cons ch cs)
  have len: "4 * scale * int (length (ch # cs)) = 4 * scale + 4 * scale * int (length cs)"
    "0 \<le> 4 * scale * int (length cs)"
    using assms(1) by (simp_all add: algebra_simps)
  have "box x y (3 * scale) (5 * scale) \<subseteq> R"
    using assms(1) len by (intro order.trans [OF box_sub Cons.prems]) linarith+
  then have one: "paints R (\<lambda>fb. case map_of font ch of None \<Rightarrow> fb | Some g \<Rightarrow> draw_glyph g x y scale c a fb)"
    using assms(1) by (cases "map_of font ch") (auto intro: paints_glyph paints_id)
  have "box (x + 4 * scale) y (4 * scale * int (length cs)) (5 * scale) \<subseteq> R"
    using assms(1) len by (intro order.trans [OF box_sub Cons.prems]) linarith+
  from paints_after [OF one Cons.IH [OF this]] show ?case by simp
qed (simp add: paints_def)

lemma paints_text [paint_intros]:
  assumes "0 \<le> scale" "box x y (textWidth (toUpperCase str) scale) (5 * scale) \<subseteq> R"
  shows "paints R (draw_text str x y scale c a)"
  using assms by (simp add: draw_text_def textWidth_def paints_chars mult.commute mult.left_commute)

section \<open>What an opaque shape leaves\<close>

fun rgba :: "rgb \<Rightarrow> byte list" where
  "rgba (r, g, b) = [word_of_int r, word_of_int g, word_of_int b, 255]"

lemma blend_opaque:
  assumes "fb_wf fb" "on_screen fb x y"
  shows "pixel (blend x y c opaque fb) x y = rgba c"
proof -
  have "blend x y c opaque fb = set_pixel (pixel_index fb x y) c fb"
    using assms(2) by (auto simp: blend_def on_screen_def opaque_def dle_def dbl_def Let_def)
  with paints_set_pixel(3) [OF assms(2,1) this] show ?thesis by (cases c) simp
qed

text \<open>A fold in which every step keeps a property and one step brings it about.\<close>

lemma fold_brings:
  assumes "\<And>x s. x \<in> set xs \<Longrightarrow> I s \<Longrightarrow> I (f x s)" "\<And>x s. x \<in> set xs \<Longrightarrow> I s \<Longrightarrow> P s \<Longrightarrow> P (f x s)"
    and "z \<in> set xs" "\<And>s. I s \<Longrightarrow> P (f z s)" "I s"
  shows "P (fold f xs s)"
proof -
  have keep: "P s \<Longrightarrow> I s \<Longrightarrow> set ys \<subseteq> set xs \<Longrightarrow> P (fold f ys s)" for ys s
    using assms(1,2) by (induction ys arbitrary: s) auto
  obtain ys zs where xs: "xs = ys @ z # zs" using split_list [OF assms(3)] by blast
  have inv: "I s \<Longrightarrow> set ys \<subseteq> set xs \<Longrightarrow> I (fold f ys s)" for ys s
    using assms(1) by (induction ys arbitrary: s) auto
  have "I (fold f ys s)" using inv assms(5) xs by auto
  with assms(1,4) xs have "P (f z (fold f ys s))" "I (f z (fold f ys s))" by auto
  moreover have "set zs \<subseteq> set xs" using xs by auto
  ultimately show ?thesis using keep [of "f z (fold f ys s)" zs] xs by simp
qed

definition shows_at :: "int \<Rightarrow> int \<Rightarrow> int \<Rightarrow> int \<Rightarrow> framebuffer \<Rightarrow> bool" where
  "shows_at w h x y fb \<longleftrightarrow> fb_wf fb \<and> fb_w fb = w \<and> fb_h fb = h \<and> on_screen fb x y"

lemma paints_shows: "paints R f \<Longrightarrow> shows_at w h x y fb \<Longrightarrow> shows_at w h x y (f fb)"
  by (auto simp: shows_at_def paints_def on_screen_def)

text \<open>Painting with one opaque colour: a pixel that shows it goes on showing it.\<close>

lemma same_colour:
  assumes "shows_at w h u v s"
  shows "shows_at w h u v (blend xx yy c opaque s)"
    and "pixel s u v = rgba c \<Longrightarrow> pixel (blend xx yy c opaque s) u v = rgba c"
    and "pixel (blend u v c opaque s) u v = rgba c"
proof -
  show "shows_at w h u v (blend xx yy c opaque s)"
    by (rule paints_shows [OF paints_blend [of _ _ UNIV] assms]) simp
  have wf: "fb_wf s" "on_screen s u v" using assms by (simp_all add: shows_at_def)
  then show hit: "pixel (blend u v c opaque s) u v = rgba c" by (rule blend_opaque)
  show "pixel (blend xx yy c opaque s) u v = rgba c" if "pixel s u v = rgba c"
  proof (cases "xx = u \<and> yy = v")
    case False
    then have out: "(u, v) \<notin> {(xx, yy)}" by auto
    have "paints {(xx, yy)} (blend xx yy c opaque)" by (rule paints_blend) simp
    from paintsD(4) [OF this wf out] that show ?thesis by simp
  qed (use hit in simp)
qed

lemma same_colour_row:
  assumes "shows_at w h u v s"
  shows "shows_at w h u v (fold (\<lambda>xx. blend xx yy c opaque) xs s)"
    and "pixel s u v = rgba c \<Longrightarrow> pixel (fold (\<lambda>xx. blend xx yy c opaque) xs s) u v = rgba c"
  using assms by (induction xs arbitrary: s) (simp_all add: same_colour)

lemma fillRect_inside:
  assumes "fb_wf fb" "on_screen fb u v" "(u, v) \<in> box x y w h"
  shows "pixel (fillRect x y w h c opaque fb) u v = rgba c"
proof -
  let ?W = "fb_w fb" and ?H = "fb_h fb"
  let ?xs = "[max 0 x..min ?W (x + w) - 1]" and ?ys = "[max 0 y..min ?H (y + h) - 1]"
  have u: "u \<in> set ?xs" and v: "v \<in> set ?ys" using assms(2,3) by (auto simp: on_screen_def)
  have row: "pixel (fold (\<lambda>xx. blend xx v c opaque) ?xs s) u v = rgba c" if "shows_at ?W ?H u v s" for s
    by (rule fold_brings [where I = "shows_at ?W ?H u v" and P = "\<lambda>s. pixel s u v = rgba c", OF _ _ u _ that])
       (simp_all add: same_colour)
  have "shows_at ?W ?H u v fb" using assms(1,2) by (simp add: shows_at_def)
  then show ?thesis
    unfolding fillRect_def each_pixel_def
    by (intro fold_brings [where I = "shows_at ?W ?H u v" and P = "\<lambda>s. pixel s u v = rgba c", OF _ _ v])
       (simp_all only: same_colour_row row)
qed

lemma paints_box: "paints (box x y w h) (fillRect x y w h c a)"
  by (rule paints_fillRect) simp

text \<open>An opaque gradient covers its rectangle.\<close>

lemma vGradient_inside:
  assumes "fb_wf fb" "on_screen fb u v" "(u, v) \<in> box x y w h"
  shows "pixel (vGradient x y w h upper lower fb) u v =
    rgba (lerp upper lower (if h \<le> 1 then dbl 0 else ddiv (dbl (v - y)) (dbl (h - 1))))"
proof -
  let ?c = "\<lambda>yy. lerp upper lower (if h \<le> 1 then dbl 0 else ddiv (dbl yy) (dbl (h - 1)))"
  let ?row = "\<lambda>yy. fillRect x (y + yy) w 1 (?c yy) opaque"
  let ?I = "shows_at (fb_w fb) (fb_h fb) u v" and ?P = "\<lambda>s. pixel s u v = rgba (?c (v - y))"
  have inv: "?I (?row yy s)" if "?I s" for yy s
    by (rule paints_shows [OF paints_box that])
  have hit: "?P (?row (v - y) s)" if "?I s" for s
    using that assms(3) by (intro fillRect_inside) (simp_all add: shows_at_def)
  have keep: "?P (?row yy s)" if "?I s" "?P s" for yy s
  proof (cases "yy = v - y")
    case False
    then have out: "(u, v) \<notin> box x (y + yy) w 1" by auto
    from that(1) have "fb_wf s" "on_screen s u v" by (simp_all add: shows_at_def)
    from paintsD(4) [OF paints_box this out] that(2) show ?thesis by simp
  qed (use hit [OF that(1)] in \<open>simp only:\<close>)
  have "?I fb" using assms(1,2) by (simp add: shows_at_def)
  moreover have "v - y \<in> set [0..h - 1]" using assms(3) by auto
  ultimately show ?thesis
    unfolding vGradient_def by (intro fold_brings [where I = ?I and P = ?P and z = "v - y"]) (simp_all only: inv hit keep)
qed

text \<open>Nothing draws off the framebuffer or makes a pixel transparent, wherever it aims.\<close>

lemma paints_anywhere:
  "paints UNIV (fillRect x y w h c a)" "paints UNIV (roundRect x y w h r c a)"
  "paints UNIV (vGradient x y w h upper lower)" "paints UNIV (circle cx cy r c a)"
  "0 \<le> scale \<Longrightarrow> paints UNIV (draw_text str x y scale c a)"
  by (simp_all add: paints_fillRect paints_roundRect paints_vGradient paints_any_circle paints_text)

lemma paints_stroke_anywhere: "paints UNIV (strokeRect x y w h c a)"
  using paints_after [OF paints_after [OF paints_after [OF paints_anywhere(1,1)] paints_anywhere(1)] paints_anywhere(1)]
  by (simp add: strokeRect_def [abs_def])

lemma new_framebuffer_wf: "0 \<le> w \<Longrightarrow> 0 \<le> h \<Longrightarrow> fb_wf (new_framebuffer w h)"
  by (simp add: fb_wf_def new_framebuffer_def)

lemma rgba_opaque: "pixel fb x y = rgba c \<Longrightarrow> is_opaque fb x y"
  by (cases c) (simp add: is_opaque_def)

lemma upper_length: "CHR 0xDF \<notin> set s \<Longrightarrow> length (toUpperCase s) = length s"
proof (induction s)
  case (Cons c s)
  have "of_char c \<noteq> (0xDF :: nat)" if "c \<noteq> CHR 0xDF"
  proof
    assume "of_char c = (0xDF :: nat)"
    then have "char_of (of_char c :: nat) = char_of (0xDF :: nat)" by (rule arg_cong)
    moreover have "char_of (0xDF :: nat) = CHR 0xDF" by code_simp
    ultimately show False using that by simp
  qed
  with Cons show ?case by (auto simp: toUpperCase_def upper_char_def Let_def)
qed (simp add: toUpperCase_def)

end
