(* ===== verification/VoidPng.thy ===== *)
theory VoidPng
  imports VoidPaint
begin

unbundle bit_operations_syntax

text \<open>
  The PNG encoder of kernel/src/desktop/compositor.ts, with zlib's \<open>deflate\<close> as a parameter, and
  what it must satisfy: a decoder that checks signature, chunk lengths and a CRC computed bit by
  bit. The numbers of \<open>crc32\<close> are 32-bit words; JS shows some of them as negative, \<open>>>>\<close> and the
  array make them unsigned again.
\<close>

section \<open>CRC\<close>

definition crc_step :: "32 word \<Rightarrow> 32 word" where
  "crc_step c = (if c AND 1 \<noteq> 0 then 0xedb88320 XOR drop_bit 1 c else drop_bit 1 c)"

definition crc_table :: "32 word list" where
  "crc_table = map (\<lambda>n. (crc_step ^^ 8) (word_of_nat n)) [0..<256]"

definition crc32 :: "byte list \<Rightarrow> 32 word" where
  "crc32 buf =
     fold (\<lambda>b c. crc_table ! unat ((c XOR ucast b) AND 0xff) XOR drop_bit 8 c) buf 0xffffffff XOR 0xffffffff"

text \<open>The reference: the register shifted one bit at a time.\<close>

definition crc_bits :: "byte list \<Rightarrow> 32 word" where
  "crc_bits buf = fold (\<lambda>b c. (crc_step ^^ 8) (c XOR ucast b)) buf 0xffffffff XOR 0xffffffff"

section \<open>Chunks\<close>

definition be32 :: "32 word \<Rightarrow> byte list" where
  "be32 n = [ucast (drop_bit 24 n), ucast (drop_bit 16 n), ucast (drop_bit 8 n), ucast n]"

definition ascii :: "string \<Rightarrow> byte list" where
  "ascii s = map (\<lambda>c. word_of_nat (of_char c)) s"

definition chunk :: "string \<Rightarrow> byte list \<Rightarrow> byte list" where
  "chunk type data =
     (let body = ascii type @ data
      in be32 (word_of_nat (length data)) @ body @ be32 (crc32 body))"

section \<open>encodePNG\<close>

definition png_signature :: "byte list" where
  "png_signature = [137, 80, 78, 71, 13, 10, 26, 10]"

definition ihdr :: "int \<Rightarrow> int \<Rightarrow> byte list" where
  "ihdr w h = be32 (word_of_int w) @ be32 (word_of_int h) @ [8, 6, 0, 0, 0]"

text \<open>The rows, each after its filter byte; the buffer is zero where the pixels run out.\<close>

definition png_row :: "nat \<Rightarrow> byte list \<Rightarrow> nat \<Rightarrow> byte list" where
  "png_row stride px y =
     (let row = take stride (drop (y * stride) px) in 0 # row @ replicate (stride - length row) 0)"

definition png_raw :: "nat \<Rightarrow> nat \<Rightarrow> byte list \<Rightarrow> byte list" where
  "png_raw stride h px = concat (map (png_row stride px) [0..<h])"

definition encodePNG :: "(byte list \<Rightarrow> byte list) \<Rightarrow> int \<Rightarrow> int \<Rightarrow> byte list \<Rightarrow> byte list" where
  "encodePNG deflate w h px =
     png_signature @ chunk ''IHDR'' (ihdr w h) @
     chunk ''IDAT'' (deflate (png_raw (nat (w * 4)) (nat h) px)) @ chunk ''IEND'' []"

definition toPNG :: "(byte list \<Rightarrow> byte list) \<Rightarrow> framebuffer \<Rightarrow> byte list" where
  "toPNG deflate fb = encodePNG deflate (fb_w fb) (fb_h fb) (fb_px fb)"

section \<open>A decoder\<close>

fun from_be32 :: "byte list \<Rightarrow> 32 word" where
  "from_be32 [a, b, c, d] =
     push_bit 24 (ucast a) OR push_bit 16 (ucast b) OR push_bit 8 (ucast c) OR ucast d"
| "from_be32 bs = 0"

definition read_chunk :: "byte list \<Rightarrow> (byte list \<times> byte list \<times> byte list) option" where
  "read_chunk bs =
     (let n = unat (from_be32 (take 4 bs)); body = take (4 + n) (drop 4 bs)
      in if length bs < 12 + n \<or> take 4 (drop (8 + n) bs) \<noteq> be32 (crc_bits body) then None
         else Some (take 4 body, drop 4 body, drop (12 + n) bs))"

fun read_rows :: "nat \<Rightarrow> nat \<Rightarrow> byte list \<Rightarrow> byte list option" where
  "read_rows stride 0 raw = (if raw = [] then Some [] else None)"
| "read_rows stride (Suc h) raw =
     (if length raw < Suc stride \<or> hd raw \<noteq> 0 then None
      else map_option (\<lambda>rest. take stride (tl raw) @ rest) (read_rows stride h (drop (Suc stride) raw)))"

definition png_decode :: "(byte list \<Rightarrow> byte list option) \<Rightarrow> byte list \<Rightarrow> (int \<times> int \<times> byte list) option" where
  "png_decode inflate bs =
     (if take 8 bs \<noteq> png_signature then None
      else case read_chunk (drop 8 bs) of
        None \<Rightarrow> None
      | Some (t1, header, bs1) \<Rightarrow>
          (case read_chunk bs1 of
             None \<Rightarrow> None
           | Some (t2, packed, bs2) \<Rightarrow>
               if t1 \<noteq> ascii ''IHDR'' \<or> t2 \<noteq> ascii ''IDAT'' \<or> drop 8 header \<noteq> [8, 6, 0, 0, 0]
                 \<or> read_chunk bs2 \<noteq> Some (ascii ''IEND'', [], []) then None
               else
                 let w = uint (from_be32 (take 4 header)); h = uint (from_be32 (take 4 (drop 4 header)))
                 in case inflate packed of
                      None \<Rightarrow> None
                    | Some raw \<Rightarrow>
                        map_option (\<lambda>px. (w, h, px)) (read_rows (nat (w * 4)) (nat h) raw)))"

section \<open>The table is the bitwise register\<close>

lemma crc_step_xor: "crc_step (x XOR y) = crc_step x XOR crc_step y"
proof -
  have odd: "c AND 1 \<noteq> 0 \<longleftrightarrow> bit c 0" for c :: "32 word" by (simp add: and_one_eq odd_iff_mod_2_eq_one bit_0)
  show ?thesis
    unfolding crc_step_def odd by (rule bit_word_eqI) (auto simp: bit_simps)
qed

lemma crc_steps_xor: "(crc_step ^^ n) (x XOR y) = (crc_step ^^ n) x XOR (crc_step ^^ n) y"
  by (induction n) (simp_all add: crc_step_xor)

lemma crc_steps_high:
  "(\<And>k. k < n \<Longrightarrow> \<not> bit x k) \<Longrightarrow> (crc_step ^^ n) x = drop_bit n x"
proof (induction n)
  case (Suc n)
  then have steps: "(crc_step ^^ n) x = drop_bit n x" and "\<not> bit x n" by auto
  then have "drop_bit n x AND 1 = 0"
    using \<open>\<not> bit x n\<close> by (simp add: and_one_eq bit_iff_odd_drop_bit even_iff_mod_2_eq_zero)
  then have "crc_step (drop_bit n x) = drop_bit (Suc n) x" by (simp add: crc_step_def drop_bit_drop_bit)
  with steps show ?case by simp
qed simp

lemma crc_steps_byte: "(crc_step ^^ 8) x = (crc_step ^^ 8) (x AND 0xff) XOR drop_bit 8 x"
proof -
  have ff: "bit (0xff :: 32 word) k \<longleftrightarrow> k < 8" for k
    using bit_mask_iff [of 8 k, where 'a = "32 word"] by (auto simp: mask_eq_exp_minus_1)
  define lo :: "32 word" where "lo = 0xff"
  let ?hi = "x AND NOT lo"
  have ff: "bit lo k \<longleftrightarrow> k < 8" for k using ff by (simp add: lo_def)
  have split: "x = (x AND lo) XOR ?hi" by (rule bit_word_eqI) (auto simp: bit_simps)
  have "(crc_step ^^ 8) ?hi = drop_bit 8 ?hi"
    by (rule crc_steps_high) (simp add: bit_and_iff bit_not_iff ff)
  moreover have "drop_bit 8 ?hi = drop_bit 8 x"
    by (rule bit_word_eqI) (auto simp: bit_drop_bit_eq bit_and_iff bit_not_iff ff dest: bit_imp_le_length)
  ultimately show ?thesis using split crc_steps_xor [of 8 "x AND lo" ?hi] by (simp add: lo_def)
qed

lemma crc_table_entry:
  assumes "unat i < 256"
  shows "crc_table ! unat i = (crc_step ^^ 8) i"
  using assms by (simp add: crc_table_def)

lemma crc32_bits: "crc32 buf = crc_bits buf"
proof -
  have "crc_table ! unat ((c XOR ucast b) AND 0xff) XOR drop_bit 8 c = (crc_step ^^ 8) (c XOR ucast b)"
    for c :: "32 word" and b :: byte
  proof -
    let ?x = "c XOR ucast b"
    have "unat (?x AND 0xff) < 256"
      using word_and_le2 [of ?x "0xff"] word_le_nat_alt [of "?x AND 0xff" "0xff"] by (simp add: word_and_le1 le_less_trans)
    then have "crc_table ! unat (?x AND 0xff) = (crc_step ^^ 8) (?x AND 0xff)" by (rule crc_table_entry)
    moreover have "drop_bit 8 ?x = drop_bit 8 c"
    proof (rule bit_word_eqI)
      show "bit (drop_bit 8 ?x) k = bit (drop_bit 8 c) k" for k
        using bit_imp_le_length [of b "8 + k"] by (auto simp: bit_simps)
    qed
    ultimately show ?thesis using crc_steps_byte [of ?x] by simp
  qed
  then show ?thesis by (simp add: crc32_def crc_bits_def)
qed

section \<open>Reading back\<close>

lemma from_to_be32: "from_be32 (be32 n) = n"
proof -
  have "push_bit 24 (ucast (ucast (drop_bit 24 n) :: byte)) OR push_bit 16 (ucast (ucast (drop_bit 16 n) :: byte))
      OR push_bit 8 (ucast (ucast (drop_bit 8 n) :: byte)) OR ucast (ucast n :: byte) = n" (is "?l = n")
  proof (rule bit_word_eqI)
    fix k :: nat
    consider "k < 8" | "8 \<le> k" "k < 16" | "16 \<le> k" "k < 24" | "24 \<le> k" by linarith
    then show "bit ?l k = bit n k"
      if "k < LENGTH(32)" using that by cases (auto simp: bit_simps)
  qed
  then show ?thesis by (simp add: be32_def)
qed

lemma length_be32 [simp]: "length (be32 n) = 4"
  by (simp add: be32_def)

lemma read_chunk_chunk:
  assumes "length (ascii type) = 4" "length data < 2 ^ 32"
  shows "read_chunk (chunk type data @ rest) = Some (ascii type, data, rest)"
proof -
  let ?n = "length data" and ?body = "ascii type @ data"
  let ?bs = "chunk type data @ rest"
  have bs: "?bs = be32 (word_of_nat ?n) @ ?body @ be32 (crc32 ?body) @ rest" by (simp add: chunk_def Let_def)
  have "take 4 ?bs = be32 (word_of_nat ?n)" unfolding bs by simp
  moreover have "unat (word_of_nat ?n :: 32 word) = ?n" using assms(2) by (simp add: unat_of_nat take_bit_nat_eq_self)
  ultimately have n: "unat (from_be32 (take 4 ?bs)) = ?n" by (simp add: from_to_be32)
  have "take (4 + ?n) (drop 4 ?bs) = ?body" unfolding bs using assms(1) by simp
  moreover have "take 4 (drop (8 + ?n) ?bs) = be32 (crc_bits ?body)" unfolding bs using assms(1)
    by (simp add: crc32_bits)
  moreover have "drop (12 + ?n) ?bs = rest" unfolding bs using assms(1) by simp
  moreover have "length ?bs = 12 + ?n + length rest" unfolding bs using assms(1) by simp
  ultimately show ?thesis
    using n assms(1) by (simp add: read_chunk_def Let_def)
qed

lemma read_rows_raw:
  "length px = h * stride \<Longrightarrow> read_rows stride h (png_raw stride h px) = Some px"
proof (induction h arbitrary: px)
  case (Suc h)
  let ?row = "take stride px" and ?rest = "drop stride px"
  have len: "length ?row = stride" "length ?rest = h * stride" using Suc.prems by simp_all
  have "png_row stride px (Suc y) = png_row stride ?rest y" for y
    by (simp add: png_row_def Let_def add.commute)
  then have "png_raw stride (Suc h) px = png_row stride px 0 @ png_raw stride h ?rest"
    by (simp add: png_raw_def upt_conv_Cons map_Suc_upt [symmetric] comp_def del: upt_Suc)
  moreover have "png_row stride px 0 = 0 # ?row" using len(1) by (simp add: png_row_def Let_def)
  ultimately show ?case using Suc.IH [OF len(2)] len(1) by simp
qed (simp add: png_raw_def)

section \<open>Properties\<close>

text \<open>
  C23. A PNG the compositor writes is one: a decoder that checks signature, chunk order, lengths and
  every CRC bit by bit reads back the size and all the pixels, for any compression that can be
  undone and any picture whose numbers fit the four-byte fields.
\<close>

theorem png_roundtrip:
  assumes "\<forall>raw. inflate (deflate raw) = Some raw" "0 \<le> w" "w < 2 ^ 32" "0 \<le> h" "h < 2 ^ 32"
    and "length px = nat (w * h * 4)" "length (deflate (png_raw (nat (w * 4)) (nat h) px)) < 2 ^ 32"
  shows "png_decode inflate (encodePNG deflate w h px) = Some (w, h, px)"
proof -
  let ?packed = "deflate (png_raw (nat (w * 4)) (nat h) px)"
  have types: "length (ascii ''IHDR'') = 4" "length (ascii ''IDAT'') = 4" "length (ascii ''IEND'') = 4"
    by (simp_all add: ascii_def)
  have "length (ihdr w h) < 2 ^ 32" by (simp add: ihdr_def)
  note chunks = read_chunk_chunk [OF types(1) this, of "chunk ''IDAT'' ?packed @ chunk ''IEND'' []"]
    read_chunk_chunk [OF types(2) assms(7), of "chunk ''IEND'' []"] read_chunk_chunk [OF types(3), of "[]" "[]"]
  have size: "uint (from_be32 (be32 (word_of_int w))) = w" "uint (from_be32 (be32 (word_of_int h))) = h"
    using assms(2-5) by (simp_all add: from_to_be32 uint_word_of_int)
  have head: "take 4 (ihdr w h) = be32 (word_of_int w)" "take 4 (drop 4 (ihdr w h)) = be32 (word_of_int h)"
    "drop 8 (ihdr w h) = [8, 6, 0, 0, 0]" by (simp_all add: ihdr_def)
  have "length px = nat h * nat (w * 4)"
    using assms(2,4,6) by (simp add: nat_mult_distrib ac_simps)
  then have rows: "read_rows (nat (w * 4)) (nat h) (png_raw (nat (w * 4)) (nat h) px) = Some px"
    by (rule read_rows_raw)
  show ?thesis
    using chunks assms(1) by (simp add: png_decode_def encodePNG_def png_signature_def head size rows)
qed

theorem png_roundtrip_witness:
  "png_decode Some (encodePNG id 2 1 [1, 2, 3, 255, 4, 5, 6, 255]) = Some (2, 1, [1, 2, 3, 255, 4, 5, 6, 255])"
proof -
  have "png_raw 8 1 [1, 2, 3, 255, 4, 5, 6, 255] = [0, 1, 2, 3, 255, 4, 5, 6, 255]"
    by (simp add: png_raw_def png_row_def)
  then show ?thesis by (intro png_roundtrip) simp_all
qed

end
