(* ===== verification/VoidWm.thy ===== *)
theory VoidWm
  imports VoidTheme
begin

text \<open>
  kernel/src/desktop/wm.ts: the window manager. A screen of 1100 by 720 pixels; window objects
  are found by id and mutated in place, which is an update of the entry with that id.
\<close>

section \<open>State\<close>

record vwindow =
  vw_id :: nat
  vw_app :: string
  vw_title :: string
  vw_accent :: rgb
  vw_x :: int
  vw_y :: int
  vw_w :: int
  vw_h :: int
  vw_z :: nat

record drag =
  dg_id :: nat
  dg_ox :: int
  dg_oy :: int

record wm =
  wm_windows :: "vwindow list"
  wm_seq :: nat
  wm_topZ :: nat
  wm_drag :: "drag option"

definition screen_w :: int where "screen_w = 1100"
definition screen_h :: int where "screen_h = 720"

section \<open>Operations\<close>

definition byId :: "nat \<Rightarrow> wm \<Rightarrow> vwindow option" where
  "byId k s = find (\<lambda>w. vw_id w = k) (wm_windows s)"

definition set_window :: "nat \<Rightarrow> (vwindow \<Rightarrow> vwindow) \<Rightarrow> wm \<Rightarrow> wm" where
  "set_window k f s = s\<lparr>wm_windows := map (\<lambda>w. if vw_id w = k then f w else w) (wm_windows s)\<rparr>"

definition wm_raise :: "nat \<Rightarrow> wm \<Rightarrow> wm" where
  "wm_raise k s =
     (case byId k s of
        None \<Rightarrow> s
      | Some w \<Rightarrow> set_window k (\<lambda>w. w\<lparr>vw_z := Suc (wm_topZ s)\<rparr>) (s\<lparr>wm_topZ := Suc (wm_topZ s)\<rparr>))"

definition wm_launch :: "string \<Rightarrow> wm \<Rightarrow> int \<times> wm" where
  "wm_launch app s =
     (case find (\<lambda>a. ad_id a = app) apps of
        None \<Rightarrow> (-1, s)
      | Some d \<Rightarrow>
          (case find (\<lambda>w. vw_app w = app) (wm_windows s) of
             Some w \<Rightarrow> (int (vw_id w), wm_raise (vw_id w) s)
           | None \<Rightarrow>
               let n = int (length (wm_windows s));
                   w = \<lparr>vw_id = Suc (wm_seq s), vw_app = app, vw_title = ad_title d,
                        vw_accent = ad_accent d,
                        vw_x = 40 + (n mod 6) * 36, vw_y = panel_h + 18 + (n mod 6) * 30,
                        vw_w = ad_w d, vw_h = ad_h d, vw_z = Suc (wm_topZ s)\<rparr>
               in (int (vw_id w),
                   s\<lparr>wm_windows := wm_windows s @ [w], wm_seq := Suc (wm_seq s),
                     wm_topZ := Suc (wm_topZ s)\<rparr>)))"

definition wm_close :: "nat \<Rightarrow> wm \<Rightarrow> wm" where
  "wm_close k s = s\<lparr>wm_windows := filter (\<lambda>w. vw_id w \<noteq> k) (wm_windows s)\<rparr>"

definition empty_wm :: wm where
  "empty_wm = \<lparr>wm_windows = [], wm_seq = 0, wm_topZ = 0, wm_drag = None\<rparr>"

definition new_wm :: wm where
  "new_wm = snd (wm_launch ''audit'' (snd (wm_launch ''services'' (snd (wm_launch ''system'' empty_wm)))))"

definition ordered :: "wm \<Rightarrow> vwindow list" where
  "ordered s = sort_key vw_z (wm_windows s)"

definition focusedId :: "wm \<Rightarrow> int" where
  "focusedId s =
     (case fold (\<lambda>w top. case top of None \<Rightarrow> Some w | Some t \<Rightarrow> if vw_z w > vw_z t then Some w else top)
             (wm_windows s) None of
        None \<Rightarrow> -1
      | Some w \<Rightarrow> int (vw_id w))"

definition covers :: "int \<Rightarrow> int \<Rightarrow> vwindow \<Rightarrow> bool" where
  "covers x y w \<longleftrightarrow> vw_x w \<le> x \<and> x \<le> vw_x w + vw_w w \<and> vw_y w \<le> y \<and> y \<le> vw_y w + vw_h w"

definition topAt :: "int \<Rightarrow> int \<Rightarrow> wm \<Rightarrow> vwindow option" where
  "topAt x y s = find (covers x y) (sort_key (\<lambda>w. - int (vw_z w)) (wm_windows s))"

text \<open>\<open>Math.hypot(dx, dy) <= 7\<close> on whole pixels.\<close>

definition on_close_button :: "int \<Rightarrow> int \<Rightarrow> vwindow \<Rightarrow> bool" where
  "on_close_button x y w \<longleftrightarrow>
     (x - (vw_x w + 14)) * (x - (vw_x w + 14)) + (y - (vw_y w + 11)) * (y - (vw_y w + 11)) \<le> 49"

definition dock_hit :: "int \<Rightarrow> int \<Rightarrow> dock_rect option" where
  "dock_hit x y =
     find (\<lambda>r. dr_x r \<le> x \<and> x \<le> dr_x r + dr_w r \<and> dr_y r \<le> y \<and> y \<le> dr_y r + dr_h r)
       (dk_rects (dockLayout screen_w screen_h))"

datatype pointer_type = PointerDown | PointerMove | PointerUp

definition pointer_down :: "int \<Rightarrow> int \<Rightarrow> wm \<Rightarrow> wm" where
  "pointer_down x y s =
     (case topAt x y s of
        Some w \<Rightarrow>
          let s1 = wm_raise (vw_id w) s
          in if on_close_button x y w then wm_close (vw_id w) s1
             else if y \<le> vw_y w + title_h
             then s1\<lparr>wm_drag := Some \<lparr>dg_id = vw_id w, dg_ox = x - vw_x w, dg_oy = y - vw_y w\<rparr>\<rparr>
             else s1
      | None \<Rightarrow>
          (case dock_hit x y of None \<Rightarrow> s | Some r \<Rightarrow> snd (wm_launch (dr_app r) s)))"

definition pointer_move :: "int \<Rightarrow> int \<Rightarrow> wm \<Rightarrow> wm" where
  "pointer_move x y s =
     (case wm_drag s of
        None \<Rightarrow> s
      | Some d \<Rightarrow>
          (case byId (dg_id d) s of
             None \<Rightarrow> s
           | Some w \<Rightarrow>
               set_window (dg_id d)
                 (\<lambda>w. w\<lparr>vw_x := max (- vw_w w + 80) (min (screen_w - 80) (x - dg_ox d)),
                        vw_y := max panel_h (min (screen_h - 40) (y - dg_oy d))\<rparr>) s))"

definition pointer :: "pointer_type \<Rightarrow> int \<Rightarrow> int \<Rightarrow> wm \<Rightarrow> wm" where
  "pointer t x y s =
     (case t of
        PointerDown \<Rightarrow> pointer_down x y s
      | PointerMove \<Rightarrow> pointer_move x y s
      | PointerUp \<Rightarrow> s\<lparr>wm_drag := None\<rparr>)"

section \<open>The machine\<close>

datatype wm_event = Launch string | Raise nat | Close nat | Pointer pointer_type int int

fun wm_step :: "wm_event \<Rightarrow> wm \<Rightarrow> wm" where
  "wm_step (Launch app) s = snd (wm_launch app s)"
| "wm_step (Raise k) s = wm_raise k s"
| "wm_step (Close k) s = wm_close k s"
| "wm_step (Pointer t x y) s = pointer t x y s"

text \<open>
  The invariant: ids, stacking positions and applications are unique and counted by \<open>seq\<close> and
  \<open>topZ\<close>; a window has the title, colour and size of its application; and it can always be
  grabbed: its title bar starts below the panel and above the last 40 rows, and at least 80
  columns of it are on the screen.
\<close>

definition grabbable :: "vwindow \<Rightarrow> bool" where
  "grabbable w \<longleftrightarrow>
     80 \<le> vw_x w + vw_w w \<and> vw_x w \<le> screen_w - 80 \<and> panel_h \<le> vw_y w \<and> vw_y w \<le> screen_h - 40"

definition from_app :: "vwindow \<Rightarrow> bool" where
  "from_app w \<longleftrightarrow>
     (case find (\<lambda>a. ad_id a = vw_app w) apps of
        None \<Rightarrow> False
      | Some d \<Rightarrow> vw_title w = ad_title d \<and> vw_accent w = ad_accent d \<and> vw_w w = ad_w d \<and> vw_h w = ad_h d)"

definition window_ok :: "nat \<Rightarrow> nat \<Rightarrow> vwindow \<Rightarrow> bool" where
  "window_ok seq topZ w \<longleftrightarrow>
     1 \<le> vw_id w \<and> vw_id w \<le> seq \<and> vw_z w \<le> topZ \<and> from_app w \<and> grabbable w"

definition wm_inv :: "wm \<Rightarrow> bool" where
  "wm_inv s \<longleftrightarrow>
     distinct (map vw_id (wm_windows s)) \<and> distinct (map vw_z (wm_windows s)) \<and>
     distinct (map vw_app (wm_windows s)) \<and>
     (\<forall>w \<in> set (wm_windows s). window_ok (wm_seq s) (wm_topZ s) w)"


lemma find_SomeD: "find P xs = Some x \<Longrightarrow> x \<in> set xs \<and> P x"
  by (auto simp: find_Some_iff)

lemma byId_Some: "byId k s = Some w \<Longrightarrow> w \<in> set (wm_windows s) \<and> vw_id w = k"
  by (auto simp: byId_def dest: find_SomeD)

lemma same_id: "distinct (map vw_id ws) \<Longrightarrow> v \<in> set ws \<Longrightarrow> w \<in> set ws \<Longrightarrow> vw_id v = vw_id w \<Longrightarrow> v = w"
  by (metis distinct_map inj_onD)

lemma byId_here:
  "distinct (map vw_id (wm_windows s)) \<Longrightarrow> w \<in> set (wm_windows s) \<Longrightarrow> byId (vw_id w) s = Some w"
  unfolding byId_def by (metis (mono_tags, lifting) find_None_iff find_SomeD not_None_eq same_id)

lemma wm_invI:
  assumes "distinct (map vw_id (wm_windows s))" "distinct (map vw_z (wm_windows s))"
    "distinct (map vw_app (wm_windows s))"
    "\<And>w. w \<in> set (wm_windows s) \<Longrightarrow> window_ok (wm_seq s) (wm_topZ s) w"
  shows "wm_inv s"
  using assms by (simp add: wm_inv_def)

lemma wm_invD:
  assumes "wm_inv s"
  shows "distinct (map vw_id (wm_windows s))" "distinct (map vw_z (wm_windows s))"
    "distinct (map vw_app (wm_windows s))"
    "w \<in> set (wm_windows s) \<Longrightarrow> window_ok (wm_seq s) (wm_topZ s) w"
    "v \<in> set (wm_windows s) \<Longrightarrow> w \<in> set (wm_windows s) \<Longrightarrow> vw_z v = vw_z w \<Longrightarrow> v = w"
  using assms unfolding wm_inv_def by (auto simp: distinct_map dest: inj_onD)

text \<open>A change of one window that leaves its identity and its place in the stack alone.\<close>

lemma wm_inv_set_window:
  assumes inv: "wm_inv s"
    and same: "\<And>w. vw_id (f w) = vw_id w" "\<And>w. vw_app (f w) = vw_app w" "\<And>w. vw_z (f w) = vw_z w"
      "\<And>w. window_ok (wm_seq s) (wm_topZ s) w \<Longrightarrow> window_ok (wm_seq s) (wm_topZ s) (f w)"
  shows "wm_inv (set_window k f s)"
proof (rule wm_invI, goal_cases)
  case (4 w)
  then show ?case using same(4) wm_invD(4) [OF inv] by (auto simp: set_window_def)
qed (use wm_invD(1-3) [OF inv] in \<open>simp_all add: set_window_def same comp_def if_distrib cong: if_cong\<close>)

lemma wm_inv_raise:
  assumes inv: "wm_inv s" shows "wm_inv (wm_raise k s)"
proof (cases "byId k s")
  case (Some w0)
  let ?top = "Suc (wm_topZ s)"
  let ?g = "\<lambda>w. if vw_id w = k then w\<lparr>vw_z := ?top\<rparr> else w"
  have eq: "wm_raise k s = s\<lparr>wm_windows := map ?g (wm_windows s), wm_topZ := ?top\<rparr>"
    by (simp add: wm_raise_def Some set_window_def)
  have low: "vw_z w < ?top" if "w \<in> set (wm_windows s)" for w
    using wm_invD(4) [OF inv that] by (simp add: window_ok_def)
  have "inj_on (vw_z \<circ> ?g) (set (wm_windows s))"
  proof (rule inj_onI)
    fix v w assume vw: "v \<in> set (wm_windows s)" "w \<in> set (wm_windows s)" "(vw_z \<circ> ?g) v = (vw_z \<circ> ?g) w"
    show "v = w"
      using vw low [OF vw(1)] low [OF vw(2)] wm_invD(5) [OF inv vw(1,2)]
        same_id [OF wm_invD(1) [OF inv] vw(1,2)]
      by (cases "vw_id v = k"; cases "vw_id w = k") auto
  qed
  moreover have "distinct (wm_windows s)" using wm_invD(1) [OF inv] by (simp add: distinct_map)
  ultimately have z: "distinct (map vw_z (map ?g (wm_windows s)))" by (simp add: distinct_map)
  show ?thesis
    unfolding eq
  proof (rule wm_invI, goal_cases)
    case 2
    show ?case using z by simp
  next
    case (4 w)
    then obtain v where v: "v \<in> set (wm_windows s)" "w = ?g v" by auto
    with wm_invD(4) [OF inv v(1)] show ?case
      by (simp add: window_ok_def from_app_def grabbable_def split: option.splits)
  qed (use wm_invD(1,3) [OF inv] in \<open>simp_all add: comp_def if_distrib cong: if_cong\<close>)
qed (simp add: wm_raise_def inv)

lemma app_sizes:
  assumes "find (\<lambda>a. ad_id a = k) apps = Some d"
  shows "430 \<le> ad_w d" "ad_id d = k"
proof -
  have "\<forall>d \<in> set apps. 430 \<le> ad_w d" by (simp add: apps_def)
  then show "430 \<le> ad_w d" "ad_id d = k" using find_SomeD [OF assms] by simp_all
qed

lemma wm_inv_launch:
  assumes inv: "wm_inv s" shows "wm_inv (snd (wm_launch app s))"
proof (cases "find (\<lambda>a. ad_id a = app) apps")
  case (Some d)
  show ?thesis
  proof (cases "find (\<lambda>w. vw_app w = app) (wm_windows s)")
    case None
    let ?n = "int (length (wm_windows s)) mod 6"
    let ?w = "\<lparr>vw_id = Suc (wm_seq s), vw_app = app, vw_title = ad_title d, vw_accent = ad_accent d,
      vw_x = 40 + ?n * 36, vw_y = panel_h + 18 + ?n * 30, vw_w = ad_w d, vw_h = ad_h d,
      vw_z = Suc (wm_topZ s)\<rparr>"
    have eq: "snd (wm_launch app s) = s\<lparr>wm_windows := wm_windows s @ [?w], wm_seq := Suc (wm_seq s),
        wm_topZ := Suc (wm_topZ s)\<rparr>"
      by (simp add: wm_launch_def Some None Let_def)
    have new: "app \<notin> vw_app ` set (wm_windows s)" using None by (auto simp: find_None_iff)
    have low: "vw_id w \<le> wm_seq s \<and> vw_z w \<le> wm_topZ s" if "w \<in> set (wm_windows s)" for w
      using wm_invD(4) [OF inv that] by (simp add: window_ok_def)
    have place: "grabbable \<lparr>vw_id = i, vw_app = app, vw_title = ad_title d, vw_accent = ad_accent d,
      vw_x = 40 + m * 36, vw_y = panel_h + 18 + m * 30, vw_w = ad_w d, vw_h = ad_h d, vw_z = z\<rparr>"
      if "0 \<le> m" "m < 6" for m i z
      using that app_sizes(1) [OF Some] by (simp add: grabbable_def panel_h_def screen_w_def screen_h_def)
    have "window_ok (Suc (wm_seq s)) (Suc (wm_topZ s)) ?w"
      using place [of ?n] by (simp add: window_ok_def from_app_def Some)
    moreover have "window_ok (Suc (wm_seq s)) (Suc (wm_topZ s)) w" if "w \<in> set (wm_windows s)" for w
      using wm_invD(4) [OF inv that] by (simp add: window_ok_def)
    moreover have "Suc (wm_seq s) \<notin> vw_id ` set (wm_windows s)" "Suc (wm_topZ s) \<notin> vw_z ` set (wm_windows s)"
      using low by fastforce+
    ultimately show ?thesis
      unfolding eq using wm_invD(1-3) [OF inv] new by (intro wm_invI) auto
  next
    case (Some w)
    with \<open>find (\<lambda>a. ad_id a = app) apps = Some d\<close> inv show ?thesis
      by (simp add: wm_launch_def wm_inv_raise)
  qed
qed (simp add: wm_launch_def inv)

lemma wm_inv_close:
  assumes inv: "wm_inv s" shows "wm_inv (wm_close k s)"
proof (rule wm_invI, goal_cases)
  case (4 w)
  then show ?case using wm_invD(4) [OF inv] by (simp add: wm_close_def)
qed (use wm_invD(1-3) [OF inv] in \<open>simp_all add: wm_close_def distinct_map_filter\<close>)

lemma wm_inv_drag [simp]: "wm_inv (s\<lparr>wm_drag := d\<rparr>) = wm_inv s"
  by (simp add: wm_inv_def)

lemma wm_inv_move:
  assumes inv: "wm_inv s" shows "wm_inv (pointer_move x y s)"
proof -
  have "430 \<le> vw_w w" if "window_ok seq topZ w" for seq topZ w
    using that app_sizes(1) by (fastforce simp: window_ok_def from_app_def split: option.splits)
  then have "window_ok seq topZ w \<Longrightarrow>
      window_ok seq topZ (w\<lparr>vw_x := max (- vw_w w + 80) (min (screen_w - 80) a),
        vw_y := max panel_h (min (screen_h - 40) b)\<rparr>)" for seq topZ w a b
    by (fastforce simp: window_ok_def from_app_def grabbable_def panel_h_def screen_w_def screen_h_def
        split: option.splits)
  then show ?thesis
    using inv by (auto simp: pointer_move_def intro!: wm_inv_set_window split: option.splits)
qed

lemma wm_inv_step: "wm_inv s \<Longrightarrow> wm_inv (wm_step e s)"
proof (cases e)
  case (Pointer t x y)
  then show "wm_inv s \<Longrightarrow> wm_inv (wm_step e s)"
    by (cases t) (auto simp: pointer_def pointer_down_def Let_def wm_inv_move wm_inv_raise wm_inv_close
        wm_inv_launch split: option.splits)
qed (simp_all add: wm_inv_launch wm_inv_raise wm_inv_close)

interpretation wmm: event_machine wm_step "\<lambda>e s. True" wm_inv
  by unfold_locales (rule wm_inv_step)

lemma wm_inv_new: "wm_inv new_wm"
  unfolding new_wm_def by (intro wm_inv_launch) (simp add: empty_wm_def wm_inv_def)


section \<open>Stacking\<close>

lemma topAt_Some:
  assumes "topAt x y s = Some w"
  shows "w \<in> set (wm_windows s)" "covers x y w"
    "\<And>v. v \<in> set (wm_windows s) \<Longrightarrow> covers x y v \<Longrightarrow> vw_z v \<le> vw_z w"
proof -
  let ?ws = "sort_key (\<lambda>w. - int (vw_z w)) (wm_windows s)"
  show "w \<in> set (wm_windows s)" "covers x y w"
    using find_SomeD [OF assms [unfolded topAt_def]] by (simp_all only: set_sort)
  obtain i where i: "i < length ?ws" "w = ?ws ! i" "\<forall>j<i. \<not> covers x y (?ws ! j)"
    using assms unfolding topAt_def find_Some_iff by blast
  fix v assume v: "v \<in> set (wm_windows s)" "covers x y v"
  then have "v \<in> set ?ws" by simp
  then obtain j where j: "j < length ?ws" "v = ?ws ! j" unfolding in_set_conv_nth by blast
  with i(3) v(2) have "i \<le> j" by (meson not_le_imp_less)
  then have "map (\<lambda>w. - int (vw_z w)) ?ws ! i \<le> map (\<lambda>w. - int (vw_z w)) ?ws ! j"
    using i(1) j(1) by (intro sorted_nth_mono) simp_all
  then have "- int (vw_z (?ws ! i)) \<le> - int (vw_z (?ws ! j))"
    using i(1) j(1) by (simp only: nth_map)
  with i(2) j(2) show "vw_z v \<le> vw_z w" by simp
qed

lemma topAt_None: "topAt x y s = None \<longleftrightarrow> (\<forall>w \<in> set (wm_windows s). \<not> covers x y w)"
  by (auto simp: topAt_def find_None_iff)

definition higher :: "vwindow \<Rightarrow> vwindow option \<Rightarrow> vwindow option" where
  "higher w best = (case best of None \<Rightarrow> Some w | Some t \<Rightarrow> if vw_z w > vw_z t then Some w else best)"

lemma fold_higher:
  "fold higher ws best = Some t \<Longrightarrow>
     (t \<in> set ws \<or> best = Some t) \<and> (\<forall>w \<in> set ws. vw_z w \<le> vw_z t) \<and>
     (\<forall>u. best = Some u \<longrightarrow> vw_z u \<le> vw_z t)"
proof (induction ws arbitrary: best)
  case (Cons w ws)
  from Cons.IH [of "higher w best"] Cons.prems show ?case
    by (auto simp: higher_def split: option.splits if_splits)
qed simp

lemma fold_higher_None: "fold higher ws best = None \<longleftrightarrow> ws = [] \<and> best = None"
  by (induction ws arbitrary: best) (auto simp: higher_def split: option.splits)

lemma focusedId_higher:
  "focusedId s = (case fold higher (wm_windows s) None of None \<Rightarrow> -1 | Some w \<Rightarrow> int (vw_id w))"
proof -
  have "(\<lambda>w best. case best of None \<Rightarrow> Some w | Some t \<Rightarrow> if vw_z w > vw_z t then Some w else best) = higher"
    by (simp add: fun_eq_iff higher_def)
  then show ?thesis by (simp only: focusedId_def)
qed

text \<open>A window above all others has the focus.\<close>

lemma focused_top:
  assumes "wm_inv s" "w \<in> set (wm_windows s)" "\<And>v. v \<in> set (wm_windows s) \<Longrightarrow> vw_z v \<le> vw_z w"
  shows "focusedId s = int (vw_id w)"
proof -
  obtain t where t: "fold higher (wm_windows s) None = Some t"
    using assms(2) fold_higher_None by fastforce
  with fold_higher [OF t] assms wm_invD(5) [OF assms(1)] have "t = w" by (metis le_antisym option.distinct(1))
  with t show ?thesis by (simp add: focusedId_higher)
qed

lemma raised:
  assumes inv: "wm_inv s" and w: "w \<in> set (wm_windows s)"
  shows "w\<lparr>vw_z := Suc (wm_topZ s)\<rparr> \<in> set (wm_windows (wm_raise (vw_id w) s))"
    "focusedId (wm_raise (vw_id w) s) = int (vw_id w)"
proof -
  have eq: "wm_raise (vw_id w) s = set_window (vw_id w) (\<lambda>w. w\<lparr>vw_z := Suc (wm_topZ s)\<rparr>)
      (s\<lparr>wm_topZ := Suc (wm_topZ s)\<rparr>)"
    by (simp add: wm_raise_def byId_here [OF wm_invD(1) [OF inv] w])
  show up: "w\<lparr>vw_z := Suc (wm_topZ s)\<rparr> \<in> set (wm_windows (wm_raise (vw_id w) s))"
    using w by (auto simp: eq set_window_def)
  have "vw_z v \<le> Suc (wm_topZ s)" if "v \<in> set (wm_windows (wm_raise (vw_id w) s))" for v
    using wm_invD(4) [OF wm_inv_raise [OF inv] that] by (simp add: window_ok_def eq set_window_def)
  then show "focusedId (wm_raise (vw_id w) s) = int (vw_id w)"
    using focused_top [OF wm_inv_raise [OF inv] up] by simp
qed

lemma launched_focus:
  assumes inv: "wm_inv s" and d: "find (\<lambda>a. ad_id a = app) apps = Some d"
  shows "focusedId (snd (wm_launch app s)) = fst (wm_launch app s)"
proof (cases "find (\<lambda>w. vw_app w = app) (wm_windows s)")
  case None
  let ?s = "snd (wm_launch app s)"
  have inv': "wm_inv ?s" by (rule wm_inv_launch [OF inv])
  define w where "w = last (wm_windows ?s)"
  have w: "w \<in> set (wm_windows ?s)" "vw_z w = wm_topZ ?s" "int (vw_id w) = fst (wm_launch app s)"
    using d None by (simp_all add: w_def wm_launch_def Let_def)
  have "vw_z v \<le> vw_z w" if "v \<in> set (wm_windows ?s)" for v
    using wm_invD(4) [OF inv' that] w(2) by (simp add: window_ok_def)
  from focused_top [OF inv' w(1) this] w(3) show ?thesis by simp
next
  case (Some w)
  with d raised(2) [OF inv] find_SomeD [OF Some] show ?thesis by (simp add: wm_launch_def)
qed

lemma reachable_inv: "wm_inv (fold wm_step es new_wm)"
proof -
  have "runs wm_step (\<lambda>e s. True) s es" for s es by (induction es arbitrary: s) simp_all
  then show ?thesis by (rule wmm.run_inv [OF wm_inv_new])
qed

section \<open>Properties\<close>

text \<open>
  C30. Window manager safety. After any sequence of launches, raises, closes and pointer events
  with any coordinates, from a fresh desktop: ids, stacking positions and applications are
  unique; every window has the title, colour and size of its application; and every window can
  be grabbed, its title bar being below the panel, above the last 40 rows of the screen and
  with at least 80 columns of the window on the screen. No application has two windows.
\<close>

theorem wm_runs_safe: "wm_inv (fold wm_step es new_wm)"
  by (rule reachable_inv)

text \<open>
  A click goes to the topmost window. On any reachable desktop, a press at a point that
  some window covers picks the one highest in the stack among those that cover the point; it
  is closed when the press is on its close button, and otherwise it gets the focus and keeps
  its place, and the drag starts exactly when the press is in its title bar. A press that no
  window covers changes nothing unless it hits a dock tile, which gives that application the
  focus, opening it if needed.
\<close>

theorem wm_click:
  assumes "s = fold wm_step es new_wm" and "s' = pointer PointerDown x y s"
  shows "case topAt x y s of
      Some w \<Rightarrow>
        w \<in> set (wm_windows s) \<and> covers x y w \<and>
        (\<forall>v \<in> set (wm_windows s). covers x y v \<longrightarrow> vw_z v \<le> vw_z w) \<and>
        (if on_close_button x y w then byId (vw_id w) s' = None
         else focusedId s' = int (vw_id w) \<and> byId (vw_id w) s' = Some (w\<lparr>vw_z := Suc (wm_topZ s)\<rparr>) \<and>
           (y \<le> vw_y w + title_h \<longrightarrow>
              wm_drag s' = Some \<lparr>dg_id = vw_id w, dg_ox = x - vw_x w, dg_oy = y - vw_y w\<rparr>))
    | None \<Rightarrow>
        (\<forall>w \<in> set (wm_windows s). \<not> covers x y w) \<and>
        (case dock_hit x y of None \<Rightarrow> s' = s
         | Some r \<Rightarrow> focusedId s' = fst (wm_launch (dr_app r) s))"
proof -
  have inv: "wm_inv s" using reachable_inv assms(1) by simp
  show ?thesis
  proof (cases "topAt x y s")
    case None
    have "snd (wm_launch (dr_app r) s) = s' \<and> focusedId s' = fst (wm_launch (dr_app r) s)"
      if "dock_hit x y = Some r" for r
    proof -
      have "r \<in> set (dk_rects (dockLayout screen_w screen_h))"
        using that find_SomeD by (fastforce simp: dock_hit_def)
      then have "dr_app r \<in> set (map ad_id apps)" using dock_rect_inside by blast
      then obtain d where "find (\<lambda>a. ad_id a = dr_app r) apps = Some d"
        by (cases "find (\<lambda>a. ad_id a = dr_app r) apps") (auto simp: find_None_iff)
      with None that launched_focus [OF inv] show ?thesis
        by (simp add: assms(2) pointer_def pointer_down_def)
    qed
    with None show ?thesis
      by (auto simp: topAt_None [symmetric] assms(2) pointer_def pointer_down_def split: option.splits)
  next
    case (Some w)
    note top = topAt_Some [OF Some]
    let ?s1 = "wm_raise (vw_id w) s"
    have inv1: "wm_inv ?s1" by (rule wm_inv_raise [OF inv])
    have here: "byId (vw_id w) ?s1 = Some (w\<lparr>vw_z := Suc (wm_topZ s)\<rparr>)"
      using byId_here [OF wm_invD(1) [OF inv1] raised(1) [OF inv top(1)]] by simp
    have drag: "focusedId (t\<lparr>wm_drag := d\<rparr>) = focusedId t" "byId k (t\<lparr>wm_drag := d\<rparr>) = byId k t" for t d k
      by (simp_all add: focusedId_def byId_def)
    have "byId (vw_id w) (wm_close (vw_id w) ?s1) = None"
      by (simp add: byId_def wm_close_def find_None_iff)
    with Some top here raised(2) [OF inv top(1)] show ?thesis
      by (simp add: assms(2) pointer_def pointer_down_def Let_def drag)
  qed
qed

theorem wm_click_witness:
  "focusedId (pointer PointerDown 100 60 (fold wm_step [Launch ''system''] new_wm)) = 1 \<and>
   wm_drag (pointer PointerDown 100 60 (fold wm_step [Launch ''system''] new_wm))
     = Some \<lparr>dg_id = 1, dg_ox = 60, dg_oy = 14\<rparr>"
proof -
  let ?s = "fold wm_step [Launch ''system''] new_wm"
  let ?w = "\<lparr>vw_id = 1, vw_app = ''system'', vw_title = ''SYSTEM'', vw_accent = c_cyan,
    vw_x = 40, vw_y = 46, vw_w = 430, vw_h = 250, vw_z = 4\<rparr>"
  have top: "topAt 100 60 ?s = Some ?w" by code_simp
  have "\<not> on_close_button 100 60 ?w" "60 \<le> vw_y ?w + title_h" by code_simp+
  with wm_click [OF refl refl, where es = "[Launch ''system'']" and x = 100 and y = 60, unfolded top]
  show ?thesis by simp
qed

end
