(* ===== verification/VoidScene.thy ===== *)
theory VoidScene
  imports VoidPng VoidWm VoidTime
begin

text \<open>
  kernel/src/desktop/scene.ts: what the desktop shows of a snapshot of the kernel, and how it is
  drawn. The screen has even sides, so the halves in the code are whole numbers.
\<close>

section \<open>Snapshot\<close>

record snapshot =
  sn_version :: string
  sn_policy :: string
  sn_capCount :: nat
  sn_uptimeMs :: int
  sn_host :: string
  sn_memoryKeys :: nat
  sn_services :: "(string \<times> string) list"
  sn_processes :: "(string \<times> string \<times> string) list"
  sn_servers :: "(string \<times> int \<times> string \<times> nat) list"
  sn_cron :: "(string \<times> string \<times> string) list"
  sn_audit :: "(string \<times> string \<times> string) list"
  sn_files :: "(string \<times> string) list"

type_synonym line = "string \<times> rgb"

section \<open>Lines of a window\<close>

definition statusColor :: "string \<Rightarrow> rgb" where
  "statusColor s =
     (if s = ''running'' \<or> s = ''listening'' \<or> s = ''allowed'' then c_green
      else if s = ''restarting'' then c_amber
      else if s = ''failed'' \<or> s = ''denied'' then c_red
      else c_dim)"

text \<open>\<open>getUTCHours\<close> and \<open>getUTCMinutes\<close> of the instant, two digits each.\<close>

definition clock_text :: "int \<Rightarrow> string" where
  "clock_text now =
     pad_zeros 2 (nat (now div 3600000 mod 24)) @ '':'' @ pad_zeros 2 (nat (now div 60000 mod 60))"

definition uptime_text :: "int \<Rightarrow> string" where
  "uptime_text ms =
     (let s = ms div 1000
      in if s < 60 then int_str s @ ''S''
         else if s < 3600 then int_str (s div 60) @ ''M '' @ int_str (s mod 60) @ ''S''
         else int_str (s div 3600) @ ''H '' @ int_str (s mod 3600 div 60) @ ''M'')"

definition or_line :: "string \<Rightarrow> line list \<Rightarrow> line list" where
  "or_line s ls = (if ls = [] then [(s, c_dim)] else ls)"

definition appLines :: "string \<Rightarrow> snapshot \<Rightarrow> line list" where
  "appLines app s =
     (if app = ''files'' then
        or_line ''EMPTY''
          (map (\<lambda>(name, kind). ((if kind = ''dir'' then ''[D] '' else ''    '') @ name,
                                 if kind = ''dir'' then c_cyan else c_fg)) (sn_files s))
      else if app = ''system'' then
        [(''VOIDOS '' @ sn_version s, c_white), (''HOST '' @ sn_host s, c_dim),
         (''POLICY '' @ toUpperCase (sn_policy s), c_fg), (''CAPABILITIES '' @ nat_str (sn_capCount s), c_fg),
         (''UPTIME '' @ uptime_text (sn_uptimeMs s), c_fg), (''MEMORY KEYS '' @ nat_str (sn_memoryKeys s), c_fg)]
      else if app = ''services'' then
        or_line ''NO SERVICES''
          (map (\<lambda>(name, status). (name @ ''  '' @ toUpperCase status, statusColor status)) (sn_services s))
      else if app = ''procs'' then
        or_line ''NO PROCESSES''
          (map (\<lambda>(pid, status, cmd). (pid @ '' '' @ toUpperCase status @ ''  '' @ cmd, statusColor status))
             (sn_processes s))
      else if app = ''net'' then
        or_line ''NO SERVERS''
          (map (\<lambda>(name, port, status, requests).
                  (name @ '' :'' @ int_str port @ '' '' @ toUpperCase status @ '' R'' @ nat_str requests,
                   statusColor status)) (sn_servers s))
      else if app = ''cron'' then
        or_line ''NO JOBS''
          (map (\<lambda>(name, kind, schedule). (name @ '' '' @ toUpperCase kind @ '' '' @ toUpperCase schedule, c_fg))
             (sn_cron s))
      else if app = ''audit'' then
        or_line ''NO SYSCALLS YET''
          (map (\<lambda>(decision, rk, capability).
                  ((if decision = ''denied'' then ''NO'' else ''OK'') @ '' '' @ toUpperCase rk @ '' '' @ capability,
                   if decision = ''denied'' then c_red else c_dim))
             (rev (slice_from (- 12) (sn_audit s))))
      else [])"

section \<open>Windows\<close>

text \<open>\<open>t.length > maxChars ? t.slice(0, maxChars) : t\<close>; the lines until the window is full.\<close>

definition clip_line :: "int \<Rightarrow> string \<Rightarrow> string" where
  "clip_line maxChars t =
     (if int (length t) > maxChars
      then take (nat (if maxChars < 0 then int (length t) + maxChars else maxChars)) t else t)"

fun draw_lines :: "line list \<Rightarrow> int \<Rightarrow> int \<Rightarrow> int \<Rightarrow> int \<Rightarrow> framebuffer \<Rightarrow> framebuffer" where
  "draw_lines [] maxChars x ly bottom fb = fb"
| "draw_lines ((t, c) # ls) maxChars x ly bottom fb =
     (let fb' = draw_text (clip_line maxChars t) x ly 2 c opaque fb; ly' = ly + 15
      in if ly' > bottom then fb' else draw_lines ls maxChars x ly' bottom fb')"

definition drawWindow :: "vwindow \<Rightarrow> line list \<Rightarrow> bool \<Rightarrow> framebuffer \<Rightarrow> framebuffer" where
  "drawWindow win lines focused fb0 =
     (let x = vw_x win; y = vw_y win; w = vw_w win; h = vw_h win;
          fb1 = fillRect (x + 5) (y + 7) w h (0, 0, 0) (if focused then lit_frac 2 5 else lit_frac 1 4) fb0;
          fb2 = roundRect x y w h 9 c_winBody opaque fb1;
          fb3 = strokeRect x y w h (if focused then vw_accent win else c_line)
                  (if focused then opaque else lit_frac 4 5) fb2;
          fb4 = fillRect (x + 1) (y + 1) (w - 2) title_h c_winHead opaque fb3;
          fb5 = fillRect (x + 1) (y + title_h) (w - 2) 2 (vw_accent win) (if focused then opaque else lit_frac 1 2) fb4;
          fb6 = circle (dbl (x + 14)) (dbl (y + 11)) 4 c_red opaque fb5;
          fb7 = circle (dbl (x + 28)) (dbl (y + 11)) 4 c_amber opaque fb6;
          fb8 = circle (dbl (x + 42)) (dbl (y + 11)) 4 c_green opaque fb7;
          fb9 = draw_text (vw_title win) (x + 58) (y + 7) 2 (if focused then c_white else c_dim) opaque fb8
      in draw_lines lines ((w - 24) div 8) (x + 12) (y + title_h + 10) (y + h - 12) fb9)"

section \<open>The desktop\<close>

definition draw_wallpaper :: "framebuffer \<Rightarrow> framebuffer" where
  "draw_wallpaper fb =
     (let W = fb_w fb; H = fb_h fb
      in draw_text ''VOIDOS'' ((W - textWidth ''VOIDOS'' 16) div 2) (H div 2 - 40) 16 c_cyan (lit_frac 1 20)
           (vGradient 0 0 W H c_bgTop c_bgBot fb))"

definition panel_text :: "int \<Rightarrow> snapshot \<Rightarrow> string" where
  "panel_text now s =
     ''POLICY '' @ toUpperCase (sn_policy s) @ ''   CAPS '' @ nat_str (sn_capCount s) @ ''   UP '' @
     uptime_text (sn_uptimeMs s) @ ''   '' @ clock_text now"

definition draw_panel :: "int \<Rightarrow> string \<Rightarrow> framebuffer \<Rightarrow> framebuffer" where
  "draw_panel W right fb =
     draw_text right (W - textWidth right 2 - 14) 9 2 c_dim opaque
       (draw_text ''VOIDOS'' 14 8 3 c_cyan opaque
         (fillRect 0 (panel_h - 1) W 1 c_line opaque (fillRect 0 0 W panel_h c_panel opaque fb)))"

definition draw_windows :: "wm \<Rightarrow> snapshot \<Rightarrow> framebuffer \<Rightarrow> framebuffer" where
  "draw_windows wm s =
     fold (\<lambda>win. drawWindow win (appLines (vw_app win) s) (int (vw_id win) = focusedId wm)) (ordered wm)"

definition draw_tile :: "bool \<Rightarrow> dock_rect \<Rightarrow> framebuffer \<Rightarrow> framebuffer" where
  "draw_tile running r fb0 =
     (let fb1 = roundRect (dr_x r) (dr_y r) (dr_w r) (dr_h r) 10 c_winHead opaque fb0;
          fb2 = strokeRect (dr_x r) (dr_y r) (dr_w r) (dr_h r) (dr_accent r) (if running then opaque else lit_frac 2 5) fb1;
          fb3 = draw_text (dr_label r) (dr_x r + (dr_w r - textWidth (dr_label r) 2) div 2)
                  (dr_y r + dr_h r div 2 - 5) 2 (dr_accent r) opaque fb2
      in if running
         then circle (dbl (dr_x r + dr_w r div 2)) (dbl (dr_y r + dr_h r - 4)) 2 (dr_accent r) opaque fb3
         else fb3)"

definition draw_dock :: "dock \<Rightarrow> string list \<Rightarrow> framebuffer \<Rightarrow> framebuffer" where
  "draw_dock dock openApps fb =
     fold (\<lambda>r. draw_tile (dr_app r \<in> set openApps) r) (dk_rects dock)
       (strokeRect (dk_x dock) (dk_y dock) (dk_w dock) (dk_h dock) c_line opaque
         (roundRect (dk_x dock) (dk_y dock) (dk_w dock) (dk_h dock) 14 c_panel (lit_frac 9 10) fb))"

definition composeDesktop :: "int \<Rightarrow> wm \<Rightarrow> snapshot \<Rightarrow> framebuffer \<Rightarrow> framebuffer" where
  "composeDesktop now wm s fb =
     (let W = fb_w fb; H = fb_h fb
      in draw_dock (dockLayout W H) (map vw_app (wm_windows wm))
           (draw_windows wm s (draw_panel W (panel_text now s) (draw_wallpaper fb))))"

definition desktop_frame :: "int \<Rightarrow> wm \<Rightarrow> snapshot \<Rightarrow> framebuffer" where
  "desktop_frame now wm s = composeDesktop now wm s (new_framebuffer screen_w screen_h)"

section \<open>Where a window draws\<close>

definition no_sharp_s :: "string \<Rightarrow> bool" where
  "no_sharp_s t \<longleftrightarrow> CHR 0xDF \<notin> set t"

lemma clip_width:
  assumes "no_sharp_s t" "0 \<le> maxChars"
  shows "textWidth (toUpperCase (clip_line maxChars t)) 2 \<le> 8 * maxChars"
proof -
  have "CHR 0xDF \<notin> set (clip_line maxChars t)"
    using assms(1) by (auto simp: clip_line_def no_sharp_s_def dest: in_set_takeD)
  then have "length (toUpperCase (clip_line maxChars t)) = length (clip_line maxChars t)" by (rule upper_length)
  moreover have "int (length (clip_line maxChars t)) \<le> maxChars" using assms(2) by (simp add: clip_line_def)
  ultimately show ?thesis by (simp add: textWidth_def)
qed

lemma paints_lines:
  assumes "list_all (\<lambda>(t, c). no_sharp_s t) ls" "0 \<le> maxChars" "ly \<le> bottom \<or> ls = []"
    and "box x y (8 * maxChars) (bottom + 10 - y) \<subseteq> R" "y \<le> ly"
  shows "paints R (draw_lines ls maxChars x ly bottom)"
  using assms(1,3,5)
proof (induction ls arbitrary: ly)
  case (Cons l ls)
  obtain t c where l: "l = (t, c)" by (cases l)
  have "box x ly (textWidth (toUpperCase (clip_line maxChars t)) 2) 10 \<subseteq> R"
    using clip_width [of t maxChars] Cons.prems assms(2)
    by (intro order.trans [OF box_sub assms(4)]) (simp_all add: l)
  then have one: "paints R (draw_text (clip_line maxChars t) x ly 2 c opaque)" by (intro paints_text) simp_all
  show ?case
  proof (cases "ly + 15 > bottom")
    case True
    then have "draw_lines (l # ls) maxChars x ly bottom = draw_text (clip_line maxChars t) x ly 2 c opaque"
      by (simp add: fun_eq_iff l Let_def)
    with one show ?thesis by simp
  next
    case False
    then have "paints R (draw_lines ls maxChars x (ly + 15) bottom)" using Cons.prems by (intro Cons.IH) simp_all
    from paints_after [OF one this] False show ?thesis by (simp add: l Let_def)
  qed
qed (simp add: paints_def)

lemma app_shapes:
  assumes "from_app w"
  shows "430 \<le> vw_w w" "210 \<le> vw_h w" "textWidth (toUpperCase (vw_title w)) 2 \<le> 72"
proof -
  obtain d where "d \<in> set apps" "vw_title w = ad_title d" "vw_w w = ad_w d" "vw_h w = ad_h d"
    using assms by (auto simp: from_app_def split: option.splits dest: find_SomeD)
  moreover have "list_all (\<lambda>d. 430 \<le> ad_w d \<and> 210 \<le> ad_h d \<and> textWidth (toUpperCase (ad_title d)) 2 \<le> 72) apps"
    by code_simp
  ultimately show "430 \<le> vw_w w" "210 \<le> vw_h w" "textWidth (toUpperCase (vw_title w)) 2 \<le> 72"
    by (auto simp: list_all_iff)
qed

text \<open>The window and its shadow.\<close>

definition window_area :: "vwindow \<Rightarrow> (int \<times> int) set" where
  "window_area w = box (vw_x w) (vw_y w) (vw_w w + 5) (vw_h w + 7)"

lemma paints_window:
  assumes "from_app w" "\<bar>vw_x w\<bar> < 2 ^ 31" "\<bar>vw_y w\<bar> < 2 ^ 31" "list_all (\<lambda>(t, c). no_sharp_s t) ls"
  shows "paints (window_area w) (drawWindow w ls focused)"
proof -
  let ?x = "vw_x w" and ?y = "vw_y w" and ?w = "vw_w w" and ?h = "vw_h w"
  note size = app_shapes [OF assms(1)]
  have sub: "box u v a b \<subseteq> window_area w"
    if "?x \<le> u" "u + a \<le> ?x + ?w + 5" "?y \<le> v" "v + b \<le> ?y + ?h + 7" for u v a b
    unfolding window_area_def using that by (intro box_sub) simp_all
  have fill: "paints (window_area w) (fillRect u v a b c al)"
    if "?x \<le> u" "u + a \<le> ?x + ?w + 5" "?y \<le> v" "v + b \<le> ?y + ?h + 7" for u v a b c al
    by (rule paints_fillRect [OF sub [OF that]])
  have disc: "paints (window_area w) (circle (dbl (?x + k)) (dbl (?y + 11)) 4 c opaque)"
    if "14 \<le> k" "k \<le> 42" for k c
    using that size assms(2,3) by (intro paints_circle sub) simp_all
  have title: "paints (window_area w) (draw_text (vw_title w) (?x + 58) (?y + 7) 2 c opaque)" for c
    using size by (intro paints_text sub) simp_all
  have body: "paints (window_area w) (roundRect ?x ?y ?w ?h 9 c opaque)"
    "paints (window_area w) (strokeRect ?x ?y ?w ?h c al)" for c al
    using size by (intro paints_roundRect paints_strokeRect sub; simp)+
  have "8 * ((?w - 24) div 8) \<le> ?w - 24" by simp
  then have "paints (window_area w) (draw_lines ls ((?w - 24) div 8) (?x + 12) (?y + title_h + 10) (?y + ?h - 12))"
    using size assms(4) by (intro paints_lines [where y = "?y + title_h + 10"] sub) (simp_all add: title_h_def)
  note last = paints_after [OF _ this]
  have "paints (window_area w) (fillRect (?x + 5) (?y + 7) ?w ?h c al)"
    "paints (window_area w) (fillRect (?x + 1) (?y + 1) (?w - 2) title_h c al)"
    "paints (window_area w) (fillRect (?x + 1) (?y + title_h) (?w - 2) 2 c al)" for c al
    using size by (intro fill; simp add: title_h_def)+
  note parts = this body disc [of 14] disc [of 28] disc [of 42] title
  show ?thesis
    unfolding drawWindow_def Let_def
    by (rule last [OF paints_after [OF paints_after [OF paints_after [OF paints_after [OF paints_after
          [OF paints_after [OF paints_after [OF paints_after [OF parts(1) parts(4)] parts(5)] parts(2)] parts(3)]
          parts(6)] parts(7)] parts(8)] parts(9)]]) simp_all
qed

section \<open>The whole frame\<close>

lemma paints_lines_anywhere: "paints UNIV (draw_lines ls maxChars x ly bottom)"
proof (induction ls arbitrary: ly)
  case (Cons l ls)
  obtain t c where l: "l = (t, c)" by (cases l)
  have one: "paints UNIV (draw_text (clip_line maxChars t) x ly 2 c opaque)" by (intro paints_anywhere) simp
  from paints_after [OF one Cons.IH] one show ?case
    by (cases "ly + 15 > bottom") (simp_all add: l Let_def)
qed (simp add: paints_def)

lemma paints_window_anywhere: "paints UNIV (drawWindow w ls focused)"
proof -
  have disc: "paints UNIV (circle cx cy r c a)" for cx cy r c a by (rule paints_anywhere)
  have title: "paints UNIV (draw_text str x y 2 c a)" for str x y c a by (intro paints_anywhere) simp
  note fill = paints_anywhere(1) and body = paints_anywhere(2) paints_stroke_anywhere
  show ?thesis
    unfolding drawWindow_def Let_def
    by (rule paints_after [OF paints_after [OF paints_after [OF paints_after [OF paints_after [OF paints_after
          [OF paints_after [OF paints_after [OF paints_after [OF fill body(1)] body(2)] fill] fill]
          disc] disc] disc] title] paints_lines_anywhere])
qed

lemma paints_tile_anywhere: "paints UNIV (draw_tile running r)"
proof -
  have label: "paints UNIV (draw_text str x y 2 c a)" for str x y c a by (intro paints_anywhere) simp
  note tile = paints_after [OF paints_after [OF paints_anywhere(2) paints_stroke_anywhere] label]
  from tile paints_after [OF tile paints_anywhere(4)] show ?thesis
    by (cases running) (simp_all add: draw_tile_def [abs_def] Let_def)
qed

lemma paints_above_wallpaper:
  "paints UNIV (\<lambda>fb. draw_dock dock apps' (draw_windows wm s (draw_panel W right fb)))"
proof -
  have glyphs: "paints UNIV (draw_text str x y 2 c a)" "paints UNIV (draw_text str x y 3 c a)" for str x y c a
    by (intro paints_anywhere; simp)+
  have panel: "paints UNIV (draw_panel W right)"
    unfolding draw_panel_def
    by (rule paints_after [OF paints_after [OF paints_after [OF paints_anywhere(1) paints_anywhere(1)] glyphs(2)] glyphs(1)])
  have windows: "paints UNIV (draw_windows wm s)"
    unfolding draw_windows_def by (intro paints_fold paints_window_anywhere)
  have tiles: "paints UNIV (fold (\<lambda>r. draw_tile (running r) r) rs)" for running rs
    by (intro paints_fold paints_tile_anywhere)
  have "paints UNIV (draw_dock dock apps')"
    unfolding draw_dock_def
    by (rule paints_after [OF paints_after [OF paints_anywhere(2) paints_stroke_anywhere] tiles])
  then show ?thesis by (rule paints_after [OF paints_after [OF panel windows]])
qed

lemma wallpaper_covers:
  assumes "fb_wf fb"
  shows "fb_wf (draw_wallpaper fb)" "fb_w (draw_wallpaper fb) = fb_w fb" "fb_h (draw_wallpaper fb) = fb_h fb"
    "on_screen fb x y \<Longrightarrow> is_opaque (draw_wallpaper fb) x y"
proof -
  let ?g = "vGradient 0 0 (fb_w fb) (fb_h fb) c_bgTop c_bgBot fb"
  have "paints UNIV (vGradient 0 0 (fb_w fb) (fb_h fb) c_bgTop c_bgBot)" by (rule paints_anywhere)
  note g = paintsD [OF this assms]
  have glyphs: "paints UNIV (draw_text str u v 16 c a)" for str u v c a by (intro paints_anywhere) simp
  note d = paintsD [OF glyphs g(1)]
  have wall: "draw_wallpaper fb = draw_text ''VOIDOS'' ((fb_w fb - textWidth ''VOIDOS'' 16) div 2) (fb_h fb div 2 - 40) 16
      c_cyan (lit_frac 1 20) ?g" by (simp add: draw_wallpaper_def Let_def)
  show "fb_wf (draw_wallpaper fb)" "fb_w (draw_wallpaper fb) = fb_w fb" "fb_h (draw_wallpaper fb) = fb_h fb"
    unfolding wall using d(1-3) g(2,3) by simp_all
  show "is_opaque (draw_wallpaper fb) x y" if "on_screen fb x y"
  proof -
    have "is_opaque ?g x y"
      by (rule rgba_opaque, rule vGradient_inside [OF assms that]) (use that in \<open>simp add: on_screen_def\<close>)
    then show ?thesis unfolding wall using d(5) g(6) that by simp
  qed
qed

section \<open>What is drawn is what is clicked\<close>

lemma descending_is_reversed:
  assumes "distinct (map vw_z ws)"
  shows "sort_key (\<lambda>w. - int (vw_z w)) ws = rev (sort_key vw_z ws)"
proof (rule map_sorted_distinct_set_unique [where f = "\<lambda>w. - int (vw_z w)"])
  have inj: "inj_on vw_z (set ws)" using assms by (simp add: distinct_map)
  have ws: "distinct ws" using assms by (simp add: distinct_map)
  show "inj_on (\<lambda>w. - int (vw_z w)) (set (sort_key (\<lambda>w. - int (vw_z w)) ws) \<union> set (rev (sort_key vw_z ws)))"
    using inj by (simp add: inj_on_def)
  show "sorted (map (\<lambda>w. - int (vw_z w)) (sort_key (\<lambda>w. - int (vw_z w)) ws))" by simp
  have "sorted (map vw_z (sort_key vw_z ws))" by simp
  then have "sorted_wrt (\<lambda>v w. vw_z v \<le> vw_z w) (sort_key vw_z ws)" by (simp only: sorted_map)
  then show "sorted (map (\<lambda>w. - int (vw_z w)) (rev (sort_key vw_z ws)))"
    by (simp add: sorted_map sorted_wrt_rev)
  show "distinct (map (\<lambda>w. - int (vw_z w)) (sort_key (\<lambda>w. - int (vw_z w)) ws))"
    "distinct (map (\<lambda>w. - int (vw_z w)) (rev (sort_key vw_z ws)))"
    using inj ws by (auto simp: distinct_map inj_on_def)
qed simp

section \<open>Properties\<close>

text \<open>
  A frame is complete: it has the size of the screen, four bytes a pixel, and every pixel is
  opaque, whatever the windows, their places and the state they show.
\<close>

theorem frame_is_complete:
  "length (fb_px (desktop_frame now wm s)) = 1100 * 720 * 4 \<and>
   list_all (\<lambda>y. list_all (\<lambda>x. is_opaque (desktop_frame now wm s) x y) [0..1099]) [0..719]"
proof -
  let ?fb = "new_framebuffer screen_w screen_h" and ?f = "desktop_frame now wm s"
  have fb: "fb_wf ?fb" by (simp add: new_framebuffer_wf screen_w_def screen_h_def)
  note wall = wallpaper_covers [OF fb]
  have f: "?f = draw_dock (dockLayout screen_w screen_h) (map vw_app (wm_windows wm))
      (draw_windows wm s (draw_panel screen_w (panel_text now s) (draw_wallpaper ?fb)))"
    by (simp add: desktop_frame_def composeDesktop_def Let_def) (simp add: new_framebuffer_def)
  note top = paintsD [OF paints_above_wallpaper [of "dockLayout screen_w screen_h" "map vw_app (wm_windows wm)" wm s screen_w
      "panel_text now s"] wall(1), folded f]
  have size: "fb_w ?f = 1100" "fb_h ?f = 720"
    using top(2,3) wall(2,3) by (simp_all add: new_framebuffer_def screen_w_def screen_h_def)
  have "is_opaque ?f x y" if "0 \<le> x" "x < 1100" "0 \<le> y" "y < 720" for x y
  proof -
    have "on_screen ?fb x y" using that by (simp add: on_screen_def new_framebuffer_def screen_w_def screen_h_def)
    then have "on_screen (draw_wallpaper ?fb) x y" "is_opaque (draw_wallpaper ?fb) x y"
      using wall by (simp_all add: on_screen_def)
    then show ?thesis by (rule top(5))
  qed
  moreover have "length (fb_px ?f) = 1100 * 720 * 4" using top(1) size by (simp add: fb_wf_def)
  ultimately show ?thesis by (auto simp: list_all_iff)
qed

text \<open>
  C29. A window draws nothing outside its rectangle and its shadow: title, controls and every line
  of text are clipped to it, however long the texts are, as long as they hold no sharp s (which
  is wider in capitals).
\<close>

theorem window_stays_inside:
  assumes "fb_wf fb" "on_screen fb x y" "from_app win" "\<bar>vw_x win\<bar> < 2 ^ 31" "\<bar>vw_y win\<bar> < 2 ^ 31"
    and "list_all (\<lambda>(t, c). no_sharp_s t) lines" "(x, y) \<notin> window_area win"
  shows "pixel (drawWindow win lines focused fb) x y = pixel fb x y"
  using paintsD(4) [OF paints_window [OF assms(3-6)] assms(1,2,7)] .

theorem window_stays_inside_witness:
  "pixel (drawWindow (hd (wm_windows new_wm)) (appLines ''system'' \<lparr>sn_version = ''0.0.1'', sn_policy = ''guarded'',
      sn_capCount = 44, sn_uptimeMs = 61000, sn_host = ''linux 6.1'', sn_memoryKeys = 0, sn_services = [],
      sn_processes = [], sn_servers = [], sn_cron = [], sn_audit = [], sn_files = []\<rparr>) True
      (new_framebuffer 1100 720)) 10 10 = pixel (new_framebuffer 1100 720) 10 10"
proof -
  let ?win = "hd (wm_windows new_wm)"
  have "from_app ?win" by code_simp
  moreover have "vw_x ?win = 40 \<and> vw_y ?win = 46" by code_simp
  moreover have "(10, 10) \<notin> window_area ?win" using calculation(2) by (simp add: window_area_def)
  moreover have "fb_wf (new_framebuffer 1100 720)" "on_screen (new_framebuffer 1100 720) 10 10"
    by (simp_all add: new_framebuffer_wf) (simp add: on_screen_def new_framebuffer_def)
  moreover have "list_all (\<lambda>(t, c). no_sharp_s t) (appLines ''system'' \<lparr>sn_version = ''0.0.1'', sn_policy = ''guarded'',
      sn_capCount = 44, sn_uptimeMs = 61000, sn_host = ''linux 6.1'', sn_memoryKeys = 0, sn_services = [],
      sn_processes = [], sn_servers = [], sn_cron = [], sn_audit = [], sn_files = []\<rparr>)"
    by code_simp
  ultimately show ?thesis by (intro window_stays_inside) simp_all
qed


end
