(* ===== verification/VoidKernel.thy ===== *)
theory VoidKernel
  imports VoidTransport VoidMemory VoidNet VoidShell VoidProc VoidServices VoidScheduler VoidScene
begin

text \<open>
  The state of the kernel as index.ts builds it (one component of each kind and the host's file
  tree), what the host answers during one call, and the JSON forms of the kernel's records as
  the replies show them.
\<close>

section \<open>State\<close>

record kernel = gate +
  k_root :: string
  k_procs :: procman
  k_services :: supervisor
  k_scheduler :: scheduler
  k_net :: net
  k_desktop :: wm
  k_fs :: node

text \<open>
  The host during one call, beyond \<open>env\<close>. \<open>ke_fetch\<close> is the answer of \<open>fetch\<close> to url, method, headers
  and body; \<open>ke_tree\<close> what a shell command leaves of the file tree; \<open>ke_listen\<close> the error of
  \<open>listen\<close>, if any; \<open>ke_deflate\<close> the compression of zlib.
\<close>

record fetch_reply =
  fr_status :: int
  fr_ok :: bool
  fr_headers :: "(string \<times> string) list"
  fr_body :: string

record kenv = env +
  ke_spawn :: spawn_result
  ke_signals :: "string \<Rightarrow> bool"
  ke_exec :: exec_run
  ke_tree :: node
  ke_fetch :: "string \<Rightarrow> string \<Rightarrow> json option \<Rightarrow> json option \<Rightarrow> fetch_reply result"
  ke_listen :: "string option"
  ke_bad_port :: "int \<Rightarrow> string"
  ke_booted :: int
  ke_host :: "string \<times> string \<times> string \<times> int"   \<comment> \<open>name, platform, release, pid\<close>
  ke_uptime :: int                   \<comment> \<open>of the process, in milliseconds\<close>
  ke_deflate :: "byte list \<Rightarrow> byte list"

type_synonym kernel_handler = "unit kernel_ext handler"

section \<open>Records as JSON\<close>

text \<open>An undefined property is left out, a null one shown.\<close>

definition opt_field :: "string \<Rightarrow> ('a \<Rightarrow> json) \<Rightarrow> 'a option \<Rightarrow> jobject" where
  "opt_field k f v = (case v of None \<Rightarrow> [] | Some x \<Rightarrow> [(k, f x)])"

definition or_null :: "('a \<Rightarrow> json) \<Rightarrow> 'a option \<Rightarrow> json" where
  "or_null f v = (case v of None \<Rightarrow> JNull | Some x \<Rightarrow> f x)"

definition date_json :: "int \<Rightarrow> json" where
  "date_json ms = JStr (iso_string ms)"

definition proc_json :: "proc_record \<Rightarrow> json" where
  "proc_json r = JObj
     ([(''id'', JStr (pr_id r)), (''cmd'', JStr (pr_cmd r)), (''pid'', JNum (pr_pid r)),
       (''status'', JStr (proc_status_str (pr_status r))), (''startedAt'', date_json (pr_startedAt r))] @
      opt_field ''endedAt'' date_json (pr_endedAt r) @
      [(''exitCode'', or_null JNum (pr_exitCode r)), (''signal'', or_null JStr (pr_signal r))])"

fun restart_str :: "restart_policy \<Rightarrow> string" where
  "restart_str Always = ''always''"
| "restart_str OnFailure = ''on-failure''"
| "restart_str NoRestart = ''no''"

fun service_status_str :: "service_status \<Rightarrow> string" where
  "service_status_str Running = ''running''"
| "service_status_str Restarting = ''restarting''"
| "service_status_str Stopped = ''stopped''"
| "service_status_str Failed = ''failed''"

definition service_json :: "service_record \<Rightarrow> json" where
  "service_json r = JObj
     ([(''name'', JStr (sr_name r)), (''cmd'', JStr (sr_cmd r)), (''restart'', JStr (restart_str (sr_restart r))),
       (''maxRestarts'', JNum (sr_maxRestarts r)),
       (''desired'', JStr (case sr_desired r of WantRunning \<Rightarrow> ''running'' | WantStopped \<Rightarrow> ''stopped'')),
       (''status'', JStr (service_status_str (sr_status r))), (''pid'', JNum (sr_pid r)),
       (''restarts'', JNum (sr_restarts r))] @
      opt_field ''startedAt'' date_json (sr_startedAt r) @
      opt_field ''lastExit''
        (\<lambda>(code, sig, ms). JObj [(''code'', or_null JNum code), (''signal'', or_null JStr sig), (''at'', date_json ms)])
        (sr_lastExit r))"

fun job_kind_str :: "job_kind \<Rightarrow> string" where
  "job_kind_str Shell = ''shell''"
| "job_kind_str Wake = ''wake''"

fun server_status_str :: "server_status \<Rightarrow> string" where
  "server_status_str Listening = ''listening''"
| "server_status_str StoppedServer = ''stopped''"

fun job_result_json :: "job_result \<Rightarrow> json" where
  "job_result_json (Queued w) = JObj [(''queued'', JStr w)]"
| "job_result_json (SpawnFailed msg) = JObj [(''error'', JStr msg)]"
| "job_result_json (Finished code out) = JObj [(''exitCode'', or_null JNum code), (''output'', JStr out)]"

definition job_json :: "job_record \<Rightarrow> json" where
  "job_json r = JObj
     ([(''name'', JStr (jr_name r)),
       (''kind'', JStr (job_kind_str (jr_kind r))),
       (''schedule'', JStr (jr_schedule r)), (''enabled'', JBool (jr_enabled r)), (''runs'', JNum (jr_runs r)),
       (''maxRuns'', or_null JNum (jr_maxRuns r)), (''createdAt'', date_json (jr_createdAt r)),
       (''nextRunAt'', or_null date_json (jr_nextRunAt r))] @
      opt_field ''lastRunAt'' date_json (jr_lastRunAt r) @
      opt_field ''lastResult'' job_result_json (jr_lastResult r) @
      opt_field ''cmd'' JStr (jr_cmd r) @ opt_field ''prompt'' JStr (jr_prompt r))"

definition wakeup_json :: "wakeup \<Rightarrow> json" where
  "wakeup_json w = JObj
     [(''id'', JStr (wk_id w)), (''job'', JStr (wk_job w)), (''prompt'', JStr (wk_prompt w)),
      (''firedAt'', date_json (wk_firedAt w))]"

definition server_json :: "server_record \<Rightarrow> json" where
  "server_json r = JObj
     [(''name'', JStr (ns_name r)), (''port'', JNum (ns_port r)), (''host'', JStr (ns_host r)),
      (''serveRoot'', JStr (ns_serveRoot r)),
      (''status'', JStr (server_status_str (ns_status r))),
      (''requests'', JNum (int (ns_requests r))), (''startedAt'', date_json (ns_startedAt r))]"

definition req_log_json :: "req_log \<Rightarrow> json" where
  "req_log_json r = JObj
     [(''ts'', date_json (rq_ts r)), (''method'', JStr (rq_method r)), (''path'', JStr (rq_path r)),
      (''status'', JNum (int (rq_status r)))]"

definition audit_json :: "audit_entry \<Rightarrow> json" where
  "audit_json a = JObj
     ([(''ts'', date_json (ae_ts a)), (''capability'', JStr (ae_capability a)),
       (''risk'', JStr (case ae_risk a of None \<Rightarrow> ''unknown'' | Some r \<Rightarrow> risk_str r)),
       (''decision'', JStr (case ae_decision a of Allowed \<Rightarrow> ''allowed'' | Denied \<Rightarrow> ''denied'')),
       (''reason'', JStr (ae_reason a))] @
      opt_field ''ok'' JBool (ae_ok a) @ opt_field ''error'' JStr (ae_error a) @
      opt_field ''ms'' JNum (ae_ms a) @ opt_field ''args'' JStr (ae_args a))"

fun schema_json :: "schema \<Rightarrow> json" where
  "schema_json (Schema t d ps items req en dflt) = JObj
     (opt_field ''type'' JStr t @
      (case ps of None \<Rightarrow> [] | Some qs \<Rightarrow> [(''properties'', JObj (map (\<lambda>(k, s). (k, schema_json s)) qs))]) @
      (case items of None \<Rightarrow> [] | Some s \<Rightarrow> [(''items'', schema_json s)]) @
      opt_field ''required'' (\<lambda>ks. JArr (map JStr ks)) req @
      opt_field ''enum'' (\<lambda>vs. JArr (map JStr vs)) en @
      opt_field ''description'' JStr d @ opt_field ''default'' id dflt)"

section \<open>Parameters\<close>

text \<open>The integer a number literal stands for, when the schema asked for one.\<close>

definition num_int :: "json \<Rightarrow> int" where
  "num_int v =
     (case v of
        JNum i \<Rightarrow> i
      | JDec neg s n \<Rightarrow> (let m = int s * 10 ^ nat (n - int (length (nat_str s))) in if neg then - m else m)
      | _ \<Rightarrow> 0)"

definition arg_num :: "string \<Rightarrow> jobject \<Rightarrow> int option" where
  "arg_num k args =
     (case map_of args k of Some v \<Rightarrow> if jsonType v = ''number'' then Some (num_int v) else None | None \<Rightarrow> None)"

text \<open>\<open>args.k ? String(args.k) : undefined\<close>.\<close>

definition arg_opt :: "string \<Rightarrow> jobject \<Rightarrow> string option" where
  "arg_opt k args = (case map_of args k of Some (JStr s) \<Rightarrow> if s = [] then None else Some s | _ \<Rightarrow> None)"

definition obj1 :: "string \<Rightarrow> json \<Rightarrow> json" where
  "obj1 k v = JObj [(k, v)]"

section \<open>Handlers of one component\<close>

text \<open>A method of a component, run on its part of the kernel.\<close>

definition on_procs :: "(jobject \<Rightarrow> procman \<Rightarrow> json result \<times> procman) \<Rightarrow> kernel_handler" where
  "on_procs f args k = (case f args (k_procs k) of (r, x) \<Rightarrow> (r, k\<lparr>k_procs := x\<rparr>))"

definition on_services :: "(jobject \<Rightarrow> supervisor \<Rightarrow> json result \<times> supervisor) \<Rightarrow> kernel_handler" where
  "on_services f args k = (case f args (k_services k) of (r, x) \<Rightarrow> (r, k\<lparr>k_services := x\<rparr>))"

definition on_scheduler :: "(jobject \<Rightarrow> scheduler \<Rightarrow> json result \<times> scheduler) \<Rightarrow> kernel_handler" where
  "on_scheduler f args k = (case f args (k_scheduler k) of (r, x) \<Rightarrow> (r, k\<lparr>k_scheduler := x\<rparr>))"

definition on_net :: "(jobject \<Rightarrow> net \<Rightarrow> json result \<times> net) \<Rightarrow> kernel_handler" where
  "on_net f args k = (case f args (k_net k) of (r, x) \<Rightarrow> (r, k\<lparr>k_net := x\<rparr>))"

definition on_desktop :: "(jobject \<Rightarrow> wm \<Rightarrow> json result \<times> wm) \<Rightarrow> kernel_handler" where
  "on_desktop f args k = (case f args (k_desktop k) of (r, x) \<Rightarrow> (r, k\<lparr>k_desktop := x\<rparr>))"

definition on_fs :: "(string \<Rightarrow> jobject \<Rightarrow> node \<Rightarrow> json result \<times> node) \<Rightarrow> kernel_handler" where
  "on_fs f args k = (case f (k_root k) args (k_fs k) of (r, x) \<Rightarrow> (r, k\<lparr>k_fs := x\<rparr>))"

text \<open>A method that only reads; a result shown as JSON.\<close>

definition reads :: "(kernel \<Rightarrow> json result) \<Rightarrow> kernel_handler" where
  "reads f args k = (f k, k)"

definition show_result :: "('a \<Rightarrow> json) \<Rightarrow> 'a result \<Rightarrow> json result" where
  "show_result f r = (case r of Inl e \<Rightarrow> throw e | Inr v \<Rightarrow> return (f v))"

text \<open>Such a handler leaves the gate as it is.\<close>

definition keeps_gate :: "kernel_handler \<Rightarrow> bool" where
  "keeps_gate h \<longleftrightarrow> (\<forall>args k. gate.truncate (snd (h args k)) = gate.truncate k)"

lemma keeps_gate_on [simp]:
  "keeps_gate (on_procs f1)" "keeps_gate (on_services f2)" "keeps_gate (on_scheduler f3)"
  "keeps_gate (on_net f4)" "keeps_gate (on_desktop f5)" "keeps_gate (on_fs f6)" "keeps_gate (reads f7)"
  by (auto simp: keeps_gate_def gate.truncate_def on_procs_def on_services_def on_scheduler_def on_net_def
      on_desktop_def on_fs_def reads_def split: prod.split)

end
