(* ===== verification/VoidCaps.thy ===== *)
theory VoidCaps
  imports VoidKernel
begin

text \<open>
  The capability tables of kernel/src/capabilities: name, summary, risk, parameter schema and
  handler of every system call, as the files list them, and the registry index.ts builds of
  them. A summary's typographic dash is a hyphen here.
\<close>

section \<open>fs.ts, memory.ts\<close>

definition cap :: "string \<Rightarrow> string \<Rightarrow> risk \<Rightarrow> schema \<Rightarrow> 'h \<Rightarrow> 'h capability" where
  "cap name summary risk params handler =
     \<lparr>cap_name = name, cap_summary = summary, cap_risk = risk, cap_params = params, cap_handler = handler\<rparr>"

definition str_param :: schema where "str_param = typed ''string''"
definition name_params :: schema where
  "name_params = params_of [(''name'', str_param)] (Some [''name''])"
definition no_params :: schema where "no_params = params_of [] None"

definition fsCaps :: "kenv \<Rightarrow> kernel_handler capability list" where
  "fsCaps env =
     [cap ''fs.read'' ''Read a UTF-8 text file from the voidOS rootfs.'' Read
        (params_of [(''path'', described ''string'' ''Absolute-from-root path, e.g. /notes.txt'')] (Some [''path'']))
        (on_fs (fs_read env)),
      cap ''fs.write'' ''Write a UTF-8 text file, creating parent directories as needed.'' Write
        (params_of [(''path'', str_param), (''content'', str_param)] (Some [''path'', ''content'']))
        (on_fs (fs_write env)),
      cap ''fs.list'' ''List entries of a directory in the rootfs.'' Read
        (params_of [(''path'', Schema (Some ''string'') None None None None None (Some (JStr ''/'')))] None)
        (on_fs (fs_list env)),
      cap ''fs.stat'' ''Get metadata for a path (size, kind, mtime).'' Read
        (params_of [(''path'', str_param)] (Some [''path'']))
        (on_fs (fs_stat env)),
      cap ''fs.remove'' ''Remove a file or directory (recursive) from the rootfs.'' Write
        (params_of [(''path'', str_param)] (Some [''path'']))
        (on_fs (fs_remove env))]"

definition memoryCaps :: "kenv \<Rightarrow> kernel_handler capability list" where
  "memoryCaps env =
     [cap ''memory.set'' ''Persist a value under a key in long-term memory.'' Write
        (params_of [(''key'', str_param), (''value'', any_schema)] (Some [''key'', ''value'']))
        (on_fs (memory_set env)),
      cap ''memory.get'' ''Read a value from long-term memory.'' Read
        (params_of [(''key'', str_param)] (Some [''key'']))
        (on_fs (memory_get env)),
      cap ''memory.list'' ''List all keys currently in long-term memory.'' Read no_params
        (on_fs (memory_list env)),
      cap ''memory.delete'' ''Delete a key from long-term memory.'' Write
        (params_of [(''key'', str_param)] (Some [''key'']))
        (on_fs (memory_delete env))]"

section \<open>shell.ts, web.ts\<close>

text \<open>A command that ran leaves the file tree the host reports.\<close>

definition shell_handler :: "kenv \<Rightarrow> kernel_handler" where
  "shell_handler env args k =
     (case shell_exec (ke_exec env) args of
        (r, began) \<Rightarrow> (r, if began then k\<lparr>k_fs := ke_tree env\<rparr> else k))"

definition shellCaps :: "kenv \<Rightarrow> kernel_handler capability list" where
  "shellCaps env =
     [cap ''shell.exec'' ''Run a shell command inside the rootfs and capture its output.'' Exec
        (params_of
           [(''cmd'', described ''string'' ''Command line to execute via /bin/sh -c''),
            (''timeout_ms'', described ''integer'' ''Kill after N ms (default 15000)'')]
           (Some [''cmd'']))
        (shell_handler env)]"

definition max_body :: nat where
  "max_body = 256 * 1024"

definition web_fetch :: "kenv \<Rightarrow> jobject \<Rightarrow> json result" where
  "web_fetch env args =
     (let meth = (if map_of args ''method'' = None then ''GET'' else arg_str ''method'' args) in
      case ke_fetch env (arg_str ''url'' args) meth (map_of args ''headers'') (map_of args ''body'') of
        Inl e \<Rightarrow> throw e
      | Inr res \<Rightarrow>
          (let truncated = length (fr_body res) > max_body
           in return (JObj
                [(''status'', JNum (fr_status res)), (''ok'', JBool (fr_ok res)),
                 (''headers'', JObj (from_entries (map (\<lambda>(k, v). (k, JStr v)) (fr_headers res)))),
                 (''body'', JStr (if truncated then take max_body (fr_body res) else fr_body res)),
                 (''truncated'', JBool truncated)])))"

definition webCaps :: "kenv \<Rightarrow> kernel_handler capability list" where
  "webCaps env =
     [cap ''web.fetch'' ''Fetch a URL over HTTP(S) and return status, headers, and body.'' Write
        (params_of
           [(''url'', str_param),
            (''method'', enum_of [''GET'', ''POST'', ''PUT'', ''DELETE'', ''HEAD''] None (Some (JStr ''GET''))),
            (''headers'', typed ''object''), (''body'', str_param)]
           (Some [''url'']))
        (\<lambda>args. reads (\<lambda>k. web_fetch env args) args)]"

section \<open>proc.ts\<close>

definition logs_json :: "string \<Rightarrow> string \<times> string \<times> string \<Rightarrow> json" where
  "logs_json idkey l =
     (case l of (key, st, txt) \<Rightarrow> JObj [(idkey, JStr key), (''status'', JStr st), (''log'', JStr txt)])"

definition procCaps :: "kenv \<Rightarrow> kernel_handler capability list" where
  "procCaps env =
     [cap ''proc.spawn'' ''Start a long-running background process; returns its id and pid. Output is captured.'' Exec
        (params_of [(''cmd'', described ''string'' ''Command line run via /bin/sh -c'')] (Some [''cmd'']))
        (on_procs (\<lambda>args pm. case pm_spawn (arg_str ''cmd'' args) (ke_spawn env) (en_now env) pm of
           (r, pm') \<Rightarrow> (show_result proc_json r, pm'))),
      cap ''proc.list'' ''List managed processes with status, pid, and exit info.'' Read no_params
        (reads (\<lambda>k. return (obj1 ''processes'' (JArr (map proc_json (pm_list (k_procs k))))))),
      cap ''proc.status'' ''Get the status of one managed process.'' Read
        (params_of [(''id'', str_param)] (Some [''id'']))
        (\<lambda>args. reads (\<lambda>k. show_result proc_json (pm_get (arg_str ''id'' args) (k_procs k))) args),
      cap ''proc.logs'' ''Return captured stdout/stderr for a process (most recent bytes).'' Read
        (params_of [(''id'', str_param), (''max_bytes'', typed ''integer'')] (Some [''id'']))
        (\<lambda>args. reads (\<lambda>k. show_result (\<lambda>(key, st, txt). logs_json ''id'' (key, proc_status_str st, txt))
           (pm_logs (arg_str ''id'' args) (arg_num ''max_bytes'' args) (k_procs k))) args),
      cap ''proc.stop'' ''Signal a running process to stop (default SIGTERM).'' Write
        (params_of
           [(''id'', str_param), (''signal'', described ''string'' ''e.g. SIGTERM, SIGKILL, SIGINT'')] (Some [''id'']))
        (on_procs (\<lambda>args pm. case pm_stop (ke_signals env) (arg_str ''id'' args) (arg_opt ''signal'' args) pm of
           (r, pm') \<Rightarrow> (show_result proc_json r, pm'))),
      cap ''proc.remove'' ''Forget an exited process, freeing its record. Refuses if still running.'' Write
        (params_of [(''id'', str_param)] (Some [''id'']))
        (on_procs (\<lambda>args pm. case pm_remove (arg_str ''id'' args) pm of
           (r, pm') \<Rightarrow> (show_result (\<lambda>u. obj1 ''removed'' (JStr (arg_str ''id'' args))) r, pm')))]"

section \<open>svc.ts\<close>

definition restart_arg :: "jobject \<Rightarrow> restart_policy option" where
  "restart_arg args =
     (case map_of args ''restart'' of
        None \<Rightarrow> None
      | Some v \<Rightarrow> find (\<lambda>p. v = JStr (restart_str p)) [Always, OnFailure, NoRestart])"

definition bool_arg :: "string \<Rightarrow> jobject \<Rightarrow> bool option" where
  "bool_arg k args = (case map_of args k of Some (JBool b) \<Rightarrow> Some b | _ \<Rightarrow> None)"

definition svcCaps :: "kenv \<Rightarrow> kernel_handler capability list" where
  "svcCaps env =
     [cap ''svc.define'' ''Declare a supervised service that the kernel keeps running (auto-restarts on exit).'' Exec
        (params_of
           [(''name'', described ''string'' ''Unique service name''),
            (''cmd'', described ''string'' ''Command line run via /bin/sh -c''),
            (''restart'', enum_of [''always'', ''on-failure'', ''no''] (Some ''Restart policy (default always)'') None),
            (''max_restarts'', described ''integer'' ''Crash-loop ceiling before 'failed' (default 5)''),
            (''autostart'', described ''boolean'' ''Start immediately (default true)'')]
           (Some [''name'', ''cmd'']))
        (on_services (\<lambda>args s.
           case sv_define (arg_str ''name'' args) (arg_str ''cmd'' args) (restart_arg args)
                  (arg_num ''max_restarts'' args) (bool_arg ''autostart'' args) (ke_spawn env) (en_now env) s of
             (r, s') \<Rightarrow> (show_result service_json r, s'))),
      cap ''svc.list'' ''List declared services with state, pid, restart count, and last exit.'' Read no_params
        (reads (\<lambda>k. return (obj1 ''services'' (JArr (map service_json (sv_list (k_services k))))))),
      cap ''svc.status'' ''Get the full state of one service.'' Read name_params
        (\<lambda>args. reads (\<lambda>k. show_result service_json (sv_get (arg_str ''name'' args) (k_services k))) args),
      cap ''svc.logs'' ''Return captured stdout/stderr for a service.'' Read
        (params_of [(''name'', str_param), (''max_bytes'', typed ''integer'')] (Some [''name'']))
        (\<lambda>args. reads (\<lambda>k. show_result (\<lambda>(key, st, txt). logs_json ''name'' (key, service_status_str st, txt))
           (sv_logs (arg_str ''name'' args) (arg_num ''max_bytes'' args) (k_services k))) args),
      cap ''svc.start'' ''Start (or restart) a stopped/failed service; clears its crash-loop counter.'' Exec name_params
        (on_services (\<lambda>args s. case sv_start (arg_str ''name'' args) (ke_spawn env) (en_now env) s of
           (r, s') \<Rightarrow> (show_result service_json r, s'))),
      cap ''svc.stop'' ''Stop a service and keep it stopped (the supervisor won't restart it).'' Write name_params
        (on_services (\<lambda>args s. case sv_stop (arg_str ''name'' args) s of
           (r, s') \<Rightarrow> (show_result service_json r, s'))),
      cap ''svc.remove'' ''Stop and delete a service definition.'' Write name_params
        (on_services (\<lambda>args s. case sv_remove (arg_str ''name'' args) s of
           (r, s') \<Rightarrow> (show_result (\<lambda>u. obj1 ''removed'' (JStr (arg_str ''name'' args))) r, s')))]"

section \<open>cron.ts, net.ts\<close>

definition str_arg :: "string \<Rightarrow> jobject \<Rightarrow> string option" where
  "str_arg k args = (case map_of args k of Some (JStr s) \<Rightarrow> Some s | _ \<Rightarrow> None)"

definition cron_schedule :: "kenv \<Rightarrow> jobject \<Rightarrow> scheduler \<Rightarrow> job_record result \<times> scheduler" where
  "cron_schedule env args s =
     (let cmd = str_arg ''cmd'' args; prompt = str_arg ''prompt'' args;
          every = arg_num ''every_seconds'' args; once = arg_num ''in_seconds'' args
      in if (cmd \<noteq> None) = (prompt \<noteq> None)
         then (throw ''provide exactly one of: cmd (shell) or prompt (wake)'', s)
         else case (every, once) of
           (None, None) \<Rightarrow> (throw ''provide every_seconds or in_seconds'', s)
         | (Some n, _) \<Rightarrow>
             sc_schedule (arg_str ''name'' args) cmd prompt (Some (n * 1000)) (n * 1000)
               (arg_num ''count'' args) (en_now env) s
         | (None, Some n) \<Rightarrow>
             sc_schedule (arg_str ''name'' args) cmd prompt None (n * 1000) (Some 1) (en_now env) s)"

definition cronCaps :: "kenv \<Rightarrow> kernel_handler capability list" where
  "cronCaps env =
     [cap ''cron.schedule''
        ''Schedule a job: run a shell `cmd`, or queue a `prompt` to wake the mind, on a timer.'' Exec
        (params_of
           [(''name'', described ''string'' ''Unique job name''),
            (''cmd'', described ''string'' ''Shell command to run (kind=shell)''),
            (''prompt'', described ''string'' ''Task to wake the mind with (kind=wake)''),
            (''every_seconds'', described ''integer'' ''Recurring interval in seconds''),
            (''in_seconds'', described ''integer'' ''One-shot delay in seconds''),
            (''count'', described ''integer'' ''Max runs for a recurring job (default unlimited)'')]
           (Some [''name'']))
        (on_scheduler (\<lambda>args s. case cron_schedule env args s of (r, s') \<Rightarrow> (show_result job_json r, s'))),
      cap ''cron.list'' ''List scheduled jobs with their state and next run time.'' Read no_params
        (reads (\<lambda>k. return (obj1 ''jobs'' (JArr (map job_json (sc_list (k_scheduler k))))))),
      cap ''cron.status'' ''Get one job's state, including its last run result.'' Read name_params
        (\<lambda>args. reads (\<lambda>k. show_result job_json (sc_get (arg_str ''name'' args) (k_scheduler k))) args),
      cap ''cron.cancel'' ''Cancel and delete a scheduled job.'' Write name_params
        (on_scheduler (\<lambda>args s. case sc_cancel (arg_str ''name'' args) s of
           (r, s') \<Rightarrow> (show_result (\<lambda>u. obj1 ''cancelled'' (JStr (arg_str ''name'' args))) r, s'))),
      cap ''cron.wakeups''
        ''Drain pending wake events (prompts the mind should act on now). Returns and clears them.'' Write no_params
        (on_scheduler (\<lambda>args s. case sc_drain s of
           (ws, s') \<Rightarrow> (return (obj1 ''wakeups'' (JArr (map wakeup_json ws))), s')))]"

text \<open>\<open>serve\<close> and the event that settles its promise: \<open>listening\<close> or \<open>error\<close>.\<close>

definition net_serve_call :: "kenv \<Rightarrow> jobject \<Rightarrow> net \<Rightarrow> server_record result \<times> net" where
  "net_serve_call env args s =
     (let port = (case arg_num ''port'' args of None \<Rightarrow> 0 | Some p \<Rightarrow> p);
          dir = (case arg_opt ''dir'' args of None \<Rightarrow> ''/'' | Some d \<Rightarrow> d)
      in case net_serve (ke_bad_port env) (arg_str ''name'' args) port dir ''0.0.0.0'' (en_now env) s of
           (Inl e, s') \<Rightarrow> (throw e, s')
         | (Inr h, s') \<Rightarrow>
             (case ke_listen env of
                Some e \<Rightarrow> (throw e, net_error h s')
              | None \<Rightarrow> (case net_listening h s' of (r, s'') \<Rightarrow> (return r, s''))))"

definition netCaps :: "kenv \<Rightarrow> kernel_handler capability list" where
  "netCaps env =
     [cap ''net.serve'' ''Start an HTTP server on a port, serving static files from a rootfs directory.'' Write
        (params_of
           [(''name'', described ''string'' ''Unique server name''),
            (''port'', described ''integer'' ''TCP port to listen on''),
            (''dir'', described ''string'' ''Rootfs directory to serve (default /)'')]
           (Some [''name'', ''port'']))
        (on_net (\<lambda>args s. case net_serve_call env args s of (r, s') \<Rightarrow> (show_result server_json r, s'))),
      cap ''net.list'' ''List running HTTP servers with their port and request count.'' Read no_params
        (reads (\<lambda>k. return (obj1 ''servers'' (JArr (map server_json (net_list (k_net k))))))),
      cap ''net.status'' ''Get one server's state.'' Read name_params
        (\<lambda>args. reads (\<lambda>k. show_result server_json (net_get (arg_str ''name'' args) (k_net k))) args),
      cap ''net.requests'' ''Return the recent request log for a server (method, path, status).'' Read
        (params_of [(''name'', str_param), (''limit'', typed ''integer'')] (Some [''name'']))
        (\<lambda>args. reads (\<lambda>k. show_result (\<lambda>rs. obj1 ''requests'' (JArr (map req_log_json rs)))
           (net_requests (arg_str ''name'' args)
              (case arg_num ''limit'' args of None \<Rightarrow> 50 | Some n \<Rightarrow> n) (k_net k))) args),
      cap ''net.stop'' ''Stop a running HTTP server.'' Write name_params
        (on_net (\<lambda>args s. case net_stop (arg_str ''name'' args) s of (r, s') \<Rightarrow> (show_result server_json r, s')))]"

section \<open>sys.ts\<close>

text \<open>What \<open>ctx.caps()\<close> shows of a capability: everything but its handler.\<close>

type_synonym cap_info = "unit capability"

definition cap_info :: "'h capability \<Rightarrow> cap_info" where
  "cap_info c = cap (cap_name c) (cap_summary c) (cap_risk c) (cap_params c) ()"

definition info_json :: "cap_info \<Rightarrow> json" where
  "info_json c = JObj
     [(''name'', JStr (cap_name c)), (''summary'', JStr (cap_summary c)),
      (''risk'', JStr (risk_str (cap_risk c))), (''params'', schema_json (cap_params c))]"

definition void_version :: string where
  "void_version = ''0.0.1''"

definition sys_info :: "kenv \<Rightarrow> cap_info list \<Rightarrow> kernel \<Rightarrow> json" where
  "sys_info env infos k =
     (case ke_host env of (name, platform, release, pid) \<Rightarrow> JObj
        [(''void_version'', JStr void_version), (''root'', JStr (k_root k)),
         (''capability_count'', JNum (int (length infos))), (''uptime_ms'', JNum (en_now env - ke_booted env)),
         (''policy'', JStr (mode_str (g_mode k))), (''active_grants'', JObj (grants_list (g_grants k))),
         (''host'', JObj [(''name'', JStr name), (''platform'', JStr platform), (''release'', JStr release),
                          (''pid'', JNum pid)])])"

definition sys_policy :: "kernel \<Rightarrow> json" where
  "sys_policy k = JObj [(''mode'', JStr (mode_str (g_mode k))), (''grants'', JObj (grants_list (g_grants k)))]"

text \<open>\<open>slice(-limit)\<close> of the lines that are not blank, each parsed; a line that is no JSON throws.\<close>

definition auditPath :: "string \<Rightarrow> string" where
  "auditPath rootfs = path_join [rootfs, ''.void'', ''audit.log'']"

definition audit_lines :: "kenv \<Rightarrow> kernel \<Rightarrow> string list" where
  "audit_lines env k =
     (case read_file env (auditPath (k_root k)) (k_fs k) of
        Inl e \<Rightarrow> []
      | Inr raw \<Rightarrow> filter (\<lambda>l. \<not> blank l) (split_lf raw))"

fun parse_lines :: "(string \<Rightarrow> string) \<Rightarrow> string list \<Rightarrow> json list result" where
  "parse_lines message [] = return []"
| "parse_lines message (l # ls) =
     (case json_parse l of
        None \<Rightarrow> throw (message l)
      | Some v \<Rightarrow> (case parse_lines message ls of Inl e \<Rightarrow> throw e | Inr vs \<Rightarrow> return (v # vs)))"

definition sys_audit :: "kenv \<Rightarrow> jobject \<Rightarrow> kernel \<Rightarrow> json result" where
  "sys_audit env args k =
     (let limit = (case arg_num ''limit'' args of None \<Rightarrow> 20 | Some n \<Rightarrow> n)
      in show_result (\<lambda>es. JObj [(''count'', JNum (int (length es))), (''entries'', JArr es)])
           (parse_lines (en_message env) (slice_from (- limit) (audit_lines env k))))"

text \<open>The two calls that take the operator token; \<open>uses\<close> below zero stand for no limit.\<close>

definition invalid_token :: string where
  "invalid_token = ''invalid operator token''"

definition sys_grant :: kernel_handler where
  "sys_grant args k =
     (if map_of args ''token'' \<noteq> Some (JStr (g_token k)) then (throw invalid_token, k)
      else
        let uses = (case arg_num ''uses'' args of None \<Rightarrow> 1 | Some n \<Rightarrow> n);
            g = grant (arg_str ''target'' args) (if uses < 0 then Infinity else Fin uses) (g_grants k)
        in (return (JObj [(''granted'', JStr (arg_str ''target'' args)), (''grants'', JObj (grants_list g))]),
            k\<lparr>g_grants := g\<rparr>))"

definition sys_revoke :: kernel_handler where
  "sys_revoke args k =
     (if map_of args ''token'' \<noteq> Some (JStr (g_token k)) then (throw invalid_token, k)
      else
        let g = revoke (arg_opt ''target'' args) (g_grants k);
            shown = (case map_of args ''target'' of None \<Rightarrow> JStr ''all'' | Some JNull \<Rightarrow> JStr ''all'' | Some v \<Rightarrow> v)
        in (return (JObj [(''revoked'', shown), (''grants'', JObj (grants_list g))]), k\<lparr>g_grants := g\<rparr>))"

definition sysCaps :: "kenv \<Rightarrow> cap_info list \<Rightarrow> kernel_handler capability list" where
  "sysCaps env infos =
     [cap ''sys.list'' ''List every available capability with its risk class and parameter schema.'' Read no_params
        (reads (\<lambda>k. return (obj1 ''capabilities'' (JArr (map info_json infos))))),
      cap ''sys.info'' ''Report voidOS kernel, host, and policy information.'' Read no_params
        (reads (\<lambda>k. return (sys_info env infos k))),
      cap ''sys.policy'' ''Report the current permission policy mode and active grants.'' Read no_params
        (reads (\<lambda>k. return (sys_policy k))),
      cap ''sys.audit'' ''Return the most recent audit-log entries (every syscall, allowed or denied).'' Read
        (params_of [(''limit'', described ''integer'' ''How many recent entries (default 20)'')] None)
        (\<lambda>args. reads (sys_audit env args) args),
      cap ''sys.grant''
        ''Operator-only: authorize a capability, risk class, or 'all' for N uses. Requires the operator token.'' Read
        (params_of
           [(''token'', described ''string'' ''The operator token minted at boot''),
            (''target'', described ''string'' (''Capability name (e.g. shell.exec), risk class (write/exec), or '' @
               [CHR 0x27] @ ''all'' @ [CHR 0x27])),
            (''uses'', described ''integer''
               ''Number of uses to grant; omit for a single use, -1 for unlimited'')]
           (Some [''token'', ''target'']))
        sys_grant,
      cap ''sys.revoke'' ''Operator-only: revoke a grant (or all grants). Requires the operator token.'' Read
        (params_of
           [(''token'', str_param), (''target'', described ''string'' ''Grant to revoke; omit to clear all grants'')]
           (Some [''token'']))
        sys_revoke]"

section \<open>desktop.ts\<close>

definition base64_digit :: "nat \<Rightarrow> char" where
  "base64_digit n =
     (if n < 26 then char_of (65 + n) else if n < 52 then char_of (71 + n)
      else if n < 62 then char_of (n - 4) else if n = 62 then CHR ''+'' else CHR ''/'')"

fun base64 :: "string \<Rightarrow> string" where
  "base64 [] = []"
| "base64 [a] =
     (let x = of_char a :: nat in [base64_digit (x div 4), base64_digit (x mod 4 * 16), CHR ''='', CHR ''=''])"
| "base64 [a, b] =
     (let x = of_char a :: nat; y = of_char b
      in [base64_digit (x div 4), base64_digit (x mod 4 * 16 + y div 16), base64_digit (y mod 16 * 4), CHR ''=''])"
| "base64 (a # b # c # cs) =
     (let x = of_char a :: nat; y = of_char b; z = of_char c
      in [base64_digit (x div 4), base64_digit (x mod 4 * 16 + y div 16),
          base64_digit (y mod 16 * 4 + z div 64), base64_digit (z mod 64)] @ base64 cs)"

definition pointer_arg :: "jobject \<Rightarrow> pointer_type" where
  "pointer_arg args =
     (if arg_str ''type'' args = ''pointerdown'' then PointerDown
      else if arg_str ''type'' args = ''pointermove'' then PointerMove else PointerUp)"

definition int_arg :: "string \<Rightarrow> jobject \<Rightarrow> int" where
  "int_arg k args = (case arg_num k args of None \<Rightarrow> 0 | Some n \<Rightarrow> n)"

definition window_json :: "vwindow \<Rightarrow> json" where
  "window_json w = JObj
     [(''id'', JNum (int (vw_id w))), (''app'', JStr (vw_app w)), (''x'', JNum (vw_x w)), (''y'', JNum (vw_y w))]"

text \<open>
  \<open>buildSnapshot\<close>: what cannot be read or parsed counts as empty. An entry of the audit file is an
  object with the three fields, as the kernel writes it.
\<close>

definition str_field :: "string \<Rightarrow> json \<Rightarrow> string" where
  "str_field k v = (case field v k of Some (JStr s) \<Rightarrow> s | _ \<Rightarrow> [])"

definition recent_audit :: "kenv \<Rightarrow> kernel \<Rightarrow> json list" where
  "recent_audit env k =
     (case parse_lines (en_message env) (slice_from (- 20) (audit_lines env k)) of Inl e \<Rightarrow> [] | Inr vs \<Rightarrow> vs)"

definition count_memory_keys :: "kenv \<Rightarrow> kernel \<Rightarrow> nat" where
  "count_memory_keys env k =
     (case read_file env (storePath (k_root k)) (k_fs k) of
        Inl e \<Rightarrow> 0
      | Inr txt \<Rightarrow> (case json_parse txt of None \<Rightarrow> 0 | Some v \<Rightarrow> length (own_props v)))"

definition root_files :: "kenv \<Rightarrow> kernel \<Rightarrow> (string \<times> string) list" where
  "root_files env k =
     (case read_dir env (k_root k) (k_fs k) of
        Inl e \<Rightarrow> []
      | Inr es \<Rightarrow> map (\<lambda>(name, n). (name, kind_of n)) (filter (\<lambda>(name, n). name \<noteq> ''.void'') es))"

definition buildSnapshot :: "kenv \<Rightarrow> cap_info list \<Rightarrow> kernel \<Rightarrow> snapshot" where
  "buildSnapshot env infos k =
     (case ke_host env of (name, platform, release, pid) \<Rightarrow>
       \<lparr>sn_version = void_version, sn_policy = mode_str (g_mode k), sn_capCount = length infos,
        sn_uptimeMs = ke_uptime env, sn_host = platform @ '' '' @ release,
        sn_memoryKeys = count_memory_keys env k,
        sn_services = map (\<lambda>r. (sr_name r, service_status_str (sr_status r))) (sv_list (k_services k)),
        sn_processes = map (\<lambda>r. (pr_id r, proc_status_str (pr_status r), pr_cmd r)) (pm_list (k_procs k)),
        sn_servers = map (\<lambda>r. (ns_name r, ns_port r, server_status_str (ns_status r), ns_requests r)) (net_list (k_net k)),
        sn_cron = map (\<lambda>r. (jr_name r, job_kind_str (jr_kind r), jr_schedule r)) (sc_list (k_scheduler k)),
        sn_audit = map (\<lambda>a. (str_field ''decision'' a, str_field ''risk'' a, str_field ''capability'' a)) (recent_audit env k),
        sn_files = root_files env k\<rparr>)"

definition renderFrame :: "kenv \<Rightarrow> cap_info list \<Rightarrow> kernel \<Rightarrow> byte list" where
  "renderFrame env infos k =
     toPNG (ke_deflate env) (desktop_frame (en_now env) (k_desktop k) (buildSnapshot env infos k))"

text \<open>The bytes of a buffer as the units of a text.\<close>

definition byte_text :: "byte list \<Rightarrow> string" where
  "byte_text bs = map (\<lambda>b. char_of (unat b)) bs"

definition desktop_render :: "kenv \<Rightarrow> cap_info list \<Rightarrow> kernel_handler" where
  "desktop_render env infos args k =
     (let png = byte_text (renderFrame env infos k); rel = (case str_arg ''path'' args of None \<Rightarrow> ''/desktop.png'' | Some p \<Rightarrow> p)
      in case resolve_in (en_cwd env) (k_root k) rel of
           Inl e \<Rightarrow> (throw e, k)
         | Inr full \<Rightarrow>
             (case write_file env full png (k_fs k) of
                (Inl e, tree) \<Rightarrow> (throw e, k\<lparr>k_fs := tree\<rparr>)
              | (Inr _, tree) \<Rightarrow>
                  (return (JObj [(''path'', JStr rel), (''width'', JNum screen_w), (''height'', JNum screen_h),
                                 (''bytes'', JNum (int (length png)))]),
                   k\<lparr>k_fs := tree\<rparr>)))"

definition desktopCaps :: "kenv \<Rightarrow> cap_info list \<Rightarrow> kernel_handler capability list" where
  "desktopCaps env infos =
     [cap ''desktop.frame'' ''Render the current voidOS desktop and return it as a base64 PNG (for a live viewer).'' Read
        no_params
        (reads (\<lambda>k. return (JObj [(''width'', JNum screen_w), (''height'', JNum screen_h),
                                   (''png_b64'', JStr (base64 (byte_text (renderFrame env infos k))))]))),
      cap ''desktop.input'' ''Send a pointer event to the desktop (launch from dock, focus, drag, close windows).'' Write
        (params_of
           [(''type'', enum_of [''pointerdown'', ''pointermove'', ''pointerup''] None None),
            (''x'', typed ''integer''), (''y'', typed ''integer'')]
           (Some [''type'', ''x'', ''y'']))
        (on_desktop (\<lambda>args s.
           let s' = pointer (pointer_arg args) (int_arg ''x'' args) (int_arg ''y'' args) s
           in (return (JObj [(''ok'', JBool True), (''windows'', JArr (map window_json (wm_windows s')))]), s'))),
      cap ''desktop.launch''
        ''Open a desktop app window by id (files, system, services, procs, net, cron, audit).'' Write
        (params_of [(''app'', str_param)] (Some [''app'']))
        (on_desktop (\<lambda>args s. case wm_launch (arg_str ''app'' args) s of
           (n, s') \<Rightarrow> (return (obj1 ''id'' (JNum n)), s'))),
      cap ''desktop.render'' ''Render the voidOS desktop from live state to a PNG file in the rootfs.'' Write
        (params_of [(''path'', described ''string'' ''Rootfs path (default /desktop.png)'')] None)
        (desktop_render env infos)]"

section \<open>The table of the kernel\<close>

text \<open>The lists in the order index.ts registers them; \<open>infos\<close> is what \<open>ctx.caps()\<close> will return.\<close>

definition kernel_table :: "kenv \<Rightarrow> cap_info list \<Rightarrow> kernel_handler capability list" where
  "kernel_table env infos =
     sysCaps env infos @ fsCaps env @ shellCaps env @ webCaps env @ memoryCaps env @ procCaps env @
     svcCaps env @ cronCaps env @ netCaps env @ desktopCaps env infos"

definition kernel_infos :: "kenv \<Rightarrow> cap_info list" where
  "kernel_infos env = sort_key cap_name (map cap_info (kernel_table env []))"

definition kernel_registry :: "kenv \<Rightarrow> kernel_handler registry" where
  "kernel_registry env =
     (case registerAll (kernel_table env (kernel_infos env)) [] of Inl e \<Rightarrow> [] | Inr reg \<Rightarrow> reg)"

end
