(* ===== verification/VoidBoot.thy ===== *)
theory VoidBoot
  imports VoidCaps
begin

text \<open>
  kernel/src/index.ts: the policy mode and the state at boot, the capability table as a whole,
  one system call on the booted kernel with the audit line it leaves on disk, and the shutdown.
  The interface \<open>capability_table\<close> of the bus is interpreted here on the kernel's own table.
\<close>

section \<open>The table of the kernel\<close>

lemma cap_simps [simp]:
  "cap_name (cap n s r p h) = n" "cap_summary (cap n s r p h) = s" "cap_risk (cap n s r p h) = r"
  "cap_params (cap n s r p h) = p" "cap_handler (cap n s r p h) = h"
  by (simp_all add: cap_def)

lemmas caps_defs = sysCaps_def fsCaps_def shellCaps_def webCaps_def memoryCaps_def procCaps_def
  svcCaps_def cronCaps_def netCaps_def desktopCaps_def

definition capability_names :: "string list" where
  "capability_names =
     [''sys.list'', ''sys.info'', ''sys.policy'', ''sys.audit'', ''sys.grant'', ''sys.revoke'',
      ''fs.read'', ''fs.write'', ''fs.list'', ''fs.stat'', ''fs.remove'', ''shell.exec'', ''web.fetch'',
      ''memory.set'', ''memory.get'', ''memory.list'', ''memory.delete'',
      ''proc.spawn'', ''proc.list'', ''proc.status'', ''proc.logs'', ''proc.stop'', ''proc.remove'',
      ''svc.define'', ''svc.list'', ''svc.status'', ''svc.logs'', ''svc.start'', ''svc.stop'', ''svc.remove'',
      ''cron.schedule'', ''cron.list'', ''cron.status'', ''cron.cancel'', ''cron.wakeups'',
      ''net.serve'', ''net.list'', ''net.status'', ''net.requests'', ''net.stop'',
      ''desktop.frame'', ''desktop.input'', ''desktop.launch'', ''desktop.render'']"

lemma table_names: "map cap_name (kernel_table env infos) = capability_names"
  by (simp add: kernel_table_def caps_defs capability_names_def)

lemma distinct_names: "distinct capability_names"
  by code_simp

lemma registry_is_table:
  "kernel_registry env = map (\<lambda>c. (cap_name c, c)) (kernel_table env (kernel_infos env))"
proof -
  have "registerAll (kernel_table env (kernel_infos env)) []
      = return (map (\<lambda>c. (cap_name c, c)) (kernel_table env (kernel_infos env)))"
    using distinct_names by (subst registerAll_iff [OF registry_wf_Nil]) (simp add: table_names)
  then show ?thesis by (simp add: kernel_registry_def)
qed

lemma registry_member:
  "registry_get (kernel_registry env) meth = Some c \<Longrightarrow> c \<in> set (kernel_table env (kernel_infos env)) \<and> cap_name c = meth"
  by (auto simp: registry_get_def registry_is_table dest: map_of_SomeD)

text \<open>
  What the handlers do to the kernel, by class of risk. \<open>same_but_gate\<close>: only the fields of the
  bus may differ.
\<close>

definition pure_handler :: "kernel_handler \<Rightarrow> bool" where
  "pure_handler h \<longleftrightarrow> (\<forall>args k. snd (h args k) = k)"

lemma pure_keeps_gate: "pure_handler h \<Longrightarrow> keeps_gate h"
  by (simp add: pure_handler_def keeps_gate_def)

lemma pure_reads [simp]: "pure_handler (reads f)" "pure_handler (\<lambda>args. reads (f' args) args)"
  by (simp_all add: pure_handler_def reads_def)

lemma keeps_gate_special [simp]: "keeps_gate (shell_handler env)" "keeps_gate (desktop_render env infos)"
  by (auto simp: keeps_gate_def shell_handler_def desktop_render_def gate.truncate_def Let_def
      split: prod.splits sum.splits)

lemma pure_fs: "(\<And>rootfs args tree. snd (f rootfs args tree) = tree) \<Longrightarrow> pure_handler (on_fs f)"
proof -
  assume f: "\<And>rootfs args tree. snd (f rootfs args tree) = tree"
  have "snd (on_fs f args k) = k" for args k
    by (cases "f (k_root k) args (k_fs k)") (use f [of "k_root k" args "k_fs k"] in \<open>simp add: on_fs_def\<close>)
  then show ?thesis by (simp add: pure_handler_def)
qed

lemma memory_reads_keep: "snd (memory_get env rootfs args tree) = tree" "snd (memory_list env rootfs args tree) = tree"
  by (simp_all add: memory_get_def memory_list_def Let_def split: option.split)

lemma pure_fs_reads [simp]:
  "pure_handler (on_fs (fs_read env))" "pure_handler (on_fs (fs_list env))" "pure_handler (on_fs (fs_stat env))"
  "pure_handler (on_fs (memory_get env))" "pure_handler (on_fs (memory_list env))"
  using fs_reads_keep [of FsRead env] fs_reads_keep [of FsList env] fs_reads_keep [of FsStat env]
  by (auto intro!: pure_fs simp: memory_reads_keep)

text \<open>Every capability but the two operator calls keeps the gate, and the read ones keep everything.\<close>

definition tame :: "kernel_handler capability \<Rightarrow> bool" where
  "tame c \<longleftrightarrow> cap_handler c = sys_grant \<or> cap_handler c = sys_revoke \<or>
     (keeps_gate (cap_handler c) \<and> (cap_risk c = Read \<longrightarrow> pure_handler (cap_handler c)))"

lemma tame_simps [simp]:
  "tame (cap n s Read p sys_grant)" "tame (cap n s Read p sys_revoke)"
  "keeps_gate h \<Longrightarrow> tame (cap n s Write p h)" "keeps_gate h \<Longrightarrow> tame (cap n s Exec p h)"
  "pure_handler h \<Longrightarrow> tame (cap n s Read p h)"
  by (simp_all add: tame_def pure_keeps_gate)

lemma keeps_gate_reads [simp]: "keeps_gate (\<lambda>args. reads (f args) args)"
  by (simp add: pure_keeps_gate)

lemma table_tame: "list_all tame (kernel_table env infos)"
  by (simp add: kernel_table_def caps_defs)

lemma table_handlers:
  assumes "c \<in> set (kernel_table env infos)" "cap_handler c \<noteq> sys_grant" "cap_handler c \<noteq> sys_revoke"
  shows "keeps_gate (cap_handler c) \<and> (cap_risk c = Read \<longrightarrow> pure_handler (cap_handler c))"
  using assms table_tame [of env infos] by (auto simp: list_all_iff tame_def)

lemma operator_effect:
  "\<not> holds_token (g_token k) args \<Longrightarrow> snd (sys_grant args k) = k"
  "\<not> holds_token (g_token k) args \<Longrightarrow> snd (sys_revoke args k) = k"
  "snd (sys_grant args k) = k\<lparr>g_grants := g_grants (snd (sys_grant args k))\<rparr>"
  "snd (sys_revoke args k) = k\<lparr>g_grants := g_grants (snd (sys_revoke args k))\<rparr>"
  by (simp_all add: sys_grant_def sys_revoke_def holds_token_def Let_def)

lemma operator_calls:
  assumes "h = sys_grant \<or> h = sys_revoke" "h args k = (r, k')"
  shows "k' = k\<lparr>g_grants := g_grants k'\<rparr>" "\<not> holds_token (g_token k) args \<Longrightarrow> k' = k"
  using assms(1) operator_effect [where k = k and args = args] assms(2) by auto

lemma keeps_gate_fields:
  assumes "keeps_gate h" "h args k = (r, k')"
  shows "g_mode k' = g_mode k" "g_token k' = g_token k" "g_audit k' = g_audit k" "g_grants k' = g_grants k"
proof -
  have "gate.truncate k' = gate.truncate k"
    using assms unfolding keeps_gate_def by (metis snd_conv)
  then show "g_mode k' = g_mode k" "g_token k' = g_token k" "g_audit k' = g_audit k" "g_grants k' = g_grants k"
    by (simp_all add: gate.defs)
qed

text \<open>A registered handler is one of the two operator calls, or keeps the gate.\<close>

lemma handler_cases:
  assumes "registry_get (kernel_registry env) meth = Some c"
  obtains (operator) "cap_handler c = sys_grant \<or> cap_handler c = sys_revoke"
  | (ordinary) "keeps_gate (cap_handler c)" "cap_risk c = Read \<Longrightarrow> pure_handler (cap_handler c)"
  using registry_member [OF assms] table_handlers [of c env "kernel_infos env"] by blast

lemma handler_effect:
  assumes "registry_get (kernel_registry env) meth = Some c" "cap_handler c args k = (r, k')"
  shows "g_mode k' = g_mode k \<and> g_token k' = g_token k \<and> g_audit k' = g_audit k"
    and "\<not> holds_token (g_token k) args \<Longrightarrow> g_grants k' = g_grants k"
    and "\<not> holds_token (g_token k) args \<Longrightarrow> cap_risk c = Read \<Longrightarrow> k' = k"
proof -
  have "(g_mode k' = g_mode k \<and> g_token k' = g_token k \<and> g_audit k' = g_audit k) \<and>
    (\<not> holds_token (g_token k) args \<longrightarrow> g_grants k' = g_grants k \<and> (cap_risk c = Read \<longrightarrow> k' = k))"
    using assms(1)
  proof (cases rule: handler_cases)
    case operator
    note op = operator_calls [OF this assms(2)]
    then have "g_mode k' = g_mode k \<and> g_token k' = g_token k \<and> g_audit k' = g_audit k"
      by (metis gate.select_convs gate.update_convs(2) gate.surjective)
    with op(2) show ?thesis by blast
  next
    case ordinary
    note keeps_gate_fields [OF ordinary(1) assms(2)]
    moreover have "cap_risk c = Read \<Longrightarrow> k' = k"
      using ordinary(2) assms(2) unfolding pure_handler_def by (metis snd_conv)
    ultimately show ?thesis by simp
  qed
  then show "g_mode k' = g_mode k \<and> g_token k' = g_token k \<and> g_audit k' = g_audit k"
    "\<not> holds_token (g_token k) args \<Longrightarrow> g_grants k' = g_grants k"
    "\<not> holds_token (g_token k) args \<Longrightarrow> cap_risk c = Read \<Longrightarrow> k' = k" by blast+
qed

interpretation kt: capability_table "kernel_registry env" for env
  using handler_effect(1,2) by unfold_locales blast+

section \<open>One system call, with its line in the audit file\<close>

text \<open>
  \<open>appendFile\<close> creates the file it does not find; a failure is logged and the line lost. The append
  is started with the reply and not awaited; here it ends before the next call begins.
\<close>

definition append_file :: "'e env_scheme \<Rightarrow> string \<Rightarrow> string \<Rightarrow> node \<Rightarrow> node" where
  "append_file env full out tree =
     snd (write_file env full ((case read_file env full tree of Inl e \<Rightarrow> [] | Inr c \<Rightarrow> c) @ out) tree)"

definition flush_audit :: "kenv \<Rightarrow> audit_entry list \<Rightarrow> kernel \<Rightarrow> kernel" where
  "flush_audit env es k =
     k\<lparr>k_fs := fold (\<lambda>e. append_file env (auditPath (k_root k)) (wire_line (audit_json e))) es (k_fs k)\<rparr>"

definition kernel_call :: "kenv \<Rightarrow> clock \<Rightarrow> string \<Rightarrow> jobject \<Rightarrow> kernel \<Rightarrow> dispatch_result \<times> kernel" where
  "kernel_call env clk meth params k =
     (case dispatch clk (kernel_registry env) meth params k of
        (res, k') \<Rightarrow> (res, flush_audit env (drop (length (g_audit k)) (g_audit k')) k'))"

text \<open>A run of calls, each with the answers the host gives during it.\<close>

type_synonym kernel_request = "kenv \<times> clock \<times> string \<times> jobject"

fun kernel_run :: "kernel_request list \<Rightarrow> kernel \<Rightarrow> dispatch_result list \<times> kernel" where
  "kernel_run [] k = ([], k)"
| "kernel_run ((env, clk, meth, params) # rs) k =
     (case kernel_call env clk meth params k of
        (r, k') \<Rightarrow> (case kernel_run rs k' of (rest, k'') \<Rightarrow> (r # rest, k'')))"

lemma snd_kernel_run_Cons:
  "snd (kernel_run ((env, clk, meth, params) # rs) k) = snd (kernel_run rs (snd (kernel_call env clk meth params k)))"
  by (simp add: Let_def split_beta)

lemma length_kernel_run: "length (fst (kernel_run rs k)) = length rs"
  by (induction rs k rule: kernel_run.induct) (auto split: prod.split)

declare kernel_run.simps(2) [simp del]

lemma flush_fields [simp]:
  "g_mode (flush_audit env es k) = g_mode k" "g_grants (flush_audit env es k) = g_grants k"
  "g_audit (flush_audit env es k) = g_audit k" "g_token (flush_audit env es k) = g_token k"
  "k_root (flush_audit env es k) = k_root k"
  by (simp_all add: flush_audit_def)

lemma snd_kernel_call:
  "snd (kernel_call env clk meth params k) =
     (let k' = snd (dispatch clk (kernel_registry env) meth params k)
      in flush_audit env (drop (length (g_audit k)) (g_audit k')) k')"
  by (simp add: kernel_call_def Let_def split_beta)

lemma kernel_call_gate:
  "g_mode (snd (kernel_call env clk meth params k)) = g_mode k"
  "g_token (snd (kernel_call env clk meth params k)) = g_token k"
  "g_grants (snd (kernel_call env clk meth params k)) = g_grants (snd (dispatch clk (kernel_registry env) meth params k))"
  "length (g_audit (snd (kernel_call env clk meth params k))) = Suc (length (g_audit k))"
  by (simp_all add: snd_kernel_call Let_def kt.dispatch_frame)

text \<open>Requests that carry the operator token, and write or exec handlers that get started.\<close>

definition without_token :: "string \<Rightarrow> kernel_request list \<Rightarrow> bool" where
  "without_token token rs \<longleftrightarrow> list_all (\<lambda>(env, clk, meth, params). \<not> holds_token token params) rs"

fun risky_starts :: "kernel_request list \<Rightarrow> kernel \<Rightarrow> nat" where
  "risky_starts [] k = 0"
| "risky_starts ((env, clk, meth, params) # rs) k =
     of_bool (starts_risky clk (kernel_registry env) meth params k) +
     risky_starts rs (snd (kernel_call env clk meth params k))"

lemma run_budget:
  assumes "g_mode k = Guarded" "map_wf (g_grants k)" "without_token (g_token k) rs"
  shows "enat (risky_starts rs k) + budget (g_grants (snd (kernel_run rs k))) = budget (g_grants k)"
  using assms
proof (induction rs arbitrary: k)
  case Nil
  then show ?case by (simp add: zero_enat_def [symmetric])
next
  case (Cons req rs)
  obtain env clk meth params where req: "req = (env, clk, meth, params)" by (cases req)
  let ?k' = "snd (kernel_call env clk meth params k)"
  have token: "\<not> holds_token (g_token k) params" "without_token (g_token k) rs"
    using Cons.prems(3) by (simp_all add: without_token_def req)
  note one = kt.guarded_request_budget [OF Cons.prems(1,2) token(1), where clk = clk and meth = meth and env = env]
  have "enat (risky_starts rs ?k') + budget (g_grants (snd (kernel_run rs ?k'))) = budget (g_grants ?k')"
    using Cons.prems(1) token(2) one(1) by (intro Cons.IH) (simp_all add: kernel_call_gate)
  with one(2) show ?case
    by (simp add: req snd_kernel_run_Cons kernel_call_gate add.assoc flip: plus_enat_simps(1))
qed

lemma run_audit:
  "g_mode (snd (kernel_run rs k)) = g_mode k" "g_token (snd (kernel_run rs k)) = g_token k"
  "length (g_audit (snd (kernel_run rs k))) = length (g_audit k) + length rs"
  by (induction rs arbitrary: k) (auto simp: snd_kernel_run_Cons kernel_call_gate)

section \<open>What \<open>sys.list\<close> answers\<close>

lemma map_sort_key: "map f (sort_key (\<lambda>x. g (f x)) xs) = sort_key g (map f xs)"
proof -
  have ins: "map f (insort_key (\<lambda>x. g (f x)) x ys) = insort_key g (f x) (map f ys)" for x ys
    by (induction ys) auto
  then show ?thesis by (induction xs) simp_all
qed

lemma infos_of_table: "map cap_info (kernel_table env infos) = map cap_info (kernel_table env infos')"
  by (simp add: kernel_table_def sysCaps_def desktopCaps_def cap_info_def)

text \<open>The list \<open>sys.list\<close> is built with is the list of the registry it is part of.\<close>

lemma infos_of_registry: "kernel_infos env = map cap_info (registry_list (kernel_registry env))"
proof -
  have "map_values (kernel_registry env) = kernel_table env (kernel_infos env)"
    by (simp add: registry_is_table comp_def)
  then have "registry_list (kernel_registry env)
      = sort_key (\<lambda>c. cap_name (cap_info c)) (kernel_table env (kernel_infos env))"
    by (simp add: registry_list_def cap_info_def)
  moreover have "map cap_info (kernel_table env (kernel_infos env)) = map cap_info (kernel_table env [])"
    by (rule infos_of_table)
  ultimately show ?thesis by (simp only: map_sort_key) (simp add: kernel_infos_def)
qed

lemma call_sys_list:
  "fst (kernel_call env clk ''sys.list'' params k) = Inr (obj1 ''capabilities'' (JArr (map info_json (kernel_infos env))))"
proof -
  have "registry_get (kernel_registry env) ''sys.list''
      = Some (cap ''sys.list'' ''List every available capability with its risk class and parameter schema.'' Read no_params
          (reads (\<lambda>k. return (obj1 ''capabilities'' (JArr (map info_json (kernel_infos env)))))))"
    by (simp add: registry_get_def registry_is_table kernel_table_def sysCaps_def)
  then show ?thesis
    by (simp add: kernel_call_def dispatch_def admit_def decide_def validate_def no_params_def params_of_def
        or_empty_def reads_def settle_def)
qed

section \<open>A locked kernel\<close>

text \<open>No write or exec can start: paranoid, or guarded with nothing granted that is left.\<close>

definition locked :: "kernel \<Rightarrow> bool" where
  "locked k \<longleftrightarrow> g_mode k = Paranoid \<or> (g_mode k = Guarded \<and> map_wf (g_grants k) \<and> budget (g_grants k) = 0)"

lemma admit_refused:
  "admit clk reg meth params s = (Refused e, s') \<Longrightarrow> \<exists>entry. s' = audit_append entry s"
  by (auto simp: admit_def Let_def split: option.splits if_splits)

lemma admit_read:
  "admit clk reg meth params s = (Admitted c d summary, s') \<Longrightarrow> cap_risk c = Read \<Longrightarrow> s' = s"
  by (auto simp: admit_def decide_def Let_def split: option.splits if_splits)

lemma settle_audit: "\<exists>entry. snd (settle clk meth c d summary r s) = audit_append entry s"
  by (auto simp: settle_def split: sum.split)

lemma locked_not_risky:
  assumes "locked k" "\<not> holds_token (g_token k) params"
  shows "\<not> starts_risky clk (kernel_registry env) meth params k"
proof (cases "g_mode k = Paranoid")
  case True
  from kt.paranoid_never_starts [OF this, of env "[(clk, meth, params)]"] show ?thesis by auto
next
  case False
  with assms(1) have "g_mode k = Guarded" "map_wf (g_grants k)" "budget (g_grants k) = 0"
    by (auto simp: locked_def)
  from kt.guarded_request_budget(2) [OF this(1,2) assms(2), of clk env meth] this(3)
  show ?thesis by (auto simp: iadd_is_0 enat_0_iff)
qed

lemma locked_dispatch:
  assumes "locked k" "\<not> holds_token (g_token k) params"
  shows "\<exists>entry. snd (dispatch clk (kernel_registry env) meth params k) = audit_append entry k"
proof (cases rule: dispatch_cases [of clk "kernel_registry env" meth params k])
  case (refused e s')
  with admit_refused [OF refused(1)] show ?thesis by simp
next
  case (started c d summary s1 r s2)
  have "cap_risk c = Read"
    using locked_not_risky [OF assms, of clk env meth] started(1) by (simp add: starts_risky_def)
  moreover from this have "s1 = k" using admit_read [OF started(1)] by simp
  ultimately have "s2 = k" using handler_effect(3) [OF started(2,3)] assms(2) by simp
  with started(4) settle_audit show ?thesis by metis
qed

section \<open>The audit file\<close>

definition audit_segs :: "string list \<Rightarrow> string list" where
  "audit_segs rs = rs @ [''.void'', ''audit.log'']"

definition audit_text :: "audit_entry list \<Rightarrow> string" where
  "audit_text es = concat (map (\<lambda>e. wire_line (audit_json e)) es)"

lemma audit_path:
  assumes "proper rs" "rs \<noteq> []"
  shows "auditPath (abs_path rs) = abs_path (audit_segs rs)" "path_segs (auditPath (abs_path rs)) = audit_segs rs"
proof -
  show path: "auditPath (abs_path rs) = abs_path (audit_segs rs)"
    using control_path [OF assms] by (simp add: auditPath_def audit_segs_def proper_seg_def)
  have "proper (audit_segs rs)" using assms(1) by (simp add: audit_segs_def proper_seg_def)
  then show "path_segs (auditPath (abs_path rs)) = audit_segs rs" by (simp add: path)
qed

lemma audit_path_nul:
  assumes "proper rs" "rs \<noteq> []" "\<not> has_nul (abs_path rs)"
  shows "\<not> has_nul (auditPath (abs_path rs))"
proof -
  have "abs_path (audit_segs rs) = abs_path rs @ slash # join_with [slash] [''.void'', ''audit.log'']"
    using abs_path_append [OF assms(2), of "[''.void'', ''audit.log'']"] by (simp add: audit_segs_def)
  with assms show ?thesis by (simp add: audit_path has_nul_def)
qed

lemma put_file_known: "file_at p n = Some c \<Longrightarrow> \<exists>n'. put_file p c' now n = Inr n'"
proof (induction p c' now n rule: put_file.induct)
  case (4 s ss c' now es t)
  then show ?case by (auto split: option.splits)
qed auto

text \<open>Appending to a file that is there.\<close>

lemma append_known:
  assumes "file_at (path_segs full) tree = Some old" "\<not> has_nul full"
  shows "file_at q (append_file env full out tree) =
    (if q = path_segs full then Some (old @ out) else file_at q tree)"
proof -
  obtain t where "walk_tree (path_segs full) tree = Inr (File old t)"
    using file_at_walk [OF assms(1)] by blast
  with assms(2) have read: "read_file env full tree = Inr old" by (simp add: read_file_def)
  obtain n' where "put_file (path_segs full) (old @ out) (en_now env) tree = Inr n'"
    using put_file_known [OF assms(1)] by blast
  with assms(2) have "write_file env full (old @ out) tree = (return (), n')" by (simp add: write_file_def)
  with write_frame [OF this, of q] read show ?thesis by (simp add: append_file_def)
qed

text \<open>The text of the audit file: empty before its first line, None when it cannot be written.\<close>

definition log_text :: "string list \<Rightarrow> node \<Rightarrow> string option" where
  "log_text rs tree =
     (case file_at (audit_segs rs) tree of
        Some c \<Rightarrow> Some c
      | None \<Rightarrow>
          (case walk_tree (rs @ [''.void'']) tree of
             Inr (Dir es t) \<Rightarrow> if map_of es ''audit.log'' = None then Some [] else None
           | _ \<Rightarrow> None))"

lemma put_file_new:
  "walk_tree d n = Inr (Dir es t) \<Longrightarrow> map_of es f = None \<Longrightarrow> \<exists>n'. put_file (d @ [f]) c now n = Inr n'"
  by (induction d n rule: walk_tree.induct) (auto split: option.splits sum.splits)

lemma walk_missing:
  "walk_tree d n = Inr (Dir es t) \<Longrightarrow> map_of es f = None \<Longrightarrow> walk_tree (d @ [f]) n = Inl ENOENT"
  by (induction d n rule: walk_tree.induct) (auto split: option.splits)

lemma append_log:
  fixes env :: "'e env_scheme"
  assumes "proper rs" "rs \<noteq> []" "\<not> has_nul (abs_path rs)" "log_text rs tree = Some old"
    and tree'_def: "tree' = append_file env (auditPath (abs_path rs)) out tree"
  shows "log_text rs tree' = Some (old @ out)" "q \<noteq> audit_segs rs \<Longrightarrow> file_at q tree' = file_at q tree"
proof -
  note path = audit_path(2) [OF assms(1,2)] audit_path_nul [OF assms(1-3)]
  have "file_at q tree' = (if q = audit_segs rs then Some (old @ out) else file_at q tree)" for q
  proof (cases "file_at (audit_segs rs) tree")
    case (Some c)
    with assms(4) have "c = old" by (simp add: log_text_def)
    with Some append_known [of "auditPath (abs_path rs)" tree old q env out] path show ?thesis
      by (simp add: tree'_def)
  next
    case None
    then obtain es t where dir: "walk_tree (rs @ [''.void'']) tree = Inr (Dir es t)" "map_of es ''audit.log'' = None"
      and old: "old = []"
      using assms(4) by (auto simp: log_text_def split: sum.splits node.splits if_splits)
    have segs: "(rs @ [''.void'']) @ [''audit.log''] = audit_segs rs" by (simp add: audit_segs_def)
    obtain n' where "put_file (audit_segs rs) out (en_now env) tree = Inr n'"
      using put_file_new [OF dir, of out "en_now env"] unfolding segs by blast
    with path have w: "write_file env (auditPath (abs_path rs)) out tree = (return (), n')"
      by (simp add: write_file_def)
    moreover have "read_file env (auditPath (abs_path rs)) tree
        = throw (fs_error ENOENT ''open'' (auditPath (abs_path rs)))"
      using walk_missing [OF dir] path unfolding segs by (simp add: read_file_def)
    ultimately have "tree' = n'" by (simp add: tree'_def append_file_def)
    with write_frame [OF w, of q] old path(1) show ?thesis by simp
  qed
  then show "log_text rs tree' = Some (old @ out)" "q \<noteq> audit_segs rs \<Longrightarrow> file_at q tree' = file_at q tree"
    by (simp_all add: log_text_def)
qed

definition log_grows :: "string list \<Rightarrow> audit_entry list \<Rightarrow> node \<Rightarrow> node \<Rightarrow> bool" where
  "log_grows rs es tree tree' \<longleftrightarrow>
     (\<forall>old. log_text rs tree = Some old \<longrightarrow>
        log_text rs tree' = Some (old @ audit_text es) \<and>
        (\<forall>q. q \<noteq> audit_segs rs \<longrightarrow> file_at q tree' = file_at q tree))"

lemma log_grows_refl: "log_grows rs [] tree tree"
  by (simp add: log_grows_def audit_text_def)

lemma log_grows_trans: "log_grows rs es t t' \<Longrightarrow> log_grows rs es' t' t'' \<Longrightarrow> log_grows rs (es @ es') t t''"
  by (simp add: log_grows_def audit_text_def)

lemma flush_grows:
  assumes "proper rs" "rs \<noteq> []" "\<not> has_nul (abs_path rs)" "k_root k = abs_path rs"
  shows "log_grows rs es (k_fs k) (k_fs (flush_audit env es k))"
proof -
  let ?step = "\<lambda>e. append_file env (auditPath (abs_path rs)) (wire_line (audit_json e))"
  have "log_grows rs [e] t (?step e t)" for e t
    by (simp add: log_grows_def audit_text_def append_log [OF assms(1-3) _ refl])
  then have "log_grows rs es t (fold ?step es t)" for t
  proof (induction es arbitrary: t)
    case (Cons e es)
    from log_grows_trans [OF Cons.prems Cons.IH [OF Cons.prems]] show ?case by simp
  qed (simp add: log_grows_refl)
  with assms(4) show ?thesis by (simp add: flush_audit_def)
qed

text \<open>
  A locked kernel: all that a run of calls without the token does is to lengthen the audit.
  \<open>without_files k\<close> is everything but the audit and the files.
\<close>

definition without_files :: "kernel \<Rightarrow> kernel" where
  "without_files k = k\<lparr>g_audit := [], k_fs := Dir [] 0\<rparr>"

definition only_audited :: "string list \<Rightarrow> audit_entry list \<Rightarrow> kernel \<Rightarrow> kernel \<Rightarrow> bool" where
  "only_audited rs es k k' \<longleftrightarrow>
     without_files k' = without_files k \<and> g_audit k' = g_audit k @ es \<and> log_grows rs es (k_fs k) (k_fs k')"

lemma only_audited_refl: "only_audited rs [] k k"
  by (simp add: only_audited_def log_grows_refl)

lemma only_audited_trans:
  "only_audited rs es k k' \<Longrightarrow> only_audited rs es' k' k'' \<Longrightarrow> only_audited rs (es @ es') k k''"
  by (auto simp: only_audited_def intro: log_grows_trans)

lemma without_files_fields:
  assumes "without_files k' = without_files k"
  shows "g_mode k' = g_mode k" "g_token k' = g_token k" "g_grants k' = g_grants k" "k_root k' = k_root k"
    "locked k' = locked k"
proof -
  have "g_mode (without_files k') = g_mode (without_files k)" "g_token (without_files k') = g_token (without_files k)"
    "g_grants (without_files k') = g_grants (without_files k)" "k_root (without_files k') = k_root (without_files k)"
    using assms by simp_all
  then show "g_mode k' = g_mode k" "g_token k' = g_token k" "g_grants k' = g_grants k" "k_root k' = k_root k"
    by (simp_all add: without_files_def)
  then show "locked k' = locked k" by (simp add: locked_def)
qed

lemma locked_call:
  assumes "proper rs" "rs \<noteq> []" "\<not> has_nul (abs_path rs)" "k_root k = abs_path rs"
    and "locked k" "\<not> holds_token (g_token k) params"
  shows "\<exists>entry. only_audited rs [entry] k (snd (kernel_call env clk meth params k))"
proof -
  obtain entry where d: "snd (dispatch clk (kernel_registry env) meth params k) = audit_append entry k"
    using locked_dispatch [OF assms(5,6)] by blast
  let ?k1 = "audit_append entry k"
  have k1: "k_root ?k1 = abs_path rs" "k_fs ?k1 = k_fs k" "without_files ?k1 = without_files k"
    using assms(4) by (simp_all add: audit_append_def without_files_def)
  have "without_files (flush_audit env [entry] ?k1) = without_files ?k1"
    by (simp add: flush_audit_def without_files_def)
  with flush_grows [OF assms(1-3) k1(1), of "[entry]" env] k1
  have "only_audited rs [entry] k (flush_audit env [entry] ?k1)" by (simp add: only_audited_def)
  then show ?thesis by (auto simp: snd_kernel_call d)
qed

lemma locked_run:
  assumes "proper rs" "rs \<noteq> []" "\<not> has_nul (abs_path rs)" "k_root k = abs_path rs"
    and "locked k" "without_token (g_token k) reqs"
  shows "\<exists>es. length es = length reqs \<and> only_audited rs es k (snd (kernel_run reqs k))"
  using assms(4-6)
proof (induction reqs arbitrary: k)
  case Nil
  then show ?case by (auto intro: only_audited_refl)
next
  case (Cons req reqs)
  obtain env clk meth params where req: "req = (env, clk, meth, params)" by (cases req)
  with Cons.prems(3) have token: "\<not> holds_token (g_token k) params" "without_token (g_token k) reqs"
    by (simp_all add: without_token_def)
  let ?k' = "snd (kernel_call env clk meth params k)"
  obtain entry where one: "only_audited rs [entry] k ?k'"
    using locked_call [OF assms(1-3) Cons.prems(1,2) token(1)] by blast
  then have "without_files ?k' = without_files k" by (simp add: only_audited_def)
  note same = without_files_fields [OF this]
  obtain es where "length es = length reqs" "only_audited rs es ?k' (snd (kernel_run reqs ?k'))"
    using Cons.IH [of ?k'] Cons.prems(1,2) token(2) same by auto
  with only_audited_trans [OF one this(2)] show ?case
    by (intro exI [of _ "entry # es"]) (simp add: req snd_kernel_run_Cons)
qed

text \<open>What \<open>sys.audit\<close> reads back of such a file.\<close>

definition entry_ok :: "audit_entry \<Rightarrow> bool" where
  "entry_ok e \<longleftrightarrow> (case ae_ms e of None \<Rightarrow> True | Some m \<Rightarrow> \<bar>m\<bar> < 2 ^ 53)"

lemma audit_json_ok: "entry_ok e \<Longrightarrow> json_ok (audit_json e)"
  by (simp add: audit_json_def json_ok_object opt_field_def entry_ok_def date_json_def key_before_def
        is_index_def is_digit_def del: json_ok.simps(4) split: option.splits)

lemma audit_lines_text:
  assumes "proper rs" "rs \<noteq> []" "\<not> has_nul (abs_path rs)" "k_root k = abs_path rs"
    and "file_at (audit_segs rs) (k_fs k) = Some (audit_text es)"
  shows "audit_lines env k = map (\<lambda>e. stringify (audit_json e)) es"
proof -
  obtain t where "walk_tree (audit_segs rs) (k_fs k) = Inr (File (audit_text es) t)"
    using file_at_walk [OF assms(5)] by blast
  with assms(4) audit_path [OF assms(1,2)] audit_path_nul [OF assms(1-3)]
  have "audit_lines env k = filter (\<lambda>l. \<not> blank l) (split_lf (audit_text es))"
    by (simp add: audit_lines_def read_file_def)
  moreover have "audit_text es = concat (map wire_line (map audit_json es))"
    by (simp add: audit_text_def comp_def)
  moreover have "blank []" by (simp add: blank_def)
  ultimately show ?thesis
    by (simp only: split_lf_wire) (simp add: stringify_not_blank filter_empty_conv comp_def filter_id_conv)
qed

lemma parse_lines_stringify:
  "list_all json_ok vs \<Longrightarrow> parse_lines message (map stringify vs) = return vs"
  by (induction vs) (simp_all add: json_roundtrip)

section \<open>Boot\<close>

text \<open>\<open>process.env.VOID_POLICY ?? "guarded"\<close>, and guarded for anything that is no mode.\<close>

definition policy_mode :: "string option \<Rightarrow> mode" where
  "policy_mode policy =
     (let requested = (case policy of None \<Rightarrow> ''guarded'' | Some s \<Rightarrow> s)
      in case find (\<lambda>m. mode_str m = requested) [Permissive, Guarded, Paranoid] of
           Some m \<Rightarrow> m
         | None \<Rightarrow> Guarded)"

definition boot :: "kenv \<Rightarrow> string \<Rightarrow> string option \<Rightarrow> string \<Rightarrow> node \<Rightarrow> kernel result" where
  "boot env rootfs policy token tree =
     (let control = path_join [rootfs, ''.void'']
      in case mkdir_p env control tree of
           (Inl e, tree1) \<Rightarrow> throw e
         | (Inr _, tree1) \<Rightarrow>
             (case write_file env (path_join [control, ''operator.token'']) token tree1 of
                (Inl e, tree2) \<Rightarrow> throw e
              | (Inr _, tree2) \<Rightarrow>
                  return \<lparr>g_mode = policy_mode policy, g_grants = [], g_audit = [], g_token = token,
                          k_root = rootfs, k_procs = new_procman, k_services = new_supervisor,
                          k_scheduler = new_scheduler, k_net = new_net rootfs, k_desktop = new_wm,
                          k_fs = tree2\<rparr>))"

lemma policy_mode_permissive: "policy_mode policy = Permissive \<longleftrightarrow> policy = Some ''permissive''"
  by (auto simp: policy_mode_def Let_def split: option.split)

lemma boot_fields:
  assumes "boot env rootfs policy token tree = Inr k"
  shows "g_mode k = policy_mode policy" "g_grants k = []" "g_audit k = []" "g_token k = token" "k_root k = rootfs"
  using assms by (auto simp: boot_def Let_def split: sum.splits prod.splits)

lemma boot_locked:
  assumes "boot env rootfs policy token tree = Inr k" "policy \<noteq> Some ''permissive''"
  shows "locked k"
proof -
  have "g_mode k \<noteq> Permissive" using assms boot_fields(1) policy_mode_permissive by simp
  with boot_fields(2) [OF assms(1)] show ?thesis by (cases "g_mode k") (simp_all add: locked_def budget_def)
qed

section \<open>Shutdown\<close>

text \<open>\<open>shutdown\<close> on SIGINT and SIGTERM, in its order, before the process exits.\<close>

definition kernel_shutdown :: "kernel \<Rightarrow> kernel" where
  "kernel_shutdown k =
     (let k1 = k\<lparr>k_net := net_shutdown (k_net k)\<rparr>;
          k2 = k1\<lparr>k_scheduler := sc_shutdown (k_scheduler k1)\<rparr>;
          k3 = k2\<lparr>k_services := sv_shutdown (k_services k2)\<rparr>
      in k3\<lparr>k_procs := pm_shutdown (k_procs k3)\<rparr>)"

section \<open>A kernel for examples\<close>

definition demo_kenv :: kenv where
  "demo_kenv =
     \<lparr>en_now = 1000, en_cwd = ''/'', en_message = (\<lambda>s. ''refused''), en_dir_size = 4096,
      ke_spawn = Spawned 7, ke_signals = posix_signal,
      ke_exec = \<lparr>xr_allow = False, xr_spawn = Spawned 7, xr_events = [], xr_end = CloseEvent (Some 0)\<rparr>,
      ke_tree = Dir [] 0, ke_fetch = (\<lambda>url meth headers body. throw ''fetch failed''), ke_listen = None,
      ke_bad_port = (\<lambda>p. ''bad port''), ke_booted = 0, ke_host = (''host'', ''linux'', ''6.1'', 42),
      ke_uptime = 1000, ke_deflate = id\<rparr>"

definition demo_clock :: clock where
  "demo_clock = \<lparr>at_entry = 1000, at_start = 1000, at_end = 1001\<rparr>"

definition granted_kernel :: kernel where
  "granted_kernel =
     \<lparr>g_mode = Guarded, g_grants = [(''write'', Fin 1)], g_audit = [], g_token = ''secret'', k_root = ''/srv'',
      k_procs = new_procman, k_services = new_supervisor, k_scheduler = new_scheduler,
      k_net = new_net ''/srv'', k_desktop = empty_wm, k_fs = Dir [(''srv'', Dir [] 0)] 0\<rparr>"

end
