(* ===== verification/VoidScanout.thy ===== *)
theory VoidScanout
  imports VoidPng
begin

text \<open>
  kernel/src/desktop/surface.ts, scanout.ts and fbdemo.ts: the surface of the native demo, how a
  frame is put on the Linux framebuffer (bytes in the order blue, green, red, filler) and read
  back. The device is the bytes it holds; \<open>junk\<close> is what an unsafe buffer holds where a short read
  leaves it alone.
\<close>

section \<open>surface.ts\<close>

definition ambient_ring :: "double \<Rightarrow> double \<Rightarrow> double \<Rightarrow> int \<Rightarrow> framebuffer \<Rightarrow> framebuffer" where
  "ambient_ring cx cy Rmax i =
     circle cx cy (dtrunc (dmul Rmax (dsub (lit_frac 11 5) (dmul (dbl i) (lit_frac 1 20)))))
       (255, 138, 92) (lit_frac 12 1000)"

definition orb_colour :: "double \<Rightarrow> rgb" where
  "orb_colour t =
     (if \<not> dle (lit_frac 3 5) t then lerp (226, 92, 74) (255, 159, 122) (ddiv t (lit_frac 3 5))
      else lerp (255, 159, 122) (255, 247, 238) (ddiv (dsub t (lit_frac 3 5)) (lit_frac 2 5)))"

definition orb_ring :: "double \<Rightarrow> double \<Rightarrow> double \<Rightarrow> int \<Rightarrow> framebuffer \<Rightarrow> framebuffer" where
  "orb_ring cx cy Rmax i =
     (let t = ddiv (dbl i) (dbl 96); r = dmul Rmax (dsub (dbl 1) t)
      in circle cx cy (max 1 (dtrunc r)) (orb_colour t) (lit_frac 6 100))"

text \<open>\<open>(a - b * p) | 0\<close> and \<open>(b * p) | 0\<close>, shifted and scaled parts of the orb.\<close>

definition shifted :: "double \<Rightarrow> double \<Rightarrow> double \<Rightarrow> int" where
  "shifted a b p = dtrunc (dsub a (dmul b p))"

definition draw_orb :: "double \<Rightarrow> double \<Rightarrow> double \<Rightarrow> framebuffer \<Rightarrow> framebuffer" where
  "draw_orb cx cy Rmax fb0 =
     (let fb1 = fold (ambient_ring cx cy Rmax) [0..29] fb0;
          fb2 = fold (orb_ring cx cy Rmax) [0..96] fb1;
          fb3 = circle (dbl (shifted cx Rmax (lit_frac 22 100))) (dbl (shifted cy Rmax (lit_frac 28 100)))
                  (dtrunc (dmul Rmax (lit_frac 28 100))) (255, 255, 255) (lit_frac 18 100) fb2
      in circle cx (dbl (shifted cy Rmax (lit_frac 6 100))) (dtrunc (dmul Rmax (lit_frac 16 100)))
           (255, 250, 244) (lit_frac 1 2) fb3)"

definition draw_captions :: "int \<Rightarrow> int \<Rightarrow> string \<Rightarrow> framebuffer \<Rightarrow> framebuffer" where
  "draw_captions w h reply fb =
     (let row = take (nat (w div 12)) (toUpperCase reply); tw = textWidth row 3
      in draw_text row (max 16 (dtrunc (ddiv (dbl (w - tw)) (dbl 2)))) (dtrunc (dmul (dbl h) (lit_frac 78 100))) 3
           (243, 230, 221) (lit_frac 95 100)
           (draw_text ''NATIVE'' 36 30 2 (201, 158, 141) (lit_frac 55 100)
             (draw_text ''VOIDOS'' (w - textWidth ''VOIDOS'' 3 - 36) 30 3 (255, 188, 158) (lit_frac 92 100) fb)))"

definition renderSurface :: "int \<Rightarrow> int \<Rightarrow> string \<Rightarrow> framebuffer" where
  "renderSurface w h reply =
     (let cx = ddiv (dbl w) (dbl 2); cy = dmul (dbl h) (lit_frac 2 5);
          Rmax = dmul (dbl (min w h)) (lit_frac 34 100)
      in draw_captions w h reply
           (draw_orb cx cy Rmax (vGradient 0 0 w h (26, 11, 14) (9, 4, 5) (new_framebuffer w h))))"

section \<open>scanout.ts\<close>

fun swap_rb :: "byte list \<Rightarrow> byte list" where
  "swap_rb (r # g # b # a # px) = b # g # r # 255 # swap_rb px"
| "swap_rb px = []"

definition scanout :: "framebuffer \<Rightarrow> byte list \<Rightarrow> byte list" where
  "scanout fb dev = (let out = swap_rb (fb_px fb) in out @ drop (length out) dev)"

definition captureFb ::
  "(byte list \<Rightarrow> byte list) \<Rightarrow> byte list \<Rightarrow> int \<Rightarrow> int \<Rightarrow> byte list \<Rightarrow> byte list" where
  "captureFb deflate junk w h dev =
     (let size = nat (w * h * 4); got = take size dev; buf = got @ drop (length got) (take size junk)
      in encodePNG deflate w h (swap_rb buf))"

text \<open>fbdemo.ts: paint the surface, then read back what is on the screen.\<close>

definition fbdemo_shot :: "(byte list \<Rightarrow> byte list) \<Rightarrow> byte list \<Rightarrow> int \<Rightarrow> int \<Rightarrow> string \<Rightarrow> byte list \<Rightarrow> byte list" where
  "fbdemo_shot deflate junk w h reply dev = captureFb deflate junk w h (scanout (renderSurface w h reply) dev)"

section \<open>Reading back\<close>

lemma length_swap: "length px = 4 * n \<Longrightarrow> length (swap_rb px) = 4 * n"
proof (induction px arbitrary: n rule: swap_rb.induct)
  case (1 r g b a px)
  from 1(2) obtain m where n: "n = Suc m" by (cases n) auto
  with 1 show ?case by simp
qed (auto dest: arg_cong [where f = "\<lambda>k. k mod 4"])

lemma swap_swap:
  assumes "length px = 4 * n" "\<And>i. i < n \<Longrightarrow> px ! (4 * i + 3) = 255"
  shows "swap_rb (swap_rb px) = px"
  using assms
proof (induction px arbitrary: n rule: swap_rb.induct)
  case (1 r g b a px)
  from 1(2) obtain m where n: "n = Suc m" "length px = 4 * m" by (cases n) auto
  have "a = 255" using 1(3) [of 0] n by simp
  moreover have "px ! (4 * i + 3) = 255" if "i < m" for i
    using 1(3) [of "Suc i"] that n by (simp add: numeral_eq_Suc)
  ultimately show ?case using 1(1) [OF n(2)] by simp
qed (auto dest: arg_cong [where f = "\<lambda>k. k mod 4"])

lemma opaque_bytes:
  assumes "fb_wf fb" "\<And>x y. on_screen fb x y \<Longrightarrow> is_opaque fb x y" "i < nat (fb_w fb * fb_h fb)"
  shows "fb_px fb ! (4 * i + 3) = 255"
proof -
  define x where "x = int i mod fb_w fb"
  define y where "y = int i div fb_w fb"
  have wh: "0 \<le> fb_w fb" "0 \<le> fb_h fb" "int i < fb_w fb * fb_h fb" using assms(1,3) by (auto simp: fb_wf_def)
  then have w: "0 < fb_w fb" by (cases "fb_w fb = 0") auto
  have "y < fb_h fb"
  proof (rule ccontr)
    assume "\<not> y < fb_h fb"
    then have "fb_h fb * fb_w fb \<le> y * fb_w fb" using w by (intro mult_right_mono) simp_all
    moreover have "y * fb_w fb \<le> int i"
      using pos_mod_sign [OF w, of "int i"] by (simp add: y_def minus_mod_eq_div_mult [symmetric])
    ultimately show False using wh(3) by (simp add: mult.commute)
  qed
  moreover have "0 \<le> x" "x < fb_w fb" "0 \<le> y"
    using w pos_mod_sign [OF w, of "int i"] pos_mod_bound [OF w, of "int i"]
    by (simp_all add: x_def y_def pos_imp_zdiv_nonneg_iff)
  ultimately have on: "on_screen fb x y" by (simp add: on_screen_def)
  have "y * fb_w fb + x = int i" by (simp add: x_def y_def)
  then have ix: "pixel_index fb x y = 4 * i" by (simp add: pixel_index_def)
  from index_bound [OF on assms(1)] assms(2) [OF on] show ?thesis
    by (simp add: is_opaque_def pixel_def ix)
qed

text \<open>
  The capture of a scanned-out frame whose pixels are opaque is the PNG of that frame.
\<close>

lemma capture_opaque:
  assumes "fb_wf fb" "\<And>x y. on_screen fb x y \<Longrightarrow> is_opaque fb x y"
  shows "captureFb deflate junk (fb_w fb) (fb_h fb) (scanout fb dev) = toPNG deflate fb"
proof -
  let ?n = "nat (fb_w fb * fb_h fb)"
  have "0 \<le> fb_w fb * fb_h fb" using assms(1) by (simp add: fb_wf_def)
  then have size: "nat (fb_w fb * fb_h fb * 4) = 4 * ?n" by (simp add: nat_mult_distrib)
  with assms(1) have len: "length (fb_px fb) = 4 * ?n" by (simp add: fb_wf_def)
  have "swap_rb (swap_rb (fb_px fb)) = fb_px fb"
    using len opaque_bytes [OF assms] by (intro swap_swap)
  then show ?thesis
    by (simp add: captureFb_def scanout_def size length_swap [OF len] toPNG_def)
qed

lemma surface_opaque:
  assumes "0 \<le> w" "0 \<le> h"
  shows "fb_wf (renderSurface w h reply) \<and> fb_w (renderSurface w h reply) = w \<and> fb_h (renderSurface w h reply) = h \<and>
    (\<forall>x y. on_screen (renderSurface w h reply) x y \<longrightarrow> is_opaque (renderSurface w h reply) x y)"
proof -
  let ?fb = "new_framebuffer w h"
  let ?sky = "vGradient 0 0 w h (26, 11, 14) (9, 4, 5)"
  have wf: "fb_wf ?fb" and size: "fb_w ?fb = w" "fb_h ?fb = h"
    using assms by (simp_all add: new_framebuffer_wf) (simp_all add: new_framebuffer_def)
  have covered: "is_opaque (?sky ?fb) x y" if "on_screen ?fb x y" for x y
    by (rule rgba_opaque, rule vGradient_inside [OF wf that]) (use that size in \<open>simp add: on_screen_def\<close>)
  have disc: "paints UNIV (circle cx cy r c a)" for cx cy r c a by (rule paints_anywhere)
  have letters: "paints UNIV (draw_text str x y 3 c a)" "paints UNIV (draw_text str x y 2 c a)" for str x y c a
    by (intro paints_anywhere; simp)+
  have rings: "paints UNIV (fold (ambient_ring cx cy R) ks)" "paints UNIV (fold (orb_ring cx cy R) ks)" for cx cy R ks
    by (intro paints_fold; simp add: ambient_ring_def orb_ring_def Let_def disc)+
  have orb: "paints UNIV (draw_orb cx cy R)" for cx cy R
    unfolding draw_orb_def Let_def
    by (rule paints_after [OF paints_after [OF paints_after [OF rings] disc] disc])
  have captions: "paints UNIV (draw_captions w h reply)"
    unfolding draw_captions_def Let_def
    by (rule paints_after [OF paints_after [OF letters] letters(1)])
  have "paints UNIV ?sky" by (rule paints_anywhere)
  note base = paintsD [OF this wf]
  have "\<exists>cx cy R. renderSurface w h reply = draw_captions w h reply (draw_orb cx cy R (?sky ?fb))"
    unfolding renderSurface_def Let_def by blast
  then obtain cx cy R where drawn: "renderSurface w h reply = draw_captions w h reply (draw_orb cx cy R (?sky ?fb))"
    by blast
  note all = paintsD [OF paints_after [OF orb [of cx cy R] captions] base(1), folded drawn]
  show ?thesis using all(1-3,5,6) base(2,3,6) covered size by simp
qed

text \<open>
  The native demo reads back the picture it drew: for any sizes and text, and whatever the
  device held before, the shot is the PNG of the rendered surface.
\<close>

theorem fbdemo_shows_surface:
  assumes "0 \<le> w" "0 \<le> h"
  shows "fbdemo_shot deflate junk w h reply dev = toPNG deflate (renderSurface w h reply)"
  using capture_opaque [of "renderSurface w h reply" deflate junk dev] surface_opaque [OF assms, of reply]
  by (simp add: fbdemo_shot_def)

theorem fbdemo_shows_surface_witness:
  "fbdemo_shot id [] 1280 800 ''i am drawn'' [] = toPNG id (renderSurface 1280 800 ''i am drawn'')"
  by (rule fbdemo_shows_surface) simp_all

end
