(* ===== verification/VoidPage.thy ===== *)
theory VoidPage
  imports VoidPath VoidTransport
begin

text \<open>
  What the browser consoles (ui/static) share: the text helpers of os.js, and how a browser reads
  the HTML they build. An element the scripts make is the class and the HTML that the call of
  \<open>elNew\<close> is given. The reader below follows the tokenizer of HTML for the markup that
  these templates write: character data with the four references of \<open>esc\<close>, a tag up to the next
  greater-than sign outside of a quoted attribute; the NUL that a page drops and the carriage
  return that it reads as a line feed included.
\<close>

section \<open>Text helpers of os.js\<close>

definition esc_char :: "char \<Rightarrow> string" where
  "esc_char c =
     (if c = CHR ''&'' then ''&amp;''
      else if c = CHR ''<'' then ''&lt;''
      else if c = CHR ''>'' then ''&gt;''
      else if c = CHR 0x22 then ''&quot;''
      else [c])"

definition esc :: "string \<Rightarrow> string" where
  "esc s = concat (map esc_char s)"

text \<open>\<open>s.trim()\<close>.\<close>

definition trim :: "string \<Rightarrow> string" where
  "trim s =
     (let ws = (\<lambda>c. (of_char c :: nat) \<in> {9, 10, 11, 12, 13, 32, 160})
      in rev (dropWhile ws (rev (dropWhile ws s))))"

definition joinPath :: "string \<Rightarrow> string \<Rightarrow> string" where
  "joinPath b n = (if b \<noteq> [] \<and> last b = slash then b @ n else b @ [slash] @ n)"

text \<open>
  \<open>parentPath\<close>: \<open>q\<close> is the path without the slashes at its end, cut before its last slash;
  no slash, or only the first unit being one, gives the root.
\<close>

definition parentPath :: "string \<Rightarrow> string" where
  "parentPath p =
     (let q = rev (dropWhile (\<lambda>c. c = slash) (rev p));
          up = rev (tl (dropWhile (\<lambda>c. c \<noteq> slash) (rev q)))
      in if up = [] then [slash] else up)"

text \<open>\<open>path.split("/").pop()\<close>.\<close>

definition last_segment :: "string \<Rightarrow> string" where
  "last_segment p = last (split_slash p)"

lemma esc_simps [simp]: "esc [] = []" "esc (c # s) = esc_char c @ esc s" "esc (s @ t) = esc s @ esc t"
  by (simp_all add: esc_def)

section \<open>How a page reads HTML\<close>

datatype html_token = Txt string | Tag string

text \<open>The unit a less-than sign must be followed by to open a tag, an end tag or a comment.\<close>

definition opens_tag :: "string \<Rightarrow> bool" where
  "opens_tag s \<longleftrightarrow> s \<noteq> [] \<and>
     (hd s \<in> {CHR ''/'', CHR ''!'', CHR ''?''} \<or>
      (let n = (of_char (hd s) :: nat) in (65 \<le> n \<and> n \<le> 90) \<or> (97 \<le> n \<and> n \<le> 122)))"

text \<open>A character reference at the start of the text, and what is left.\<close>

definition references :: "(string \<times> char) list" where
  "references = [(''amp;'', CHR ''&''), (''lt;'', CHR ''<''), (''gt;'', CHR ''>''), (''quot;'', CHR 0x22)]"

definition char_ref :: "string \<Rightarrow> (char \<times> string) option" where
  "char_ref s =
     (case List.find (\<lambda>(name, c). prefix name s) references of
        None \<Rightarrow> None
      | Some (name, c) \<Rightarrow> Some (c, drop (length name) s))"

lemma char_ref_shorter: "char_ref s = Some (d, s') \<Longrightarrow> length s' \<le> length s"
  by (auto simp: char_ref_def split: option.splits)

text \<open>Character data: what is shown of it, and the rest, which is empty or opens a tag.\<close>

function html_text :: "string \<Rightarrow> string \<times> string" where
  "html_text [] = ([], [])"
| "html_text (c # s) =
     (if c = CHR ''<'' \<and> opens_tag s then ([], c # s)
      else case (if c = CHR ''&'' then char_ref s else None) of
        Some (d, s') \<Rightarrow> apfst (Cons d) (html_text s')
      | None \<Rightarrow>
          if c = CHR 0x00 then html_text s
          else if c = CHR 0x0D then
            apfst (Cons (CHR 0x0A)) (html_text (if s \<noteq> [] \<and> hd s = CHR 0x0A then tl s else s))
          else apfst (Cons c) (html_text s))"
  by pat_completeness auto
termination
  by (relation "measure length") (auto dest: char_ref_shorter split: if_splits)

text \<open>The inside of a tag, up to the sign that closes it; \<open>q\<close> is the open quote.\<close>

fun scan_tag :: "char option \<Rightarrow> string \<Rightarrow> string \<times> string" where
  "scan_tag q [] = ([], [])"
| "scan_tag q (c # s) =
     (if q = None \<and> c = CHR ''>'' then ([], s)
      else apfst (Cons c)
        (scan_tag (if q = Some c then None
                   else if q = None \<and> (c = CHR 0x22 \<or> c = CHR 0x27) then Some c else q) s))"

lemma html_text_rest: "snd (html_text s) = [] \<or> hd (snd (html_text s)) = CHR ''<''"
  by (induction s rule: html_text.induct) (auto split: prod.splits option.splits if_splits)

lemma html_text_shorter: "length (snd (html_text s)) \<le> length s"
proof (induction s rule: html_text.induct)
  case (2 c s)
  show ?case
  proof (cases "if c = CHR ''&'' then char_ref s else None")
    case None
    with 2 show ?thesis
      by (cases "c = CHR ''<'' \<and> opens_tag s"; cases "c = CHR 0x00"; cases "c = CHR 0x0D")
        (auto intro: le_SucI split: if_splits)
  next
    case (Some r)
    obtain d s' where r: "r = (d, s')" by (cases r)
    with Some have "length s' \<le> length s" by (auto dest: char_ref_shorter split: if_splits)
    moreover have "c = CHR ''<'' \<and> opens_tag s \<or> length (snd (html_text s')) \<le> length s'"
      using 2 Some r by blast
    ultimately show ?thesis using Some r by auto
  qed
qed simp

lemma scan_tag_shorter: "length (snd (scan_tag q s)) \<le> length s"
  by (induction q s rule: scan_tag.induct) (auto intro: le_SucI)

definition text_token :: "string \<Rightarrow> html_token list" where
  "text_token t = (if t = [] then [] else [Txt t])"

function html_tokens :: "string \<Rightarrow> html_token list" where
  "html_tokens s =
     text_token (fst (html_text s)) @
     (let rest = snd (html_text s)
      in if rest = [] then []
         else Tag (fst (scan_tag None (tl rest))) # html_tokens (snd (scan_tag None (tl rest))))"
  by pat_completeness auto
termination
proof (relation "measure length")
  fix s rest assume "rest = snd (html_text s)" "rest \<noteq> []"
  with html_text_shorter [of s] scan_tag_shorter [of None "tl rest"]
  show "(snd (scan_tag None (tl rest)), s) \<in> measure length"
    by (cases "snd (html_text s)") auto
qed simp

declare html_tokens.simps [simp del]

definition html_tags :: "string \<Rightarrow> string list" where
  "html_tags s = concat (map (\<lambda>t. case t of Tag x \<Rightarrow> [x] | Txt x \<Rightarrow> []) (html_tokens s))"

text \<open>What a page shows of a text: no NUL, and every line end as a line feed.\<close>

fun shown :: "string \<Rightarrow> string" where
  "shown [] = []"
| "shown (c # s) =
     (if c = CHR 0x00 then shown s
      else if c = CHR 0x0D then CHR 0x0A # shown (if s \<noteq> [] \<and> hd s = CHR 0x0A then tl s else s)
      else c # shown s)"

definition tag_start :: "string \<Rightarrow> bool" where
  "tag_start s \<longleftrightarrow> s = [] \<or> (hd s = CHR ''<'' \<and> opens_tag (tl s))"

lemma tag_start_simps [simp]: "tag_start []" "tag_start (CHR ''<'' # s) \<longleftrightarrow> opens_tag s"
  by (simp_all add: tag_start_def)

lemma html_text_start: "tag_start s \<Longrightarrow> html_text s = ([], s)"
  by (cases s) (auto simp: tag_start_def)

lemma char_ref_esc:
  "char_ref (CHR ''a'' # CHR ''m'' # CHR ''p'' # CHR '';'' # s) = Some (CHR ''&'', s)"
  "char_ref (CHR ''l'' # CHR ''t'' # CHR '';'' # s) = Some (CHR ''<'', s)"
  "char_ref (CHR ''g'' # CHR ''t'' # CHR '';'' # s) = Some (CHR ''>'', s)"
  "char_ref (CHR ''q'' # CHR ''u'' # CHR ''o'' # CHR ''t'' # CHR '';'' # s) = Some (CHR 0x22, s)"
  by (simp_all add: char_ref_def references_def)

lemma esc_head:
  assumes "tag_start rest"
  shows "esc s @ rest \<noteq> [] \<and> hd (esc s @ rest) = CHR 0x0A \<longleftrightarrow> s \<noteq> [] \<and> hd s = CHR 0x0A"
  using assms by (cases s; cases rest) (auto simp: esc_char_def tag_start_def)

lemma esc_tail: "s \<noteq> [] \<and> hd s = CHR 0x0A \<Longrightarrow> tl (esc s @ rest) = esc (tl s) @ rest"
  by (cases s) (auto simp: esc_char_def)

text \<open>Escaped text is read as that text, up to the tag that follows it.\<close>

lemma html_text_esc: "tag_start rest \<Longrightarrow> html_text (esc s @ rest) = (shown s, rest)"
proof (induction s rule: shown.induct)
  case 1
  then show ?case by (simp add: html_text_start)
next
  case (2 c s)
  show ?case
  proof (cases "c = CHR 0x0D")
    case True
    then show ?thesis using 2 esc_head [OF "2.prems", of s] esc_tail [of s rest]
      by (auto simp: esc_char_def)
  next
    case False
    then show ?thesis using 2 by (auto simp: esc_char_def char_ref_esc)
  qed
qed

lemma tokens_esc:
  assumes "tag_start rest"
  shows "html_tokens (esc s @ rest) = text_token (shown s) @ html_tokens rest"
  by (subst html_tokens.simps, subst (2) html_tokens.simps)
    (simp add: html_text_esc [OF assms] html_text_start [OF assms] text_token_def)

lemma tokens_Nil [simp]: "html_tokens [] = []"
  by (subst html_tokens.simps) (simp add: text_token_def)

lemma tokens_tag:
  "opens_tag s \<Longrightarrow>
   html_tokens (CHR ''<'' # s) = Tag (fst (scan_tag None s)) # html_tokens (snd (scan_tag None s))"
  by (subst html_tokens.simps) (simp add: text_token_def Let_def)

lemma tags_simps [simp]:
  "html_tags [] = []" "tag_start rest \<Longrightarrow> html_tags (esc s @ rest) = html_tags rest"
  "opens_tag s \<Longrightarrow> html_tags (CHR ''<'' # s) = fst (scan_tag None s) # html_tags (snd (scan_tag None s))"
  by (simp_all add: html_tags_def tokens_esc tokens_tag text_token_def)

lemma opens_tag_simps [simp]:
  "opens_tag [] = False"
  "opens_tag (c # s) \<longleftrightarrow>
     c \<in> {CHR ''/'', CHR ''!'', CHR ''?''} \<or>
     (let n = (of_char c :: nat) in (65 \<le> n \<and> n \<le> 90) \<or> (97 \<le> n \<and> n \<le> 122))"
  by (simp_all add: opens_tag_def)

text \<open>Start and end tag of an element with a class, as the templates write them.\<close>

definition tag_class :: "string \<Rightarrow> string \<Rightarrow> string" where
  "tag_class t c = ''<'' @ t @ '' class='' @ [CHR 0x22] @ c @ [CHR 0x22] @ ''>''"

definition end_tag :: "string \<Rightarrow> string" where
  "end_tag t = ''</'' @ t @ ''>''"

text \<open>Names of elements: nothing in them ends a tag or opens a quote.\<close>

definition plain_name :: "string \<Rightarrow> bool" where
  "plain_name t \<longleftrightarrow> opens_tag t \<and> list_all (\<lambda>c. c \<notin> {CHR ''>'', CHR 0x22, CHR 0x27}) t"

definition class_token :: "string \<Rightarrow> string \<Rightarrow> html_token" where
  "class_token t c = Tag (t @ '' class='' @ [CHR 0x22] @ c @ [CHR 0x22])"

lemma scan_plain:
  "list_all (\<lambda>c. c \<notin> {CHR ''>'', CHR 0x22, CHR 0x27}) t \<Longrightarrow>
   scan_tag None (t @ s) = (t @ fst (scan_tag None s), snd (scan_tag None s))"
  by (induction t) auto

lemma scan_quoted:
  "q \<notin> set c \<Longrightarrow> scan_tag (Some q) (c @ q # s) = (c @ q # fst (scan_tag None s), snd (scan_tag None s))"
  by (induction c) (auto simp: prod_eq_iff)

lemma opens_append [simp]: "opens_tag t \<Longrightarrow> opens_tag (t @ s)"
  by (cases t) auto

lemma tag_start_class [simp]: "plain_name t \<Longrightarrow> tag_start (tag_class t c @ X)"
  by (simp add: tag_class_def plain_name_def)

lemma tag_start_end [simp]: "tag_start (end_tag t @ X)"
  by (simp add: end_tag_def)

lemma tokens_class [simp]:
  assumes "plain_name t" "CHR 0x22 \<notin> set c"
  shows "html_tokens (tag_class t c @ X) = class_token t c # html_tokens X"
proof -
  have "scan_tag None (t @ '' class='' @ CHR 0x22 # c @ CHR 0x22 # CHR ''>'' # X)
      = (t @ '' class='' @ CHR 0x22 # c @ [CHR 0x22], X)"
    using assms by (simp add: scan_plain scan_quoted plain_name_def)
  with assms(1) show ?thesis
    by (simp add: tag_class_def class_token_def tokens_tag plain_name_def)
qed

lemma tokens_end [simp]:
  assumes "plain_name t"
  shows "html_tokens (end_tag t @ X) = Tag (slash # t) # html_tokens X"
proof -
  have "scan_tag None (slash # t @ CHR ''>'' # X) = (slash # t, X)"
    using assms scan_plain [of "slash # t" "CHR ''>'' # X"] by (simp add: plain_name_def)
  then show ?thesis by (simp add: end_tag_def tokens_tag)
qed

section \<open>Paths\<close>

text \<open>The parent of a path of proper names is the path without its last name.\<close>

lemma join_snoc: "join_with sep (xs @ [x]) = (if xs = [] then x else join_with sep xs @ sep @ x)"
  by (induction sep xs rule: join_with.induct) auto

lemma abs_path_snoc: "abs_path (rs @ [n]) = (if rs = [] then slash # n else abs_path rs @ slash # n)"
  by (simp add: abs_path_def join_snoc)

lemma abs_path_last:
  assumes "proper rs" "rs \<noteq> []"
  shows "last (abs_path rs) \<noteq> slash"
proof -
  have "proper_seg (last rs)" using assms by (simp add: list_all_iff)
  then have "last rs \<noteq> []" "last (last rs) \<noteq> slash"
    by (auto simp: proper_seg_def dest: last_in_set)
  moreover have "abs_path rs = (if butlast rs = [] then slash # last rs else abs_path (butlast rs) @ slash # last rs)"
    using abs_path_snoc [of "butlast rs" "last rs"] assms(2) by simp
  ultimately show ?thesis by simp
qed

lemma parentPath_snoc:
  assumes "proper rs" "proper_seg n"
  shows "parentPath (abs_path (rs @ [n])) = abs_path rs"
proof -
  have n: "n \<noteq> []" "slash \<notin> set n" using assms(2) by (simp_all add: proper_seg_def)
  then have "rev n \<noteq> []" "hd (rev n) \<noteq> slash" by (auto simp: hd_rev dest: last_in_set)
  then have strip: "dropWhile (\<lambda>c. c = slash) (rev n @ p) = rev n @ p" for p
    by (cases "rev n") simp_all
  have cut: "dropWhile (\<lambda>c. c \<noteq> slash) (rev n @ slash # p) = slash # p" for p
    using n(2) by (subst dropWhile_append2) auto
  have some: "abs_path rs \<noteq> []" by (simp add: abs_path_def)
  have "rev (abs_path (rs @ [n])) = rev n @ slash # (if rs = [] then [] else rev (abs_path rs))"
    by (simp add: abs_path_snoc)
  then show ?thesis using some by (simp add: parentPath_def strip cut Let_def) (simp add: abs_path_def)
qed

lemma parentPath_root: "parentPath (abs_path []) = abs_path []"
  by (simp add: parentPath_def abs_path_def Let_def)

lemma joinPath_abs:
  assumes "proper rs"
  shows "joinPath (abs_path rs) n = abs_path (rs @ [n])"
proof (cases "rs = []")
  case False
  with abs_path_last [OF assms] show ?thesis
    by (simp add: joinPath_def abs_path_snoc abs_path_def join_snoc)
qed (simp add: joinPath_def abs_path_def)

end
