(* ===== verification/VoidUi.thy ===== *)
theory VoidUi
  imports VoidPage VoidBoot
begin

text \<open>
  How the scripts of the browser run. An event listener of a page changes the state of the page
  and may wait: for the answer of \<open>fetch\<close>, with the page going on meanwhile, or for the user in a
  \<open>prompt\<close> or \<open>confirm\<close>, with everything stopped. A listener is a program of the type \<open>prog\<close>: where
  it waits for a fetch it hands out the state, and what follows is a function of the answer and of
  the state the page is in by then. A page is its state and the calls that wait; its events
  are listeners and answers, in any order. \<open>sys\<close> is the call of the gate in os.js, \<open>api_syscall\<close> the
  route of server.py behind it, which leads to the kernel.
\<close>

section \<open>Programs that wait\<close>

datatype 's prog =
    Done 's
  | Fetch 's string json "json result \<Rightarrow> 's \<Rightarrow> 's prog"
  | Prompt string string "string option \<Rightarrow> 's prog"
  | Confirm string "bool \<Rightarrow> 's prog"

text \<open>What a page gets from the browser: the answers of the user, and facts of the platform.\<close>

record browser =
  br_says :: "string \<Rightarrow> string \<Rightarrow> string option"   \<comment> \<open>prompt(message, default)\<close>
  br_agrees :: "string \<Rightarrow> bool"                     \<comment> \<open>confirm(message)\<close>
  br_type_error :: string                           \<comment> \<open>the engine's text for a field of null\<close>
  br_collate :: "string \<Rightarrow> string \<Rightarrow> int"            \<comment> \<open>localeCompare\<close>
  br_width :: int                                   \<comment> \<open>clientWidth of the desktop\<close>
  br_height :: int                                  \<comment> \<open>clientHeight of the desktop\<close>

datatype 's call = Call string json "json result \<Rightarrow> 's \<Rightarrow> 's prog"

text \<open>Run to the end or to the next fetch, dialogs answered on the spot.\<close>

primrec suspend :: "browser \<Rightarrow> 's prog \<Rightarrow> 's \<times> 's call list" where
  "suspend br (Done s) = (s, [])"
| "suspend br (Fetch s url body k) = (s, [Call url body k])"
| "suspend br (Prompt msg dflt k) = suspend br (k (br_says br msg dflt))"
| "suspend br (Confirm msg k) = suspend br (k (br_agrees br msg))"

text \<open>Run to the end with nothing in between: every fetch is answered at once by \<open>g\<close>.\<close>

primrec play :: "browser \<Rightarrow> (string \<Rightarrow> json \<Rightarrow> 'k \<Rightarrow> json result \<times> 'k) \<Rightarrow> 's prog \<Rightarrow> 'k \<Rightarrow> 's \<times> 'k" where
  "play br g (Done s) w = (s, w)"
| "play br g (Fetch s url body k) w = play br g (k (fst (g url body w)) s) (snd (g url body w))"
| "play br g (Prompt msg dflt k) w = play br g (k (br_says br msg dflt)) w"
| "play br g (Confirm msg k) w = play br g (k (br_agrees br msg)) w"

section \<open>Pages\<close>

record 's page =
  pg_state :: 's
  pg_calls :: "'s call list"

datatype 'a page_event = Act 'a | Answer nat "json result"

definition settle_page :: "browser \<Rightarrow> 's prog \<Rightarrow> 's page \<Rightarrow> 's page" where
  "settle_page br p pg =
     pg\<lparr>pg_state := fst (suspend br p), pg_calls := pg_calls pg @ snd (suspend br p)\<rparr>"

text \<open>An answer goes to the call it belongs to, in whatever order answers come.\<close>

fun page_step :: "browser \<Rightarrow> ('a \<Rightarrow> 's \<Rightarrow> 's prog) \<Rightarrow> 'a page_event \<Rightarrow> 's page \<Rightarrow> 's page" where
  "page_step br act (Act a) pg = settle_page br (act a (pg_state pg)) pg"
| "page_step br act (Answer i r) pg =
     (if i < length (pg_calls pg) then
        (case pg_calls pg ! i of Call url body k \<Rightarrow>
           settle_page br (k r (pg_state pg))
             (pg\<lparr>pg_calls := take i (pg_calls pg) @ drop (Suc i) (pg_calls pg)\<rparr>))
      else pg)"

definition open_page :: "'s \<Rightarrow> 's page" where
  "open_page s = \<lparr>pg_state = s, pg_calls = []\<rparr>"

text \<open>
  A program keeps \<open>P\<close> and calls only what \<open>Q\<close> allows: whatever the answers and whatever the page
  did meanwhile, as long as that kept \<open>P\<close> too.
\<close>

primrec safe_prog :: "('s \<Rightarrow> bool) \<Rightarrow> (string \<Rightarrow> json \<Rightarrow> bool) \<Rightarrow> 's prog \<Rightarrow> bool" where
  "safe_prog P Q (Done s) = P s"
| "safe_prog P Q (Fetch s url body k) =
     (P s \<and> Q url body \<and> (\<forall>r s'. P s' \<longrightarrow> safe_prog P Q (k r s')))"
| "safe_prog P Q (Prompt msg dflt k) = (\<forall>x. safe_prog P Q (k x))"
| "safe_prog P Q (Confirm msg k) = (\<forall>b. safe_prog P Q (k b))"

primrec safe_call :: "('s \<Rightarrow> bool) \<Rightarrow> (string \<Rightarrow> json \<Rightarrow> bool) \<Rightarrow> 's call \<Rightarrow> bool" where
  "safe_call P Q (Call url body k) = (Q url body \<and> (\<forall>r s. P s \<longrightarrow> safe_prog P Q (k r s)))"

definition safe_page :: "('s \<Rightarrow> bool) \<Rightarrow> (string \<Rightarrow> json \<Rightarrow> bool) \<Rightarrow> 's page \<Rightarrow> bool" where
  "safe_page P Q pg \<longleftrightarrow> P (pg_state pg) \<and> list_all (safe_call P Q) (pg_calls pg)"

lemma suspend_safe:
  "safe_prog P Q p \<Longrightarrow> P (fst (suspend br p)) \<and> list_all (safe_call P Q) (snd (suspend br p))"
  by (induction p) auto

lemma settle_safe:
  "safe_prog P Q p \<Longrightarrow> list_all (safe_call P Q) (pg_calls pg) \<Longrightarrow> safe_page P Q (settle_page br p pg)"
  using suspend_safe [of P Q p br] by (simp add: safe_page_def settle_page_def)

lemma open_page_safe [simp]: "safe_page P Q (open_page s) = P s"
  by (simp add: safe_page_def open_page_def)

text \<open>The interface of a page: listeners that keep its invariant and its bounds on calls.\<close>

locale page_machine =
  fixes act :: "'a \<Rightarrow> 's \<Rightarrow> 's prog"
    and P :: "'s \<Rightarrow> bool"
    and Q :: "string \<Rightarrow> json \<Rightarrow> bool"
  assumes act_safe: "P s \<Longrightarrow> safe_prog P Q (act a s)"
begin

lemma page_step_safe:
  assumes "safe_page P Q pg"
  shows "safe_page P Q (page_step br act e pg)"
proof (cases e)
  case (Act a)
  with assms show ?thesis by (auto simp: safe_page_def intro!: settle_safe [unfolded safe_page_def] act_safe)
next
  case (Answer i r)
  show ?thesis
  proof (cases "i < length (pg_calls pg)")
    case True
    obtain url body k where k: "pg_calls pg ! i = Call url body k" by (cases "pg_calls pg ! i")
    with True assms have "safe_call P Q (Call url body k)"
      by (auto simp: safe_page_def list_all_length)
    moreover have "list_all (safe_call P Q) (take i (pg_calls pg) @ drop (Suc i) (pg_calls pg))"
      using assms by (auto simp: safe_page_def list_all_iff dest: in_set_takeD in_set_dropD)
    moreover have "P (pg_state pg)" using assms by (simp add: safe_page_def)
    ultimately show ?thesis using True k Answer by (auto intro!: settle_safe)
  qed (use assms Answer in simp)
qed

end

sublocale page_machine \<subseteq> event_machine "page_step br act" "\<lambda>e s. True" "safe_page P Q" for br
  by unfold_locales (rule page_step_safe)

lemma runs_true: "runs step (\<lambda>e s. True) s es"
  by (induction es arbitrary: s) auto

context page_machine begin

lemma page_runs_safe: "P s \<Longrightarrow> safe_page P Q (fold (page_step br act) es (open_page s))"
  by (rule run_inv) (simp_all add: runs_true)

end

section \<open>The gate of os.js\<close>

text \<open>\<open>v.k\<close>: null has no fields; a value that is no object has none of those that are read here.\<close>

definition prop_of :: "browser \<Rightarrow> string \<Rightarrow> json \<Rightarrow> json result" where
  "prop_of br k v =
     (case v of
        JNull \<Rightarrow> throw (br_type_error br)
      | JObj ps \<Rightarrow> return (case map_of ps k of None \<Rightarrow> JNull | Some x \<Rightarrow> x)
      | _ \<Rightarrow> return JNull)"

text \<open>What \<open>sys\<close> makes of the answer \<open>d\<close>.\<close>

definition sys_answer :: "browser \<Rightarrow> json result \<Rightarrow> json result" where
  "sys_answer br r =
     (case r of
        Inl e \<Rightarrow> throw e
      | Inr d \<Rightarrow>
          (case prop_of br ''error'' d of
             Inl e \<Rightarrow> throw e
           | Inr e \<Rightarrow>
               if truthy e then throw (case js_string e of Some s \<Rightarrow> s | None \<Rightarrow> br_type_error br)
               else prop_of br ''result'' d))"

definition sys :: "browser \<Rightarrow> string \<Rightarrow> jobject \<Rightarrow> 's \<Rightarrow> (json result \<Rightarrow> 's \<Rightarrow> 's prog) \<Rightarrow> 's prog" where
  "sys br meth params s k =
     Fetch s ''/api/syscall'' (JObj [(''method'', JStr meth), (''params'', JObj params)])
       (\<lambda>r. k (sys_answer br r))"

text \<open>A call of the gate for one of the given methods.\<close>

definition calls_only :: "string list \<Rightarrow> string \<Rightarrow> json \<Rightarrow> bool" where
  "calls_only ms url body \<longleftrightarrow> url = ''/api/syscall'' \<and>
     (case field body ''method'' of Some (JStr m) \<Rightarrow> m \<in> set ms | _ \<Rightarrow> False)"

lemma safe_sys:
  "safe_prog P (calls_only ms) (sys br meth params s k) \<longleftrightarrow>
     P s \<and> meth \<in> set ms \<and> (\<forall>r s'. P s' \<longrightarrow> safe_prog P (calls_only ms) (k (sys_answer br r) s'))"
  by (simp add: sys_def calls_only_def field_def)

section \<open>The route to the kernel\<close>

text \<open>\<open>/api/syscall\<close> of server.py, for a body with a method: the result, or code and message.\<close>

definition api_syscall :: "kenv \<Rightarrow> clock \<Rightarrow> json \<Rightarrow> kernel \<Rightarrow> json \<times> kernel" where
  "api_syscall env clk body k =
     (case (field body ''method'', field body ''params'') of
        (Some (JStr meth), Some (JObj params)) \<Rightarrow>
          (case kernel_call env clk meth params k of
             (Inl e, k') \<Rightarrow> (JObj [(''error'', JStr (err_code e @ '': '' @ err_message e))], k')
           | (Inr v, k') \<Rightarrow> (JObj [(''result'', v)], k'))
      | _ \<Rightarrow> (JObj [(''error'', JStr ''missing method'')], k))"

text \<open>The answers a page gets: those of the kernel, and \<open>other\<close> for any other route.\<close>

definition console_gate ::
  "kenv \<Rightarrow> clock \<Rightarrow> (string \<Rightarrow> json \<Rightarrow> json result) \<Rightarrow> string \<Rightarrow> json \<Rightarrow> kernel \<Rightarrow> json result \<times> kernel" where
  "console_gate env clk other url body k =
     (if url = ''/api/syscall'' then apfst return (api_syscall env clk body k)
      else (other url body, k))"

lemma play_sys:
  "play br (console_gate env clk other) (sys br meth params s kont) k =
     (case kernel_call env clk meth params k of
        (Inl e, k') \<Rightarrow>
          play br (console_gate env clk other) (kont (throw (err_code e @ '': '' @ err_message e)) s) k'
      | (Inr v, k') \<Rightarrow> play br (console_gate env clk other) (kont (return v) s) k')"
  by (simp add: sys_def console_gate_def api_syscall_def field_def sys_answer_def prop_of_def
      split: prod.splits sum.splits)

end
