(* ===== verification/VoidDesk.thy ===== *)
theory VoidDesk
  imports VoidUi
begin

text \<open>
  The window manager of os.js: windows of the document with their style, stacking, drags, the
  table of singletons and the intervals of windows that refresh themselves. A window is named by
  its index in the order of creation; one that is closed keeps its index but has left the
  document. What layout reports (\<open>offsetLeft\<close>, \<open>offsetWidth\<close>) comes with the event. The em dash has the
  stand-in 0x97.
\<close>

section \<open>Icons\<close>

definition ICONS :: "(string \<times> string) list" where
  \<open>ICONS =
    [(''folder'', ''<path d="M20 20a2 2 0 0 0 2-2V8a2 2 0 0 0-2-2h-7.9a2 2 0 0 1-1.69-.9L9.6 3.9A2 2 0 0 0 7.93 3H4a2 2 0 0 0-2 2v13a2 2 0 0 0 2 2Z"/>''),
     (''file'', ''<path d="M15 2H6a2 2 0 0 0-2 2v16a2 2 0 0 0 2 2h12a2 2 0 0 0 2-2V7Z"/><path d="M14 2v5h5"/>''),
     (''terminal'', ''<polyline points="4 17 10 11 4 5"/><line x1="12" y1="19" x2="20" y2="19"/>''),
     (''pencil'', ''<path d="M12 20h9"/><path d="M16.5 3.5a2.121 2.121 0 0 1 3 3L7 19l-4 1 1-4Z"/>''),
     (''cpu'', ''<rect x="4" y="4" width="16" height="16" rx="2"/><rect x="9" y="9" width="6" height="6"/><path d="M9 2v2M15 2v2M9 20v2M15 20v2M2 9h2M2 15h2M20 9h2M20 15h2"/>''),
     (''shield'', ''<path d="M12 22s8-4 8-10V5l-8-3-8 3v7c0 6 8 10 8 10Z"/>''),
     (''activity'', ''<polyline points="22 12 18 12 15 21 9 3 6 12 2 12"/>''),
     (''sparkles'', ''<path d="M12 3l1.9 5.8a2 2 0 0 0 1.3 1.3L21 12l-5.8 1.9a2 2 0 0 0-1.3 1.3L12 21l-1.9-5.8a2 2 0 0 0-1.3-1.3L3 12l5.8-1.9a2 2 0 0 0 1.3-1.3Z"/>''),
     (''power'', ''<path d="M12 2v10"/><path d="M18.36 6.64a9 9 0 1 1-12.73 0"/>''),
     (''monitor'', ''<rect x="2" y="3" width="20" height="14" rx="2"/><path d="M8 21h8M12 17v4"/>'')]\<close>

definition icon :: "string \<Rightarrow> string" where
  \<open>icon name =
     ''<svg viewBox="0 0 24 24" fill="none" stroke="currentColor" stroke-width="2" stroke-linecap="round" stroke-linejoin="round">'' @
     (case map_of ICONS name of Some p \<Rightarrow> p | None \<Rightarrow> []) @ ''</svg>''\<close>

section \<open>State\<close>

record css_box =
  cb_left :: int
  cb_top :: int
  cb_width :: int
  cb_height :: int

record win_opts =
  wo_app :: string
  wo_key :: "string option"
  wo_title :: string
  wo_icon :: "string option"
  wo_w :: int
  wo_h :: int
  wo_x :: "int option"
  wo_y :: "int option"
  wo_every :: "int option"             \<comment> \<open>the interval that \<open>build\<close> sets\<close>

record bwin =
  bw_app :: string
  bw_key :: "string option"
  bw_head :: string                    \<comment> \<open>the HTML of the title\<close>
  bw_box :: css_box
  bw_z :: nat
  bw_open :: bool                      \<comment> \<open>the element is in the document\<close>
  bw_shown :: bool                     \<comment> \<open>no display: none\<close>
  bw_focused :: bool
  bw_opening :: bool
  bw_lit :: bool                       \<comment> \<open>the colour of its entry in the task bar\<close>
  bw_timer :: "nat option"
  bw_max :: "css_box option"
  bw_moves :: "(int \<times> int \<times> int \<times> int) list"     \<comment> \<open>sx, sy, ox, oy of each drag that goes on\<close>
  bw_sizes :: "(int \<times> int \<times> int \<times> int) list"

record bwm =
  bm_wins :: "bwin list"
  bm_z :: nat
  bm_cascade :: nat
  bm_single :: "(string \<times> nat) list"
  bm_intervals :: "(nat \<times> int) list"
  bm_next :: nat

definition new_bwm :: bwm where
  "new_bwm = \<lparr>bm_wins = [], bm_z = 10, bm_cascade = 0, bm_single = [], bm_intervals = [], bm_next = 1\<rparr>"

definition set_win :: "nat \<Rightarrow> (bwin \<Rightarrow> bwin) \<Rightarrow> bwm \<Rightarrow> bwm" where
  "set_win i f s = s\<lparr>bm_wins := (bm_wins s)[i := f (bm_wins s ! i)]\<rparr>"

section \<open>Windows\<close>

text \<open>Every focused window of the document loses the focus, then \<open>i\<close> gets it and the top.\<close>

definition refocus :: "nat \<Rightarrow> nat \<Rightarrow> nat \<Rightarrow> bwin \<Rightarrow> bwin" where
  "refocus i z j w =
     (if j = i then w\<lparr>bw_z := z, bw_focused := True, bw_lit := True\<rparr>
      else if bw_open w then w\<lparr>bw_focused := False\<rparr> else w)"

definition focusWin :: "nat \<Rightarrow> bwm \<Rightarrow> bwm" where
  "focusWin i s =
     s\<lparr>bm_z := bm_z s + 1,
       bm_wins := map (\<lambda>(j, w). refocus i (bm_z s + 1) j w) (List.enumerate 0 (bm_wins s))\<rparr>"

definition title_html :: "win_opts \<Rightarrow> string" where
  "title_html opts =
     (case wo_icon opts of None \<Rightarrow> [] | Some i \<Rightarrow> tag_class ''span'' ''ico'' @ icon i @ ''</span>'') @
     esc (wo_title opts)"

definition fresh_win :: "win_opts \<Rightarrow> nat \<Rightarrow> bwin" where
  "fresh_win opts cascade =
     (let cx = 70 + int (cascade mod 7) * 34; cy = 56 + int (cascade mod 7) * 30
      in \<lparr>bw_app = wo_app opts, bw_key = wo_key opts, bw_head = title_html opts,
          bw_box = \<lparr>cb_left = (case wo_x opts of Some x \<Rightarrow> x | None \<Rightarrow> cx),
                    cb_top = (case wo_y opts of Some y \<Rightarrow> y | None \<Rightarrow> cy),
                    cb_width = wo_w opts, cb_height = wo_h opts\<rparr>,
          bw_z = 0, bw_open = True, bw_shown = True, bw_focused = False, bw_opening = True, bw_lit = False,
          bw_timer = None, bw_max = None, bw_moves = [], bw_sizes = []\<rparr>)"

text \<open>\<open>win.timer = setInterval(refresh, ms)\<close>.\<close>

definition start_interval :: "nat \<Rightarrow> int \<Rightarrow> bwm \<Rightarrow> bwm" where
  "start_interval i ms s =
     set_win i (\<lambda>w. w\<lparr>bw_timer := Some (bm_next s)\<rparr>)
       (s\<lparr>bm_intervals := bm_intervals s @ [(bm_next s, ms)], bm_next := bm_next s + 1\<rparr>)"

definition createWindow :: "win_opts \<Rightarrow> bwm \<Rightarrow> nat \<times> bwm" where
  "createWindow opts s =
     (let i = length (bm_wins s);
          s1 = focusWin i (s\<lparr>bm_wins := bm_wins s @ [fresh_win opts (bm_cascade s)], bm_cascade := bm_cascade s + 1\<rparr>);
          s2 = (case wo_key opts of
                  None \<Rightarrow> s1
                | Some k \<Rightarrow> s1\<lparr>bm_single := AList.update k i (bm_single s1)\<rparr>)
      in (i, case wo_every opts of None \<Rightarrow> s2 | Some ms \<Rightarrow> start_interval i ms s2))"

definition closeWin :: "nat \<Rightarrow> bwm \<Rightarrow> bwm" where
  "closeWin i s =
     (let w = bm_wins s ! i;
          s1 = (case bw_timer w of
                  None \<Rightarrow> s
                | Some t \<Rightarrow> s\<lparr>bm_intervals := AList.delete t (bm_intervals s)\<rparr>);
          s2 = set_win i (\<lambda>w. w\<lparr>bw_open := False\<rparr>) s1
      in case bw_key w of
           None \<Rightarrow> s2
         | Some k \<Rightarrow> if map_of (bm_single s2) k = Some i then s2\<lparr>bm_single := AList.delete k (bm_single s2)\<rparr> else s2)"

definition show_win :: "nat \<Rightarrow> bwm \<Rightarrow> bwm" where
  "show_win i s = focusWin i (set_win i (\<lambda>w. w\<lparr>bw_shown := True\<rparr>) s)"

definition openSingle :: "string \<Rightarrow> (bwm \<Rightarrow> nat \<times> bwm) \<Rightarrow> bwm \<Rightarrow> nat \<times> bwm" where
  "openSingle key factory s =
     (case map_of (bm_single s) key of
        Some i \<Rightarrow> (i, show_win i s)
      | None \<Rightarrow> factory s)"

section \<open>Pointer\<close>

text \<open>The part of a window that is hit; a press on the head goes on to the window.\<close>

datatype win_part = Light | Head | Resize | Body

definition win_down :: "nat \<Rightarrow> win_part \<Rightarrow> int \<times> int \<Rightarrow> int \<times> int \<Rightarrow> bwm \<Rightarrow> bwm" where
  "win_down i part pos offset s =
     (case (pos, offset) of ((x, y), (a, b)) \<Rightarrow>
        (case part of
           Light \<Rightarrow> focusWin i s
         | Head \<Rightarrow> focusWin i (set_win i (\<lambda>w. w\<lparr>bw_moves := bw_moves w @ [(x, y, a, b)]\<rparr>) (focusWin i s))
         | Resize \<Rightarrow> set_win i (\<lambda>w. w\<lparr>bw_sizes := bw_sizes w @ [(x, y, a, b)]\<rparr>) s
         | Body \<Rightarrow> focusWin i s))"

definition drag_box :: "int \<Rightarrow> int \<Rightarrow> int \<times> int \<times> int \<times> int \<Rightarrow> css_box \<Rightarrow> css_box" where
  "drag_box x y d bx =
     (case d of (sx, sy, ox, oy) \<Rightarrow> bx\<lparr>cb_left := max 0 (ox + x - sx), cb_top := max 30 (oy + y - sy)\<rparr>)"

definition size_box :: "int \<Rightarrow> int \<Rightarrow> int \<times> int \<times> int \<times> int \<Rightarrow> css_box \<Rightarrow> css_box" where
  "size_box x y d bx =
     (case d of (sx, sy, ow, oh) \<Rightarrow> bx\<lparr>cb_width := max 260 (ow + x - sx), cb_height := max 150 (oh + y - sy)\<rparr>)"

text \<open>Moves and releases on the head or on the corner reach every drag that goes on there.\<close>

definition head_move :: "nat \<Rightarrow> int \<Rightarrow> int \<Rightarrow> bwm \<Rightarrow> bwm" where
  "head_move i x y = set_win i (\<lambda>w. w\<lparr>bw_box := fold (drag_box x y) (bw_moves w) (bw_box w)\<rparr>)"

definition head_up :: "nat \<Rightarrow> bwm \<Rightarrow> bwm" where
  "head_up i = set_win i (\<lambda>w. w\<lparr>bw_moves := []\<rparr>)"

definition corner_move :: "nat \<Rightarrow> int \<Rightarrow> int \<Rightarrow> bwm \<Rightarrow> bwm" where
  "corner_move i x y = set_win i (\<lambda>w. w\<lparr>bw_box := fold (size_box x y) (bw_sizes w) (bw_box w)\<rparr>)"

definition corner_up :: "nat \<Rightarrow> bwm \<Rightarrow> bwm" where
  "corner_up i = set_win i (\<lambda>w. w\<lparr>bw_sizes := []\<rparr>)"

definition minimize :: "nat \<Rightarrow> bwm \<Rightarrow> bwm" where
  "minimize i = set_win i (\<lambda>w. w\<lparr>bw_shown := False\<rparr>)"

text \<open>A negative width or height is no CSS value: the assignment leaves the style as it was.\<close>

definition css_size :: "int \<Rightarrow> int \<Rightarrow> int" where
  "css_size old new = (if new < 0 then old else new)"

definition zoom_win :: "browser \<Rightarrow> bwin \<Rightarrow> bwin" where
  "zoom_win br w =
     (case bw_max w of
        Some bx \<Rightarrow> w\<lparr>bw_box := bx, bw_max := None\<rparr>
      | None \<Rightarrow>
          w\<lparr>bw_max := Some (bw_box w),
            bw_box := \<lparr>cb_left = 8, cb_top = 38,
                       cb_width = css_size (cb_width (bw_box w)) (br_width br - 16),
                       cb_height = css_size (cb_height (bw_box w)) (br_height br - 90)\<rparr>\<rparr>)"

definition zoom :: "browser \<Rightarrow> nat \<Rightarrow> bwm \<Rightarrow> bwm" where
  "zoom br i = set_win i (zoom_win br)"

section \<open>Apps\<close>

definition app_opts :: "string \<Rightarrow> string \<Rightarrow> string \<Rightarrow> int \<Rightarrow> int \<Rightarrow> int option \<Rightarrow> win_opts" where
  "app_opts key title ico w h every =
     \<lparr>wo_app = key, wo_key = Some key, wo_title = title, wo_icon = Some ico, wo_w = w, wo_h = h,
      wo_x = None, wo_y = None, wo_every = every\<rparr>"

definition editor_opts :: "string \<Rightarrow> win_opts" where
  "editor_opts path =
     (app_opts (''editor:'' @ path) (if path = ''/'' then ''Editor'' else last_segment path) ''pencil'' 520 380 None)
       \<lparr>wo_app := ''editor''\<rparr>"

text \<open>The windows of \<open>openApp\<close>, by the name of the app.\<close>

definition app_windows :: "(string \<times> win_opts) list" where
  "app_windows =
     [(''files'', app_opts ''files'' ''Files'' ''folder'' 560 420 None),
      (''terminal'', app_opts ''terminal'' ''Terminal'' ''terminal'' 600 360 None),
      (''editor'', editor_opts ''/''),
      (''system'', app_opts ''system'' ''System'' ''cpu'' 420 280 (Some 3000)),
      (''services'', app_opts ''services'' ''Services'' ''shield'' 480 320 (Some 2000)),
      (''processes'', app_opts ''processes'' ''Processes'' ''activity'' 480 320 (Some 2000)),
      (''mind'', app_opts ''mind'' ''Mind'' ''sparkles'' 460 440 None),
      (''screen'', app_opts ''screen'' (''Screen '' @ [CHR 0x97] @ '' native apps'') ''monitor'' 960 660 None)]"

definition open_with :: "win_opts \<Rightarrow> bwm \<Rightarrow> nat \<times> bwm" where
  "open_with opts s =
     (case wo_key opts of None \<Rightarrow> createWindow opts s | Some k \<Rightarrow> openSingle k (createWindow opts) s)"

definition openApp :: "string \<Rightarrow> bwm \<Rightarrow> bwm" where
  "openApp app s = (case map_of app_windows app of None \<Rightarrow> s | Some opts \<Rightarrow> snd (open_with opts s))"

definition openEditor :: "string \<Rightarrow> bwm \<Rightarrow> bwm" where
  "openEditor path s = snd (open_with (editor_opts path) s)"

datatype desk_event =
    OpenApp string
  | OpenEditor string
  | WinDown nat win_part "int \<times> int" "int \<times> int"
  | HeadMove nat int int
  | HeadUp nat
  | CornerMove nat int int
  | CornerUp nat
  | CloseClick nat
  | MinimizeClick nat
  | ZoomClick nat
  | TaskClick nat
  | Opened nat

fun desk_step :: "browser \<Rightarrow> desk_event \<Rightarrow> bwm \<Rightarrow> bwm" where
  "desk_step br (OpenApp a) s = openApp a s"
| "desk_step br (OpenEditor p) s = openEditor p s"
| "desk_step br (WinDown i part pos offset) s = win_down i part pos offset s"
| "desk_step br (HeadMove i x y) s = head_move i x y s"
| "desk_step br (HeadUp i) s = head_up i s"
| "desk_step br (CornerMove i x y) s = corner_move i x y s"
| "desk_step br (CornerUp i) s = corner_up i s"
| "desk_step br (CloseClick i) s = closeWin i s"
| "desk_step br (MinimizeClick i) s = minimize i s"
| "desk_step br (ZoomClick i) s = zoom br i s"
| "desk_step br (TaskClick i) s = show_win i s"
| "desk_step br (Opened i) s = set_win i (\<lambda>w. w\<lparr>bw_opening := False\<rparr>) s"

text \<open>The window of an event other than an opening or a timer is in the document.\<close>

definition in_document :: "bwm \<Rightarrow> nat \<Rightarrow> bool" where
  "in_document s i \<longleftrightarrow> i < length (bm_wins s) \<and> bw_open (bm_wins s ! i)"

fun desk_enabled :: "desk_event \<Rightarrow> bwm \<Rightarrow> bool" where
  "desk_enabled (OpenApp a) s = True"
| "desk_enabled (OpenEditor p) s = True"
| "desk_enabled (WinDown i part pos offset) s = in_document s i"
| "desk_enabled (HeadMove i x y) s = in_document s i"
| "desk_enabled (HeadUp i) s = in_document s i"
| "desk_enabled (CornerMove i x y) s = in_document s i"
| "desk_enabled (CornerUp i) s = in_document s i"
| "desk_enabled (CloseClick i) s = in_document s i"
| "desk_enabled (MinimizeClick i) s = in_document s i"
| "desk_enabled (ZoomClick i) s = in_document s i"
| "desk_enabled (TaskClick i) s = in_document s i"
| "desk_enabled (Opened i) s = (i < length (bm_wins s))"

section \<open>Invariant\<close>

abbreviation win :: "bwm \<Rightarrow> nat \<Rightarrow> bwin" where
  "win s i \<equiv> bm_wins s ! i"

text \<open>What the document shows of window \<open>i\<close>.\<close>

definition doc_of :: "(bwin \<Rightarrow> 'a option) \<Rightarrow> bwm \<Rightarrow> nat \<Rightarrow> 'a option" where
  "doc_of f s i = (if in_document s i then f (win s i) else None)"

abbreviation key_of :: "bwm \<Rightarrow> nat \<Rightarrow> string option" where "key_of \<equiv> doc_of bw_key"
abbreviation timer_of :: "bwm \<Rightarrow> nat \<Rightarrow> nat option" where "timer_of \<equiv> doc_of bw_timer"
abbreviation level_of :: "bwm \<Rightarrow> nat \<Rightarrow> nat option" where "level_of \<equiv> doc_of (\<lambda>w. Some (bw_z w))"

abbreviation focus_of :: "bwm \<Rightarrow> nat \<Rightarrow> unit option" where
  "focus_of \<equiv> doc_of (\<lambda>w. if bw_focused w then Some () else None)"

text \<open>The head is not above the screen nor left of it, and will not be when the zoom ends.\<close>

definition placed :: "css_box \<Rightarrow> bool" where
  "placed b \<longleftrightarrow> 0 \<le> cb_left b \<and> 30 \<le> cb_top b"

definition well_placed :: "bwin \<Rightarrow> bool" where
  "well_placed w \<longleftrightarrow> placed (bw_box w) \<and> (case bw_max w of None \<Rightarrow> True | Some b \<Rightarrow> placed b)"

definition places_ok :: "bwm \<Rightarrow> bool" where
  "places_ok s \<longleftrightarrow> list_all well_placed (bm_wins s)"

text \<open>No two windows share a level, and only the topmost one has the focus.\<close>

definition stack_ok :: "bwm \<Rightarrow> bool" where
  "stack_ok s \<longleftrightarrow>
     (\<forall>i z. level_of s i = Some z \<longrightarrow> z \<le> bm_z s) \<and>
     (\<forall>i. focus_of s i \<noteq> None \<longrightarrow> level_of s i = Some (bm_z s)) \<and>
     (\<forall>i j z. level_of s i = Some z \<and> level_of s j = Some z \<longrightarrow> i = j)"

text \<open>The table of singletons names exactly the windows with a key: one window a key.\<close>

definition singles_ok :: "bwm \<Rightarrow> bool" where
  "singles_ok s \<longleftrightarrow> map_wf (bm_single s) \<and>
     (\<forall>k i. map_of (bm_single s) k = Some i \<longleftrightarrow> key_of s i = Some k)"

text \<open>The intervals that run are those of the windows in the document.\<close>

definition timers_ok :: "bwm \<Rightarrow> bool" where
  "timers_ok s \<longleftrightarrow> map_wf (bm_intervals s) \<and>
     (\<forall>t. map_of (bm_intervals s) t \<noteq> None \<longleftrightarrow> (\<exists>i. timer_of s i = Some t)) \<and>
     (\<forall>i j t. timer_of s i = Some t \<and> timer_of s j = Some t \<longrightarrow> i = j) \<and>
     (\<forall>i t. timer_of s i = Some t \<longrightarrow> t < bm_next s)"

definition desk_inv :: "bwm \<Rightarrow> bool" where
  "desk_inv s \<longleftrightarrow> places_ok s \<and> stack_ok s \<and> singles_ok s \<and> timers_ok s"

lemma set_win_fields [simp]:
  "length (bm_wins (set_win i f s)) = length (bm_wins s)" "bm_z (set_win i f s) = bm_z s"
  "bm_single (set_win i f s) = bm_single s" "bm_intervals (set_win i f s) = bm_intervals s"
  "bm_next (set_win i f s) = bm_next s" "bm_cascade (set_win i f s) = bm_cascade s"
  by (simp_all add: set_win_def)

lemma win_set: "j < length (bm_wins s) \<Longrightarrow> win (set_win i f s) j = (if j = i then f (win s i) else win s j)"
  by (simp add: set_win_def)

lemma focus_fields [simp]:
  "length (bm_wins (focusWin i s)) = length (bm_wins s)" "bm_z (focusWin i s) = bm_z s + 1"
  "bm_single (focusWin i s) = bm_single s" "bm_intervals (focusWin i s) = bm_intervals s"
  "bm_next (focusWin i s) = bm_next s" "bm_cascade (focusWin i s) = bm_cascade s"
  by (simp_all add: focusWin_def)

lemma win_focus: "j < length (bm_wins s) \<Longrightarrow> win (focusWin i s) j = refocus i (bm_z s + 1) j (win s j)"
  by (simp add: focusWin_def nth_enumerate_eq)

lemma refocus_fields [simp]:
  "bw_box (refocus i z j w) = bw_box w" "bw_max (refocus i z j w) = bw_max w"
  "bw_open (refocus i z j w) = bw_open w" "bw_key (refocus i z j w) = bw_key w"
  "bw_timer (refocus i z j w) = bw_timer w" "bw_shown (refocus i z j w) = bw_shown w"
  "bw_z (refocus i z j w) = (if j = i then z else bw_z w)"
  "bw_open w \<Longrightarrow> bw_focused (refocus i z j w) \<longleftrightarrow> j = i"
  by (simp_all add: refocus_def)

lemma in_document_focus [simp]: "in_document (focusWin i s) j = in_document s j"
  by (auto simp: in_document_def win_focus)

lemma in_document_set:
  "in_document (set_win i f s) j \<longleftrightarrow>
     (if j = i then i < length (bm_wins s) \<and> bw_open (f (win s i)) else in_document s j)"
  by (auto simp: in_document_def win_set)

lemma in_document_length: "in_document s i \<Longrightarrow> i < length (bm_wins s)"
  by (simp add: in_document_def)

lemma doc_of_focus:
  "doc_of f (focusWin i s) j =
     (if in_document s j then f (refocus i (bm_z s + 1) j (win s j)) else None)"
  by (simp add: doc_of_def win_focus in_document_length)

lemma doc_of_set:
  "doc_of f (set_win i g s) j =
     (if j = i then if i < length (bm_wins s) \<and> bw_open (g (win s i)) then f (g (win s i)) else None
      else doc_of f s j)"
  by (auto simp: doc_of_def in_document_set win_set dest: in_document_length)

text \<open>Changes of one window that leave alone all but its place and its looks.\<close>

definition cosmetic :: "(bwin \<Rightarrow> bwin) \<Rightarrow> bool" where
  "cosmetic f \<longleftrightarrow> (\<forall>w.
     bw_open (f w) = bw_open w \<and> bw_z (f w) = bw_z w \<and> bw_focused (f w) = bw_focused w \<and>
     bw_key (f w) = bw_key w \<and> bw_timer (f w) = bw_timer w \<and> (well_placed w \<longrightarrow> well_placed (f w)))"

lemma places_set:
  assumes "places_ok s" "\<And>w. well_placed w \<Longrightarrow> well_placed (f w)"
  shows "places_ok (set_win i f s)"
  using assms by (cases "i < length (bm_wins s)") (auto simp: places_ok_def set_win_def list_all_length nth_list_update)

lemma desk_inv_cosmetic:
  assumes "desk_inv s" "cosmetic f"
  shows "desk_inv (set_win i f s)"
proof -
  have same: "doc_of g (set_win i f s) = doc_of g s" if "\<And>w. g (f w) = g w" for g :: "bwin \<Rightarrow> 'b option"
    using assms(2) that by (auto simp: fun_eq_iff doc_of_set cosmetic_def) (auto simp: doc_of_def in_document_def)
  have "key_of (set_win i f s) = key_of s" "timer_of (set_win i f s) = timer_of s"
    "level_of (set_win i f s) = level_of s" "focus_of (set_win i f s) = focus_of s"
    using assms(2) by (auto intro!: same simp: cosmetic_def)
  moreover have "places_ok (set_win i f s)"
    using assms by (auto simp: desk_inv_def cosmetic_def intro!: places_set)
  ultimately show ?thesis
    using assms(1) by (simp add: desk_inv_def stack_ok_def singles_ok_def timers_ok_def)
qed

lemma focus_keeps [simp]: "key_of (focusWin i s) = key_of s" "timer_of (focusWin i s) = timer_of s"
  by (simp_all add: fun_eq_iff doc_of_focus) (simp_all add: doc_of_def)

lemma focus_level:
  "level_of (focusWin i s) j = (if j = i \<and> in_document s i then Some (bm_z s + 1) else level_of s j)"
  by (simp add: doc_of_focus) (simp add: doc_of_def)

lemma focus_focus: "focus_of (focusWin i s) j \<noteq> None \<longleftrightarrow> j = i \<and> in_document s i"
  by (simp add: doc_of_focus in_document_def)

lemma focus_places: "places_ok s \<Longrightarrow> places_ok (focusWin i s)"
  by (simp add: places_ok_def focusWin_def list_all_length nth_enumerate_eq well_placed_def)

lemma level_bound: "stack_ok s \<Longrightarrow> level_of s j = Some z \<Longrightarrow> z \<le> bm_z s"
  by (simp add: stack_ok_def)

lemma level_unique: "stack_ok s \<Longrightarrow> level_of s i = Some z \<Longrightarrow> level_of s j = Some z \<Longrightarrow> i = j"
  by (simp add: stack_ok_def)

lemma focus_stack:
  assumes "stack_ok s"
  shows "stack_ok (focusWin i s)"
  unfolding stack_ok_def
proof (intro conjI allI impI)
  fix j z assume "level_of (focusWin i s) j = Some z"
  then show "z \<le> bm_z (focusWin i s)"
    using level_bound [OF assms, of j z] by (simp add: focus_level split: if_splits)
next
  fix j assume "focus_of (focusWin i s) j \<noteq> None"
  then show "level_of (focusWin i s) j = Some (bm_z (focusWin i s))"
    by (simp only: focus_focus focus_level) simp
next
  fix j j' z assume "level_of (focusWin i s) j = Some z \<and> level_of (focusWin i s) j' = Some z"
  then show "j = j'"
    using level_bound [OF assms, of j z] level_bound [OF assms, of j' z] level_unique [OF assms, of j z j']
    by (simp add: focus_level split: if_splits)
qed

lemma desk_inv_focus: "desk_inv s \<Longrightarrow> desk_inv (focusWin i s)"
  by (simp add: desk_inv_def focus_places focus_stack singles_ok_def timers_ok_def)

section \<open>Opening and closing keep it\<close>

lemma in_document_append:
  "in_document (s\<lparr>bm_wins := bm_wins s @ [w], bm_cascade := c\<rparr>) j \<longleftrightarrow>
     (if j = length (bm_wins s) then bw_open w else in_document s j)"
  by (auto simp: in_document_def nth_append)

lemma doc_of_append:
  "bw_open w \<Longrightarrow> doc_of f (s\<lparr>bm_wins := bm_wins s @ [w], bm_cascade := c\<rparr>) j =
     (if j = length (bm_wins s) then f w else doc_of f s j)"
  by (auto simp: doc_of_def in_document_append nth_append in_document_def)

lemma doc_of_update [simp]:
  "doc_of f (s\<lparr>bm_single := x\<rparr>) = doc_of f s"
  "doc_of f (s\<lparr>bm_intervals := y\<rparr>) = doc_of f s"
  "doc_of f (s\<lparr>bm_intervals := y, bm_next := z\<rparr>) = doc_of f s"
  "in_document (s\<lparr>bm_single := x\<rparr>) = in_document s"
  "in_document (s\<lparr>bm_intervals := y\<rparr>) = in_document s"
  "in_document (s\<lparr>bm_intervals := y, bm_next := z\<rparr>) = in_document s"
  by (simp_all add: fun_eq_iff doc_of_def in_document_def)

lemma places_update [simp]:
  "places_ok (s\<lparr>bm_single := x\<rparr>) = places_ok s"
  "places_ok (s\<lparr>bm_intervals := y\<rparr>) = places_ok s"
  "places_ok (s\<lparr>bm_intervals := y, bm_next := z\<rparr>) = places_ok s"
  by (simp_all add: places_ok_def)

lemma start_interval_docs:
  assumes "in_document s i"
  shows "timer_of (start_interval i ms s) j = (if j = i then Some (bm_next s) else timer_of s j)"
    "key_of (start_interval i ms s) = key_of s" "level_of (start_interval i ms s) = level_of s"
    "focus_of (start_interval i ms s) = focus_of s"
    "in_document (start_interval i ms s) = in_document s"
    "places_ok s \<Longrightarrow> places_ok (start_interval i ms s)"
  using assms
  by (auto simp: start_interval_def doc_of_set fun_eq_iff in_document_set well_placed_def intro!: places_set)
    (auto simp: doc_of_def in_document_def)

text \<open>The window a creation opens is fresh, placed, on top and has the focus.\<close>

definition opts_ok :: "win_opts \<Rightarrow> bool" where
  "opts_ok opts \<longleftrightarrow> (case wo_x opts of None \<Rightarrow> True | Some x \<Rightarrow> 0 \<le> x) \<and> (case wo_y opts of None \<Rightarrow> True | Some y \<Rightarrow> 30 \<le> y)"

definition placed_window :: "win_opts \<Rightarrow> bwm \<Rightarrow> bwm" where
  "placed_window opts s =
     focusWin (length (bm_wins s))
       (s\<lparr>bm_wins := bm_wins s @ [fresh_win opts (bm_cascade s)], bm_cascade := bm_cascade s + 1\<rparr>)"

definition registered :: "win_opts \<Rightarrow> bwm \<Rightarrow> bwm" where
  "registered opts s =
     (case wo_key opts of
        None \<Rightarrow> placed_window opts s
      | Some k \<Rightarrow> (placed_window opts s)\<lparr>bm_single := AList.update k (length (bm_wins s)) (bm_single s)\<rparr>)"

lemma createWindow_parts:
  "createWindow opts s =
     (length (bm_wins s),
      case wo_every opts of None \<Rightarrow> registered opts s | Some ms \<Rightarrow> start_interval (length (bm_wins s)) ms (registered opts s))"
  by (simp add: createWindow_def registered_def placed_window_def Let_def split: option.splits)

lemma fresh_win_fields [simp]:
  "bw_open (fresh_win opts c)" "bw_key (fresh_win opts c) = wo_key opts" "bw_timer (fresh_win opts c) = None"
  "bw_shown (fresh_win opts c)"
  by (simp_all add: fresh_win_def Let_def)

lemma fresh_win_placed: "opts_ok opts \<Longrightarrow> well_placed (fresh_win opts c)"
  by (simp add: fresh_win_def Let_def well_placed_def placed_def opts_ok_def split: option.splits)

lemma registered_docs:
  fixes s :: bwm
  defines "n \<equiv> length (bm_wins s)"
  shows "in_document (registered opts s) j \<longleftrightarrow> j = n \<or> in_document s j"
    "key_of (registered opts s) j = (if j = n then wo_key opts else key_of s j)"
    "timer_of (registered opts s) j = (if j = n then None else timer_of s j)"
    "level_of (registered opts s) j = (if j = n then Some (bm_z s + 1) else level_of s j)"
    "focus_of (registered opts s) j \<noteq> None \<longleftrightarrow> j = n"
    "bm_z (registered opts s) = bm_z s + 1" "bm_next (registered opts s) = bm_next s"
    "bm_intervals (registered opts s) = bm_intervals s" "length (bm_wins (registered opts s)) = n + 1"
    "bw_shown (win (registered opts s) n)"
    "opts_ok opts \<Longrightarrow> places_ok s \<Longrightarrow> places_ok (registered opts s)"
proof -
  have eq: "in_document (registered opts s) = in_document (placed_window opts s)"
    "doc_of f (registered opts s) = doc_of f (placed_window opts s)"
    "bm_wins (registered opts s) = bm_wins (placed_window opts s)"
    "places_ok (registered opts s) = places_ok (placed_window opts s)" for f :: "bwin \<Rightarrow> 'b option"
    by (simp_all add: registered_def split: option.splits)
  show "in_document (registered opts s) j \<longleftrightarrow> j = n \<or> in_document s j"
    by (simp add: eq placed_window_def n_def in_document_append)
  show "key_of (registered opts s) j = (if j = n then wo_key opts else key_of s j)"
    by (simp add: eq placed_window_def n_def doc_of_append)
  show "timer_of (registered opts s) j = (if j = n then None else timer_of s j)"
    by (simp add: eq placed_window_def n_def doc_of_append)
  show "level_of (registered opts s) j = (if j = n then Some (bm_z s + 1) else level_of s j)"
    by (simp add: eq placed_window_def n_def focus_level doc_of_append in_document_append)
  show "focus_of (registered opts s) j \<noteq> None \<longleftrightarrow> j = n"
    unfolding eq placed_window_def focus_focus n_def by (simp add: in_document_append)
  show "bm_z (registered opts s) = bm_z s + 1" "bm_next (registered opts s) = bm_next s"
    "bm_intervals (registered opts s) = bm_intervals s" "length (bm_wins (registered opts s)) = n + 1"
    by (simp_all add: registered_def placed_window_def n_def split: option.splits)
  show "bw_shown (win (registered opts s) n)"
    by (simp add: eq placed_window_def n_def win_focus)
  show "places_ok (registered opts s)" if "opts_ok opts" "places_ok s"
    using that unfolding eq placed_window_def
    by (intro focus_places) (simp add: places_ok_def fresh_win_placed)
qed

lemma singles_lookup: "singles_ok s \<Longrightarrow> map_of (bm_single s) k = Some i \<longleftrightarrow> key_of s i = Some k"
  by (simp add: singles_ok_def)

lemma key_unique:
  assumes "singles_ok s" "key_of s i = Some k" "key_of s j = Some k"
  shows "i = j"
  using singles_lookup [OF assms(1), of k i] singles_lookup [OF assms(1), of k j] assms(2,3) by simp

lemma timer_unique: "timers_ok s \<Longrightarrow> timer_of s i = Some t \<Longrightarrow> timer_of s j = Some t \<Longrightarrow> i = j"
  by (simp add: timers_ok_def)

lemma timer_bound: "timers_ok s \<Longrightarrow> timer_of s i = Some t \<Longrightarrow> t < bm_next s"
  by (simp add: timers_ok_def)

lemma timer_running: "timers_ok s \<Longrightarrow> map_of (bm_intervals s) t \<noteq> None \<longleftrightarrow> (\<exists>i. timer_of s i = Some t)"
  by (simp add: timers_ok_def)

lemma no_window_yet: "doc_of f s (length (bm_wins s)) = None"
  by (simp add: doc_of_def in_document_def)

lemma desk_inv_registered:
  assumes "desk_inv s" "opts_ok opts" "\<And>k. wo_key opts = Some k \<Longrightarrow> map_of (bm_single s) k = None"
  shows "desk_inv (registered opts s)"
proof -
  let ?n = "length (bm_wins s)" and ?s = "registered opts s"
  note docs = registered_docs [of opts s]
  have "stack_ok ?s"
    unfolding stack_ok_def
  proof (intro conjI allI impI)
    have old: "stack_ok s" using assms(1) by (simp add: desk_inv_def)
    note bound = level_bound [OF old]
    show "z \<le> bm_z ?s" if "level_of ?s j = Some z" for j z
      using that bound [of j z] by (simp add: docs split: if_splits)
    show "level_of ?s j = Some (bm_z ?s)" if "focus_of ?s j \<noteq> None" for j
      using that by (simp only: docs) simp
    show "i = j" if "level_of ?s i = Some z \<and> level_of ?s j = Some z" for i j z
      using that bound [of i z] bound [of j z] level_unique [OF old, of i z j] by (simp add: docs split: if_splits)
  qed
  moreover have "singles_ok ?s"
  proof (cases "wo_key opts")
    case None
    then have "bm_single ?s = bm_single s" by (simp add: registered_def placed_window_def)
    with assms(1) None show ?thesis
      by (auto simp: singles_ok_def desk_inv_def docs no_window_yet)
  next
    case (Some k)
    then have "bm_single ?s = AList.update k ?n (bm_single s)" by (simp add: registered_def)
    moreover have "key_of s i \<noteq> Some k" for i
      using assms(1) assms(3) [OF Some] singles_lookup [of s k i] by (simp add: desk_inv_def)
    ultimately show ?thesis using assms Some
      by (auto simp: singles_ok_def desk_inv_def docs no_window_yet jm.lookup_store)
  qed
  moreover have "timers_ok ?s"
  proof -
    have "timer_of ?s = timer_of s" by (auto simp: fun_eq_iff docs no_window_yet)
    with assms(1) show ?thesis by (simp add: timers_ok_def desk_inv_def docs)
  qed
  ultimately show ?thesis
    using assms(1,2) by (simp add: desk_inv_def docs)
qed

lemma fresh_interval: "timers_ok s \<Longrightarrow> map_of (bm_intervals s) (bm_next s) = None"
  by (auto simp: timers_ok_def simp del: not_None_eq) (metis less_irrefl)

lemma desk_inv_interval:
  assumes "desk_inv s" "in_document s i" "timer_of s i = None"
  shows "desk_inv (start_interval i ms s)"
proof -
  let ?s = "start_interval i ms s"
  note docs = start_interval_docs [OF assms(2)]
  have fields: "bm_z ?s = bm_z s" "bm_single ?s = bm_single s" "bm_next ?s = bm_next s + 1"
    "bm_intervals ?s = bm_intervals s @ [(bm_next s, ms)]"
    by (simp_all add: start_interval_def)
  have old: "timers_ok s" using assms(1) by (simp add: desk_inv_def)
  note fresh = fresh_interval [OF old]
  have "timers_ok ?s"
    unfolding timers_ok_def fields
  proof (intro conjI allI impI)
    have less: "t < bm_next s" if "timer_of s j = Some t" for j t
      using old that by (auto simp: timers_ok_def)
    show "map_wf (bm_intervals s @ [(bm_next s, ms)])" using old fresh by (simp add: timers_ok_def)
    show "t < bm_next s + 1" if "timer_of ?s j = Some t" for j t
      using that less [of j t] by (simp add: docs split: if_splits)
    show "j = j'" if "timer_of ?s j = Some t \<and> timer_of ?s j' = Some t" for j j' t
      using that old less [of j t] less [of j' t] by (auto simp: docs timers_ok_def split: if_splits)
    have running: "map_of (bm_intervals s) t \<noteq> None \<longleftrightarrow> (\<exists>j. timer_of s j = Some t)" for t
      using old by (simp add: timers_ok_def)
    show "map_of (bm_intervals s @ [(bm_next s, ms)]) t \<noteq> None \<longleftrightarrow> (\<exists>j. timer_of ?s j = Some t)" for t
    proof (cases "t = bm_next s")
      case False
      then have "timer_of ?s j = Some t \<longleftrightarrow> timer_of s j = Some t" for j
        using assms(3) by (auto simp: docs)
      then show ?thesis using running [of t] False by (simp add: map_of_snoc [OF fresh])
    qed (auto simp: docs map_of_snoc [OF fresh])
  qed
  then show ?thesis
    using assms(1) docs by (simp add: desk_inv_def stack_ok_def singles_ok_def fields)
qed

lemma desk_inv_create:
  assumes "desk_inv s" "opts_ok opts" "\<And>k. wo_key opts = Some k \<Longrightarrow> map_of (bm_single s) k = None"
  shows "desk_inv (snd (createWindow opts s))"
  using desk_inv_registered [OF assms]
  by (auto simp: createWindow_parts registered_docs split: option.splits intro!: desk_inv_interval)

lemma closeWin_docs:
  "doc_of f (closeWin i s) j = (if j = i then None else doc_of f s j)"
  by (auto simp: closeWin_def Let_def doc_of_set split: option.splits)

lemma closeWin_fields:
  "bm_z (closeWin i s) = bm_z s" "bm_next (closeWin i s) = bm_next s"
  "bm_intervals (closeWin i s) =
     (case bw_timer (win s i) of None \<Rightarrow> bm_intervals s | Some t \<Rightarrow> AList.delete t (bm_intervals s))"
  "bm_single (closeWin i s) =
     (case bw_key (win s i) of None \<Rightarrow> bm_single s
      | Some k \<Rightarrow> if map_of (bm_single s) k = Some i then AList.delete k (bm_single s) else bm_single s)"
  by (simp_all add: closeWin_def Let_def split: option.splits)

lemma closeWin_places: "places_ok s \<Longrightarrow> places_ok (closeWin i s)"
  by (auto simp: closeWin_def Let_def well_placed_def split: option.splits intro!: places_set)

lemma close_stack:
  assumes "stack_ok s" "in_document s i"
  shows "stack_ok (closeWin i s)"
  unfolding stack_ok_def closeWin_fields closeWin_docs
proof (intro conjI allI impI)
  show "z \<le> bm_z s" if "(if j = i then None else level_of s j) = Some z" for j z
    using that level_bound [OF assms(1), of j z] by (simp split: if_splits)
  show "(if j = i then None else level_of s j) = Some (bm_z s)"
    if "(if j = i then None else focus_of s j) \<noteq> None" for j
    using that assms(1) by (simp add: stack_ok_def split: if_splits)
  show "j = j'" if "(if j = i then None else level_of s j) = Some z \<and> (if j' = i then None else level_of s j') = Some z" for j j' z
    using that level_unique [OF assms(1), of j z j'] by (simp split: if_splits)
qed

lemma close_singles:
  assumes "singles_ok s" "in_document s i"
  shows "singles_ok (closeWin i s)"
proof (cases "bw_key (win s i)")
  case None
  then have "key_of (closeWin i s) = key_of s" by (auto simp: fun_eq_iff closeWin_docs) (simp add: doc_of_def)
  with None assms(1) show ?thesis by (simp add: singles_ok_def closeWin_fields)
next
  case (Some k)
  then have k: "key_of s i = Some k" using assms(2) by (simp add: doc_of_def)
  then have single: "bm_single (closeWin i s) = AList.delete k (bm_single s)"
    using Some assms(1) by (simp add: closeWin_fields singles_lookup)
  show ?thesis
    unfolding singles_ok_def single closeWin_docs jm.lookup_remove
  proof (intro conjI allI)
    show "map_wf (AList.delete k (bm_single s))" using assms(1) by (simp add: singles_ok_def)
    show "(if k' = k then None else map_of (bm_single s) k') = Some j \<longleftrightarrow>
        (if j = i then None else key_of s j) = Some k'" for k' j
    proof (cases "j = i")
      case True
      then show ?thesis using singles_lookup [OF assms(1), of k' i] k by simp
    next
      case False
      then have "key_of s j \<noteq> Some k" using key_unique [OF assms(1) k, of j] by blast
      then show ?thesis using False singles_lookup [OF assms(1), of k' j] by simp
    qed
  qed
qed

lemma close_timers:
  assumes "timers_ok s" "in_document s i"
  shows "timers_ok (closeWin i s)"
proof (cases "bw_timer (win s i)")
  case None
  then have "timer_of (closeWin i s) = timer_of s" by (auto simp: fun_eq_iff closeWin_docs) (simp add: doc_of_def)
  with None assms(1) show ?thesis by (simp add: timers_ok_def closeWin_fields)
next
  case (Some t)
  then have t: "timer_of s i = Some t" using assms(2) by (simp add: doc_of_def)
  have one: "timer_of s j = Some t \<longleftrightarrow> j = i" for j
    using timer_unique [OF assms(1) t, of j] t by auto
  show ?thesis
    unfolding timers_ok_def closeWin_fields closeWin_docs Some option.case jm.lookup_remove
  proof (intro conjI allI impI)
    show "map_wf (AList.delete t (bm_intervals s))" using assms(1) by (simp add: timers_ok_def)
    show "(if u = t then None else map_of (bm_intervals s) u) \<noteq> None \<longleftrightarrow>
        (\<exists>j. (if j = i then None else timer_of s j) = Some u)" for u
    proof (cases "u = t")
      case False
      then have "(if j = i then None else timer_of s j) = Some u \<longleftrightarrow> timer_of s j = Some u" for j
        using t by simp
      with False timer_running [OF assms(1), of u] show ?thesis by simp
    qed (simp add: one)
    show "j = j'" if "(if j = i then None else timer_of s j) = Some u \<and> (if j' = i then None else timer_of s j') = Some u" for j j' u
      using that timer_unique [OF assms(1), of j u j'] by (simp split: if_splits)
    show "u < bm_next s" if "(if j = i then None else timer_of s j) = Some u" for j u
      using that timer_bound [OF assms(1), of j u] by (simp split: if_splits)
  qed
qed

lemma desk_inv_close: "desk_inv s \<Longrightarrow> in_document s i \<Longrightarrow> desk_inv (closeWin i s)"
  by (simp add: desk_inv_def closeWin_places close_stack close_singles close_timers)

lemma opts_ok_simps [simp]: "opts_ok (app_opts k t i w h e)" "opts_ok (editor_opts p)"
  by (simp_all add: opts_ok_def app_opts_def editor_opts_def)

lemma desk_inv_show: "desk_inv s \<Longrightarrow> desk_inv (show_win i s)"
  by (auto simp: show_win_def cosmetic_def well_placed_def intro!: desk_inv_focus desk_inv_cosmetic)

lemma desk_inv_open_with: "desk_inv s \<Longrightarrow> opts_ok opts \<Longrightarrow> wo_key opts \<noteq> None \<Longrightarrow> desk_inv (snd (open_with opts s))"
  by (auto simp: open_with_def openSingle_def split: option.splits intro!: desk_inv_show desk_inv_create)

lemma app_windows_ok: "map_of app_windows a = Some opts \<Longrightarrow> opts_ok opts \<and> wo_key opts \<noteq> None"
  by (auto simp: app_windows_def split: if_splits) (auto simp: app_opts_def editor_opts_def)

lemma placed_drag: "placed b \<Longrightarrow> placed (fold (drag_box x y) ds b)"
  by (induction ds arbitrary: b) (auto simp: placed_def drag_box_def split: prod.splits)

lemma placed_size: "placed b \<Longrightarrow> placed (fold (size_box x y) ds b)"
  by (induction ds arbitrary: b) (auto simp: placed_def size_box_def split: prod.splits)

lemma desk_inv_step: "desk_inv s \<Longrightarrow> desk_enabled e s \<Longrightarrow> desk_inv (desk_step br e s)"
proof (cases e)
  case (OpenApp a)
  assume "desk_inv s"
  with OpenApp show ?thesis
    by (auto simp: openApp_def split: option.splits dest!: app_windows_ok intro!: desk_inv_open_with)
next
  case (OpenEditor p)
  assume "desk_inv s"
  with OpenEditor show ?thesis
    by (auto simp: openEditor_def editor_opts_def app_opts_def intro!: desk_inv_open_with simp: opts_ok_def)
next
  case (WinDown i part pos offset)
  assume "desk_inv s"
  with WinDown show ?thesis
    by (cases part)
      (auto simp: win_down_def cosmetic_def well_placed_def split: prod.splits
        intro!: desk_inv_focus desk_inv_cosmetic)
next
  case (ZoomClick i)
  assume "desk_inv s"
  then show ?thesis
    unfolding ZoomClick desk_step.simps zoom_def
    by (rule desk_inv_cosmetic)
      (auto simp: cosmetic_def zoom_win_def well_placed_def placed_def split: option.splits)
next
  case (HeadMove i x y)
  assume "desk_inv s"
  then show ?thesis
    unfolding HeadMove desk_step.simps head_move_def
    by (rule desk_inv_cosmetic) (simp add: cosmetic_def well_placed_def placed_drag)
next
  case (CornerMove i x y)
  assume "desk_inv s"
  then show ?thesis
    unfolding CornerMove desk_step.simps corner_move_def
    by (rule desk_inv_cosmetic) (simp add: cosmetic_def well_placed_def placed_size)
qed (auto simp: head_up_def corner_up_def minimize_def cosmetic_def well_placed_def
    intro!: desk_inv_cosmetic desk_inv_close desk_inv_show)

lemma desk_inv_new: "desk_inv new_bwm"
  by (simp add: desk_inv_def new_bwm_def places_ok_def stack_ok_def singles_ok_def timers_ok_def doc_of_def in_document_def)

interpretation deskm: event_machine "desk_step br" desk_enabled desk_inv for br
  by unfold_locales (rule desk_inv_step)

text \<open>
  C35. In every run of the desktop of the browser, the windows keep their order: no two windows of
  the document share a level and only the topmost one has the focus, each key names one window at
  most and is found in the table, an interval runs exactly when the window it refreshes is in the
  document, and no head is dragged above the screen or off its left edge.
\<close>

theorem desk_runs_safe:
  assumes "runs (desk_step br) desk_enabled new_bwm es"
  shows "desk_inv (fold (desk_step br) es new_bwm)"
  using deskm.run_inv [OF desk_inv_new assms] .

definition demo_browser :: browser where
  "demo_browser =
     \<lparr>br_says = (\<lambda>m d. None), br_agrees = (\<lambda>m. False), br_type_error = ''undefined'',
      br_collate = (\<lambda>a b. 0), br_width = 1000, br_height = 700\<rparr>"

definition demo_desk :: "desk_event list" where
  "demo_desk =
     [OpenApp ''system'', OpenApp ''files'', WinDown 0 Head (90, 80) (70, 56), HeadMove 0 (- 50) 10, HeadUp 0,
      ZoomClick 1, OpenApp ''system'', CloseClick 0, OpenApp ''system'', OpenEditor ''/notes.txt'', MinimizeClick 3]"

theorem desk_runs_safe_witness:
  "desk_inv (fold (desk_step demo_browser) demo_desk new_bwm) \<and>
   map bw_open (bm_wins (fold (desk_step demo_browser) demo_desk new_bwm)) = [False, True, True, True] \<and>
   bm_intervals (fold (desk_step demo_browser) demo_desk new_bwm) = [(2, 3000)]"
proof
  have "runs (desk_step demo_browser) desk_enabled new_bwm demo_desk" by code_simp
  then show "desk_inv (fold (desk_step demo_browser) demo_desk new_bwm)" by (rule desk_runs_safe)
  show "map bw_open (bm_wins (fold (desk_step demo_browser) demo_desk new_bwm)) = [False, True, True, True] \<and>
     bm_intervals (fold (desk_step demo_browser) demo_desk new_bwm) = [(2, 3000)]" by code_simp
qed

section \<open>Opening, dragging, zooming\<close>

text \<open>Window \<open>i\<close> is the one the user sees: shown, focused, above all others, the only one of its key.\<close>

definition in_front :: "bwm \<Rightarrow> nat \<Rightarrow> bool" where
  "in_front s i \<longleftrightarrow> in_document s i \<and> bw_shown (win s i) \<and> bw_focused (win s i) \<and>
     list_all (\<lambda>j. in_document s j \<and> j \<noteq> i \<longrightarrow> bw_z (win s j) < bw_z (win s i) \<and> \<not> bw_focused (win s j) \<and>
       (bw_key (win s i) \<noteq> None \<longrightarrow> bw_key (win s j) \<noteq> bw_key (win s i))) [0..<length (bm_wins s)]"

lemma doc_simps:
  assumes "in_document s i"
  shows "level_of s i = Some (bw_z (win s i))" "key_of s i = bw_key (win s i)"
    "focus_of s i \<noteq> None \<longleftrightarrow> bw_focused (win s i)"
  using assms by (simp_all add: doc_of_def)

lemma focused_in_front:
  assumes "desk_inv s" "in_document s i" "bw_shown (win s i)" "bw_focused (win s i)"
  shows "in_front s i"
proof -
  have parts: "stack_ok s" "singles_ok s" using assms(1) by (simp_all add: desk_inv_def)
  have top: "bw_z (win s j) = bm_z s" if "in_document s j" "bw_focused (win s j)" for j
    using parts(1) that doc_simps [OF that(1)] by (auto simp: stack_ok_def)
  have "bw_z (win s j) < bw_z (win s i) \<and> \<not> bw_focused (win s j) \<and>
      (bw_key (win s i) \<noteq> None \<longrightarrow> bw_key (win s j) \<noteq> bw_key (win s i))"
    if j: "in_document s j" "j \<noteq> i" for j
  proof -
    have "bw_z (win s j) \<noteq> bw_z (win s i)"
      using j level_unique [OF parts(1), of j _ i] doc_simps(1) [OF j(1)] doc_simps(1) [OF assms(2)] by metis
    moreover have "bw_z (win s j) \<le> bm_z s" using level_bound [OF parts(1) doc_simps(1) [OF j(1)]] .
    moreover have "bw_key (win s j) \<noteq> bw_key (win s i)" if k: "bw_key (win s i) = Some k" for k
      using j(2) k key_unique [OF parts(2), of j k i] doc_simps(2) [OF j(1)] doc_simps(2) [OF assms(2)] by metis
    ultimately show ?thesis using top [OF assms(2,4)] top [OF j(1)] by fastforce
  qed
  with assms(2-4) show ?thesis by (simp add: in_front_def list_all_iff)
qed

lemma created_here:
  fixes opts s
  defines "s' \<equiv> snd (createWindow opts s)" and "n \<equiv> length (bm_wins s)"
  shows "in_document s' n" "bw_shown (win s' n)" "bw_focused (win s' n)" "bw_key (win s' n) = wo_key opts"
    "\<And>j. j \<noteq> n \<Longrightarrow> in_document s' j = in_document s j"
proof -
  let ?r = "registered opts s"
  have r: "in_document ?r n" "bw_shown (win ?r n)" "bw_focused (win ?r n)" "bw_key (win ?r n) = wo_key opts"
    using registered_docs(1,5,10) [of opts s] registered_docs(2) [of opts s n] doc_simps [of ?r n]
    by (auto simp: n_def)
  have w: "win s' n = (case wo_every opts of None \<Rightarrow> win ?r n | Some ms \<Rightarrow> (win ?r n)\<lparr>bw_timer := Some (bm_next ?r)\<rparr>)"
    using in_document_length [OF r(1)]
    by (auto simp: s'_def createWindow_parts n_def start_interval_def win_set split: option.splits)
  have doc: "in_document s' j = in_document ?r j" for j
    using start_interval_docs(5) [OF r(1)] by (simp add: s'_def createWindow_parts n_def split: option.splits)
  show "in_document s' n" "bw_shown (win s' n)" "bw_focused (win s' n)" "bw_key (win s' n) = wo_key opts"
    using r by (simp_all add: doc w split: option.splits)
  show "in_document s' j = in_document s j" if "j \<noteq> n" for j
    using that by (simp add: doc registered_docs n_def)
qed

lemma shown_here:
  assumes "in_document s i"
  shows "in_document (show_win i s) j = in_document s j" "bw_shown (win (show_win i s) i)"
    "bw_focused (win (show_win i s) i)" "bw_key (win (show_win i s) i) = bw_key (win s i)"
    "length (bm_wins (show_win i s)) = length (bm_wins s)"
proof -
  have i: "i < length (bm_wins s)" "bw_open (win s i)" using assms by (simp_all add: in_document_def)
  show "in_document (show_win i s) j = in_document s j"
    using i by (simp add: show_win_def in_document_set) (simp add: in_document_def)
  show "bw_shown (win (show_win i s) i)" "bw_focused (win (show_win i s) i)"
    "bw_key (win (show_win i s) i) = bw_key (win s i)" "length (bm_wins (show_win i s)) = length (bm_wins s)"
    using i by (simp_all add: show_win_def win_focus win_set)
qed

lemma openApp_fronts:
  assumes "desk_inv s" "map_of app_windows a = Some opts"
  shows "\<exists>i. in_front (openApp a s) i \<and> bw_key (win (openApp a s) i) = wo_key opts \<and>
    (\<forall>j. j \<noteq> i \<longrightarrow> in_document (openApp a s) j = in_document s j) \<and>
    (in_document s i \<longleftrightarrow> length (bm_wins (openApp a s)) = length (bm_wins s))"
proof -
  obtain k where k: "wo_key opts = Some k" using app_windows_ok [OF assms(2)] by auto
  have inv: "desk_inv (openApp a s)" using desk_inv_step [OF assms(1), of "OpenApp a"] by simp
  have app: "openApp a s = snd (openSingle k (createWindow opts) s)"
    using assms(2) k by (simp add: openApp_def open_with_def)
  show ?thesis
  proof (cases "map_of (bm_single s) k")
    case None
    then have s': "openApp a s = snd (createWindow opts s)" by (simp add: app openSingle_def)
    have "length (bm_wins (snd (createWindow opts s))) = length (bm_wins s) + 1"
      by (simp add: createWindow_parts registered_docs start_interval_def split: option.splits)
    with s' created_here [where opts = opts and s = s] focused_in_front [OF inv, of "length (bm_wins s)"] show ?thesis
      by (intro exI [of _ "length (bm_wins s)"]) (auto simp: in_document_def)
  next
    case (Some i)
    then have s': "openApp a s = show_win i s" by (simp add: app openSingle_def)
    have "key_of s i = Some k" using assms(1) Some by (simp add: desk_inv_def singles_lookup)
    then have doc: "in_document s i" "bw_key (win s i) = Some k" by (auto simp: doc_of_def split: if_splits)
    show ?thesis
      using shown_here [OF doc(1)] doc focused_in_front [OF inv [unfolded s'], of i] k
      by (intro exI [of _ i]) (auto simp: s')
  qed
qed

text \<open>
  Opening an app brings exactly its window to the front: from any state a run can lead to,
  the window of the app is in the document, shown, focused, above all others and the only one of
  its key; it is a new one just when there was none, and every other window stays open or
  closed as it was.
\<close>

theorem openApp_in_front:
  assumes "desk_inv s" "map_of app_windows a = Some opts"
  shows "\<exists>i. in_front (openApp a s) i \<and> bw_key (win (openApp a s) i) = wo_key opts \<and>
    (\<forall>j. j \<noteq> i \<longrightarrow> in_document (openApp a s) j = in_document s j) \<and>
    (in_document s i \<longleftrightarrow> length (bm_wins (openApp a s)) = length (bm_wins s))"
  by (rule openApp_fronts [OF assms])

theorem openApp_in_front_witness:
  "\<exists>i. in_front (openApp ''files'' (fold (desk_step demo_browser) demo_desk new_bwm)) i"
proof -
  have "runs (desk_step demo_browser) desk_enabled new_bwm demo_desk" by code_simp
  then have "desk_inv (fold (desk_step demo_browser) demo_desk new_bwm)" by (rule deskm.run_inv [OF desk_inv_new])
  from openApp_in_front [OF this, of "''files''"] show ?thesis by (auto simp: app_windows_def)
qed

text \<open>
  A window follows the pointer that holds its head: a press that finds it at its offset and
  any moves after it put it where the last one says, not above the screen or left of it, and
  change neither its size nor its level; zooming twice gives the window back as it was.
\<close>

theorem drag_and_zoom:
  assumes "in_document s i" "bw_moves (win s i) = []" "bw_max (win s i) = None" "ps \<noteq> []"
    and "s' = fold (\<lambda>(x, y). head_move i x y) ps (win_down i Head (x0, y0) (cb_left (bw_box (win s i)), cb_top (bw_box (win s i))) s)"
  shows "bw_box (win s' i) = (bw_box (win s i))
      \<lparr>cb_left := max 0 (cb_left (bw_box (win s i)) + fst (last ps) - x0),
       cb_top := max 30 (cb_top (bw_box (win s i)) + snd (last ps) - y0)\<rparr> \<and>
    bw_focused (win s' i) \<and> win (zoom br i (zoom br i s)) i = win s i"
proof -
  let ?b = "bw_box (win s i)"
  define s0 where "s0 = win_down i Head (x0, y0) (cb_left ?b, cb_top ?b) s"
  have i: "i < length (bm_wins s)" using assms(1) by (rule in_document_length)
  have start: "bw_box (win s0 i) = ?b" "bw_moves (win s0 i) = [(x0, y0, cb_left ?b, cb_top ?b)]"
    "bw_focused (win s0 i)" "i < length (bm_wins s0)"
    using i assms(2) by (simp_all add: s0_def win_down_def win_focus win_set refocus_def)
  have "bw_box (win (fold (\<lambda>(x, y). head_move i x y) ps t) i) = ?b
        \<lparr>cb_left := max 0 (cb_left ?b + fst (last ps) - x0), cb_top := max 30 (cb_top ?b + snd (last ps) - y0)\<rparr> \<and>
      bw_focused (win (fold (\<lambda>(x, y). head_move i x y) ps t) i)"
    if "bw_moves (win t i) = [(x0, y0, cb_left ?b, cb_top ?b)]" "bw_focused (win t i)" "i < length (bm_wins t)"
      "bw_box (win t i) = ?b\<lparr>cb_left := l, cb_top := u\<rparr>" for t l u
    using assms(4) that
  proof (induction ps arbitrary: t l u)
    case (Cons p ps)
    obtain x y where p: "p = (x, y)" by (cases p)
    let ?t = "head_move i x y t"
    have "bw_moves (win ?t i) = [(x0, y0, cb_left ?b, cb_top ?b)]" "bw_focused (win ?t i)" "i < length (bm_wins ?t)"
      "bw_box (win ?t i) = ?b\<lparr>cb_left := max 0 (cb_left ?b + x - x0), cb_top := max 30 (cb_top ?b + y - y0)\<rparr>"
      using Cons.prems by (simp_all add: head_move_def win_set drag_box_def)
    with Cons.IH [of ?t] show ?case by (cases "ps = []") (simp_all add: p)
  qed simp
  from this [where t = s0 and l = "cb_left ?b" and u = "cb_top ?b"] start have "bw_box (win s' i) = ?b
        \<lparr>cb_left := max 0 (cb_left ?b + fst (last ps) - x0), cb_top := max 30 (cb_top ?b + snd (last ps) - y0)\<rparr> \<and>
      bw_focused (win s' i)"
    by (simp add: assms(5) s0_def)
  moreover have "win (zoom br i (zoom br i s)) i = win s i"
    using i assms(3) by (simp add: zoom_def win_set zoom_win_def)
  ultimately show ?thesis by simp
qed

theorem drag_and_zoom_witness:
  "bw_box (win (head_move 0 (- 40) 90 (win_down 0 Head (100, 60) (70, 56) (openApp ''files'' new_bwm))) 0) =
     \<lparr>cb_left = 0, cb_top = 86, cb_width = 560, cb_height = 420\<rparr>"
proof -
  let ?s = "openApp ''files'' new_bwm"
  have "in_document ?s 0 \<and> bw_moves (win ?s 0) = [] \<and> bw_max (win ?s 0) = None \<and>
      bw_box (win ?s 0) = \<lparr>cb_left = 70, cb_top = 56, cb_width = 560, cb_height = 420\<rparr>" by code_simp
  then show ?thesis
    using drag_and_zoom [of ?s 0 "[(- 40, 90)]" _ 100 60 demo_browser, OF _ _ _ _ refl] by simp
qed

end
