(* ===== verification/VoidFiles.thy ===== *)
theory VoidFiles
  imports VoidDesk "HOL-Library.Multiset"
begin

text \<open>
  The applications in the windows of os.js: file manager, editor, terminal, system panel, lists of
  services and processes, the chat with the mind and the launcher of native programs. Each is the
  state its closures share and the listeners that change it, as programs that wait for the gate.
  Fields that the answers of the gate always have are taken to be there. Stand-ins: 0x85 the
  ellipsis, 0x86 the cross, 0x9B the arrow, 0x8B and 0x8A the arrows of the buttons.
\<close>

section \<open>Shared\<close>

abbreviation cross :: char where "cross \<equiv> CHR 0x86"
abbreviation mid_dot :: char where "mid_dot \<equiv> CHR 0xB7"

definition text_of :: "json \<Rightarrow> string" where
  "text_of v = (case js_string v of Some s \<Rightarrow> s | None \<Rightarrow> [])"

definition prop_or_null :: "string \<Rightarrow> json \<Rightarrow> json" where
  "prop_or_null k v = field_or_null v k"

text \<open>A field in a template literal; one that is missing is printed as undefined.\<close>

definition printed :: "string \<Rightarrow> json \<Rightarrow> string" where
  "printed k d = (case field d k of None \<Rightarrow> ''undefined'' | Some v \<Rightarrow> text_of v)"

definition div_class :: "string \<Rightarrow> string \<Rightarrow> string" where
  "div_class c inner = tag_class ''div'' c @ inner @ end_tag ''div''"

definition span_class :: "string \<Rightarrow> string \<Rightarrow> string" where
  "span_class c inner = tag_class ''span'' c @ inner @ end_tag ''span''"

definition statusClass :: "string \<Rightarrow> string" where
  "statusClass s =
     (if s = ''running'' \<or> s = ''listening'' then ''run''
      else if s = ''restarting'' then ''warn''
      else if s = ''failed'' then ''bad''
      else ''stop'')"

section \<open>File manager\<close>

record fentry =
  fe_name :: string
  fe_path :: string
  fe_kind :: string

datatype grid = Loading | Listing "fentry list" | Trouble string

record fm =
  fm_cwd :: string
  fm_sel :: "fentry option"
  fm_hist :: "string list"
  fm_label :: string                   \<comment> \<open>the text of the path bar\<close>
  fm_grid :: grid
  fm_opened :: "string list"           \<comment> \<open>the editors it opened\<close>

definition entry_of :: "json \<Rightarrow> fentry option" where
  "entry_of e =
     (case (field e ''name'', field e ''path'', field e ''kind'') of
        (Some (JStr n), Some (JStr p), Some (JStr k)) \<Rightarrow> Some \<lparr>fe_name = n, fe_path = p, fe_kind = k\<rparr>
      | _ \<Rightarrow> None)"

text \<open>The entries of a listing; an answer of another shape raises a \<open>TypeError\<close>.\<close>

definition entries_of :: "browser \<Rightarrow> json result \<Rightarrow> fentry list result" where
  "entries_of br r =
     (case r of
        Inl e \<Rightarrow> throw e
      | Inr d \<Rightarrow>
          (case prop_of br ''entries'' d of
             Inr (JArr es) \<Rightarrow>
               (case those (map entry_of es) of Some xs \<Rightarrow> return xs | None \<Rightarrow> throw (br_type_error br))
           | _ \<Rightarrow> throw (br_type_error br)))"

text \<open>\<open>sort\<close> with a comparison is stable.\<close>

fun insert_cmp :: "('a \<Rightarrow> 'a \<Rightarrow> int) \<Rightarrow> 'a \<Rightarrow> 'a list \<Rightarrow> 'a list" where
  "insert_cmp cmp x [] = [x]"
| "insert_cmp cmp x (y # ys) = (if cmp x y \<le> 0 then x # y # ys else y # insert_cmp cmp x ys)"

definition sort_cmp :: "('a \<Rightarrow> 'a \<Rightarrow> int) \<Rightarrow> 'a list \<Rightarrow> 'a list" where
  "sort_cmp cmp xs = foldr (insert_cmp cmp) xs []"

definition entry_cmp :: "browser \<Rightarrow> fentry \<Rightarrow> fentry \<Rightarrow> int" where
  "entry_cmp br a b =
     (if fe_kind a = fe_kind b then br_collate br (fe_name a) (fe_name b)
      else if fe_kind a = ''dir'' then - 1 else 1)"

definition fm_show :: "browser \<Rightarrow> json result \<Rightarrow> fm \<Rightarrow> fm" where
  "fm_show br r s =
     s\<lparr>fm_grid := (case entries_of br r of Inl e \<Rightarrow> Trouble e | Inr es \<Rightarrow> Listing (sort_cmp (entry_cmp br) es))\<rparr>"

definition fm_load :: "browser \<Rightarrow> fm \<Rightarrow> fm prog" where
  "fm_load br s =
     sys br ''fs.list'' [(''path'', JStr (fm_cwd s))]
       (s\<lparr>fm_label := fm_cwd s, fm_sel := None, fm_grid := Loading\<rparr>)
       (\<lambda>r s'. Done (fm_show br r s'))"

text \<open>The HTML of the grid: a message, or one element for each entry.\<close>

definition entry_icon :: "fentry \<Rightarrow> string" where
  "entry_icon e = icon (if fe_kind e = ''dir'' then ''folder'' else ''file'')"

definition item_html :: "fentry \<Rightarrow> string" where
  "item_html e = div_class ''fm-item'' (div_class ''ico'' (entry_icon e) @ div_class ''nm'' (esc (fe_name e)))"

fun grid_html :: "grid \<Rightarrow> string" where
  "grid_html Loading = div_class ''fm-empty'' (''loading'' @ [CHR 0x85])"
| "grid_html (Listing es) =
     (if es = [] then div_class ''fm-empty'' ''empty folder'' else concat (map item_html es))"
| "grid_html (Trouble e) = div_class ''fm-empty'' (esc e)"

text \<open>A call whose failure nobody catches ends the listener; else the folder is read again.\<close>

definition then_load :: "browser \<Rightarrow> json result \<Rightarrow> fm \<Rightarrow> fm prog" where
  "then_load br r s = (case r of Inl e \<Rightarrow> Done s | Inr v \<Rightarrow> fm_load br s)"

definition fm_new :: "browser \<Rightarrow> string \<Rightarrow> (string \<Rightarrow> string) \<Rightarrow> fm \<Rightarrow> fm prog" where
  "fm_new br msg target s =
     Prompt msg [] (\<lambda>n. case n of
        Some (c # cs) \<Rightarrow>
          sys br ''fs.write'' [(''path'', JStr (target (c # cs))), (''content'', JStr [])] s (then_load br)
      | _ \<Rightarrow> Done s)"

definition fm_tool :: "browser \<Rightarrow> string \<Rightarrow> fm \<Rightarrow> fm prog" where
  "fm_tool br a s =
     (if a = ''refresh'' then fm_load br s
      else if a = ''up'' then fm_load br (s\<lparr>fm_hist := fm_hist s @ [fm_cwd s], fm_cwd := parentPath (fm_cwd s)\<rparr>)
      else if a = ''back'' then
        (if fm_hist s \<noteq> [] then fm_load br (s\<lparr>fm_cwd := last (fm_hist s), fm_hist := butlast (fm_hist s)\<rparr>)
         else Done s)
      else if a = ''newfile'' then fm_new br ''New file name:'' (joinPath (fm_cwd s)) s
      else if a = ''newfolder'' then
        fm_new br ''New folder name:'' (\<lambda>n. joinPath (joinPath (fm_cwd s) n) ''.keep'') s
      else if a = ''del'' then
        (case fm_sel s of
           None \<Rightarrow> Done s
         | Some e \<Rightarrow>
             Confirm (''Delete '' @ fe_name e @ ''?'') (\<lambda>ok.
               if ok then sys br ''fs.remove'' [(''path'', JStr (fe_path e))] s (then_load br) else Done s))
      else Done s)"

definition fm_navigate :: "browser \<Rightarrow> string \<Rightarrow> fm \<Rightarrow> fm prog" where
  "fm_navigate br p s =
     fm_load br (s\<lparr>fm_hist := (if p \<noteq> fm_cwd s then fm_hist s @ [fm_cwd s] else fm_hist s), fm_cwd := p\<rparr>)"

definition shown_entry :: "nat \<Rightarrow> fm \<Rightarrow> fentry option" where
  "shown_entry i s = (case fm_grid s of Listing es \<Rightarrow> if i < length es then Some (es ! i) else None | _ \<Rightarrow> None)"

definition fm_open :: "browser \<Rightarrow> fentry \<Rightarrow> fm \<Rightarrow> fm prog" where
  "fm_open br e s =
     (if fe_kind e = ''dir'' then fm_load br (s\<lparr>fm_hist := fm_hist s @ [fm_cwd s], fm_cwd := fe_path e\<rparr>)
      else Done (s\<lparr>fm_opened := fm_opened s @ [fe_path e]\<rparr>))"

text \<open>The listeners: a click or a double click on an entry that is shown, the bar, \<open>win.navigate\<close>.\<close>

datatype fm_act = ItemClick nat | ItemOpen nat | Tool string | Navigate string

fun fm_listen :: "browser \<Rightarrow> fm_act \<Rightarrow> fm \<Rightarrow> fm prog" where
  "fm_listen br (ItemClick i) s =
     (case shown_entry i s of None \<Rightarrow> Done s | Some e \<Rightarrow> Done (s\<lparr>fm_sel := Some e\<rparr>))"
| "fm_listen br (ItemOpen i) s = (case shown_entry i s of None \<Rightarrow> Done s | Some e \<Rightarrow> fm_open br e s)"
| "fm_listen br (Tool a) s = fm_tool br a s"
| "fm_listen br (Navigate p) s = fm_navigate br p s"

definition fm_start :: "string \<Rightarrow> fm" where
  "fm_start path =
     \<lparr>fm_cwd = path, fm_sel = None, fm_hist = [], fm_label = [], fm_grid = Loading, fm_opened = []\<rparr>"

definition files_page :: "browser \<Rightarrow> string \<Rightarrow> fm page" where
  "files_page br path = settle_page br (fm_load br (fm_start path)) (open_page (fm_start path))"

section \<open>What the file manager does in any order of answers\<close>

definition fm_ok :: "fm \<Rightarrow> bool" where
  "fm_ok s \<longleftrightarrow> fm_label s = fm_cwd s"

definition fm_methods :: "string list" where
  "fm_methods = [''fs.list'', ''fs.write'', ''fs.remove'']"

lemma fm_methods_in [simp]:
  "''fs.list'' \<in> set fm_methods" "''fs.write'' \<in> set fm_methods" "''fs.remove'' \<in> set fm_methods"
  by (simp_all add: fm_methods_def)

lemma fm_load_safe [simp]: "safe_prog fm_ok (calls_only fm_methods) (fm_load br s)"
  by (simp add: fm_load_def safe_sys fm_ok_def fm_show_def)

lemma then_load_safe [simp]: "fm_ok s \<Longrightarrow> safe_prog fm_ok (calls_only fm_methods) (then_load br r s)"
  by (simp add: then_load_def split: sum.splits)

lemma fm_new_safe [simp]: "fm_ok s \<Longrightarrow> safe_prog fm_ok (calls_only fm_methods) (fm_new br msg t s)"
  by (simp add: fm_new_def safe_sys split: option.split list.split)

lemma fm_tool_safe [simp]: "fm_ok s \<Longrightarrow> safe_prog fm_ok (calls_only fm_methods) (fm_tool br a s)"
  by (simp add: fm_tool_def safe_sys split: option.split del: char.inject)

lemma fm_listen_safe: "fm_ok s \<Longrightarrow> safe_prog fm_ok (calls_only fm_methods) (fm_listen br a s)"
  by (cases a) (auto simp: fm_navigate_def fm_open_def fm_ok_def split: option.splits)

interpretation filesm: page_machine "fm_listen br" fm_ok "calls_only fm_methods" for br
  by unfold_locales (rule fm_listen_safe)


text \<open>
  Two loads that overlap: the answer for the folder the user left comes last and is shown as the
  content of the folder the path bar names.
\<close>

lemma files_stale_listing:
  assumes "entries_of br (sys_answer br (return da)) = return ea"
  shows "pg_state (fold (page_step br (fm_listen br))
      [Answer 0 r0, Act (Navigate ''/a''), Act (Navigate ''/b''), Answer 1 (return db), Answer 0 (return da)]
      (files_page br ''/''))
    = \<lparr>fm_cwd = ''/b'', fm_sel = None, fm_hist = [''/'', ''/a''], fm_label = ''/b'',
       fm_grid = Listing (sort_cmp (entry_cmp br) ea), fm_opened = []\<rparr>"
  using assms
  by (simp add: files_page_def settle_page_def fm_load_def sys_def open_page_def fm_start_def fm_navigate_def fm_show_def)

section \<open>What the file manager shows\<close>

lemma mset_insert_cmp: "mset (insert_cmp cmp x ys) = add_mset x (mset ys)"
  by (induction ys) auto

lemma mset_sort_cmp: "mset (sort_cmp cmp xs) = mset xs"
  by (induction xs) (simp_all add: sort_cmp_def mset_insert_cmp)

definition dirs_first :: "fentry list \<Rightarrow> bool" where
  "dirs_first es \<longleftrightarrow> list_all (\<lambda>e. fe_kind e \<noteq> ''dir'') (dropWhile (\<lambda>e. fe_kind e = ''dir'') es)"

lemma set_insert_cmp: "set (insert_cmp cmp x ys) = insert x (set ys)"
  by (induction ys) auto

lemma entry_cmp_other: "fe_kind a = ''dir'' \<Longrightarrow> fe_kind b \<noteq> ''dir'' \<Longrightarrow> entry_cmp br a b \<le> 0"
  by (simp add: entry_cmp_def)

lemma insert_dirs_first: "dirs_first es \<Longrightarrow> dirs_first (insert_cmp (entry_cmp br) e es)"
proof (induction es)
  case (Cons y ys)
  show ?case
  proof (cases "fe_kind y = ''dir''")
    case True
    with Cons show ?thesis by (cases "entry_cmp br e y \<le> 0"; cases "fe_kind e = ''dir''") (auto simp: dirs_first_def entry_cmp_def [of br e y])
  next
    case False
    with Cons.prems have "list_all (\<lambda>e. fe_kind e \<noteq> ''dir'') ys" by (simp add: dirs_first_def)
    then have "list_all (\<lambda>e. fe_kind e \<noteq> ''dir'') (insert_cmp (entry_cmp br) e ys)" if "fe_kind e \<noteq> ''dir''"
      using that by (auto simp: list_all_iff set_insert_cmp)
    with False \<open>list_all _ ys\<close> show ?thesis
      by (cases "fe_kind e = ''dir''") (simp_all add: dirs_first_def entry_cmp_other)
  qed
qed (simp add: dirs_first_def)

lemma sort_dirs_first: "dirs_first (sort_cmp (entry_cmp br) es)"
  by (induction es) (simp_all add: sort_cmp_def insert_dirs_first, simp add: dirs_first_def)

text \<open>
  The buttons walk the tree of folders: a double click on a folder goes to the path that
  \<open>joinPath\<close> gives, \<open>up\<close> returns to where it came from, and \<open>back\<close> undoes one move after the
  other, with the history as it was in the end.
\<close>

theorem files_navigation:
  assumes "proper rs" "proper_seg n" "fm_cwd s = abs_path rs" "shown_entry i s = Some e"
    and "fe_kind e = ''dir''" "fe_path e = abs_path (rs @ [n])"
    and "s1 = fst (suspend br (fm_listen br (ItemOpen i) s))"
    and "s2 = fst (suspend br (fm_listen br (Tool ''up'') s1))"
    and "s3 = fst (suspend br (fm_listen br (Tool ''back'') s2))"
    and "s4 = fst (suspend br (fm_listen br (Tool ''back'') s3))"
  shows "fm_cwd s1 = joinPath (fm_cwd s) n \<and> fm_cwd s2 = fm_cwd s \<and> fm_cwd s3 = fm_cwd s1 \<and>
    fm_cwd s4 = fm_cwd s \<and> fm_hist s4 = fm_hist s"
proof -
  have load: "fm_cwd (fst (suspend br (fm_load br t))) = fm_cwd t"
    "fm_hist (fst (suspend br (fm_load br t))) = fm_hist t" for t
    by (simp_all add: fm_load_def sys_def)
  have 1: "fm_cwd s1 = abs_path (rs @ [n])" "fm_hist s1 = fm_hist s @ [abs_path rs]"
    using assms(3-7) by (simp_all add: fm_open_def load)
  have 2: "fm_cwd s2 = abs_path rs" "fm_hist s2 = fm_hist s1 @ [abs_path (rs @ [n])]"
    using assms(1,2,8) by (simp_all add: fm_tool_def load 1 parentPath_snoc)
  have 3: "fm_cwd s3 = abs_path (rs @ [n])" "fm_hist s3 = fm_hist s @ [abs_path rs]"
    using assms(9) by (simp_all add: fm_tool_def load 1 2 butlast_append)
  have "fm_cwd s4 = abs_path rs" "fm_hist s4 = fm_hist s"
    using assms(10) by (simp_all add: fm_tool_def load 3 butlast_append)
  with 1 2 3 assms(1,3) show ?thesis by (simp add: joinPath_abs)
qed

definition demo_fm :: fm where
  "demo_fm = (fm_start ''/home'')\<lparr>fm_grid := Listing [\<lparr>fe_name = ''docs'', fe_path = ''/home/docs'', fe_kind = ''dir''\<rparr>]\<rparr>"

theorem files_navigation_witness:
  "fm_cwd (fst (suspend demo_browser (fm_listen demo_browser (Tool ''up'')
     (fst (suspend demo_browser (fm_listen demo_browser (ItemOpen 0) demo_fm)))))) = ''/home''"
proof -
  have "abs_path [''home''] = ''/home''" "abs_path ([''home''] @ [''docs'']) = ''/home/docs''"
    by (simp_all add: abs_path_def)
  then show ?thesis
    using files_navigation [of "[''home'']" "''docs''" demo_fm 0 _ _ demo_browser, OF _ _ _ _ _ _ refl refl refl refl]
    by (simp add: proper_seg_def demo_fm_def fm_start_def shown_entry_def)
qed

section \<open>Editor\<close>

text \<open>The value of a \<open>textarea\<close> has line feeds for all line ends.\<close>

fun normal_lines :: "string \<Rightarrow> string" where
  "normal_lines [] = []"
| "normal_lines (c # s) =
     (if c = CHR 0x0D then CHR 0x0A # normal_lines (if s \<noteq> [] \<and> hd s = CHR 0x0A then tl s else s)
      else c # normal_lines s)"

record editor =
  ed_path :: string
  ed_title :: string                   \<comment> \<open>HTML of the title, when the editor sets it\<close>
  ed_text :: string                    \<comment> \<open>the value of the text area\<close>
  ed_status :: string

definition content_of :: "browser \<Rightarrow> json result \<Rightarrow> string result" where
  "content_of br r =
     (case r of
        Inl e \<Rightarrow> throw e
      | Inr d \<Rightarrow> (case prop_of br ''content'' d of Inl e \<Rightarrow> throw e | Inr c \<Rightarrow> return (text_of c)))"

text \<open>A given file is read, its error shown; without one the user is asked, and an error is not shown.\<close>

definition ed_build :: "browser \<Rightarrow> string \<Rightarrow> editor \<Rightarrow> editor prog" where
  "ed_build br path s0 =
     (let s = s0\<lparr>ed_path := path\<rparr>
      in if path \<noteq> ''/'' then
           sys br ''fs.read'' [(''path'', JStr path)] s (\<lambda>r s'. Done
             (case content_of br r of
                Inr c \<Rightarrow> s'\<lparr>ed_text := normal_lines c\<rparr>
              | Inl e \<Rightarrow> s'\<lparr>ed_text := [], ed_status := e\<rparr>))
         else
           Prompt ''Open file (rootfs path):'' ''/notes.txt'' (\<lambda>a.
             let p = (case a of Some (c # cs) \<Rightarrow> c # cs | _ \<Rightarrow> ''/untitled.txt'')
             in sys br ''fs.read'' [(''path'', JStr p)]
                  (s\<lparr>ed_path := p, ed_title := span_class ''ico'' (icon ''pencil'') @ esc (last_segment p)\<rparr>)
                  (\<lambda>r s'. Done
                    (case content_of br r of
                       Inr c \<Rightarrow> s'\<lparr>ed_text := normal_lines c\<rparr>
                     | Inl e \<Rightarrow> s'\<lparr>ed_text := []\<rparr>))))"

definition saved_text :: "browser \<Rightarrow> json \<Rightarrow> string" where
  "saved_text br r = ''saved '' @ [mid_dot] @ '' '' @ text_of (prop_or_null ''bytes'' r) @ '' bytes''"

definition ed_save :: "browser \<Rightarrow> editor \<Rightarrow> editor prog" where
  "ed_save br s =
     sys br ''fs.write'' [(''path'', JStr (ed_path s)), (''content'', JStr (ed_text s))] s (\<lambda>r s'. Done
       (case r of
          Inl e \<Rightarrow> s'\<lparr>ed_status := [cross] @ '' '' @ e\<rparr>
        | Inr v \<Rightarrow> s'\<lparr>ed_status := (if v = JNull then [cross] @ '' '' @ br_type_error br else saved_text br v)\<rparr>))"

definition new_editor :: editor where
  "new_editor = \<lparr>ed_path = [], ed_title = [], ed_text = [], ed_status = []\<rparr>"

section \<open>Through the gate\<close>

lemma append_file_other:
  assumes "q \<noteq> path_segs full"
  shows "file_at q (append_file env full out tree) = file_at q tree"
proof -
  let ?w = "write_file env full ((case read_file env full tree of Inl e \<Rightarrow> [] | Inr c \<Rightarrow> c) @ out) tree"
  have "?w = (fst ?w, snd ?w)" by simp
  from write_frame [OF this, of q] assms show ?thesis by (simp add: append_file_def)
qed

lemma flush_other:
  assumes "proper rs" "rs \<noteq> []" "k_root k = abs_path rs" "q \<noteq> audit_segs rs"
  shows "file_at q (k_fs (flush_audit env es k)) = file_at q (k_fs k)"
proof -
  have "file_at q (fold (\<lambda>e. append_file env (auditPath (abs_path rs)) (wire_line (audit_json e))) es t) = file_at q t" for t
    using assms(4) by (induction es arbitrary: t) (simp_all add: append_file_other audit_path(2) [OF assms(1,2)])
  with assms(3) show ?thesis by (simp add: flush_audit_def)
qed

text \<open>A call that succeeds ran the handler on the files as they were.\<close>

lemma call_succeeds:
  assumes "kernel_call env clk meth params k = (Inr v, k')"
  obtains c s1 s2 es where "registry_get (kernel_registry env) meth = Some c"
    "cap_handler c params s1 = (Inr v, s2)" "k_fs s1 = k_fs k" "k_root s1 = k_root k"
    "k' = flush_audit env es (s2\<lparr>g_audit := g_audit s2 @ es\<rparr>)"
proof -
  obtain k1 where d: "dispatch clk (kernel_registry env) meth params k = (Inr v, k1)"
    and k': "k' = flush_audit env (drop (length (g_audit k)) (g_audit k1)) k1"
    using assms by (auto simp: kernel_call_def split: prod.splits)
  show thesis
  proof (cases rule: dispatch_cases [of clk "kernel_registry env" meth params k])
    case (refused e s')
    with d show thesis by simp
  next
    case (started c d' summary s1 r s2)
    then have r: "r = Inr v" and k1: "k1 = audit_append (allowed_entry clk meth (cap_risk c) (reason d') summary None) s2"
      using d by (auto simp: settle_def split: sum.splits)
    have s1: "k_fs s1 = k_fs k \<and> k_root s1 = k_root k \<and> g_audit s1 = g_audit k"
      using started(1) by (auto simp: admit_def Let_def split: option.splits if_splits)
    have "g_audit s2 = g_audit s1" using handler_effect(1) [OF started(2,3)] by simp
    with s1 k1 k' have "k' = flush_audit env [allowed_entry clk meth (cap_risk c) (reason d') summary None]
        (s2\<lparr>g_audit := g_audit s2 @ [allowed_entry clk meth (cap_risk c) (reason d') summary None]\<rparr>)"
      by (simp add: audit_append_def)
    with that [of c s1 s2] started(2,3) r s1 show thesis by blast
  qed
qed

lemma table_lookup:
  assumes "c \<in> set (kernel_table env (kernel_infos env))"
  shows "registry_get (kernel_registry env) (cap_name c) = Some c"
proof -
  have "distinct (map fst (kernel_registry env))"
    using distinct_names by (simp add: registry_is_table comp_def table_names)
  moreover have "(cap_name c, c) \<in> set (kernel_registry env)" using assms by (simp add: registry_is_table)
  ultimately show ?thesis by (simp add: registry_get_def)
qed

lemma fs_table:
  "registry_get (kernel_registry env) ''fs.write'' = Some (fsCaps env ! 1)"
  "registry_get (kernel_registry env) ''fs.read'' = Some (fsCaps env ! 0)"
  "registry_get (kernel_registry env) ''fs.list'' = Some (fsCaps env ! 2)"
  using table_lookup [of "fsCaps env ! 1" env] table_lookup [of "fsCaps env ! 0" env] table_lookup [of "fsCaps env ! 2" env]
  by (simp_all add: kernel_table_def fsCaps_def cap_def)

lemma write_call:
  assumes "proper rs" "rs \<noteq> []" "k_root k = abs_path rs"
    and "kernel_call env clk ''fs.write'' params k = (Inr v, k')"
  obtains tree where "fs_write env (abs_path rs) params (k_fs k) = (Inr v, tree)" "k_root k' = abs_path rs"
    "\<And>q. q \<noteq> audit_segs rs \<Longrightarrow> file_at q (k_fs k') = file_at q tree"
proof -
  obtain c s1 s2 es where call: "registry_get (kernel_registry env) ''fs.write'' = Some c"
    "cap_handler c params s1 = (Inr v, s2)" "k_fs s1 = k_fs k" "k_root s1 = k_root k"
    "k' = flush_audit env es (s2\<lparr>g_audit := g_audit s2 @ es\<rparr>)"
    using call_succeeds [OF assms(4)] by blast
  have "on_fs (fs_write env) params s1 = (Inr v, s2)"
    using call(1,2) by (auto simp: fs_table fsCaps_def cap_def)
  then obtain tree where "fs_write env (abs_path rs) params (k_fs k) = (Inr v, tree)" "s2 = s1\<lparr>k_fs := tree\<rparr>"
    using assms(3) call(3,4) by (auto simp: on_fs_def split: prod.splits)
  moreover from this have "file_at q (k_fs k') = file_at q tree" if "q \<noteq> audit_segs rs" for q
    using flush_other [OF assms(1,2) _ that, of "s2\<lparr>g_audit := g_audit s2 @ es\<rparr>"] call(4,5) assms(3) by simp
  moreover from calculation have "k_root k' = abs_path rs"
    using call(4,5) assms(3) by (simp add: flush_audit_def)
  ultimately show thesis using that by blast
qed

text \<open>A read needs no grant.\<close>

lemma read_call:
  "fst (kernel_call env clk ''fs.read'' [(''path'', JStr p)] k) =
     (case fst (fs_read env (k_root k) [(''path'', JStr p)] (k_fs k)) of
        Inl e \<Rightarrow> Inl \<lparr>err_code = ''EFAULT'', err_message = e\<rparr>
      | Inr v \<Rightarrow> Inr v)"
  by (simp add: kernel_call_def dispatch_def admit_def fs_table fsCaps_def cap_def decide_def validate_def
      params_of_def described_def or_empty_def settle_def on_fs_def type_ok_def split: prod.splits sum.splits)

lemma write_reply:
  "fst (kernel_call env clk ''fs.write'' [(''path'', JStr p), (''content'', JStr c)] k) =
     (let d = decide (g_mode k) ''fs.write'' Write (g_grants k)
      in if \<not> allow d then Inl \<lparr>err_code = ''EPERM'', err_message = reason d\<rparr>
         else case fst (fs_write env (k_root k) [(''path'', JStr p), (''content'', JStr c)] (k_fs k)) of
           Inl e \<Rightarrow> Inl \<lparr>err_code = ''EFAULT'', err_message = e\<rparr>
         | Inr v \<Rightarrow> Inr v)"
proof -
  obtain r t where "fs_write env (k_root k) [(''path'', JStr p), (''content'', JStr c)] (k_fs k) = (r, t)"
    by fastforce
  then show ?thesis
    by (cases "grantKey (decide (g_mode k) ''fs.write'' Write (g_grants k))"; cases r)
      (simp_all add: kernel_call_def dispatch_def admit_def fs_table fsCaps_def cap_def validate_def Let_def
        params_of_def str_param_def typed_def or_empty_def settle_def on_fs_def type_ok_def)
qed

lemma play_save:
  "play br (console_gate env clk other) (ed_save br s) k =
     (case kernel_call env clk ''fs.write'' [(''path'', JStr (ed_path s)), (''content'', JStr (ed_text s))] k of
        (Inl e, k') \<Rightarrow> (s\<lparr>ed_status := [cross] @ '' '' @ err_code e @ '': '' @ err_message e\<rparr>, k')
      | (Inr v, k') \<Rightarrow>
          (s\<lparr>ed_status := (if v = JNull then [cross] @ '' '' @ br_type_error br else saved_text br v)\<rparr>, k'))"
  by (simp add: ed_save_def play_sys split: prod.splits sum.splits)

text \<open>
  C34. What the editor saves is what it reads: when the status line of an editor says that its
  text is saved, a new editor on the same path shows that text, through the gate, the kernel
  and its files, under any policy; the line names the number of its bytes; and of all files of
  the host only that one and the audit log have changed.
\<close>

theorem editor_roundtrip:
  assumes "proper rs" "rs \<noteq> []" "k_root k = abs_path rs" "ed_path s \<noteq> ''/''" "normal_lines (ed_text s) = ed_text s"
    and "play br (console_gate env clk other) (ed_save br s) k = (s1, k1)" "prefix ''saved'' (ed_status s1)"
    and "en_cwd env' = en_cwd env"
  shows "ed_text (fst (play br (console_gate env' clk' other) (ed_build br (ed_path s) new_editor) k1)) = ed_text s \<and>
    ed_status s1 = ''saved '' @ [mid_dot] @ '' '' @ nat_str (byte_length (ed_text s)) @ '' bytes'' \<and>
    (\<exists>ss. virtual_segs rs (ed_path s) = Some ss \<and>
      (\<forall>q. q \<noteq> ss \<and> q \<noteq> audit_segs rs \<longrightarrow> file_at q (k_fs k1) = file_at q (k_fs k)))"
proof -
  let ?args = "[(''path'', JStr (ed_path s)), (''content'', JStr (ed_text s))]"
  have args: "arg_str ''path'' ?args = ed_path s" "arg_str ''content'' ?args = ed_text s"
    by (simp_all add: arg_str_def)
  obtain v where call: "kernel_call env clk ''fs.write'' ?args k = (Inr v, k1)"
    and status: "ed_status s1 = (if v = JNull then [cross] @ '' '' @ br_type_error br else saved_text br v)"
    using assms(6,7) by (auto simp: play_save split: prod.splits sum.splits)
  obtain tree where w: "fs_write env (abs_path rs) ?args (k_fs k) = (Inr v, tree)" and root: "k_root k1 = abs_path rs"
    and same: "\<And>q. q \<noteq> audit_segs rs \<Longrightarrow> file_at q (k_fs k1) = file_at q tree"
    using write_call [OF assms(1-3) call] by blast
  obtain full ss where full: "resolve_in (en_cwd env) (abs_path rs) (ed_path s) = Inr full" "\<not> has_nul full"
    "path_segs full = ss" "virtual_segs rs (ed_path s) = Some ss" "prefix rs ss" "\<not> prefix (rs @ [''.void'']) ss"
    "\<And>q. file_at q tree = (if q = ss then Some (ed_text s) else file_at q (k_fs k))"
    "v = JObj [(''path'', JStr (ed_path s)), (''bytes'', JNum (int (byte_length (ed_text s))))]"
    by (rule fs_write_success [OF assms(1,2) w, unfolded args]) (rule that)
  have ss: "ss \<noteq> audit_segs rs" using full(6) by (auto simp: audit_segs_def)
  have "fs_read env' (abs_path rs) [(''path'', JStr (ed_path s))] (k_fs k1) =
      (return (JObj [(''path'', JStr (ed_path s)), (''content'', JStr (ed_text s))]), k_fs k1)"
    using fs_read_at [of env' "abs_path rs" "[(''path'', JStr (ed_path s))]" full "k_fs k1" "ed_text s"]
      full(1-3,7) same [OF ss] assms(8) by (simp add: arg_str_def)
  then have "fst (kernel_call env' clk' ''fs.read'' [(''path'', JStr (ed_path s))] k1) =
      Inr (JObj [(''path'', JStr (ed_path s)), (''content'', JStr (ed_text s))])"
    by (simp add: read_call root)
  then have "ed_text (fst (play br (console_gate env' clk' other) (ed_build br (ed_path s) new_editor) k1)) = ed_text s"
    using assms(4,5)
    by (auto simp: ed_build_def play_sys content_of_def prop_of_def text_of_def split: prod.splits)
  moreover have "ed_status s1 = ''saved '' @ [mid_dot] @ '' '' @ nat_str (byte_length (ed_text s)) @ '' bytes''"
    using status full(8)
    by (simp add: saved_text_def text_of_def prop_or_null_def field_or_null_def field_def int_str_def)
  moreover have "file_at q (k_fs k1) = file_at q (k_fs k)" if "q \<noteq> ss" "q \<noteq> audit_segs rs" for q
    using that same full(7) by simp
  ultimately show ?thesis using full(4) by blast
qed

definition demo_editor :: editor where
  "demo_editor = \<lparr>ed_path = ''/a.txt'', ed_title = [], ed_text = ''hello'', ed_status = []\<rparr>"

theorem editor_roundtrip_witness:
  "ed_text (fst (play demo_browser (console_gate demo_kenv demo_clock (\<lambda>u b. throw []))
     (ed_build demo_browser ''/a.txt'' new_editor)
     (snd (play demo_browser (console_gate demo_kenv demo_clock (\<lambda>u b. throw []))
       (ed_save demo_browser demo_editor) granted_kernel)))) = ''hello''"
proof -
  have saved: "prefix ''saved'' (ed_status (fst (play demo_browser (console_gate demo_kenv demo_clock (\<lambda>u b. throw []))
       (ed_save demo_browser demo_editor) granted_kernel)))"
  proof -
    let ?args = "[(''path'', JStr ''/a.txt''), (''content'', JStr ''hello'')]"
    have "fst (fs_write demo_kenv ''/srv'' ?args (Dir [(''srv'', Dir [] 0)] 0)) =
        Inr (JObj [(''path'', JStr ''/a.txt''), (''bytes'', JNum 5)])" by code_simp
    then obtain tree where "fs_write demo_kenv ''/srv'' ?args (Dir [(''srv'', Dir [] 0)] 0) =
        (Inr (JObj [(''path'', JStr ''/a.txt''), (''bytes'', JNum 5)]), tree)" by (metis prod.collapse)
    then have "fst (kernel_call demo_kenv demo_clock ''fs.write'' ?args granted_kernel) =
        Inr (JObj [(''path'', JStr ''/a.txt''), (''bytes'', JNum 5)])"
      by (simp add: write_reply granted_kernel_def decide_def permitKey_def Let_def)
    then show ?thesis
      by (auto simp: play_save demo_editor_def saved_text_def split: prod.splits)
  qed
  have "abs_path [''srv''] = ''/srv''" by (simp add: abs_path_def)
  with editor_roundtrip [of "[''srv'']" granted_kernel demo_editor demo_browser demo_kenv demo_clock "\<lambda>u b. throw []",
      OF _ _ _ _ _ surjective_pairing saved refl]
  show ?thesis by (simp add: proper_seg_def granted_kernel_def demo_editor_def)
qed

end
