(* ===== verification/VoidApps.thy ===== *)
theory VoidApps
  imports VoidFiles
begin

text \<open>
  The other applications of os.js: terminal, system panel, the lists of services and processes, the
  chat with the mind, the launcher of native programs. What they show is the HTML they build; the
  theorems say how a page reads it, whatever names and outputs the machine answers with.
\<close>

section \<open>Terminal\<close>

record terminal =
  te_out :: "(string \<times> string) list"  \<comment> \<open>class and HTML of the lines after the greeting\<close>
  te_input :: string

definition te_append :: "string \<Rightarrow> string \<Rightarrow> terminal \<Rightarrow> terminal" where
  "te_append c html t = t\<lparr>te_out := te_out t @ [(c, html)]\<rparr>"

definition te_line :: "json \<Rightarrow> string \<Rightarrow> string \<Rightarrow> (string \<Rightarrow> string) \<Rightarrow> terminal \<Rightarrow> terminal" where
  "te_line r k c f t = (let v = prop_or_null k r in if truthy v then te_append c (f (text_of v)) t else t)"

definition te_answer :: "browser \<Rightarrow> json result \<Rightarrow> terminal \<Rightarrow> terminal" where
  "te_answer br r t =
     (case r of
        Inl e \<Rightarrow> te_append ''err'' (esc e) t
      | Inr v \<Rightarrow>
          if v = JNull then te_append ''err'' (esc (br_type_error br)) t
          else te_line v ''code'' ''muted'' (\<lambda>c. ''[exit '' @ c @ '']'')
                 (te_line v ''stderr'' ''err'' esc (te_line v ''stdout'' [] esc t)))"

text \<open>The enter key; the promise of the gate may come after other lines.\<close>

definition te_enter :: "browser \<Rightarrow> terminal \<Rightarrow> terminal prog" where
  "te_enter br t =
     (let cmd = trim (te_input t)
      in if cmd = [] then Done t
         else
           let t1 = te_append ''cmd'' (''void:/$ '' @ esc cmd) (t\<lparr>te_input := []\<rparr>)
           in if cmd = ''clear'' then Done (t1\<lparr>te_out := []\<rparr>)
              else sys br ''shell.exec'' [(''cmd'', JStr cmd)] t1 (\<lambda>r t'. Done (te_answer br r t')))"

datatype te_act = Type string | Enter

fun te_listen :: "browser \<Rightarrow> te_act \<Rightarrow> terminal \<Rightarrow> terminal prog" where
  "te_listen br (Type s) t = Done (t\<lparr>te_input := s\<rparr>)"
| "te_listen br Enter t = te_enter br t"

definition new_terminal :: terminal where
  "new_terminal = \<lparr>te_out = [], te_input = []\<rparr>"

section \<open>Panels that refresh themselves\<close>

definition trouble_html :: "string \<Rightarrow> string" where
  "trouble_html e = div_class ''pad dim'' (esc e)"

definition row_html :: "string \<times> string \<Rightarrow> string" where
  "row_html r =
     (case r of (label, status) \<Rightarrow>
        div_class ''row'' (''<span>'' @ esc label @ end_tag ''span'' @
          span_class (''badge '' @ statusClass status) (esc status)))"

definition list_html :: "(string \<times> string) list \<Rightarrow> string" where
  "list_html rows =
     tag_class ''div'' ''pad list'' @
     (if rows = [] then span_class ''dim'' ''none'' else concat (map row_html rows)) @ end_tag ''div''"

definition service_row :: "json \<Rightarrow> string \<times> string" where
  "service_row x = (text_of (prop_or_null ''name'' x), text_of (prop_or_null ''status'' x))"

definition process_row :: "json \<Rightarrow> string \<times> string" where
  "process_row x =
     (text_of (prop_or_null ''id'' x) @ '' '' @ text_of (prop_or_null ''cmd'' x), text_of (prop_or_null ''status'' x))"

text \<open>One refresh: the call, and the body of the window after its answer.\<close>

definition list_body :: "browser \<Rightarrow> string \<Rightarrow> (json \<Rightarrow> string \<times> string) \<Rightarrow> json result \<Rightarrow> string" where
  "list_body br fld row r =
     (case r of
        Inl e \<Rightarrow> trouble_html e
      | Inr d \<Rightarrow>
          (case prop_of br fld d of
             Inr (JArr xs) \<Rightarrow> list_html (map row xs)
           | _ \<Rightarrow> trouble_html (br_type_error br)))"

definition list_refresh :: "browser \<Rightarrow> string \<Rightarrow> string \<Rightarrow> (json \<Rightarrow> string \<times> string) \<Rightarrow> string \<Rightarrow> string prog" where
  "list_refresh br meth fld row body =
     sys br meth [] body (\<lambda>r body'. Done (list_body br fld row r))"

definition round_seconds :: "json \<Rightarrow> string" where
  "round_seconds ms = (case ms of JNum n \<Rightarrow> int_str ((n + 500) div 1000) | _ \<Rightarrow> ''NaN'')"

definition kv_html :: "string \<times> string \<Rightarrow> string" where
  "kv_html p = (case p of (k, v) \<Rightarrow> lf # replicate 12 CHR 0x20 @ span_class ''k'' k @ span_class ''v'' v)"

definition system_html :: "json \<Rightarrow> string" where
  "system_html i =
     (let get = (\<lambda>k. text_of (prop_or_null k i)); host = (\<lambda>k. text_of (prop_or_null k (prop_or_null ''host'' i)))
      in tag_class ''div'' ''pad'' @ tag_class ''div'' ''kv'' @
         concat (map kv_html
           [(''voidOS'', esc (get ''void_version'')),
            (''host'', esc (host ''platform'') @ '' '' @ esc (host ''release'')),
            (''policy'', esc (get ''policy'')),
            (''capabilities'', get ''capability_count''),
            (''uptime'', round_seconds (prop_or_null ''uptime_ms'' i) @ ''s''),
            (''pid (kernel)'', host ''pid''),
            (''grants'', esc (stringify (prop_or_null ''active_grants'' i)))]) @
         lf # replicate 10 CHR 0x20 @ end_tag ''div'' @ end_tag ''div'')"

definition system_body :: "browser \<Rightarrow> json result \<Rightarrow> string" where
  "system_body br r =
     (case r of
        Inl e \<Rightarrow> trouble_html e
      | Inr i \<Rightarrow> if i = JNull \<or> prop_or_null ''host'' i = JNull then trouble_html (br_type_error br) else system_html i)"

definition system_refresh :: "browser \<Rightarrow> string \<Rightarrow> string prog" where
  "system_refresh br body = sys br ''sys.info'' [] body (\<lambda>r body'. Done (system_body br r))"

section \<open>Chat with the mind\<close>

record chat =
  ch_log :: "(nat \<times> string \<times> string) list"   \<comment> \<open>the elements, their class and HTML\<close>
  ch_next :: nat
  ch_input :: string
  ch_disabled :: bool

definition ch_append :: "string \<Rightarrow> string \<Rightarrow> chat \<Rightarrow> chat" where
  "ch_append c html s = s\<lparr>ch_log := ch_log s @ [(ch_next s, c, html)], ch_next := ch_next s + 1\<rparr>"

definition ch_remove :: "nat \<Rightarrow> chat \<Rightarrow> chat" where
  "ch_remove n s = s\<lparr>ch_log := filter (\<lambda>(i, c, h). i \<noteq> n) (ch_log s)\<rparr>"

definition new_chat :: chat where
  "new_chat =
     ch_append ''void'' ''voidOS mind ready. I can act on the machine for you.''
       \<lparr>ch_log = [], ch_next = 0, ch_input = [], ch_disabled = False\<rparr>"

definition ch_syscalls :: "json \<Rightarrow> chat \<Rightarrow> chat" where
  "ch_syscalls r s =
     (case prop_or_null ''syscalls'' r of
        JArr (c # cs) \<Rightarrow>
          ch_append ''sys''
            (join_with ''  '' (map (\<lambda>c. [mid_dot] @ '' '' @ text_of (prop_or_null ''capability'' c)) (c # cs))) s
      | _ \<Rightarrow> s)"

definition ch_answer :: "browser \<Rightarrow> nat \<Rightarrow> json result \<Rightarrow> chat \<Rightarrow> chat" where
  "ch_answer br think r s0 =
     (let s = ch_remove think s0;
          s1 = (case r of
                  Inl e \<Rightarrow> ch_append ''void'' ([cross] @ '' '' @ e) s
                | Inr d \<Rightarrow>
                    if d = JNull then ch_append ''void'' ([cross] @ '' '' @ br_type_error br) s
                    else ch_append ''void''
                      (if truthy (prop_or_null ''error'' d) then [cross] @ '' '' @ text_of (prop_or_null ''error'' d)
                       else if truthy (prop_or_null ''reply'' d) then text_of (prop_or_null ''reply'' d)
                       else ''(no reply)'')
                      (ch_syscalls d s))
      in s1\<lparr>ch_disabled := False\<rparr>)"

text \<open>The enter key; an input that is disabled gets no keys.\<close>

definition ch_enter :: "browser \<Rightarrow> chat \<Rightarrow> chat prog" where
  "ch_enter br s =
     (let msg = trim (ch_input s)
      in if ch_disabled s \<or> msg = [] then Done s
         else
           let s1 = ch_append ''you'' (''you> '' @ esc msg) (s\<lparr>ch_input := [], ch_disabled := True\<rparr>);
               s2 = ch_append ''sys'' (''thinking'' @ [CHR 0x85]) s1
           in Fetch s2 ''/api/chat'' (JObj [(''message'', JStr msg)])
                (\<lambda>r s'. Done (ch_answer br (ch_next s1) r s')))"

section \<open>Native programs\<close>

text \<open>The status line of the launcher; \<open>app\<close> is the input or the name of a button.\<close>

definition screen_run :: "browser \<Rightarrow> string \<Rightarrow> string \<Rightarrow> string prog" where
  "screen_run br app0 status =
     (let app = trim app0
      in if app = [] then Done status
         else
           sys br ''shell.exec'' [(''cmd'', JStr (''gui-run '' @ app @ '' >/tmp/voidgui/launch.log 2>&1 &''))]
             (''launching '' @ app @ [CHR 0x85])
             (\<lambda>r s. Done
               (case r of
                  Inl e \<Rightarrow> [cross] @ '' '' @ e
                | Inr v \<Rightarrow> app @ '' launched '' @ [CHR 0x9B])))"

section \<open>How a page reads them\<close>

lemma tags_esc [simp]: "html_tags (esc s) = []"
  using tags_simps(2) [of "[]" s] by simp

lemma tokens_esc_end [simp]:
  "html_tokens (esc s @ end_tag t @ X) = text_token (shown s) @ html_tokens (end_tag t @ X)"
  by (rule tokens_esc) simp

lemma plain_names [simp]: "plain_name ''div''" "plain_name ''span''"
  by (simp_all add: plain_name_def)

definition row_tokens :: "string \<times> string \<Rightarrow> html_token list" where
  "row_tokens r =
     (case r of (label, status) \<Rightarrow>
        [class_token ''div'' ''row'', Tag ''span''] @ text_token (shown label) @
        [Tag ''/span'', class_token ''span'' (''badge '' @ statusClass status)] @ text_token (shown status) @
        [Tag ''/span'', Tag ''/div''])"

lemma tokens_span [simp]: "html_tokens (''<span>'' @ X) = Tag ''span'' # html_tokens X"
  by (simp add: tokens_tag)

lemma class_plain: "CHR 0x22 \<notin> set (''badge '' @ statusClass status)"
  by (simp add: statusClass_def)

lemma row_tokens: "html_tokens (row_html r @ X) = row_tokens r @ html_tokens X"
  by (cases r)
    (simp add: row_html_def row_tokens_def div_class_def span_class_def class_plain
      del: append_Cons append_Nil set_append)

lemma rows_tokens: "html_tokens (concat (map row_html rows) @ X) = concat (map row_tokens rows) @ html_tokens X"
  by (induction rows) (simp_all add: row_tokens)

text \<open>
  The lists of services and processes show what the machine answers and nothing else: a
  page reads them as one row for each entry, with its name and its status as plain text and the
  badge of its status, whatever the names and commands contain.
\<close>

theorem list_shows_names:
  "html_tokens (list_html rows) =
     class_token ''div'' ''pad list'' #
     (if rows = [] then [class_token ''span'' ''dim'', Txt ''none'', Tag ''/span''] else concat (map row_tokens rows)) @
     [Tag ''/div'']"
proof -
  have close: "html_tokens (end_tag ''div'') = [Tag ''/div'']"
    using tokens_end [of "''div''" "[]"] by simp
  have none: "''none'' @ X = esc ''none'' @ X" for X by (simp add: esc_char_def)
  show ?thesis
    unfolding list_html_def using rows_tokens [of rows "end_tag ''div''"]
    by (simp add: close span_class_def none text_token_def del: append_Cons append_Nil esc_simps)
qed

definition te_ok :: "terminal \<Rightarrow> bool" where
  "te_ok t \<longleftrightarrow> list_all (\<lambda>(c, html). c \<noteq> ''muted'' \<longrightarrow> html_tags html = []) (te_out t)"

lemma te_ok_simps [simp]:
  "te_ok (te_append c html t) \<longleftrightarrow> te_ok t \<and> (c \<noteq> ''muted'' \<longrightarrow> html_tags html = [])"
  "te_ok (t\<lparr>te_input := i\<rparr>) = te_ok t" "te_ok (t\<lparr>te_out := []\<rparr>)"
  by (auto simp: te_ok_def te_append_def)

lemma prompt_esc: "''void:/$ '' @ esc s = esc (''void:/$ '' @ s)"
  by (simp add: esc_char_def)

lemma te_line_ok [simp]: "te_ok t \<Longrightarrow> c = ''muted'' \<or> f = esc \<Longrightarrow> te_ok (te_line r k c f t)"
  by (auto simp: te_line_def Let_def)

lemma te_answer_ok: "te_ok t \<Longrightarrow> te_ok (te_answer br r t)"
  by (simp add: te_answer_def split: sum.splits)

lemma te_listen_safe: "te_ok t \<Longrightarrow> safe_prog te_ok (calls_only [''shell.exec'']) (te_listen br a t)"
proof (cases a)
  case Enter
  assume "te_ok t"
  then show ?thesis
    unfolding Enter te_listen.simps te_enter_def Let_def prompt_esc
    by (simp add: safe_sys te_answer_ok del: esc_simps)
qed simp

interpretation terminalm: page_machine "te_listen br" te_ok "calls_only [''shell.exec'']" for br
  by unfold_locales (rule te_listen_safe)

text \<open>
  The terminal sends commands to \<open>shell.exec\<close> and calls nothing else; and whatever
  was typed and whatever the gate answers, in whatever order, no line of its output brings markup
  into the page (the line of the exit code aside, which the gate makes a number).
\<close>

theorem terminal_runs_safe:
  "safe_page te_ok (calls_only [''shell.exec'']) (fold (page_step br (te_listen br)) es (open_page new_terminal))"
  by (rule terminalm.page_runs_safe) (simp add: te_ok_def new_terminal_def)

text \<open>The chat is not so careful: a reply of the model is HTML to the page.\<close>

lemma chat_reply_is_markup:
  assumes "trim (ch_input s) \<noteq> []" "\<not> ch_disabled s"
  shows "snd (snd (last (ch_log (fst (play br (\<lambda>url body w. (return (JObj [(''reply'', JStr (c # h))]), w)) (ch_enter br s) w)))))
    = c # h"
  using assms by (simp add: ch_enter_def Let_def ch_answer_def ch_append_def ch_syscalls_def prop_or_null_def
      field_or_null_def field_def text_of_def)

end
