(* ===== verification/VoidIcons.thy ===== *)
theory VoidIcons
  imports VoidApps
begin

text \<open>
  The desktop of os.js: the icons of the folder /Desktop with the layout it keeps in the memory
  store, their drags, the context menus and the power menu. The layout is a JSON object from
  names to positions; the store is taken to hold an object or nothing under its key.
\<close>

section \<open>Layout\<close>

definition desk_dir :: string where
  "desk_dir = ''/Desktop''"

text \<open>
  \<open>!layout[name]\<close>: a name that every object inherits counts as laid out, with no position.
\<close>

definition laid_out :: "jobject \<Rightarrow> string \<Rightarrow> bool" where
  "laid_out layout name =
     (case map_of layout name of
        Some v \<Rightarrow> truthy v
      | None \<Rightarrow> name \<in> set inherited_keys)"

text \<open>\<open>layout[name].x + "px"\<close> as a style: what is no whole number is no position.\<close>

definition coord :: "string \<Rightarrow> jobject \<Rightarrow> string \<Rightarrow> int option" where
  "coord axis layout name =
     (case map_of layout name of
        Some v \<Rightarrow> (case field v axis of Some (JNum n) \<Rightarrow> Some n | _ \<Rightarrow> None)
      | None \<Rightarrow> None)"

definition position :: "int \<Rightarrow> int \<Rightarrow> json" where
  "position x y = JObj [(''x'', JNum x), (''y'', JNum y)]"

text \<open>One pass of the loop: the place of an entry without one, and the next free cell.\<close>

definition place_entry :: "int \<Rightarrow> string \<Rightarrow> jobject \<times> int \<times> int \<Rightarrow> jobject \<times> int \<times> int" where
  "place_entry h name st =
     (case st of (layout, gx, gy) \<Rightarrow>
        if laid_out layout name then st
        else
          let layout' = obj_assign name (position gx gy) layout; gy' = gy + 104
          in if gy' > h - 200 then (layout', gx + 104, 18) else (layout', gx, gy'))"

record desk_icon =
  di_entry :: fentry
  di_left :: "int option"
  di_top :: "int option"
  di_sel :: bool

definition icon_at :: "jobject \<Rightarrow> fentry \<Rightarrow> desk_icon" where
  "icon_at layout e =
     \<lparr>di_entry = e, di_left = coord ''x'' layout (fe_name e), di_top = coord ''y'' layout (fe_name e), di_sel = False\<rparr>"

fun place_all :: "int \<Rightarrow> fentry list \<Rightarrow> jobject \<times> int \<times> int \<Rightarrow> desk_icon list \<times> jobject" where
  "place_all h [] st = ([], fst st)"
| "place_all h (e # es) st =
     (let st' = place_entry h (fe_name e) st
      in apfst (Cons (icon_at (fst st') e)) (place_all h es st'))"

section \<open>The desktop\<close>

record icons =
  ic_layout :: jobject
  ic_icons :: "desk_icon list"

definition visible_entry :: "fentry \<Rightarrow> bool" where
  "visible_entry e \<longleftrightarrow> fe_name e \<noteq> ''.keep'' \<and> \<not> prefix ''.'' (fe_name e)"

definition welcome_note :: string where
  "welcome_note = ''Welcome to voidOS.'' @ [lf, lf] @
     ''This is your desktop. Right-click empty space to create files and folders.'' @ [lf] @
     ''Double-click an icon to open it. Drag icons to arrange them.''"

text \<open>A failure to save the layout is ignored.\<close>

definition saveLayout :: "browser \<Rightarrow> icons \<Rightarrow> (icons \<Rightarrow> icons prog) \<Rightarrow> icons prog" where
  "saveLayout br s k =
     sys br ''memory.set'' [(''key'', JStr ''desktop.layout''), (''value'', JObj (ic_layout s))] s (\<lambda>r. k)"

definition draw_icons :: "browser \<Rightarrow> fentry list \<Rightarrow> icons \<Rightarrow> icons prog" where
  "draw_icons br es s =
     (case place_all (br_height br) es (ic_layout s, 20, 18) of
        (icons, layout) \<Rightarrow> saveLayout br (s\<lparr>ic_layout := layout, ic_icons := icons\<rparr>) Done)"

text \<open>
  \<open>render\<close>: an error of the first listing counts as an empty folder; an error of a later call, which
  nobody catches, ends it.
\<close>

definition seed :: "browser \<Rightarrow> icons \<Rightarrow> icons prog" where
  "seed br s =
     sys br ''fs.write'' [(''path'', JStr (desk_dir @ ''/Welcome.txt'')), (''content'', JStr welcome_note)] s (\<lambda>r1 s1.
       case r1 of Inl e \<Rightarrow> Done s1 | Inr v1 \<Rightarrow>
       sys br ''fs.write'' [(''path'', JStr (desk_dir @ ''/Projects/.keep'')), (''content'', JStr [])] s1 (\<lambda>r2 s2.
         case r2 of Inl e \<Rightarrow> Done s2 | Inr v2 \<Rightarrow>
         sys br ''fs.list'' [(''path'', JStr desk_dir)]
           (s2\<lparr>ic_layout := obj_assign ''__seeded'' (JBool True) (ic_layout s2)\<rparr>) (\<lambda>r3 s3.
           case entries_of br r3 of Inl e \<Rightarrow> Done s3 | Inr es \<Rightarrow> draw_icons br (filter visible_entry es) s3)))"

definition render_icons :: "browser \<Rightarrow> icons \<Rightarrow> icons prog" where
  "render_icons br s =
     sys br ''fs.list'' [(''path'', JStr desk_dir)] s (\<lambda>r s'.
       let es = filter visible_entry (case entries_of br r of Inl e \<Rightarrow> [] | Inr xs \<Rightarrow> xs)
       in if es = [] \<and> \<not> laid_out (ic_layout s') ''__seeded'' then seed br s' else draw_icons br es s')"

text \<open>\<open>initDesktopIcons\<close>, after the layer is made.\<close>

definition init_icons :: "browser \<Rightarrow> icons \<Rightarrow> icons prog" where
  "init_icons br s =
     sys br ''memory.get'' [(''key'', JStr ''desktop.layout'')] s (\<lambda>r s'.
       render_icons br (s'\<lparr>ic_layout :=
         (case r of Inr d \<Rightarrow> (case field d ''value'' of Some (JObj ps) \<Rightarrow> ps | _ \<Rightarrow> []) | Inl e \<Rightarrow> [])\<rparr>))"

section \<open>Listeners of an icon and of the desktop\<close>

text \<open>A press selects; a move of more than four pixels drags; the release saves where it ends.\<close>

definition select_icon :: "nat \<Rightarrow> icons \<Rightarrow> icons" where
  "select_icon i s =
     s\<lparr>ic_icons := map (\<lambda>(j, d). d\<lparr>di_sel := j = i\<rparr>) (List.enumerate 0 (ic_icons s))\<rparr>"

record icon_drag =
  dg_from :: "int \<times> int"               \<comment> \<open>sx, sy\<close>
  dg_offset :: "int \<times> int"             \<comment> \<open>ox, oy\<close>
  dg_moved :: bool

definition drag_icon :: "nat \<Rightarrow> int \<Rightarrow> int \<Rightarrow> icon_drag \<times> icons \<Rightarrow> icon_drag \<times> icons" where
  "drag_icon i x y st =
     (case st of (d, s) \<Rightarrow>
        let moved = dg_moved d \<or> \<bar>x - fst (dg_from d)\<bar> + \<bar>y - snd (dg_from d)\<bar> > 4;
            lx = max 0 (fst (dg_offset d) + x - fst (dg_from d));
            ly = max 0 (snd (dg_offset d) + y - snd (dg_from d))
        in (d\<lparr>dg_moved := moved\<rparr>,
            if moved then
              s\<lparr>ic_icons := (ic_icons s)[i := (ic_icons s ! i)\<lparr>di_left := Some lx, di_top := Some ly\<rparr>]\<rparr>
            else s))"

definition drop_icon :: "browser \<Rightarrow> nat \<Rightarrow> int \<Rightarrow> int \<Rightarrow> icon_drag \<Rightarrow> icons \<Rightarrow> icons prog" where
  "drop_icon br i offl offt d s =
     (if dg_moved d then
        saveLayout br
          (s\<lparr>ic_layout := obj_assign (fe_name (di_entry (ic_icons s ! i))) (position offl offt) (ic_layout s)\<rparr>) Done
      else Done s)"

definition rename_cmd :: "string \<Rightarrow> string \<Rightarrow> string" where
  "rename_cmd a b =
     ''mv '' @ [CHR 0x22] @ ''Desktop/'' @ a @ [CHR 0x22] @ '' '' @ [CHR 0x22] @ ''Desktop/'' @ b @ [CHR 0x22]"

definition forget_icon :: "browser \<Rightarrow> string \<Rightarrow> icons \<Rightarrow> icons prog" where
  "forget_icon br name s =
     saveLayout br (s\<lparr>ic_layout := AList.delete name (ic_layout s)\<rparr>) (render_icons br)"

definition rename_icon :: "browser \<Rightarrow> fentry \<Rightarrow> icons \<Rightarrow> icons prog" where
  "rename_icon br e s =
     Prompt ''Rename to:'' (fe_name e) (\<lambda>a. case a of
        None \<Rightarrow> Done s
      | Some n \<Rightarrow>
          if n = [] \<or> n = fe_name e then Done s
          else sys br ''shell.exec'' [(''cmd'', JStr (rename_cmd (fe_name e) n))] s (\<lambda>r s'.
            case r of Inl err \<Rightarrow> Done s' | Inr v \<Rightarrow> forget_icon br (fe_name e) s'))"

definition delete_icon :: "browser \<Rightarrow> fentry \<Rightarrow> icons \<Rightarrow> icons prog" where
  "delete_icon br e s =
     Confirm (''Delete '' @ fe_name e @ ''?'') (\<lambda>ok.
       if ok then sys br ''fs.remove'' [(''path'', JStr (fe_path e))] s (\<lambda>r s'.
         case r of Inl err \<Rightarrow> Done s' | Inr v \<Rightarrow> forget_icon br (fe_name e) s')
       else Done s)"

text \<open>New Folder and New File of the menu of the desktop.\<close>

definition new_icon :: "browser \<Rightarrow> string \<Rightarrow> string \<Rightarrow> string \<Rightarrow> icons \<Rightarrow> icons prog" where
  "new_icon br msg dflt tail s =
     Prompt msg dflt (\<lambda>a. case a of
        Some (c # cs) \<Rightarrow>
          sys br ''fs.write'' [(''path'', JStr (desk_dir @ ''/'' @ (c # cs) @ tail)), (''content'', JStr [])] s
            (\<lambda>r s'. case r of Inl err \<Rightarrow> Done s' | Inr v \<Rightarrow> render_icons br s')
      | _ \<Rightarrow> Done s)"

datatype icon_act =
    Deselect
  | Press nat
  | Drop nat int int icon_drag
  | Rename nat
  | Remove nat
  | NewFolder
  | NewFile
  | Refresh

fun icon_listen :: "browser \<Rightarrow> icon_act \<Rightarrow> icons \<Rightarrow> icons prog" where
  "icon_listen br Deselect s = Done (s\<lparr>ic_icons := map (\<lambda>d. d\<lparr>di_sel := False\<rparr>) (ic_icons s)\<rparr>)"
| "icon_listen br (Press i) s = Done (select_icon i s)"
| "icon_listen br (Drop i x y d) s = (if i < length (ic_icons s) then drop_icon br i x y d s else Done s)"
| "icon_listen br (Rename i) s =
     (if i < length (ic_icons s) then rename_icon br (di_entry (ic_icons s ! i)) s else Done s)"
| "icon_listen br (Remove i) s =
     (if i < length (ic_icons s) then delete_icon br (di_entry (ic_icons s ! i)) s else Done s)"
| "icon_listen br NewFolder s = new_icon br ''Folder name:'' ''New Folder'' ''/.keep'' s"
| "icon_listen br NewFile s = new_icon br ''File name:'' ''untitled.txt'' [] s"
| "icon_listen br Refresh s = render_icons br s"

section \<open>Menus\<close>

text \<open>The menus of the page: one at most, as a new one removes every other.\<close>

record menu =
  mn_left :: int
  mn_top :: int
  mn_items :: "string option list"     \<comment> \<open>the HTML of a label, None a separator\<close>

definition showMenu :: "int \<Rightarrow> int \<Rightarrow> int \<Rightarrow> string option list \<Rightarrow> menu list \<Rightarrow> menu list" where
  "showMenu inner_width x y items menus =
     [\<lparr>mn_left = min x (inner_width - 180), mn_top = y, mn_items = map (map_option esc) items\<rparr>]"

definition power_items :: "string option list" where
  "power_items = [Some ''Open Terminal'', Some ''Reload desktop'', None, Some ''Restart'', Some ''Shut Down'']"

definition power_cmd :: "browser \<Rightarrow> string \<Rightarrow> string \<Rightarrow> 's \<Rightarrow> 's prog" where
  "power_cmd br question cmd s =
     Confirm question (\<lambda>ok. if ok then sys br ''shell.exec'' [(''cmd'', JStr cmd)] s (\<lambda>r. Done) else Done s)"

definition restart_machine :: "browser \<Rightarrow> 's \<Rightarrow> 's prog" where
  "restart_machine br = power_cmd br ''Restart the machine?'' ''systemctl reboot''"

definition shut_down_machine :: "browser \<Rightarrow> 's \<Rightarrow> 's prog" where
  "shut_down_machine br = power_cmd br ''Shut down the machine?'' ''systemctl poweroff''"

text \<open>The text of the top bar.\<close>

definition sys_text :: "browser \<Rightarrow> json result \<Rightarrow> string" where
  "sys_text br r =
     (case r of
        Inl e \<Rightarrow> ''gate down''
      | Inr i \<Rightarrow>
          if i = JNull then ''gate down''
          else text_of (prop_or_null ''policy'' i) @ '' '' @ [mid_dot] @ '' '' @ text_of (prop_or_null ''capability_count'' i) @
            '' caps '' @ [mid_dot] @ '' up '' @ round_seconds (prop_or_null ''uptime_ms'' i) @ ''s'')"

section \<open>Where icons go\<close>

definition grid_rows :: "int \<Rightarrow> nat" where
  "grid_rows h = nat (max 1 ((h - 218) div 104 + 1))"

text \<open>The cells of the desktop, column by column from the top left.\<close>

definition cell :: "int \<Rightarrow> nat \<Rightarrow> int \<times> int" where
  "cell h n = (20 + 104 * int (n div grid_rows h), 18 + 104 * int (n mod grid_rows h))"

lemma cell_next:
  "cell h (Suc n) =
     (if snd (cell h n) + 104 > h - 200 then (fst (cell h n) + 104, 18) else (fst (cell h n), snd (cell h n) + 104))"
proof -
  let ?r = "grid_rows h"
  have r: "int ?r = max 1 ((h - 218) div 104 + 1)" "0 < ?r" by (simp_all add: grid_rows_def)
  then have m: "n mod ?r < ?r" by simp
  have "18 + 104 * int (n mod ?r) + 104 > h - 200 \<longleftrightarrow> Suc (n mod ?r) = ?r"
  proof
    assume "18 + 104 * int (n mod ?r) + 104 > h - 200"
    then have "(h - 218) div 104 < int (n mod ?r) + 1" by linarith
    with r(1) m show "Suc (n mod ?r) = ?r" by linarith
  next
    assume "Suc (n mod ?r) = ?r"
    with r(1) show "18 + 104 * int (n mod ?r) + 104 > h - 200" by linarith
  qed
  then show ?thesis by (simp add: cell_def div_Suc mod_Suc)
qed

lemma cell_inject: "cell h m = cell h n \<longleftrightarrow> m = n"
  by (auto simp: cell_def) (metis div_mult_mod_eq)

lemma place_entry_cell:
  "place_entry h name (layout, cell h n) =
     (if laid_out layout name then (layout, cell h n)
      else (obj_assign name (position (fst (cell h n)) (snd (cell h n))) layout, cell h (Suc n)))"
  by (simp add: place_entry_def cell_next Let_def split: prod.split)

lemma assigned_lookup:
  assumes "\<not> laid_out layout name"
  shows "map_of (obj_assign name v layout) k = (if k = name then Some v else map_of layout k)"
proof (cases "name = ''__proto__''")
  case True
  with assms have "map_of layout name \<noteq> None" by (auto simp: laid_out_def inherited_keys_def split: option.splits)
  then have "name \<in> set (map_keys layout)" by (rule map_of_keys [THEN iffD2])
  then show ?thesis by (simp only: obj_assign_def simp_thms if_False obj_define_lookup)
qed (simp add: obj_assign_lookup)

text \<open>The entries without a place take the cells in their order; the others stay where they are.\<close>

fun cells :: "int \<Rightarrow> jobject \<Rightarrow> string list \<Rightarrow> nat \<Rightarrow> (int option \<times> int option) list" where
  "cells h layout [] n = []"
| "cells h layout (x # xs) n =
     (if laid_out layout x then (coord ''x'' layout x, coord ''y'' layout x) # cells h layout xs n
      else (Some (fst (cell h n)), Some (snd (cell h n))) # cells h layout xs (Suc n))"

lemma cells_cong:
  "(\<And>x. x \<in> set xs \<Longrightarrow> map_of l1 x = map_of l2 x) \<Longrightarrow> cells h l1 xs n = cells h l2 xs n"
  by (induction xs arbitrary: n) (simp_all add: laid_out_def coord_def)

lemma place_all_cells:
  "distinct (map fe_name es) \<Longrightarrow>
   map (\<lambda>d. (di_left d, di_top d)) (fst (place_all h es (layout, cell h n))) = cells h layout (map fe_name es) n"
proof (induction es arbitrary: layout n)
  case (Cons e es)
  show ?case
  proof (cases "laid_out layout (fe_name e)")
    case True
    with Cons show ?thesis by (simp add: place_entry_cell icon_at_def Let_def)
  next
    case False
    let ?l = "obj_assign (fe_name e) (position (fst (cell h n)) (snd (cell h n))) layout"
    have "cells h ?l (map fe_name es) (Suc n) = cells h layout (map fe_name es) (Suc n)"
      using Cons.prems by (intro cells_cong) (auto simp: assigned_lookup [OF False] image_iff)
    with Cons False show ?thesis
      by (simp add: place_entry_cell icon_at_def Let_def coord_def assigned_lookup position_def field_def)
  qed
qed simp

lemma cells_fresh:
  "list_all (\<lambda>x. \<not> laid_out layout x) xs \<Longrightarrow>
   cells h layout xs n = map (\<lambda>i. (Some (fst (cell h i)), Some (snd (cell h i)))) [n..<n + length xs]"
proof (induction xs arbitrary: n)
  case (Cons x xs)
  then show ?case using upt_conv_Cons [of n "n + length (x # xs)"] by simp
qed simp

text \<open>
  A desktop that is laid out for the first time puts its icons side by side: in the order of
  the listing they fill the cells of a grid column by column, so no two of them are at the same
  place.
\<close>

theorem icons_fill_grid:
  assumes "distinct (map fe_name es)" "list_all (\<lambda>e. \<not> laid_out layout (fe_name e)) es"
    and "ds = fst (place_all h es (layout, 20, 18))"
  shows "map (\<lambda>d. (di_left d, di_top d)) ds = map (\<lambda>i. (Some (fst (cell h i)), Some (snd (cell h i)))) [0..<length es] \<and>
    map (\<lambda>d. (fe_name (di_entry d))) ds = map fe_name es \<and> distinct (map (\<lambda>d. (di_left d, di_top d)) ds)"
proof -
  have start: "(20, 18) = cell h 0" by (simp add: cell_def)
  have "map (\<lambda>d. (di_left d, di_top d)) ds = cells h layout (map fe_name es) 0"
    using place_all_cells [OF assms(1), of h layout 0] by (simp add: assms(3) start)
  also have "\<dots> = map (\<lambda>i. (Some (fst (cell h i)), Some (snd (cell h i)))) [0..<length es]"
    using cells_fresh [of layout "map fe_name es" h 0] assms(2) by (simp add: list.pred_map comp_def)
  finally have places: "map (\<lambda>d. (di_left d, di_top d)) ds = map (\<lambda>i. (Some (fst (cell h i)), Some (snd (cell h i)))) [0..<length es]" .
  have "map (\<lambda>d. fe_name (di_entry d)) (fst (place_all h es st)) = map fe_name es" for st
    by (induction es arbitrary: st) (simp_all add: icon_at_def Let_def)
  moreover have "distinct (map (\<lambda>i. (Some (fst (cell h i)), Some (snd (cell h i)))) [0..<length es])"
    by (auto simp: distinct_map inj_on_def cell_inject prod_eq_iff simp flip: cell_inject [of h])
  ultimately show ?thesis by (simp add: places assms(3) flip: places)
qed


theorem icons_fill_grid_witness:
  "map (\<lambda>d. (di_left d, di_top d))
     (fst (place_all 500 (map (\<lambda>n. \<lparr>fe_name = n, fe_path = [], fe_kind = ''file''\<rparr>) [''a'', ''b'', ''c'', ''d'']) ([], 20, 18)))
   = [(Some 20, Some 18), (Some 20, Some 122), (Some 20, Some 226), (Some 124, Some 18)]"
proof -
  let ?es = "map (\<lambda>n. \<lparr>fe_name = n, fe_path = [], fe_kind = ''file''\<rparr>) [''a'', ''b'', ''c'', ''d'']"
  have "distinct (map fe_name ?es) \<and> list_all (\<lambda>e. \<not> laid_out [] (fe_name e)) ?es" by code_simp
  then have "map (\<lambda>d. (di_left d, di_top d)) (fst (place_all 500 ?es ([], 20, 18))) =
      map (\<lambda>i. (Some (fst (cell 500 i)), Some (snd (cell 500 i)))) [0..<length ?es]"
    using icons_fill_grid [of ?es "[]" _ 500, OF _ _ refl] by blast
  also have "\<dots> = [(Some 20, Some 18), (Some 20, Some 122), (Some 20, Some 226), (Some 124, Some 18)]"
    by code_simp
  finally show ?thesis .
qed

text \<open>
  The cells start again at the first one with every rendering: a file that is new on a desktop
  that has its layout gets the place of the icon that was first.
\<close>

lemma icons_new_file_covers_first:
  assumes "distinct [fe_name a, fe_name b]" "\<not> laid_out layout (fe_name a)" "\<not> laid_out layout (fe_name b)"
    and "ds = fst (place_all h [a, b] (snd (place_all h [a] (layout, 20, 18)), 20, 18))"
  shows "di_left (ds ! 1) = di_left (ds ! 0) \<and> di_top (ds ! 1) = di_top (ds ! 0) \<and> di_left (ds ! 0) = Some 20"
  using assms
  by (simp add: place_entry_def icon_at_def Let_def assigned_lookup laid_out_def coord_def position_def field_def
      split: option.splits)

text \<open>A file with the name of an inherited property gets no place at all.\<close>

lemma icons_inherited_name:
  "name \<in> set inherited_keys \<Longrightarrow> map_of layout name = None \<Longrightarrow>
   place_entry h name (layout, gx, gy) = (layout, gx, gy) \<and> coord ''x'' layout name = None"
  by (simp add: place_entry_def laid_out_def coord_def)

section \<open>What the desktop may call\<close>

text \<open>
  The calls of the desktop: it lists its folder, writes below it, removes what was listed, keeps
  its layout under one key of the memory store, and runs nothing but \<open>mv\<close> between two names of
  the folder.
\<close>

definition desk_call :: "string \<Rightarrow> json \<Rightarrow> bool" where
  "desk_call url body \<longleftrightarrow> url = ''/api/syscall'' \<and>
     (\<exists>meth params. body = JObj [(''method'', JStr meth), (''params'', JObj params)] \<and>
       (meth = ''fs.list'' \<and> params = [(''path'', JStr desk_dir)] \<or>
        meth = ''fs.write'' \<and> (\<exists>p c. params = [(''path'', JStr (desk_dir @ slash # p)), (''content'', JStr c)]) \<or>
        meth = ''fs.remove'' \<and> (\<exists>p. params = [(''path'', JStr p)]) \<or>
        meth = ''memory.get'' \<and> params = [(''key'', JStr ''desktop.layout'')] \<or>
        meth = ''memory.set'' \<and> (\<exists>ps. params = [(''key'', JStr ''desktop.layout''), (''value'', JObj ps)]) \<or>
        meth = ''shell.exec'' \<and> (\<exists>a b. params = [(''cmd'', JStr (rename_cmd a b))])))"

abbreviation (input) any_icons :: "icons \<Rightarrow> bool" where
  "any_icons \<equiv> \<lambda>s. True"

lemma safe_desk_sys:
  "safe_prog any_icons desk_call (sys br meth params s k) \<longleftrightarrow>
     desk_call ''/api/syscall'' (JObj [(''method'', JStr meth), (''params'', JObj params)]) \<and>
     (\<forall>r s'. safe_prog any_icons desk_call (k (sys_answer br r) s'))"
  by (simp add: sys_def)

lemma desk_calls [simp]:
  "desk_call ''/api/syscall'' (JObj [(''method'', JStr ''fs.list''), (''params'', JObj [(''path'', JStr desk_dir)])])"
  "desk_call ''/api/syscall'' (JObj [(''method'', JStr ''fs.write''),
     (''params'', JObj [(''path'', JStr (desk_dir @ slash # p)), (''content'', JStr c)])])"
  "desk_call ''/api/syscall'' (JObj [(''method'', JStr ''fs.remove''), (''params'', JObj [(''path'', JStr q)])])"
  "desk_call ''/api/syscall'' (JObj [(''method'', JStr ''memory.get''), (''params'', JObj [(''key'', JStr ''desktop.layout'')])])"
  "desk_call ''/api/syscall'' (JObj [(''method'', JStr ''memory.set''),
     (''params'', JObj [(''key'', JStr ''desktop.layout''), (''value'', JObj ps)])])"
  "desk_call ''/api/syscall'' (JObj [(''method'', JStr ''shell.exec''), (''params'', JObj [(''cmd'', JStr (rename_cmd a b))])])"
  by (auto simp: desk_call_def)

abbreviation desk_safe :: "icons prog \<Rightarrow> bool" where
  "desk_safe \<equiv> safe_prog any_icons desk_call"

lemma save_safe [simp]: "(\<And>s'. desk_safe (k s')) \<Longrightarrow> desk_safe (saveLayout br s k)"
  by (simp add: saveLayout_def safe_desk_sys)

lemma draw_safe [simp]: "desk_safe (draw_icons br es s)"
  by (simp add: draw_icons_def split: prod.split)

lemma seed_safe [simp]: "desk_safe (seed br s)"
  using desk_calls(2) [of "''Welcome.txt''"] desk_calls(2) [of "''Projects/.keep''"]
  by (simp add: seed_def safe_desk_sys split: sum.split)

lemma render_safe [simp]: "desk_safe (render_icons br s)"
  by (simp add: render_icons_def safe_desk_sys Let_def)

lemma forget_safe [simp]: "desk_safe (forget_icon br name s)"
  by (simp add: forget_icon_def)

lemma new_icon_safe [simp]: "desk_safe (new_icon br msg dflt tail s)"
  by (simp add: new_icon_def safe_desk_sys split: option.split list.split sum.split)

lemma icon_listen_safe: "desk_safe (icon_listen br a s)"
  by (cases a)
    (simp_all add: drop_icon_def rename_icon_def delete_icon_def safe_desk_sys split: option.split sum.split)

interpretation iconsm: page_machine "icon_listen br" any_icons desk_call for br
  by unfold_locales (rule icon_listen_safe)

text \<open>
  The desktop acts within its folder: from its start on, whatever the user does and in
  whatever order the gate answers, it lists /Desktop, writes below it, removes listed files,
  keeps its layout under its own key of the memory store and has the shell do nothing but
  rename.
\<close>

theorem icons_run_safe:
  "safe_page any_icons desk_call
     (fold (page_step br (icon_listen br)) es
       (settle_page br (init_icons br \<lparr>ic_layout = [], ic_icons = []\<rparr>) (open_page s)))"
proof -
  have "desk_safe (init_icons br \<lparr>ic_layout = [], ic_icons = []\<rparr>)"
    by (simp add: init_icons_def safe_desk_sys)
  then have "safe_page any_icons desk_call (settle_page br (init_icons br \<lparr>ic_layout = [], ic_icons = []\<rparr>) (open_page s))"
    by (rule settle_safe) (simp add: open_page_def)
  then show ?thesis by (rule iconsm.run_inv) (rule runs_true)
qed

section \<open>How the shell reads the rename\<close>

text \<open>
  The commands of a line and their words, as \<open>sh\<close> splits it: blanks separate words, a semicolon
  commands, double quotes keep what they hold. None for the units with a further meaning.
\<close>

definition sh_special :: "char set" where
  "sh_special = {CHR ''$'', CHR 0x60, CHR 0x5C}"

definition sh_operator :: "char set" where
  "sh_operator = sh_special \<union> {CHR 0x27, CHR ''|'', CHR ''&'', CHR ''<'', CHR ''>'', CHR ''('', CHR '')'', lf,
     CHR ''*'', CHR ''?'', CHR 0x5B, CHR ''#'', CHR ''~'', CHR ''='', CHR ''%'', CHR 0x7B, CHR ''!''}"

abbreviation dq :: char where "dq \<equiv> CHR 0x22"

definition close_word :: "string option \<Rightarrow> string list \<Rightarrow> string list" where
  "close_word w ws = ws @ (case w of None \<Rightarrow> [] | Some x \<Rightarrow> [x])"

definition add_unit :: "char \<Rightarrow> string option \<Rightarrow> string option" where
  "add_unit c w = Some ((case w of None \<Rightarrow> [] | Some x \<Rightarrow> x) @ [c])"

fun sh_scan :: "bool \<Rightarrow> string option \<Rightarrow> string list \<Rightarrow> string \<Rightarrow> string list list option" where
  "sh_scan inq w ws [] = (if inq then None else Some [close_word w ws])"
| "sh_scan inq w ws (c # s) =
     (if inq then
        (if c = dq then sh_scan False w ws s
         else if c \<in> sh_special then None
         else sh_scan True (add_unit c w) ws s)
      else if c = dq then sh_scan True (Some (case w of None \<Rightarrow> [] | Some x \<Rightarrow> x)) ws s
      else if c = CHR 0x20 then sh_scan False None (close_word w ws) s
      else if c = CHR '';'' then map_option (Cons (close_word w ws)) (sh_scan False None [] s)
      else if c \<in> sh_operator then None
      else sh_scan False (add_unit c w) ws s)"

definition sh_commands :: "string \<Rightarrow> string list list option" where
  "sh_commands line = sh_scan False None [] line"

text \<open>Names that double quotes keep as they are.\<close>

definition quotable :: "string \<Rightarrow> bool" where
  "quotable s \<longleftrightarrow> list_all (\<lambda>c. c \<noteq> dq \<and> c \<notin> sh_special) s"

lemma scan_quotable:
  "quotable x \<Longrightarrow> sh_scan True (Some w) ws (x @ s) = sh_scan True (Some (w @ x)) ws s"
  by (induction x arbitrary: w) (auto simp: quotable_def add_unit_def)

lemma quotable_dir [simp]: "quotable (''Desktop/'' @ a) = quotable a"
  by (simp add: quotable_def sh_special_def)

lemma scan_word:
  "quotable x \<Longrightarrow> sh_scan False None ws (dq # x @ dq # s) = sh_scan False (Some x) ws s"
  using scan_quotable [of x "[]"] by simp

lemma scan_mv: "sh_scan False None [] (''mv '' @ s) = sh_scan False None [''mv''] s"
  by (simp add: add_unit_def close_word_def sh_operator_def sh_special_def)

lemma rename_scan:
  assumes "quotable a"
  shows "sh_scan False None [''mv''] (dq # (''Desktop/'' @ a) @ dq # s) = sh_scan False (Some (''Desktop/'' @ a)) [''mv''] s"
  using assms by (intro scan_word) (simp only: quotable_dir)

text \<open>
  For names without quote, dollar, backquote and backslash the rename is what it means: the
  shell reads its command line as one command, \<open>mv\<close>, with the two paths as its words, blanks
  and semicolons in the names included.
\<close>

theorem rename_is_one_command:
  assumes "quotable a" "quotable b"
  shows "sh_commands (rename_cmd a b) = Some [[''mv'', ''Desktop/'' @ a, ''Desktop/'' @ b]]"
proof -
  have "rename_cmd a b = ''mv '' @ dq # (''Desktop/'' @ a) @ dq # CHR 0x20 # dq # (''Desktop/'' @ b) @ dq # []"
    by (simp add: rename_cmd_def)
  then have "sh_commands (rename_cmd a b) =
      sh_scan False (Some (''Desktop/'' @ a)) [''mv''] (CHR 0x20 # dq # (''Desktop/'' @ b) @ dq # [])"
    unfolding sh_commands_def by (simp only: scan_mv rename_scan [OF assms(1)])
  also have "\<dots> = sh_scan False None [''mv'', ''Desktop/'' @ a] (dq # (''Desktop/'' @ b) @ dq # [])"
    by (simp add: close_word_def)
  also have "\<dots> = sh_scan False (Some (''Desktop/'' @ b)) [''mv'', ''Desktop/'' @ a] []"
    using assms(2) by (intro scan_word) (simp only: quotable_dir)
  finally show ?thesis by (simp add: close_word_def)
qed

theorem rename_is_one_command_witness:
  "sh_commands (rename_cmd ''my notes; old'' ''new'') = Some [[''mv'', ''Desktop/my notes; old'', ''Desktop/new'']]"
  using rename_is_one_command [of "''my notes; old''" "''new''"] by (simp add: quotable_def sh_special_def)

definition bare :: "string \<Rightarrow> bool" where
  "bare w \<longleftrightarrow> list_all (\<lambda>c. c \<notin> sh_operator \<and> c \<notin> {dq, CHR 0x20, CHR '';''}) w"

lemma scan_bare: "bare w \<Longrightarrow> sh_scan False (Some x) ws (w @ s) = sh_scan False (Some (x @ w)) ws s"
  by (induction w arbitrary: x) (auto simp: bare_def add_unit_def)

text \<open>A quote in the new name ends the quoting: what follows it runs as commands of its own.\<close>

lemma rename_injects:
  assumes "quotable a" "quotable b" "bare w" "w \<noteq> []"
  shows "sh_commands (rename_cmd a (b @ dq # CHR '';'' # w @ CHR '';'' # [dq])) =
    Some [[''mv'', ''Desktop/'' @ a, ''Desktop/'' @ b], [w], [[]]]"
proof -
  have first: "sh_scan False None ws (w @ s) = sh_scan False (Some w) ws s" for ws s
    using scan_bare [of "tl w" "[hd w]"] assms(3,4) by (cases w) (simp_all add: bare_def add_unit_def)
  have semicolon: "sh_scan False (Some x) ws (CHR '';'' # s) = map_option (Cons (ws @ [x])) (sh_scan False None [] s)" for x ws s
    by (simp add: close_word_def)
  have "rename_cmd a (b @ dq # CHR '';'' # w @ CHR '';'' # [dq]) =
      ''mv '' @ dq # (''Desktop/'' @ a) @ dq # CHR 0x20 # dq # (''Desktop/'' @ b) @ dq # CHR '';'' # w @ CHR '';'' # dq # [] @ dq # []"
    by (simp add: rename_cmd_def)
  then have "sh_commands (rename_cmd a (b @ dq # CHR '';'' # w @ CHR '';'' # [dq])) =
      sh_scan False (Some (''Desktop/'' @ a)) [''mv'']
        (CHR 0x20 # dq # (''Desktop/'' @ b) @ dq # CHR '';'' # w @ CHR '';'' # dq # [] @ dq # [])"
    unfolding sh_commands_def by (simp only: scan_mv rename_scan [OF assms(1)])
  also have "\<dots> = sh_scan False None [''mv'', ''Desktop/'' @ a]
        (dq # (''Desktop/'' @ b) @ dq # CHR '';'' # w @ CHR '';'' # dq # [] @ dq # [])"
    by (simp add: close_word_def)
  also have "\<dots> = sh_scan False (Some (''Desktop/'' @ b)) [''mv'', ''Desktop/'' @ a]
        (CHR '';'' # w @ CHR '';'' # dq # [] @ dq # [])"
    using assms(2) by (intro scan_word) (simp only: quotable_dir)
  finally show ?thesis by (simp add: semicolon first close_word_def)
qed

section \<open>The power menu\<close>

text \<open>
  Restart and Shut Down send commands that the backstop of the kernel refuses: the answer has the
  code 126, nothing runs, and the menu does not show it.
\<close>

lemma power_commands_are_destructive:
  "destructiveReason ''systemctl reboot'' = Some ''power-off / reboot''"
  "destructiveReason ''systemctl poweroff'' = Some ''power-off / reboot''"
  by code_simp+

lemma power_menu_is_refused:
  assumes "\<not> xr_allow (ke_exec env)" "c \<in> {''systemctl reboot'', ''systemctl poweroff''}"
  shows "shell_handler env [(''cmd'', JStr c)] k = (return (blocked_reply c ''power-off / reboot''), k)"
  using assms power_commands_are_destructive by (auto simp: shell_handler_def shell_exec_def arg_str_def)

text \<open>A rename that the shell refuses or that fails is not noticed: the place of the icon is forgotten.\<close>

lemma rename_ignores_failure:
  "br_says br ''Rename to:'' (fe_name e) = Some (c # n) \<Longrightarrow> c # n \<noteq> fe_name e \<Longrightarrow>
   \<exists>k. suspend br (rename_icon br e s) = (s, [k]) \<and>
     (\<forall>v. case k of Call url body kont \<Rightarrow>
        fst (suspend br (kont (return (JObj [(''result'', v)])) s)) = s\<lparr>ic_layout := AList.delete (fe_name e) (ic_layout s)\<rparr>)"
  by (simp add: rename_icon_def sys_def sys_answer_def prop_of_def forget_icon_def saveLayout_def)

end
