(* ===== verification/VoidChrome.thy ===== *)
theory VoidChrome
  imports VoidIcons
begin

text \<open>
  What holds the desktop of os.js together: the functions that open each window with the markup of
  its body, the icons and the buttons of the dock, the life of a menu, the top bar. Stand-ins: 0x8B,
  0x8A and 0x8C the arrows of the buttons, 0x97 the dash, 0x85 the ellipsis.
\<close>

section \<open>Bodies of windows\<close>

definition indent :: "nat \<Rightarrow> string" where
  "indent n = lf # replicate n CHR 0x20"

definition fm_button :: "string \<Rightarrow> string \<Rightarrow> string" where
  \<open>fm_button a label = ''<button class="fm-btn" data-a="'' @ a @ ''">'' @ label @ ''</button>''\<close>

definition files_body :: string where
  "files_body =
     tag_class ''div'' ''fm-bar'' @
     concat (map (\<lambda>x. indent 11 @ x)
       [fm_button ''back'' [CHR 0x8B], fm_button ''up'' [CHR 0x8A], div_class ''fm-path'' [],
        fm_button ''newfile'' ''+ File'', fm_button ''newfolder'' ''+ Folder'', fm_button ''del'' ''Delete'',
        fm_button ''refresh'' [CHR 0x8C]]) @
     indent 9 @ ''</div>'' @ div_class ''fm-grid'' []"

definition editor_body :: string where
  \<open>editor_body =
     ''<div class="editor"><textarea spellcheck="false"></textarea><div class="ebar">'' @ fm_button ''save'' ''Save'' @
     ''<span class="dim" data-s></span></div></div>''\<close>

definition terminal_body :: string where
  \<open>terminal_body =
     ''<div class="term"><div class="term-out"><span class="muted">voidOS shell '' @ [CHR 0x97] @
     '' commands run in the rootfs sandbox.'' @ [lf] @
     ''</span></div><div class="term-in"><span class="ps">void:/$</span><input autofocus spellcheck="false"/></div></div>''\<close>

definition mind_body :: string where
  \<open>mind_body =
     ''<div class="chat"><div class="chat-log"></div><div class="chat-in"><input placeholder="tell the OS what to do'' @
     [CHR 0x85] @ ''" autofocus/></div></div>''\<close>

definition screen_url :: "string \<Rightarrow> string" where
  "screen_url hostname = ''http://'' @ hostname @ '':6080/vnc.html?autoconnect=true&resize=scale&reconnect=true''"

definition quick_button :: "string \<Rightarrow> string \<Rightarrow> string" where
  \<open>quick_button app label = ''<button class="fm-btn" data-q="'' @ app @ ''">'' @ label @ ''</button>''\<close>

definition screen_body :: "string \<Rightarrow> string" where
  \<open>screen_body url =
     ''<div style="display:flex;flex-direction:column;height:100%">'' @
     indent 11 @ ''<div class="screen-bar">'' @
     concat (map (\<lambda>x. indent 13 @ x)
       [span_class ''dim'' ''run:'',
        ''<input placeholder="an app to launch '' @ [CHR 0x97] @ '' e.g. vlc, xterm, gimp, xclock" spellcheck="false"/>'',
        ''<button class="fm-btn" data-run>Launch</button>'',
        quick_button ''vlc'' ''VLC'', quick_button ''xterm'' ''Terminal'', quick_button ''xclock'' ''Clock'',
        ''<span class="dim" data-status></span>'']) @
     indent 11 @ ''</div>'' @
     indent 11 @ ''<iframe class="screen-frame" src="'' @ url @ ''" allow="fullscreen"></iframe>'' @ indent 9 @ ''</div>''\<close>

text \<open>The values of an attribute of the buttons in some markup, in their order.\<close>

definition attribute :: "string \<Rightarrow> string \<Rightarrow> string list" where
  "attribute name html =
     concat (map (\<lambda>t.
       let start = ''button class='' @ [CHR 0x22] @ ''fm-btn'' @ [CHR 0x22] @ '' '' @ name @ ''='' @ [CHR 0x22]
       in if prefix start t then [takeWhile (\<lambda>c. c \<noteq> CHR 0x22) (drop (length start) t)] else []) (html_tags html))"

text \<open>The bar has a button for each tool of the file manager and none that does nothing.\<close>

lemma bar_tools:
  "attribute ''data-a'' files_body = [''back'', ''up'', ''newfile'', ''newfolder'', ''del'', ''refresh'']"
  "a \<notin> set (attribute ''data-a'' files_body) \<Longrightarrow> fm_tool br a s = Done s"
proof -
  show tools: "attribute ''data-a'' files_body = [''back'', ''up'', ''newfile'', ''newfolder'', ''del'', ''refresh'']"
    by code_simp
  show "a \<notin> set (attribute ''data-a'' files_body) \<Longrightarrow> fm_tool br a s = Done s"
    unfolding tools by (simp add: fm_tool_def)
qed

section \<open>The functions that open windows\<close>

text \<open>
  \<open>openFiles\<close>: a window that is open goes to the folder, a new one starts there. The program is what
  its file manager does next.
\<close>

definition openFiles :: "browser \<Rightarrow> string \<Rightarrow> bwm \<times> fm \<Rightarrow> bwm \<times> fm prog" where
  "openFiles br path st =
     (case st of (s, f) \<Rightarrow>
        (case map_of (bm_single s) ''files'' of
           Some i \<Rightarrow> (show_win i s, fm_navigate br path f)
         | None \<Rightarrow>
             (snd (createWindow (app_opts ''files'' ''Files'' ''folder'' 560 420 None) s), fm_load br (fm_start path))))"

definition openTerminal :: "bwm \<Rightarrow> bwm" where
  "openTerminal s =
     snd (openSingle ''terminal'' (createWindow (app_opts ''terminal'' ''Terminal'' ''terminal'' 600 360 None)) s)"

definition openSystem :: "bwm \<Rightarrow> bwm" where
  "openSystem s =
     snd (openSingle ''system'' (createWindow (app_opts ''system'' ''System'' ''cpu'' 420 280 (Some 3000))) s)"

definition openListApp :: "string \<Rightarrow> string \<Rightarrow> string \<Rightarrow> bwm \<Rightarrow> bwm" where
  "openListApp key ico title s =
     snd (openSingle key (createWindow (app_opts key title ico 480 320 (Some 2000))) s)"

definition openMind :: "bwm \<Rightarrow> bwm" where
  "openMind s = snd (openSingle ''mind'' (createWindow (app_opts ''mind'' ''Mind'' ''sparkles'' 460 440 None)) s)"

definition openScreen :: "bwm \<Rightarrow> bwm" where
  "openScreen s =
     snd (openSingle ''screen''
       (createWindow (app_opts ''screen'' (''Screen '' @ [CHR 0x97] @ '' native apps'') ''monitor'' 960 660 None)) s)"

text \<open>\<open>openApp\<close> is the choice between them.\<close>

lemma openApp_choice:
  "openApp app s =
     (if app = ''files'' then fst (openFiles br ''/'' (s, f)) else if app = ''terminal'' then openTerminal s
      else if app = ''editor'' then openEditor ''/'' s else if app = ''system'' then openSystem s
      else if app = ''services'' then openListApp ''services'' ''shield'' ''Services'' s
      else if app = ''processes'' then openListApp ''processes'' ''activity'' ''Processes'' s
      else if app = ''mind'' then openMind s else if app = ''screen'' then openScreen s else s)"
  by (simp add: openApp_def app_windows_def open_with_def app_opts_def editor_opts_def openFiles_def openSingle_def
      openTerminal_def openSystem_def openListApp_def openMind_def openScreen_def openEditor_def split: option.split)

text \<open>Whichever way the Files window is opened, it is in front and about to list the folder asked for.\<close>

lemma openFiles_lists:
  assumes "desk_inv s"
  shows "\<exists>i f'. in_front (fst (openFiles br path (s, f))) i \<and>
      bw_key (win (fst (openFiles br path (s, f))) i) = Some ''files'' \<and>
      snd (openFiles br path (s, f)) = fm_load br f' \<and> fm_cwd f' = path"
proof -
  obtain opts where opts: "map_of app_windows ''files'' = Some opts" "wo_key opts = Some ''files''"
    by (simp add: app_windows_def app_opts_def)
  have "openApp ''files'' s = fst (openFiles br path (s, f))"
    unfolding openApp_choice [of _ _ br f] by (simp add: openFiles_def split: option.split)
  moreover have "\<exists>f'. snd (openFiles br path (s, f)) = fm_load br f' \<and> fm_cwd f' = path"
    by (auto simp: openFiles_def fm_navigate_def fm_start_def split: option.split)
  ultimately show ?thesis
    using openApp_fronts [OF assms opts(1)] opts(2) by metis
qed

section \<open>The dock\<close>

definition APP_ICON :: "(string \<times> string) list" where
  "APP_ICON =
     [(''files'', ''folder''), (''terminal'', ''terminal''), (''editor'', ''pencil''), (''system'', ''cpu''),
      (''services'', ''shield''), (''processes'', ''activity''), (''mind'', ''sparkles''), (''screen'', ''monitor'')]"

definition APP_ACCENT :: "(string \<times> string) list" where
  "APP_ACCENT =
     [(''files'', ''var(--cyan)''), (''terminal'', ''var(--green)''), (''editor'', ''var(--amber)''),
      (''system'', ''var(--cyan)''), (''services'', ''var(--green)''), (''processes'', ''var(--amber)''),
      (''mind'', ''var(--violet)''), (''screen'', ''var(--violet)'')]"

text \<open>HTML and colour of a button; a name without an entry has neither.\<close>

definition dock_button :: "string \<Rightarrow> string \<times> string option" where
  "dock_button a = (case map_of APP_ICON a of None \<Rightarrow> icon [] | Some i \<Rightarrow> icon i, map_of APP_ACCENT a)"

definition dock_click :: "string option \<Rightarrow> bwm \<Rightarrow> bwm" where
  "dock_click target s = (case target of None \<Rightarrow> s | Some a \<Rightarrow> openApp a s)"

text \<open>Every app of the dock has a drawn icon, a colour and a window, and the window has that icon.\<close>

lemma dock_complete:
  "map fst APP_ICON = map fst app_windows" "map fst APP_ACCENT = map fst app_windows"
  "list_all (\<lambda>(a, i). map_of ICONS i \<noteq> None \<and> (case map_of app_windows a of Some opts \<Rightarrow> wo_icon opts = Some i | None \<Rightarrow> False)) APP_ICON"
  by code_simp+

section \<open>Menus and the top bar\<close>

text \<open>A press elsewhere removes the menu it was armed for; so does a choice, before it acts.\<close>

definition menu_press :: "bool \<Rightarrow> menu list \<Rightarrow> menu list" where
  "menu_press inside menus = (if inside then menus else [])"

definition power_button :: "int \<Rightarrow> int \<Rightarrow> menu list \<Rightarrow> menu list" where
  "power_button inner_width x menus = showMenu inner_width (x - 150) 30 power_items menus"

record top_bar =
  tb_clock :: string
  tb_sys :: string

definition tickClock :: "string \<Rightarrow> top_bar \<Rightarrow> top_bar" where
  "tickClock now s = s\<lparr>tb_clock := now\<rparr>"

definition tickSys :: "browser \<Rightarrow> top_bar \<Rightarrow> top_bar prog" where
  "tickSys br s = sys br ''sys.info'' [] s (\<lambda>r s'. Done (s'\<lparr>tb_sys := sys_text br r\<rparr>))"

text \<open>At most one menu is there, whatever is pressed, and it does not leave the screen to the right.\<close>

lemma one_menu:
  "length (showMenu w x y items menus) = 1" "length (menu_press inside menus) \<le> length menus"
  "list_all (\<lambda>m. mn_left m + 180 \<le> w) (showMenu w x y items menus)"
  by (simp_all add: showMenu_def menu_press_def)

end
