(* ===== verification/VoidRound.thy ===== *)
theory VoidRound
  imports VoidDouble Complex_Main
begin

text \<open>
  Rounding: \<open>Math.round\<close>, whole numbers that scaling keeps, and how far an operation on doubles
  is from the exact one.
\<close>

section \<open>Whole numbers\<close>

text \<open>\<open>Math.round\<close>: the nearest whole number, a tie upwards.\<close>

definition dround :: "double \<Rightarrow> int" where
  "dround x =
     (if 0 \<le> expo x then mant x * 2 ^ nat (expo x)
      else (2 * mant x + 2 ^ nat (- expo x)) div (2 * 2 ^ nat (- expo x)))"

lemma div_even_exact: "0 < q \<Longrightarrow> div_even (m * q) q = m"
  by (simp add: div_even_def Let_def)

text \<open>Whole numbers scaled by a power of two lose nothing.\<close>

lemma round53_shift:
  assumes "\<bar>m\<bar> < 2 ^ 53"
  obtains i where "i \<le> j" "round53 (m * 2 ^ j) e = Dbl (m * 2 ^ i) (e + int (j - i))"
proof -
  let ?n = "nat \<bar>m * 2 ^ j\<bar>" and ?k = "bit_length (nat \<bar>m * 2 ^ j\<bar>) - 53"
  have n: "?n = nat \<bar>m\<bar> * 2 ^ j" by (simp add: abs_mult nat_mult_distrib nat_power_eq)
  have "nat \<bar>m\<bar> < 2 ^ 53" using assms by (simp add: nat_less_iff)
  then have "?n < 2 ^ (53 + j)" by (simp add: n power_add)
  then have "bit_length ?n \<le> 53 + j"
    by (cases "?n = 0") (simp_all add: bit_length_def floorlog_le_iff floorlog_eq_zero_iff)
  then have k: "?k \<le> j" by simp
  have "div_even ?n (2 ^ ?k) = nat \<bar>m\<bar> * 2 ^ (j - ?k)"
  proof -
    have "?n = (nat \<bar>m\<bar> * 2 ^ (j - ?k)) * 2 ^ ?k" using k by (simp add: n flip: power_add)
    then show ?thesis using div_even_exact [of "2 ^ ?k" "nat \<bar>m\<bar> * 2 ^ (j - ?k)"] by simp
  qed
  moreover have "VoidDouble.signed (m * 2 ^ j) (nat \<bar>m\<bar> * 2 ^ i) = m * 2 ^ i" for i
    by (simp add: VoidDouble.signed_def mult_less_0_iff)
  moreover have "round53 (m * 2 ^ j) e =
      (if ?k = 0 then Dbl (m * 2 ^ j) e else Dbl (VoidDouble.signed (m * 2 ^ j) (div_even ?n (2 ^ ?k))) (e + int ?k))"
    by (simp only: round53_def Let_def)
  moreover have "j - (j - ?k) = ?k" using k by (rule diff_diff_cancel)
  ultimately have "round53 (m * 2 ^ j) e = Dbl (m * 2 ^ (j - ?k)) (e + int (j - (j - ?k)))"
    by (cases "?k = 0") (simp_all only: if_True if_False diff_zero of_nat_0 add_0_right refl)
  with that [of "j - ?k"] show thesis by simp
qed

lemma dround_scaled:
  assumes "\<bar>m\<bar> < 2 ^ 53"
  shows "dround (round53 (m * 2 ^ j) (- int j)) = m"
proof -
  obtain i where i: "i \<le> j" "round53 (m * 2 ^ j) (- int j) = Dbl (m * 2 ^ i) (- int j + int (j - i))"
    using round53_shift [OF assms] .
  then have "round53 (m * 2 ^ j) (- int j) = Dbl (m * 2 ^ i) (- int i)" by simp
  moreover have "(2 * (m * 2 ^ i) + 2 ^ i) div (2 * 2 ^ i) = m"
  proof -
    have "2 * (m * 2 ^ i) + 2 ^ i = m * (2 * 2 ^ i) + (2 ^ i :: int)" by simp
    also have "\<dots> div (2 * 2 ^ i) = m + 2 ^ i div (2 * 2 ^ i)" by (subst div_mult_self3) simp_all
    also have "2 ^ i div (2 * 2 ^ i) = (0 :: int)" by (simp add: div_pos_pos_trivial)
    finally show ?thesis by simp
  qed
  ultimately show ?thesis by (cases "i = 0") (simp_all add: dround_def)
qed

section \<open>The error of an operation\<close>

definition val :: "double \<Rightarrow> real" where
  "val x = of_int (mant x) * 2 powr of_int (expo x)"

lemma val_sign: "0 \<le> val x \<longleftrightarrow> 0 \<le> mant x"
  by (simp add: val_def zero_le_mult_iff)

lemma div_even_error: "0 < q \<Longrightarrow> 2 * \<bar>int (div_even p q) * int q - int p\<bar> \<le> int q"
proof -
  assume "0 < q"
  define d r where "d = int (p div q)" and "r = int (p mod q)"
  have "int p = d * int q + r" unfolding d_def r_def by (metis div_mult_mod_eq of_nat_add of_nat_mult)
  moreover have "0 \<le> r" "r < int q" using \<open>0 < q\<close> by (simp_all add: r_def)
  moreover have "2 * p mod q < q \<or> True" by simp
  moreover have "int (div_even p q) = d \<and> 2 * r \<le> int q \<or> int (div_even p q) = d + 1 \<and> int q \<le> 2 * r"
    unfolding div_even_def Let_def d_def r_def by auto
  ultimately show ?thesis by (auto simp: algebra_simps)
qed

text \<open>A mantissa that is cut has 53 bits left, so the relative error is at most \<open>2 ^ -53\<close>.\<close>

lemma bits_cut:
  assumes "0 < bit_length n - 53"
  shows "2 ^ 52 * 2 ^ (bit_length n - 53) \<le> n"
proof -
  have "0 < n" using assms by (cases "n = 0") (simp_all add: bit_length_def floorlog_def)
  then have "2 ^ (bit_length n - 1) \<le> n"
    using floorlog_bounds [of n 2] by (simp add: bit_length_def)
  moreover have "bit_length n - 1 = 52 + (bit_length n - 53)" using assms by arith
  ultimately show ?thesis by (metis power_add)
qed

lemma cut_error:
  fixes m :: int
  defines "k \<equiv> bit_length (nat \<bar>m\<bar>) - 53"
  assumes "k \<noteq> 0"
  shows "2 ^ 53 * \<bar>VoidDouble.signed m (div_even (nat \<bar>m\<bar>) (2 ^ k)) * 2 ^ k - m\<bar> \<le> \<bar>m\<bar>"
proof -
  define n q where "n = nat \<bar>m\<bar>" and "q = div_even n (2 ^ k)"
  have "2 * \<bar>int q * int (2 ^ k) - int n\<bar> \<le> int (2 ^ k)" unfolding q_def by (rule div_even_error) simp
  moreover have "int (2 ^ 52 * 2 ^ k) \<le> int n"
    using bits_cut [of n] assms(2) unfolding k_def n_def by (simp only: of_nat_le_iff neq0_conv)
  ultimately have "2 ^ 53 * \<bar>int q * int (2 ^ k) - int n\<bar> \<le> int n" by simp
  moreover have "\<bar>VoidDouble.signed m q * 2 ^ k - m\<bar> = \<bar>int q * int (2 ^ k) - int n\<bar>"
    by (cases "m < 0") (simp_all add: VoidDouble.signed_def n_def)
  ultimately show ?thesis unfolding q_def n_def by (simp only: int_nat_eq abs_ge_zero if_True)
qed

lemma round53_error: "\<bar>val (round53 m e) - of_int m * 2 powr of_int e\<bar> \<le> \<bar>of_int m * 2 powr of_int e\<bar> / 2 ^ 53"
proof (cases "bit_length (nat \<bar>m\<bar>) - 53 = 0")
  case True
  then show ?thesis by (simp add: round53_def val_def)
next
  case False
  define k where "k = bit_length (nat \<bar>m\<bar>) - 53"
  define q where "q = VoidDouble.signed m (div_even (nat \<bar>m\<bar>) (2 ^ k))"
  have "real_of_int (2 ^ 53 * \<bar>q * 2 ^ k - m\<bar>) \<le> real_of_int \<bar>m\<bar>"
    unfolding of_int_le_iff q_def k_def by (rule cut_error [OF False])
  then have "\<bar>of_int q * 2 ^ k - of_int m\<bar> \<le> \<bar>of_int m :: real\<bar> / 2 ^ 53" by simp
  then have "\<bar>of_int q * 2 ^ k - of_int m\<bar> * 2 powr of_int e \<le> (\<bar>of_int m :: real\<bar> / 2 ^ 53) * 2 powr of_int e"
    by (rule mult_right_mono) simp
  moreover have "round53 m e = Dbl q (e + int k)"
    using False by (simp only: round53_def Let_def q_def k_def if_False)
  then have "val (round53 m e) = of_int q * 2 ^ k * 2 powr of_int e"
    by (simp add: val_def powr_add powr_realpow)
  ultimately show ?thesis
    by (simp add: abs_mult left_diff_distrib [symmetric])
qed

lemma dmul_error: "\<bar>val (dmul x y) - val x * val y\<bar> \<le> \<bar>val x * val y\<bar> / 2 ^ 53"
  using round53_error [of "mant x * mant y" "expo x + expo y"]
  by (simp add: dmul_def val_def powr_add mult_ac)

lemma val_scaled: "e \<le> expo x \<Longrightarrow> of_int (mant x * 2 ^ nat (expo x - e)) * 2 powr of_int e = val x"
  by (simp add: val_def powr_realpow [symmetric] powr_add [symmetric])

lemma dadd_error: "\<bar>val (dadd x y) - (val x + val y)\<bar> \<le> \<bar>val x + val y\<bar> / 2 ^ 53"
proof -
  let ?e = "min (expo x) (expo y)"
  have "of_int (mant x * 2 ^ nat (expo x - ?e) + mant y * 2 ^ nat (expo y - ?e)) * 2 powr of_int ?e = val x + val y"
    using val_scaled [of ?e x] val_scaled [of ?e y] by (simp add: distrib_right)
  then show ?thesis
    using round53_error [of "mant x * 2 ^ nat (expo x - ?e) + mant y * 2 ^ nat (expo y - ?e)" ?e]
    by (simp add: dadd_def Let_def)
qed

lemma dsub_error: "\<bar>val (dsub x y) - (val x - val y)\<bar> \<le> \<bar>val x - val y\<bar> / 2 ^ 53"
  using dadd_error [of x "Dbl (- mant y) (expo y)"] by (simp add: dsub_def val_def)

end
