(* ===== verification/VoidViewer.thy ===== *)
theory VoidViewer
  imports VoidFiles VoidRound
begin

text \<open>
  ui/static/desktop.js: the page that shows the frames of the kernel's desktop and sends it the
  pointer. An event carries the point of the pointer and the rectangle of the picture, in doubles;
  the time is a field of the state that ticks move on. Images that load are listed by their URL.
\<close>

section \<open>State and coordinates\<close>

record viewer =
  vw_src :: "string option"            \<comment> \<open>the picture that is shown\<close>
  vw_loading :: "string list"          \<comment> \<open>images that have been asked for\<close>
  vw_pending :: bool
  vw_dragging :: bool
  vw_last :: int                       \<comment> \<open>lastMove\<close>
  vw_now :: int                        \<comment> \<open>Date.now()\<close>

record picture =
  pc_left :: double
  pc_top :: double
  pc_width :: double
  pc_height :: double

definition view_w :: int where "view_w = 1100"
definition view_h :: int where "view_h = 720"

definition coords :: "double \<times> double \<Rightarrow> picture \<Rightarrow> int \<times> int" where
  "coords at_client r =
     (dround (dmul (dsub (fst at_client) (pc_left r)) (ddiv (dbl view_w) (pc_width r))),
      dround (dmul (dsub (snd at_client) (pc_top r)) (ddiv (dbl view_h) (pc_height r))))"

section \<open>Listeners\<close>

definition frame_url :: "int \<Rightarrow> string" where
  "frame_url t = ''/api/frame?t='' @ int_str t"

definition view_refresh :: "viewer \<Rightarrow> viewer" where
  "view_refresh s =
     (if vw_pending s then s
      else s\<lparr>vw_pending := True, vw_loading := vw_loading s @ [frame_url (vw_now s)]\<rparr>)"

definition input_body :: "string \<Rightarrow> int \<times> int \<Rightarrow> json" where
  "input_body ty p = JObj [(''type'', JStr ty), (''x'', JNum (fst p)), (''y'', JNum (snd p))]"

text \<open>An error of the call is ignored.\<close>

definition send :: "string \<Rightarrow> double \<times> double \<Rightarrow> picture \<Rightarrow> viewer \<Rightarrow> viewer prog" where
  "send ty at_client r s =
     Fetch s ''/api/input'' (input_body ty (coords at_client r)) (\<lambda>answer s'. Done (view_refresh s'))"

datatype view_act =
    MouseDown "double \<times> double" picture
  | MouseUp "double \<times> double" picture
  | MouseMove "double \<times> double" picture
  | Interval
  | Loaded
  | Failed
  | Tick nat

fun view_listen :: "view_act \<Rightarrow> viewer \<Rightarrow> viewer prog" where
  "view_listen (MouseDown p r) s = send ''pointerdown'' p r (s\<lparr>vw_dragging := True\<rparr>)"
| "view_listen (MouseUp p r) s =
     (if vw_dragging s then send ''pointerup'' p r (s\<lparr>vw_dragging := False\<rparr>) else Done s)"
| "view_listen (MouseMove p r) s =
     (if \<not> vw_dragging s \<or> vw_now s - vw_last s < 33 then Done s
      else send ''pointermove'' p r (s\<lparr>vw_last := vw_now s\<rparr>))"
| "view_listen Interval s = Done (if vw_dragging s then s else view_refresh s)"
| "view_listen Loaded s =
     Done (case vw_loading s of [] \<Rightarrow> s | u # us \<Rightarrow> s\<lparr>vw_src := Some u, vw_loading := us, vw_pending := False\<rparr>)"
| "view_listen Failed s =
     Done (case vw_loading s of [] \<Rightarrow> s | u # us \<Rightarrow> s\<lparr>vw_loading := us, vw_pending := False\<rparr>)"
| "view_listen (Tick n) s = Done (s\<lparr>vw_now := vw_now s + int n\<rparr>)"

definition new_viewer :: "int \<Rightarrow> viewer" where
  "new_viewer now =
     view_refresh \<lparr>vw_src = None, vw_loading = [], vw_pending = False, vw_dragging = False, vw_last = 0, vw_now = now\<rparr>"

section \<open>One frame at a time\<close>

definition view_ok :: "viewer \<Rightarrow> bool" where
  "view_ok s \<longleftrightarrow> length (vw_loading s) = (if vw_pending s then 1 else 0)"

definition view_call :: "string \<Rightarrow> json \<Rightarrow> bool" where
  "view_call url body \<longleftrightarrow> url = ''/api/input'' \<and>
     (\<exists>ty x y. body = input_body ty (x, y) \<and> ty \<in> {''pointerdown'', ''pointermove'', ''pointerup''})"

lemma refresh_ok [simp]: "view_ok s \<Longrightarrow> view_ok (view_refresh s)"
  by (simp add: view_ok_def view_refresh_def)

lemma send_safe [simp]:
  "ty \<in> {''pointerdown'', ''pointermove'', ''pointerup''} \<Longrightarrow> view_ok s \<Longrightarrow> safe_prog view_ok view_call (send ty p r s)"
  by (cases "coords p r") (auto simp: send_def view_call_def)

lemma view_listen_safe: "view_ok s \<Longrightarrow> safe_prog view_ok view_call (view_listen a s)"
proof (cases a)
  case Loaded
  assume "view_ok s"
  then show ?thesis unfolding Loaded by (auto simp: view_ok_def split: list.splits if_splits)
next
  case Failed
  assume "view_ok s"
  then show ?thesis unfolding Failed by (auto simp: view_ok_def split: list.splits if_splits)
next
  case (Tick n)
  assume "view_ok s"
  then show ?thesis unfolding Tick by (simp add: view_ok_def)
qed (simp_all add: view_ok_def [of "s\<lparr>vw_dragging := d\<rparr>" for s d] view_ok_def [of "s\<lparr>vw_last := d\<rparr>" for s d] view_ok_def [symmetric])

interpretation viewm: page_machine view_listen view_ok view_call
  by unfold_locales (rule view_listen_safe)

text \<open>
  The viewer never has two frames on their way, in whatever order pictures, answers and events
  come, and all it sends are pointer events with whole coordinates.
\<close>

theorem viewer_runs_safe:
  "safe_page view_ok view_call (fold (page_step br view_listen) es (open_page (new_viewer now)))"
  by (rule viewm.page_runs_safe) (simp add: new_viewer_def view_ok_def view_refresh_def)

section \<open>Moves are throttled\<close>

text \<open>An event that sends a move, and the times at which a run does.\<close>

definition sends_move :: "browser \<Rightarrow> view_act page_event \<Rightarrow> viewer page \<Rightarrow> bool" where
  "sends_move br e pg =
     (case e of
        Act (MouseMove p r) \<Rightarrow> length (pg_calls pg) < length (pg_calls (page_step br view_listen e pg))
      | _ \<Rightarrow> False)"

fun move_times :: "browser \<Rightarrow> view_act page_event list \<Rightarrow> viewer page \<Rightarrow> int list" where
  "move_times br [] pg = []"
| "move_times br (e # es) pg =
     (if sends_move br e pg then [vw_now (pg_state pg)] else []) @
     move_times br es (page_step br view_listen e pg)"

primrec refreshing :: "viewer call \<Rightarrow> bool" where
  "refreshing (Call url body k) = (\<forall>r s. k r s = Done (view_refresh s))"

lemma refresh_fields [simp]:
  "vw_now (view_refresh s) = vw_now s" "vw_last (view_refresh s) = vw_last s"
  by (simp_all add: view_refresh_def)

lemma suspend_send [simp]:
  "fst (suspend br (send ty p r s)) = s" "list_all refreshing (snd (suspend br (send ty p r s)))"
  "snd (suspend br (send ty p r s)) \<noteq> []"
  by (simp_all add: send_def)

lemma view_step:
  fixes br e pg
  assumes "list_all refreshing (pg_calls pg)"
  defines "pg' \<equiv> page_step br view_listen e pg"
  shows "list_all refreshing (pg_calls pg') \<and> vw_now (pg_state pg) \<le> vw_now (pg_state pg') \<and>
    vw_last (pg_state pg') = (if sends_move br e pg then vw_now (pg_state pg) else vw_last (pg_state pg)) \<and>
    (sends_move br e pg \<longrightarrow> vw_last (pg_state pg) + 33 \<le> vw_now (pg_state pg))"
proof (cases e)
  case (Act a)
  with assms(1) show ?thesis unfolding pg'_def
    by (cases a) (auto simp: settle_page_def sends_move_def split: list.split)
next
  case (Answer i r)
  show ?thesis
  proof (cases "i < length (pg_calls pg)")
    case True
    obtain url body k where k: "pg_calls pg ! i = Call url body k" by (cases "pg_calls pg ! i")
    with True assms(1) have "refreshing (Call url body k)" by (auto simp: list_all_length)
    moreover have "list_all refreshing (take i (pg_calls pg) @ drop (Suc i) (pg_calls pg))"
      using assms(1) by (auto simp: list_all_iff dest: in_set_takeD in_set_dropD)
    ultimately show ?thesis using True k Answer
      by (simp add: pg'_def settle_page_def sends_move_def)
  qed (use assms(1) Answer in \<open>simp add: pg'_def sends_move_def\<close>)
qed

text \<open>
  While dragging, moves are sent at most every 33 milliseconds: in every run of the page, the
  times of any two moves that are sent are that far apart.
\<close>

theorem viewer_throttles_moves:
  "sorted_wrt (\<lambda>t u. t + 33 \<le> u) (move_times br es (open_page (new_viewer now)))"
proof -
  have "sorted_wrt (\<lambda>t u. t + 33 \<le> u) (move_times br es pg) \<and>
      list_all (\<lambda>t. vw_last (pg_state pg) + 33 \<le> t) (move_times br es pg)"
    if "list_all refreshing (pg_calls pg)" for pg
    using that
  proof (induction es arbitrary: pg)
    case (Cons e es)
    let ?pg = "page_step br view_listen e pg"
    note step = view_step [OF Cons.prems, of br e]
    with Cons.IH [of ?pg]
    have "sorted_wrt (\<lambda>t u. t + 33 \<le> u) (move_times br es ?pg)"
      and "list_all (\<lambda>t. vw_last (pg_state ?pg) + 33 \<le> t) (move_times br es ?pg)" by blast+
    with step show ?case by (cases "sends_move br e pg") (auto simp: list_all_iff)
  qed simp
  then show ?thesis by (simp add: open_page_def)
qed

section \<open>A click in the browser is a click on the desktop\<close>

lemma scale_one: "ddiv (dbl 1100) (dbl 1100) = Dbl (2 ^ 52) (- 52)" "ddiv (dbl 720) (dbl 720) = Dbl (2 ^ 52) (- 52)"
  by code_simp+

definition shown_at :: "int \<Rightarrow> int \<Rightarrow> picture" where
  "shown_at l t = \<lparr>pc_left = dbl l, pc_top = dbl t, pc_width = dbl view_w, pc_height = dbl view_h\<rparr>"

lemma coords_unscaled:
  assumes "\<bar>x\<bar> < 2 ^ 52" "\<bar>y\<bar> < 2 ^ 52" "\<bar>l\<bar> < 2 ^ 52" "\<bar>t\<bar> < 2 ^ 52"
  shows "coords (dbl x, dbl y) (shown_at l t) = (x - l, y - t)"
proof -
  have one: "dround (dmul (dsub (dbl a) (dbl b)) (Dbl (2 ^ 52) (- 52))) = a - b"
    if "\<bar>a\<bar> < 2 ^ 52" "\<bar>b\<bar> < 2 ^ 52" for a b
  proof -
    have small: "\<bar>a - b\<bar> < 2 ^ 53" using that by simp
    then have "dsub (dbl a) (dbl b) = Dbl (a - b) 0"
      by (simp add: dsub_def dadd_def dbl_def round53_exact)
    then have "dmul (dsub (dbl a) (dbl b)) (Dbl (2 ^ 52) (- 52)) = round53 ((a - b) * 2 ^ 52) (- int 52)"
      by (simp add: dmul_def)
    with dround_scaled [OF small, of 52] show ?thesis by simp
  qed
  show ?thesis
    using one [OF assms(1,3)] one [OF assms(2,4)]
    by (simp add: coords_def shown_at_def view_w_def view_h_def scale_one)
qed


section \<open>The route to the window manager\<close>

text \<open>
  \<open>/api/input\<close> of server.py for a type that is a string and whole coordinates; what it does with
  anything else is \<open>other\<close>.
\<close>

definition api_input :: "kenv \<Rightarrow> clock \<Rightarrow> string \<Rightarrow> int \<Rightarrow> int \<Rightarrow> kernel \<Rightarrow> json \<times> kernel" where
  "api_input env clk ty x y k =
     (case kernel_call env clk ''desktop.input'' [(''type'', JStr ty), (''x'', JNum x), (''y'', JNum y)] k of
        (Inl e, k') \<Rightarrow> (JObj [(''error'', JStr (err_code e @ '': '' @ err_message e))], k')
      | (Inr v, k') \<Rightarrow> (v, k'))"

definition viewer_gate ::
  "kenv \<Rightarrow> clock \<Rightarrow> (string \<Rightarrow> json \<Rightarrow> json result) \<Rightarrow> string \<Rightarrow> json \<Rightarrow> kernel \<Rightarrow> json result \<times> kernel" where
  "viewer_gate env clk other url body k =
     (case (field body ''type'', field body ''x'', field body ''y'') of
        (Some (JStr ty), Some (JNum x), Some (JNum y)) \<Rightarrow>
          if url = ''/api/input'' then apfst return (api_input env clk ty x y k) else (other url body, k)
      | _ \<Rightarrow> (other url body, k))"

fun viewer_session ::
  "browser \<Rightarrow> kenv \<Rightarrow> clock \<Rightarrow> (string \<Rightarrow> json \<Rightarrow> json result) \<Rightarrow> view_act list \<Rightarrow> viewer \<Rightarrow> kernel \<Rightarrow> viewer \<times> kernel" where
  "viewer_session br env clk other [] s k = (s, k)"
| "viewer_session br env clk other (a # as) s k =
     (case play br (viewer_gate env clk other) (view_listen a s) k of
        (s', k') \<Rightarrow> viewer_session br env clk other as s' k')"

text \<open>What main of server.py sees to at the start: writes are allowed, and stay so.\<close>

definition console_ready :: "kernel \<Rightarrow> bool" where
  "console_ready k \<longleftrightarrow>
     g_mode k = Permissive \<or> g_mode k = Guarded \<and> map_of (g_grants k) ''all'' = Some Infinity"

lemma ready_allows: "console_ready k \<Longrightarrow> allow (decide (g_mode k) name Write (g_grants k))"
  by (auto simp: console_ready_def decide_def permitKey_def split: option.splits)

lemma consume_keeps_infinite:
  "map_of g key = Some Infinity \<Longrightarrow> map_of (consume k g) key = Some Infinity"
  by (cases "k = key") (auto simp: consume_def update_conv' delete_conv' split: option.splits uses.splits)

lemma input_table: "registry_get (kernel_registry env) ''desktop.input'' = Some (desktopCaps env (kernel_infos env) ! 1)"
  using table_lookup [of "desktopCaps env (kernel_infos env) ! 1" env]
  by (simp add: kernel_table_def desktopCaps_def cap_def)

lemma flush_desktop [simp]: "k_desktop (flush_audit env es k) = k_desktop k"
  by (simp add: flush_audit_def)

lemma input_call:
  fixes x y :: int
  assumes "console_ready k" "ty \<in> {''pointerdown'', ''pointermove'', ''pointerup''}"
  defines "args \<equiv> [(''type'', JStr ty), (''x'', JNum x), (''y'', JNum y)]"
  shows "k_desktop (snd (kernel_call env clk ''desktop.input'' args k)) = pointer (pointer_arg args) x y (k_desktop k)"
    and "console_ready (snd (kernel_call env clk ''desktop.input'' args k))"
proof -
  let ?d = "decide (g_mode k) ''desktop.input'' Write (g_grants k)"
  have "allow ?d" by (rule ready_allows [OF assms(1)])
  then have *: "k_desktop (snd (kernel_call env clk ''desktop.input'' args k)) = pointer (pointer_arg args) x y (k_desktop k)
      \<and> g_mode (snd (kernel_call env clk ''desktop.input'' args k)) = g_mode k
      \<and> g_grants (snd (kernel_call env clk ''desktop.input'' args k)) =
          (case grantKey ?d of None \<Rightarrow> g_grants k | Some key \<Rightarrow> consume key (g_grants k))"
    using assms(2)
    by (cases "grantKey ?d")
      (auto simp: args_def kernel_call_def dispatch_def admit_def input_table desktopCaps_def cap_def validate_def Let_def
        params_of_def enum_of_def typed_def or_empty_def settle_def on_desktop_def type_ok_def int_arg_def arg_num_def
        in_enum_def audit_append_def num_int_def)
  then show "k_desktop (snd (kernel_call env clk ''desktop.input'' args k)) = pointer (pointer_arg args) x y (k_desktop k)"
    by blast
  show "console_ready (snd (kernel_call env clk ''desktop.input'' args k))"
    using * assms(1) by (auto simp: console_ready_def consume_keeps_infinite split: option.split)
qed

text \<open>
  The reference: a gesture in points of the picture, and the pointer events a viewer owes for it.
\<close>

datatype gesture = Press int int | Move int int | Release int int | Wait nat

fun pointer_events :: "bool \<Rightarrow> int \<Rightarrow> int \<Rightarrow> gesture list \<Rightarrow> wm_event list" where
  "pointer_events down moved now [] = []"
| "pointer_events down moved now (Press x y # gs) = Pointer PointerDown x y # pointer_events True moved now gs"
| "pointer_events down moved now (Release x y # gs) =
     (if down then [Pointer PointerUp x y] else []) @ pointer_events False moved now gs"
| "pointer_events down moved now (Move x y # gs) =
     (if down \<and> moved + 33 \<le> now then Pointer PointerMove x y # pointer_events down now now gs
      else pointer_events down moved now gs)"
| "pointer_events down moved now (Wait n # gs) = pointer_events down moved (now + int n) gs"

text \<open>The same gesture on a picture shown in its own size with its corner at \<open>(l, t)\<close>.\<close>

fun on_picture :: "int \<Rightarrow> int \<Rightarrow> gesture \<Rightarrow> view_act" where
  "on_picture l t (Press x y) = MouseDown (dbl (x + l), dbl (y + t)) (shown_at l t)"
| "on_picture l t (Release x y) = MouseUp (dbl (x + l), dbl (y + t)) (shown_at l t)"
| "on_picture l t (Move x y) = MouseMove (dbl (x + l), dbl (y + t)) (shown_at l t)"
| "on_picture l t (Wait n) = Tick n"

fun near :: "gesture \<Rightarrow> bool" where
  "near (Press x y) = (\<bar>x\<bar> < 2 ^ 51 \<and> \<bar>y\<bar> < 2 ^ 51)"
| "near (Release x y) = (\<bar>x\<bar> < 2 ^ 51 \<and> \<bar>y\<bar> < 2 ^ 51)"
| "near (Move x y) = (\<bar>x\<bar> < 2 ^ 51 \<and> \<bar>y\<bar> < 2 ^ 51)"
| "near (Wait n) = True"

lemma coords_at:
  assumes "\<bar>x\<bar> < 2 ^ 51" "\<bar>y\<bar> < 2 ^ 51" "\<bar>l\<bar> < 2 ^ 51" "\<bar>t\<bar> < 2 ^ 51"
  shows "coords (dbl (x + l), dbl (y + t)) (shown_at l t) = (x, y)"
proof -
  have "\<bar>x + l\<bar> < 2 ^ 52" "\<bar>y + t\<bar> < 2 ^ 52" "\<bar>l\<bar> < 2 ^ 52" "\<bar>t\<bar> < (2 ^ 52 :: int)" using assms by simp_all
  from coords_unscaled [OF this] show ?thesis by simp
qed

lemma play_send:
  assumes "console_ready k" "ty \<in> {''pointerdown'', ''pointermove'', ''pointerup''}" "coords p r = (x, y)"
  obtains k' where "play br (viewer_gate env clk other) (send ty p r s) k = (view_refresh s, k')"
    "k_desktop k' = pointer (pointer_arg [(''type'', JStr ty)]) x y (k_desktop k)" "console_ready k'"
proof (rule that)
  let ?call = "kernel_call env clk ''desktop.input'' [(''type'', JStr ty), (''x'', JNum x), (''y'', JNum y)] k"
  show "play br (viewer_gate env clk other) (send ty p r s) k = (view_refresh s, snd ?call)"
    using assms(3)
    by (simp add: send_def viewer_gate_def input_body_def field_def api_input_def split: prod.split sum.split)
  show "k_desktop (snd ?call) = pointer (pointer_arg [(''type'', JStr ty)]) x y (k_desktop k)"
    using input_call(1) [OF assms(1,2)] by (simp add: pointer_arg_def arg_str_def)
  show "console_ready (snd ?call)" by (rule input_call(2) [OF assms(1,2)])
qed

lemma pointer_arg_simps [simp]:
  "pointer_arg [(''type'', JStr ''pointerdown'')] = PointerDown"
  "pointer_arg [(''type'', JStr ''pointermove'')] = PointerMove"
  "pointer_arg [(''type'', JStr ''pointerup'')] = PointerUp"
  by (simp_all add: pointer_arg_def arg_str_def)

lemma session_desktop:
  assumes "console_ready k" "list_all near gs" "\<bar>l\<bar> < 2 ^ 51" "\<bar>t\<bar> < 2 ^ 51"
  shows "k_desktop (snd (viewer_session br env clk other (map (on_picture l t) gs) s k)) =
    fold wm_step (pointer_events (vw_dragging s) (vw_last s) (vw_now s) gs) (k_desktop k)"
  using assms(1,2)
proof (induction gs arbitrary: s k)
  case (Cons g gs)
  have sent: "k_desktop (snd (viewer_session br env clk other (on_picture l t g # map (on_picture l t) gs) s k)) =
      fold wm_step (Pointer (pointer_arg [(''type'', JStr ty)]) x y # pointer_events (vw_dragging s') (vw_last s') (vw_now s') gs) (k_desktop k)"
    if listen: "view_listen (on_picture l t g) s = send ty (dbl (x + l), dbl (y + t)) (shown_at l t) s'"
      and "ty \<in> {''pointerdown'', ''pointermove'', ''pointerup''}" "\<bar>x\<bar> < 2 ^ 51" "\<bar>y\<bar> < 2 ^ 51" for ty x y s'
  proof -
    from play_send [OF Cons.prems(1) that(2) coords_at [OF that(3,4) assms(3,4)]] obtain k' where k':
      "play br (viewer_gate env clk other) (send ty (dbl (x + l), dbl (y + t)) (shown_at l t) s') k = (view_refresh s', k')"
      "k_desktop k' = pointer (pointer_arg [(''type'', JStr ty)]) x y (k_desktop k)" "console_ready k'" .
    with Cons.IH [OF k'(3), of "view_refresh s'"] Cons.prems(2) listen show ?thesis
      by (simp add: view_refresh_def)
  qed
  show ?case
  proof (cases g)
    case (Press x y)
    with sent [of "''pointerdown''" x y "s\<lparr>vw_dragging := True\<rparr>"] Cons.prems(2) show ?thesis by simp
  next
    case (Release x y)
    with sent [of "''pointerup''" x y "s\<lparr>vw_dragging := False\<rparr>"] Cons.prems Cons.IH [of k s] show ?thesis
      by (cases "vw_dragging s") simp_all
  next
    case (Move x y)
    with sent [of "''pointermove''" x y "s\<lparr>vw_last := vw_now s\<rparr>"] Cons.prems Cons.IH [of k s] show ?thesis
      by (cases "vw_dragging s \<and> vw_last s + 33 \<le> vw_now s") auto
  next
    case (Wait n)
    with Cons.prems Cons.IH [of k "s\<lparr>vw_now := vw_now s + int n\<rparr>"] show ?thesis by simp
  qed
qed simp



end
