(* ===== verification/VoidHer.thy ===== *)
theory VoidHer
  imports VoidFiles VoidRound
begin

text \<open>
  ui/static/her.js: the surface on which one talks to the mind. An orb is painted some thirty times
  a second and shows the mood; what is typed goes to the mind, or to the switch of its backend.
  A painting is the list of its canvas operations, computed in doubles with \<open>Math.sin\<close> a parameter;
  a number in a colour stays a number between two pieces of text. Frames and timeouts that have
  been asked for are listed by their handle; the browser may run them at any time.
\<close>

section \<open>State\<close>

datatype mood = Idle | Thinking | Responding

fun mood_str :: "mood \<Rightarrow> string" where
  "mood_str Idle = ''idle''"
| "mood_str Thinking = ''thinking''"
| "mood_str Responding = ''responding''"

datatype stop_colour = Fixed string | Hue string double string

record gradient =
  gr_from :: "double \<times> double \<times> double"     \<comment> \<open>x, y and radius of the inner circle\<close>
  gr_to :: "double \<times> double \<times> double"
  gr_stops :: "(double \<times> stop_colour) list"

datatype canvas_op =
    ClearRect double double
  | Composite string
  | Arc double double double gradient

record her =
  he_w :: int
  he_h :: int
  he_dpr :: double
  he_mood :: mood
  he_data :: string                  \<comment> \<open>document.body.dataset.state\<close>
  he_amp :: double
  he_t :: double
  he_last :: double
  he_raf :: nat                      \<comment> \<open>rafId, 0 for none\<close>
  he_frames :: "nat list"            \<comment> \<open>frames asked for\<close>
  he_timer :: "nat option"           \<comment> \<open>respTimer\<close>
  he_timers :: "nat list"            \<comment> \<open>timeouts that are armed\<close>
  he_handle :: nat                   \<comment> \<open>the next handle\<close>
  he_you :: string
  he_reply :: string
  he_opacity :: string
  he_input :: string
  he_focus :: bool
  he_clock :: string
  he_paint :: "canvas_op list"       \<comment> \<open>the last painting\<close>

definition setState :: "mood \<Rightarrow> her \<Rightarrow> her" where
  "setState m s = s\<lparr>he_mood := m, he_data := mood_str m\<rparr>"

section \<open>The orb\<close>

text \<open>A literal of at most three decimals.\<close>

definition milli :: "int \<Rightarrow> double" where
  "milli n = lit_frac n 1000"

definition FRAME :: double where
  "FRAME = ddiv (dbl 1000) (dbl 30)"

definition resize :: "nat \<Rightarrow> nat \<Rightarrow> double \<Rightarrow> her \<Rightarrow> her" where
  "resize w h ratio s =
     (let r = (if mant ratio = 0 then dbl 1 else ratio);
          dpr = dmul (if dle r (dbl 2) then r else dbl 2) (milli 500)
      in s\<lparr>he_dpr := dpr, he_w := dround (dmul (dbl (int w)) dpr), he_h := dround (dmul (dbl (int h)) dpr)\<rparr>)"

fun base_amp :: "(double \<Rightarrow> double) \<Rightarrow> mood \<Rightarrow> double \<Rightarrow> double" where
  "base_amp sine Thinking t = dadd (milli 500) (dmul (milli 50) (sine (dmul t (milli 4200))))"
| "base_amp sine Responding t = dadd (milli 560) (dmul (milli 70) (sine (dmul t (dbl 2))))"
| "base_amp sine Idle t = dadd (milli 420) (dmul (milli 45) (sine (dmul t (milli 800))))"

definition ease :: "double \<Rightarrow> double \<Rightarrow> double" where
  "ease base amp = dadd amp (dmul (dsub base amp) (milli 50))"

definition orb_hue :: "(double \<Rightarrow> double) \<Rightarrow> double \<Rightarrow> double" where
  "orb_hue sine t = dadd (dbl 18) (dmul (dbl 6) (sine (dmul t (milli 300))))"

definition paint_orb :: "int \<Rightarrow> int \<Rightarrow> double \<Rightarrow> double \<Rightarrow> canvas_op list" where
  "paint_orb w h amp hue =
     (let cx = ddiv (dbl w) (dbl 2);
          cy = dmul (dbl h) (milli 400);
          R = dmul (dmul (dbl (min w h)) (milli 155)) (dadd (milli 920) amp);
          up = (\<lambda>n. dadd hue (dbl n));
          down = (\<lambda>n. dsub hue (dbl n));
          bloom = \<lparr>gr_from = (cx, cy, dmul R (milli 350)), gr_to = (cx, cy, dmul R (dbl 5)),
            gr_stops = [(dbl 0, Hue ''hsla('' hue '',95%,62%,0.20)''),
                        (milli 400, Hue ''hsla('' (down 6) '',90%,55%,0.06)''),
                        (dbl 1, Hue ''hsla('' hue '',90%,50%,0)'')]\<rparr>;
          core = \<lparr>gr_from = (cx, dsub cy (dmul R (milli 160)), dmul R (milli 20)), gr_to = (cx, cy, dmul R (milli 1220)),
            gr_stops = [(dbl 0, Fixed ''#fff7ee''), (milli 160, Fixed ''#ffe3bd''),
                        (milli 420, Hue ''hsl('' (up 5) '', 100%, 70%)''),
                        (milli 700, Hue ''hsl('' hue '', 90%, 58%)''),
                        (milli 900, Hue ''hsl('' (down 5) '', 82%, 47%)''),
                        (dbl 1, Hue ''hsla('' (down 7) '', 78%, 40%, 0)'')]\<rparr>;
          sx = dsub cx (dmul R (milli 300)); sy = dsub cy (dmul R (milli 380));
          spec = \<lparr>gr_from = (sx, sy, dbl 0), gr_to = (sx, sy, dmul R (milli 720)),
            gr_stops = [(dbl 0, Fixed ''rgba(255,255,255,0.45)''), (dbl 1, Fixed ''rgba(255,255,255,0)'')]\<rparr>;
          rim = \<lparr>gr_from = (cx, cy, dmul R (milli 840)), gr_to = (cx, cy, dmul R (milli 1080)),
            gr_stops = [(dbl 0, Fixed ''rgba(255,190,150,0)''),
                        (milli 720, Hue ''hsla('' (up 12) '', 100%, 78%, 0.13)''),
                        (dbl 1, Fixed ''rgba(255,190,150,0)'')]\<rparr>
      in [ClearRect (dbl w) (dbl h),
          Composite ''lighter'', Arc cx cy (dmul R (dbl 5)) bloom,
          Composite ''source-over'', Arc cx cy (dmul R (milli 1220)) core,
          Composite ''lighter'', Arc sx sy (dmul R (milli 720)) spec,
          Arc cx cy (dmul R (milli 1080)) rim, Composite ''source-over''])"

definition draw :: "(double \<Rightarrow> double) \<Rightarrow> her \<Rightarrow> her" where
  "draw sine s =
     (let t = dadd (he_t s) (ddiv FRAME (dbl 1000));
          amp = ease (base_amp sine (he_mood s) t) (he_amp s)
      in s\<lparr>he_t := t, he_amp := amp, he_paint := paint_orb (he_w s) (he_h s) amp (orb_hue sine t)\<rparr>)"

section \<open>Frames\<close>

definition request_frame :: "her \<Rightarrow> her" where
  "request_frame s =
     s\<lparr>he_raf := he_handle s, he_frames := he_frames s @ [he_handle s], he_handle := he_handle s + 1\<rparr>"

definition cancel_frame :: "nat \<Rightarrow> her \<Rightarrow> her" where
  "cancel_frame i s = s\<lparr>he_frames := removeAll i (he_frames s)\<rparr>"

definition loop :: "(double \<Rightarrow> double) \<Rightarrow> double \<Rightarrow> her \<Rightarrow> her" where
  "loop sine now s0 =
     (let s = request_frame s0
      in if \<not> dle FRAME (dsub now (he_last s)) then s else draw sine (s\<lparr>he_last := now\<rparr>))"

definition visibility :: "bool \<Rightarrow> her \<Rightarrow> her" where
  "visibility hidden s =
     (if hidden then (cancel_frame (he_raf s) s)\<lparr>he_raf := 0\<rparr>
      else if he_raf s = 0 then request_frame (s\<lparr>he_last := dbl 0\<rparr>)
      else s)"

section \<open>Talking\<close>

definition white :: "char \<Rightarrow> bool" where
  "white c \<longleftrightarrow> (of_char c :: nat) \<in> {9, 10, 11, 12, 13, 32, 160}"

text \<open>\<open>text.split(/\s+/)\<close>.\<close>

function split_white :: "string \<Rightarrow> string list" where
  "split_white s =
     (case dropWhile (\<lambda>c. \<not> white c) s of
        [] \<Rightarrow> [s]
      | rest \<Rightarrow> takeWhile (\<lambda>c. \<not> white c) s # split_white (dropWhile white rest))"
  by auto
termination
proof (relation "measure length")
  fix s c cs
  assume *: "dropWhile (\<lambda>c. \<not> white c) s = c # cs"
  then have "white c" by (metis hd_dropWhile list.distinct(1) list.sel(1))
  then have "length (dropWhile white (c # cs)) < length (c # cs)"
    by (simp add: length_dropWhile_le le_imp_less_Suc)
  also have "\<dots> \<le> length s" by (metis * length_dropWhile_le)
  finally show "(dropWhile white (c # cs), s) \<in> measure length" by simp
qed simp

declare split_white.simps [simp del]

definition is_host :: "string \<Rightarrow> bool" where
  "is_host w \<longleftrightarrow> prefix ''http://'' w \<or> prefix ''https://'' w"

definition last_or_empty :: "string list \<Rightarrow> string" where
  "last_or_empty ws = (if ws = [] then [] else last ws)"

definition nth_or_empty :: "string list \<Rightarrow> nat \<Rightarrow> string" where
  "nth_or_empty ws i = (if i < length ws then ws ! i else [])"

definition is_backend :: "string \<Rightarrow> bool" where
  "is_backend s \<longleftrightarrow> prefix ''/backend'' (map to_lower s)"

text \<open>The words after the third: the last that names a host, and the last that does not.\<close>

definition backend_body :: "string \<Rightarrow> json" where
  "backend_body s =
     (let p = split_white s
      in JObj [(''backend'', JStr (nth_or_empty p 1)), (''model'', JStr (nth_or_empty p 2)),
               (''key'', JStr (last_or_empty (filter (\<lambda>w. \<not> is_host w) (drop 3 p)))),
               (''host'', JStr (last_or_empty (filter is_host (drop 3 p))))])"

abbreviation warning_sign :: char where "warning_sign \<equiv> CHR 0x99"

definition answer_text :: "bool \<Rightarrow> json \<Rightarrow> string" where
  "answer_text backend d =
     (let err = prop_or_null ''error'' d; said = prop_or_null ''reply'' d; host = prop_or_null ''host'' d
      in if backend then
           if truthy err then [warning_sign] @ '' '' @ text_of err
           else ''now on '' @ printed ''backend'' d @ '' '' @ [mid_dot] @ '' '' @ printed ''model'' d @
             (if truthy host then '' '' @ [mid_dot] @ '' '' @ text_of host else [])
         else if truthy said then text_of said
         else if truthy err then text_of err
         else ellipsis)"

definition arm_timer :: "her \<Rightarrow> her" where
  "arm_timer s =
     s\<lparr>he_timers := (case he_timer s of None \<Rightarrow> he_timers s | Some i \<Rightarrow> removeAll i (he_timers s)) @ [he_handle s],
       he_timer := Some (he_handle s), he_handle := he_handle s + 1\<rparr>"

definition answered :: "bool \<Rightarrow> json result \<Rightarrow> her \<Rightarrow> her" where
  "answered backend r s =
     (let lost = setState Idle (s\<lparr>he_reply := ''I lost you for a second.'', he_opacity := ''1''\<rparr>)
      in case r of
           Inl e \<Rightarrow> lost
         | Inr d \<Rightarrow>
             if d = JNull then lost
             else arm_timer (setState Responding (s\<lparr>he_reply := answer_text backend d, he_opacity := ''1''\<rparr>)))"

definition ask :: "string \<Rightarrow> her \<Rightarrow> her prog" where
  "ask input s =
     (let text = trim input
      in if text = [] then Done s
         else
           let s1 = setState Thinking (s\<lparr>he_you := text, he_opacity := ''0''\<rparr>)
           in if is_backend text
              then Fetch s1 ''/api/backend'' (backend_body text) (\<lambda>r s'. Done (answered True r s'))
              else Fetch s1 ''/api/her'' (JObj [(''message'', JStr text)]) (\<lambda>r s'. Done (answered False r s')))"

section \<open>Listeners\<close>

datatype her_act =
    Resized nat nat nat int          \<comment> \<open>the window, and mantissa and exponent of its pixel ratio\<close>
  | FrameDue nat double
  | Visibility bool
  | TimeoutDue nat
  | ClockDue string                  \<comment> \<open>the time of day as the browser writes it\<close>
  | Typed string
  | Submitted
  | Clicked string                   \<comment> \<open>the name of the tag\<close>

text \<open>A handle that is not asked for any more does nothing.\<close>

fun her_listen :: "(double \<Rightarrow> double) \<Rightarrow> her_act \<Rightarrow> her \<Rightarrow> her prog" where
  "her_listen sine (Resized w h m e) s = Done (resize w h (Dbl (int m) e) s)"
| "her_listen sine (FrameDue i now) s =
     Done (if i \<in> set (he_frames s) then loop sine now (cancel_frame i s) else s)"
| "her_listen sine (Visibility hidden) s = Done (visibility hidden s)"
| "her_listen sine (TimeoutDue i) s =
     Done (if i \<in> set (he_timers s) then setState Idle (s\<lparr>he_timers := removeAll i (he_timers s)\<rparr>) else s)"
| "her_listen sine (ClockDue now) s = Done (s\<lparr>he_clock := now\<rparr>)"
| "her_listen sine (Typed v) s = Done (s\<lparr>he_input := v\<rparr>)"
| "her_listen sine Submitted s = ask (he_input s) (s\<lparr>he_input := []\<rparr>)"
| "her_listen sine (Clicked tag) s = Done (if tag \<noteq> ''INPUT'' then s\<lparr>he_focus := True\<rparr> else s)"

definition new_her :: "nat \<Rightarrow> nat \<Rightarrow> double \<Rightarrow> string \<Rightarrow> her" where
  "new_her w h ratio now =
     (request_frame (resize w h ratio
       \<lparr>he_w = 0, he_h = 0, he_dpr = dbl 1, he_mood = Idle, he_data = ''idle'', he_amp = milli 350, he_t = dbl 0,
        he_last = dbl 0, he_raf = 0, he_frames = [], he_timer = None, he_timers = [], he_handle = 1, he_you = [],
        he_reply = ''Hey '' @ [CHR 0x97] @ '' I'' @ [CHR 0x27] @ ''m voidOS. What do you need?'', he_opacity = [],
        he_input = [], he_focus = False, he_clock = [CHR 0x97], he_paint = []\<rparr>))
     \<lparr>he_clock := now, he_focus := True\<rparr>"


section \<open>One frame, one timer\<close>

definition her_ok :: "her \<Rightarrow> bool" where
  "her_ok s \<longleftrightarrow>
     he_frames s = (if he_raf s = 0 then [] else [he_raf s]) \<and> 0 < he_handle s \<and>
     (he_timers s = [] \<or> he_timers s = (case he_timer s of None \<Rightarrow> [] | Some i \<Rightarrow> [i])) \<and>
     he_data s = mood_str (he_mood s) \<and> (he_mood s = Responding \<longrightarrow> he_timers s \<noteq> [])"

text \<open>What may be sent: a message that is no command to the mind, the four texts to the switch.\<close>

definition her_call :: "string \<Rightarrow> json \<Rightarrow> bool" where
  "her_call url body \<longleftrightarrow>
     url = ''/api/her'' \<and> (\<exists>m. body = JObj [(''message'', JStr m)] \<and> m \<noteq> [] \<and> \<not> is_backend m) \<or>
     url = ''/api/backend'' \<and> (\<exists>b m k h. body =
       JObj [(''backend'', JStr b), (''model'', JStr m), (''key'', JStr k), (''host'', JStr h)])"

lemma her_ok_fields [simp]:
  "her_ok (s\<lparr>he_w := w, he_h := h\<rparr>) = her_ok s" "her_ok (s\<lparr>he_dpr := d\<rparr>) = her_ok s"
  "her_ok (s\<lparr>he_last := l\<rparr>) = her_ok s" "her_ok (s\<lparr>he_clock := c\<rparr>) = her_ok s"
  "her_ok (s\<lparr>he_input := i\<rparr>) = her_ok s" "her_ok (s\<lparr>he_focus := f\<rparr>) = her_ok s"
  "her_ok (s\<lparr>he_t := t, he_amp := a, he_paint := ps\<rparr>) = her_ok s"
  by (simp_all add: her_ok_def)

lemma her_ok_steps:
  "her_ok s \<Longrightarrow> her_ok (resize w h d s)"
  "her_ok s \<Longrightarrow> her_ok (draw sine s)"
  "her_ok s \<Longrightarrow> her_ok (visibility hidden s)"
  "her_ok s \<Longrightarrow> i \<in> set (he_frames s) \<Longrightarrow> her_ok (request_frame (cancel_frame i s))"
  "her_ok s \<Longrightarrow> i \<in> set (he_timers s) \<Longrightarrow> her_ok (setState Idle (s\<lparr>he_timers := removeAll i (he_timers s)\<rparr>))"
  "her_ok s \<Longrightarrow> her_ok (setState Thinking (s\<lparr>he_you := y, he_opacity := o1\<rparr>))"
  "her_ok s \<Longrightarrow> her_ok (answered backend r s)"
  by (auto simp: her_ok_def resize_def draw_def visibility_def request_frame_def cancel_frame_def setState_def
      answered_def arm_timer_def Let_def split: if_splits sum.split option.splits)

lemma her_listen_safe: "her_ok s \<Longrightarrow> safe_prog her_ok her_call (her_listen sine a s)"
proof (cases a)
  case (FrameDue i now)
  assume "her_ok s"
  with her_ok_steps(4) [OF this, of i] show ?thesis unfolding FrameDue
    by (simp add: loop_def Let_def her_ok_steps(2))
next
  case Submitted
  assume "her_ok s"
  then show ?thesis unfolding Submitted
    by (auto simp: ask_def Let_def her_ok_steps her_call_def backend_body_def)
qed (simp_all add: her_ok_steps)

interpretation her_page: page_machine "her_listen sine" her_ok her_call for sine
  by unfold_locales (rule her_listen_safe)

lemma new_her_ok: "her_ok (new_her w h ratio now)"
  by (simp add: her_ok_def new_her_def request_frame_def resize_def Let_def)

text \<open>
  C37. However frames, timeouts, answers and events fall, at most one frame is asked for and at most
  one timeout armed, one is armed while the orb responds, and the page shows the mood it is in;
  a backend command, with the key it carries, is never sent to the mind.
\<close>

theorem her_runs_safe:
  "safe_page her_ok her_call (fold (page_step br (her_listen sine)) es (open_page (new_her w h ratio now)))"
  by (rule her_page.page_runs_safe) (rule new_her_ok)

section \<open>Thinking ends\<close>

lemma mood_fields [simp]:
  "he_mood (setState m s) = m" "he_mood (arm_timer s) = he_mood s" "he_mood (resize w h d s) = he_mood s"
  "he_mood (draw sine s) = he_mood s" "he_mood (request_frame s) = he_mood s" "he_mood (cancel_frame i s) = he_mood s"
  "he_mood (visibility b s) = he_mood s" "he_mood (loop sine t s) = he_mood s"
  by (simp_all add: setState_def arm_timer_def resize_def draw_def request_frame_def cancel_frame_def visibility_def
      loop_def Let_def)

lemma answered_not_thinking [simp]: "he_mood (answered b r s) \<noteq> Thinking"
  by (simp add: answered_def Let_def split: sum.split)

primrec ends_thought :: "her call \<Rightarrow> bool" where
  "ends_thought (Call url body k) = (\<forall>r s. \<exists>s'. k r s = Done s' \<and> he_mood s' \<noteq> Thinking)"

lemma her_listen_thinks:
  "list_all ends_thought (snd (suspend br (her_listen sine a s))) \<and>
   (he_mood (fst (suspend br (her_listen sine a s))) = Thinking \<longrightarrow>
      snd (suspend br (her_listen sine a s)) \<noteq> [] \<or> he_mood s = Thinking)"
  by (cases a) (simp_all add: ask_def Let_def)

lemma thinking_step:
  fixes br e and sine :: "double \<Rightarrow> double"
  assumes "list_all ends_thought (pg_calls pg) \<and> (he_mood (pg_state pg) = Thinking \<longrightarrow> pg_calls pg \<noteq> [])"
  defines "pg' \<equiv> page_step br (her_listen sine) e pg"
  shows "list_all ends_thought (pg_calls pg') \<and> (he_mood (pg_state pg') = Thinking \<longrightarrow> pg_calls pg' \<noteq> [])"
proof (cases e)
  case (Act a)
  with assms her_listen_thinks [of br sine a "pg_state pg"] show ?thesis
    by (auto simp: settle_page_def)
next
  case (Answer i r)
  show ?thesis
  proof (cases "i < length (pg_calls pg)")
    case True
    obtain url body k where k: "pg_calls pg ! i = Call url body k" by (cases "pg_calls pg ! i")
    with True assms(1) have "ends_thought (Call url body k)" by (metis list_all_length)
    then obtain s' where "k r (pg_state pg) = Done s'" "he_mood s' \<noteq> Thinking" by auto
    moreover have "list_all ends_thought (take i (pg_calls pg) @ drop (Suc i) (pg_calls pg))"
      using assms(1) by (auto simp: list_all_iff dest: in_set_takeD in_set_dropD)
    ultimately show ?thesis using True k Answer by (simp add: assms(2) settle_page_def)
  qed (use assms Answer in simp)
qed

text \<open>
  The orb thinks only while an answer is due: no run of the page leaves it thinking with nothing
  to wait for.
\<close>

theorem thinking_waits:
  assumes "he_mood (pg_state (fold (page_step br (her_listen sine)) es (open_page (new_her w h ratio now)))) = Thinking"
  shows "pg_calls (fold (page_step br (her_listen sine)) es (open_page (new_her w h ratio now))) \<noteq> []"
proof -
  have "list_all ends_thought (pg_calls (fold (page_step br (her_listen sine)) es pg)) \<and>
      (he_mood (pg_state (fold (page_step br (her_listen sine)) es pg)) = Thinking \<longrightarrow>
       pg_calls (fold (page_step br (her_listen sine)) es pg) \<noteq> [])"
    if "list_all ends_thought (pg_calls pg) \<and> (he_mood (pg_state pg) = Thinking \<longrightarrow> pg_calls pg \<noteq> [])" for pg
    using that by (induction es arbitrary: pg) (simp_all add: thinking_step)
  from this [of "open_page (new_her w h ratio now)"] assms show ?thesis
    by (simp add: open_page_def new_her_def)
qed

theorem thinking_waits_witness:
  "pg_calls (fold (page_step demo_browser (her_listen id)) [Act (Typed ''hi''), Act Submitted]
     (open_page (new_her 800 600 (dbl 2) ''9:00''))) \<noteq> []"
proof (rule thinking_waits)
  show "he_mood (pg_state (fold (page_step demo_browser (her_listen id)) [Act (Typed ''hi''), Act Submitted]
     (open_page (new_her 800 600 (dbl 2) ''9:00'')))) = Thinking"
    by (simp add: open_page_def settle_page_def ask_def trim_def is_backend_def Let_def setState_def)
qed

text \<open>
  A timeout armed by an answer goes off while the next question waits: the orb is idle although
  the mind thinks.
\<close>

lemma her_stale_timer:
  "let s = fold (page_step br (her_listen sine))
       [Act (Typed ''a''), Act Submitted, Answer 0 (return (JObj [(''reply'', JStr ''b'')])), Act (Typed ''c''), Act Submitted,
        Act (TimeoutDue 2)] (open_page (new_her w h ratio now))
   in he_mood (pg_state s) = Idle \<and> length (pg_calls s) = 1"
  by (simp add: Let_def open_page_def settle_page_def ask_def trim_def is_backend_def new_her_def request_frame_def
      resize_def setState_def answered_def arm_timer_def answer_text_def)

section \<open>Commands\<close>

definition plain_word :: "string \<Rightarrow> bool" where
  "plain_word w \<longleftrightarrow> w \<noteq> [] \<and> list_all (\<lambda>c. \<not> white c) w"

lemma white_space [simp]: "white CHR '' ''"
  by (simp add: white_def)

lemma split_white_plain: "list_all (\<lambda>c. \<not> white c) w \<Longrightarrow> split_white w = [w]"
  by (subst split_white.simps) (simp add: list_all_iff dropWhile_eq_Nil_conv [THEN iffD2])

lemma split_white_cons:
  assumes "list_all (\<lambda>c. \<not> white c) w" "white c" "cs \<noteq> []" "\<not> white (hd cs)"
  shows "split_white (w @ c # cs) = w # split_white cs"
proof -
  have "dropWhile (\<lambda>c. \<not> white c) (w @ c # cs) = c # cs" "takeWhile (\<lambda>c. \<not> white c) (w @ c # cs) = w"
    using assms(1,2) by (simp_all add: list_all_iff dropWhile_append2 takeWhile_append2)
  moreover have "dropWhile white cs = cs" using assms(3,4) by (cases cs) simp_all
  ultimately show ?thesis using assms(2) by (subst split_white.simps) simp
qed

lemma split_white_join:
  "ws \<noteq> [] \<Longrightarrow> list_all plain_word ws \<Longrightarrow> split_white (join_with '' '' ws) = ws"
proof (induction ws)
  case (Cons w ws)
  show ?case
  proof (cases ws)
    case Nil
    with Cons.prems show ?thesis by (simp add: plain_word_def split_white_plain)
  next
    case (Cons v vs)
    let ?rest = "join_with '' '' ws"
    have "plain_word v" using Cons.prems Cons by simp
    then have "?rest \<noteq> [] \<and> \<not> white (hd ?rest)"
      using Cons by (cases v; cases vs) (simp_all add: plain_word_def)
    with split_white_cons [of w "CHR '' ''" ?rest] Cons.prems Cons.IH Cons show ?thesis
      by (simp add: plain_word_def)
  qed
qed simp

lemma join_ends:
  "ws \<noteq> [] \<Longrightarrow> list_all plain_word ws \<Longrightarrow>
    join_with '' '' ws \<noteq> [] \<and> \<not> white (hd (join_with '' '' ws)) \<and> \<not> white (last (join_with '' '' ws))"
proof (induction ws)
  case (Cons w ws)
  then have w: "w \<noteq> []" "\<not> white (hd w)" "\<not> white (last w)"
    by (simp_all add: plain_word_def list_all_iff)
  show ?case
  proof (cases ws)
    case (Cons v vs)
    with Cons.IH Cons.prems w show ?thesis by simp
  qed (use w in simp)
qed simp

lemma trim_tight: "s \<noteq> [] \<Longrightarrow> \<not> white (hd s) \<Longrightarrow> \<not> white (last s) \<Longrightarrow> trim s = s"
proof -
  assume s: "s \<noteq> []" "\<not> white (hd s)" "\<not> white (last s)"
  have "dropWhile white xs = xs" if "xs \<noteq> []" "\<not> white (hd xs)" for xs
    using that by (cases xs) simp_all
  from this [of s] this [of "rev s"] s have "dropWhile white s = s" "dropWhile white (rev s) = rev s"
    by (simp_all add: hd_rev)
  moreover have "trim s = rev (dropWhile white (rev (dropWhile white s)))"
    unfolding trim_def Let_def white_def [abs_def] by (rule refl)
  ultimately show ?thesis by simp
qed

lemma command_fetch:
  assumes "list_all plain_word (c # ws)" "map to_lower c = ''/backend''"
  shows "her_listen sine Submitted (s\<lparr>he_input := join_with '' '' (c # ws)\<rparr>) =
    Fetch (setState Thinking (s\<lparr>he_input := [], he_you := join_with '' '' (c # ws), he_opacity := ''0''\<rparr>))
      ''/api/backend''
      (JObj [(''backend'', JStr (nth_or_empty ws 0)), (''model'', JStr (nth_or_empty ws 1)),
             (''key'', JStr (last_or_empty (filter (\<lambda>w. \<not> is_host w) (drop 2 ws)))),
             (''host'', JStr (last_or_empty (filter is_host (drop 2 ws))))])
      (\<lambda>r s'. Done (answered True r s'))"
proof -
  let ?line = "join_with '' '' (c # ws)"
  have "trim ?line = ?line" "?line \<noteq> []"
    using join_ends [OF _ assms(1)] by (auto intro: trim_tight)
  moreover have "is_backend ?line"
    using assms(2) by (cases ws) (simp_all add: is_backend_def)
  moreover have "split_white ?line = c # ws" using split_white_join [OF _ assms(1)] by simp
  ultimately show ?thesis
    by (simp add: ask_def Let_def backend_body_def nth_or_empty_def)
qed

text \<open>
  A command of the form /backend name model words reaches the switch as it was typed: the name,
  the model, as key the last further word that is no address, as host the last that is one.
\<close>

theorem backend_command:
  assumes "list_all plain_word (c # ws)" "map to_lower c = ''/backend''"
  shows "her_listen sine Submitted (s\<lparr>he_input := join_with '' '' (c # ws)\<rparr>) =
    Fetch (setState Thinking (s\<lparr>he_input := [], he_you := join_with '' '' (c # ws), he_opacity := ''0''\<rparr>))
      ''/api/backend''
      (JObj [(''backend'', JStr (nth_or_empty ws 0)), (''model'', JStr (nth_or_empty ws 1)),
             (''key'', JStr (last_or_empty (filter (\<lambda>w. \<not> is_host w) (drop 2 ws)))),
             (''host'', JStr (last_or_empty (filter is_host (drop 2 ws))))])
      (\<lambda>r s'. Done (answered True r s'))"
  by (rule command_fetch [OF assms])

theorem backend_command_witness:
  "her_listen id Submitted ((new_her 800 600 (dbl 2) ''9:00'')\<lparr>he_input := ''/Backend openai gpt sk-1 https://x''\<rparr>) =
    Fetch (setState Thinking ((new_her 800 600 (dbl 2) ''9:00'')
        \<lparr>he_input := [], he_you := ''/Backend openai gpt sk-1 https://x'', he_opacity := ''0''\<rparr>)) ''/api/backend''
      (JObj [(''backend'', JStr ''openai''), (''model'', JStr ''gpt''), (''key'', JStr ''sk-1''), (''host'', JStr ''https://x'')])
      (\<lambda>r s'. Done (answered True r s'))"
proof -
  have "list_all plain_word [''/Backend'', ''openai'', ''gpt'', ''sk-1'', ''https://x'']" by code_simp
  moreover have "map to_lower ''/Backend'' = ''/backend''" by code_simp
  ultimately show ?thesis
    using backend_command [of "''/Backend''" "[''openai'', ''gpt'', ''sk-1'', ''https://x'']" id "new_her 800 600 (dbl 2) ''9:00''"]
    by (simp add: nth_or_empty_def last_or_empty_def is_host_def)
qed

text \<open>Without a model the address lands in its place: only words after the third are looked at.\<close>

lemma host_taken_for_model:
  "backend_body ''/backend ollama http://h:1'' =
     JObj [(''backend'', JStr ''ollama''), (''model'', JStr ''http://h:1''), (''key'', JStr []), (''host'', JStr [])]"
proof -
  have "join_with '' '' [''/backend'', ''ollama'', ''http://h:1''] = ''/backend ollama http://h:1''" by simp
  moreover have "list_all plain_word [''/backend'', ''ollama'', ''http://h:1'']" by code_simp
  ultimately have "split_white ''/backend ollama http://h:1'' = [''/backend'', ''ollama'', ''http://h:1'']"
    using split_white_join [of "[''/backend'', ''ollama'', ''http://h:1'']"] by simp
  then show ?thesis by (simp add: backend_body_def nth_or_empty_def last_or_empty_def)
qed

section \<open>The orb breathes\<close>

text \<open>
  Floating point included: the amplitude stays between 0.34 and 0.64 when the sine stays between
  -1 and 1, and every circle of the painting has a radius the canvas accepts.
\<close>

definition radii_ok :: "canvas_op \<Rightarrow> bool" where
  "radii_ok p =
     (case p of
        Arc x y r g \<Rightarrow> 0 \<le> mant r \<and> 0 \<le> mant (snd (snd (gr_from g))) \<and> 0 \<le> mant (snd (snd (gr_to g)))
      | _ \<Rightarrow> True)"

lemma round53_nonneg: "0 \<le> m \<Longrightarrow> 0 \<le> mant (round53 m e)"
  by (simp add: round53_def Let_def VoidDouble.signed_def)

lemma mant_nonneg [intro]:
  "0 \<le> mant x \<Longrightarrow> 0 \<le> mant y \<Longrightarrow> 0 \<le> mant (dmul x y)"
  "0 \<le> mant x \<Longrightarrow> 0 \<le> mant y \<Longrightarrow> 0 \<le> mant (dadd x y)"
  "0 \<le> i \<Longrightarrow> 0 \<le> mant (dbl i)"
  by (simp_all add: dmul_def dadd_def Let_def round53_nonneg dbl_def)

lemma mant_milli [intro]: "0 \<le> n \<Longrightarrow> 0 \<le> mant (milli n)"
  by (simp add: milli_def lit_frac_def ddiv_def dbl_def Let_def VoidDouble.signed_def)

lemma paint_orb_radii:
  assumes "0 \<le> w" "0 \<le> h" "0 \<le> mant amp"
  shows "list_all radii_ok (paint_orb w h amp hue)"
proof -
  have "0 \<le> mant (dmul (dmul (dbl (min w h)) (milli 155)) (dadd (milli 920) amp))"
    using assms by (intro mant_nonneg mant_milli) simp_all
  then have "0 \<le> mant (dmul (dmul (dmul (dbl (min w h)) (milli 155)) (dadd (milli 920) amp)) x)" if "0 \<le> mant x" for x
    using that by (rule mant_nonneg(1))
  moreover have "0 \<le> mant (dbl 5)" "0 \<le> mant (dbl 0)" by (simp_all add: dbl_def)
  ultimately show ?thesis
    by (simp add: paint_orb_def Let_def radii_ok_def mant_milli)
qed

lemma milli_values:
  "milli 500 = Dbl 4503599627370496 (- 53)" "milli 50 = Dbl 7205759403792794 (- 57)"
  "milli 560 = Dbl 5044031582654956 (- 53)" "milli 70 = Dbl 5044031582654956 (- 56)"
  "milli 420 = Dbl 7566047373982433 (- 54)" "milli 45 = Dbl 6485183463413514 (- 57)"
  "milli 350 = Dbl 6305039478318694 (- 54)"
  by code_simp+

lemma val_fraction: "val (Dbl m (- numeral k)) = of_int m / 2 ^ numeral k"
  by (simp only: val_def double.sel of_int_minus of_int_numeral powr_minus_divide powr_numeral zero_less_numeral
      times_divide_eq_right mult_1_right)

abbreviation tiny :: real where "tiny \<equiv> 1 / 1000000"

lemma milli_near:
  "\<bar>val (milli 500) - 5/10\<bar> \<le> tiny" "\<bar>val (milli 50) - 5/100\<bar> \<le> tiny" "\<bar>val (milli 560) - 56/100\<bar> \<le> tiny"
  "\<bar>val (milli 70) - 7/100\<bar> \<le> tiny" "\<bar>val (milli 420) - 42/100\<bar> \<le> tiny" "\<bar>val (milli 45) - 45/1000\<bar> \<le> tiny"
  "\<bar>val (milli 350) - 35/100\<bar> \<le> tiny"
  unfolding milli_values val_fraction by simp_all

lemma small_error: "\<bar>x - y\<bar> \<le> \<bar>y\<bar> / 2 ^ 53 \<Longrightarrow> \<bar>y\<bar> \<le> 1 \<Longrightarrow> \<bar>x - y\<bar> \<le> (tiny :: real)"
proof -
  assume "\<bar>x - y\<bar> \<le> \<bar>y\<bar> / 2 ^ 53" "\<bar>y\<bar> \<le> 1"
  moreover have "\<bar>y\<bar> / 2 ^ 53 \<le> \<bar>y\<bar> / 1000000" by (rule divide_left_mono) simp_all
  ultimately show ?thesis by linarith
qed

lemmas op_near = small_error [OF dmul_error] small_error [OF dadd_error] small_error [OF dsub_error]

lemma product_bound: "\<bar>x\<bar> \<le> a \<Longrightarrow> \<bar>y\<bar> \<le> (1 :: real) \<Longrightarrow> \<bar>x * y\<bar> \<le> a"
  unfolding abs_mult using mult_mono [of "\<bar>x\<bar>" a "\<bar>y\<bar>" 1] by simp

lemma swing_bounds:
  assumes "\<bar>val s\<bar> \<le> 1" "\<bar>val d - d0\<bar> \<le> tiny" "0 \<le> d0" "d0 \<le> 7/100" "\<bar>val c - c0\<bar> \<le> tiny" "42/100 \<le> c0" "c0 \<le> 56/100"
  shows "\<bar>val (dadd c (dmul d s)) - c0\<bar> \<le> d0 + 4 * tiny"
proof -
  have ds: "\<bar>val d * val s\<bar> \<le> d0 + tiny" by (rule product_bound) (use assms in linarith)+
  have "\<bar>val (dmul d s) - val d * val s\<bar> \<le> tiny" by (rule op_near(1)) (use ds assms(4) in linarith)
  with ds have p: "\<bar>val (dmul d s)\<bar> \<le> d0 + 2 * tiny" by linarith
  have "\<bar>val (dadd c (dmul d s)) - (val c + val (dmul d s))\<bar> \<le> tiny"
    by (rule op_near(2)) (use p assms in linarith)
  with p assms(5) show ?thesis by linarith
qed

lemma base_bounds:
  assumes "\<forall>y. \<bar>val (sine y)\<bar> \<le> 1"
  shows "37/100 \<le> val (base_amp sine m t)" "val (base_amp sine m t) \<le> 635/1000"
proof -
  have s: "\<bar>val (sine y)\<bar> \<le> 1" for y using assms by blast
  have "37/100 \<le> val (base_amp sine m t) \<and> val (base_amp sine m t) \<le> 635/1000"
  proof (cases m)
    case Idle
    have "\<bar>val (base_amp sine m t) - 42/100\<bar> \<le> 45/1000 + 4 * tiny" unfolding Idle base_amp.simps
      by (rule swing_bounds [OF s milli_near(6) _ _ milli_near(5)]) simp_all
    then show ?thesis by linarith
  next
    case Thinking
    have "\<bar>val (base_amp sine m t) - 5/10\<bar> \<le> 5/100 + 4 * tiny" unfolding Thinking base_amp.simps
      by (rule swing_bounds [OF s milli_near(2) _ _ milli_near(1)]) simp_all
    then show ?thesis by linarith
  next
    case Responding
    have "\<bar>val (base_amp sine m t) - 56/100\<bar> \<le> 7/100 + 4 * tiny" unfolding Responding base_amp.simps
      by (rule swing_bounds [OF s milli_near(4) _ _ milli_near(3)]) simp_all
    then show ?thesis by linarith
  qed
  then show "37/100 \<le> val (base_amp sine m t)" "val (base_amp sine m t) \<le> 635/1000" by blast+
qed

lemma ease_bounds:
  assumes "37/100 \<le> val b" "val b \<le> 635/1000" "34/100 \<le> val a" "val a \<le> 64/100"
  shows "34/100 \<le> val (ease b a)" "val (ease b a) \<le> 64/100"
proof -
  let ?d = "val (dsub b a)" and ?q = "val (milli 50)" and ?p = "val (dmul (dsub b a) (milli 50))"
  have "\<bar>val b - val a\<bar> \<le> 295/1000" using assms by linarith
  then have d: "\<bar>?d - (val b - val a)\<bar> \<le> tiny" by (intro op_near(3)) linarith
  then have d1: "\<bar>?d\<bar> \<le> 3/10" using assms by linarith
  have "\<bar>(?q - 5/100) * ?d\<bar> \<le> tiny" by (rule product_bound [OF milli_near(2)]) (use d1 in linarith)
  moreover have "\<bar>?p - ?d * ?q\<bar> \<le> tiny"
    by (rule op_near(1)) (rule order_trans [OF product_bound [OF d1]]; use milli_near(2) in linarith)
  moreover have "(?q - 5/100) * ?d = ?d * ?q - 5/100 * ?d" by (simp add: algebra_simps)
  ultimately have p: "\<bar>?p - 5/100 * ?d\<bar> \<le> 2 * tiny" by linarith
  have "\<bar>val (ease b a) - (val a + ?p)\<bar> \<le> tiny" unfolding ease_def
    by (rule op_near(2)) (use p d1 assms in linarith)
  with p d assms show "34/100 \<le> val (ease b a)" "val (ease b a) \<le> 64/100" by linarith+
qed

definition orb_ok :: "her \<Rightarrow> bool" where
  "orb_ok s \<longleftrightarrow> 34/100 \<le> val (he_amp s) \<and> val (he_amp s) \<le> 64/100 \<and> 0 \<le> he_w s \<and> 0 \<le> he_h s \<and>
     list_all radii_ok (he_paint s)"

lemma orb_ok_fields [simp]:
  "orb_ok (setState m s) = orb_ok s" "orb_ok (request_frame s) = orb_ok s" "orb_ok (cancel_frame i s) = orb_ok s"
  "orb_ok (s\<lparr>he_last := l\<rparr>) = orb_ok s" "orb_ok (visibility b s) = orb_ok s" "orb_ok (answered k r s) = orb_ok s"
  "orb_ok (s\<lparr>he_timers := ts\<rparr>) = orb_ok s" "orb_ok (s\<lparr>he_clock := c\<rparr>) = orb_ok s" "orb_ok (s\<lparr>he_input := v\<rparr>) = orb_ok s"
  "orb_ok (s\<lparr>he_focus := f\<rparr>) = orb_ok s" "orb_ok (s\<lparr>he_you := y, he_opacity := o1\<rparr>) = orb_ok s"
  by (simp_all add: orb_ok_def setState_def request_frame_def cancel_frame_def visibility_def answered_def arm_timer_def
      Let_def split: sum.split)

lemma dround_nonneg: "0 \<le> mant x \<Longrightarrow> 0 \<le> dround x"
  by (simp add: dround_def pos_imp_zdiv_nonneg_iff)

lemma resize_ok: "0 \<le> mant ratio \<Longrightarrow> 34/100 \<le> val (he_amp s) \<and> val (he_amp s) \<le> 64/100 \<and> list_all radii_ok (he_paint s) \<Longrightarrow>
    orb_ok (resize w h ratio s)"
  by (auto simp: orb_ok_def resize_def Let_def dbl_def intro!: dround_nonneg mant_nonneg mant_milli)

lemma draw_ok:
  assumes "\<forall>y. \<bar>val (sine y)\<bar> \<le> 1" "orb_ok s"
  shows "orb_ok (draw sine s)"
proof -
  let ?amp = "he_amp (draw sine s)"
  have amp: "34/100 \<le> val ?amp" "val ?amp \<le> 64/100"
    using ease_bounds [OF base_bounds [OF assms(1)], of "he_amp s"] assms(2)
    by (simp_all add: draw_def Let_def orb_ok_def)
  then have "0 \<le> mant ?amp" by (simp flip: val_sign)
  then have "list_all radii_ok (he_paint (draw sine s))"
    using paint_orb_radii [of "he_w s" "he_h s" ?amp] assms(2) by (simp add: draw_def Let_def orb_ok_def)
  with amp assms(2) show ?thesis by (simp add: orb_ok_def draw_def Let_def)
qed

lemma orb_machine:
  assumes "\<forall>y. \<bar>val (sine y)\<bar> \<le> 1"
  shows "page_machine (her_listen sine) orb_ok (\<lambda>url body. True)"
proof
  fix s a
  assume "orb_ok s"
  then show "safe_prog orb_ok (\<lambda>url body. True) (her_listen sine a s)"
    by (cases a) (simp_all add: ask_def Let_def loop_def draw_ok [OF assms] resize_ok orb_ok_def [of s])
qed

lemma new_her_orb: "0 \<le> mant ratio \<Longrightarrow> orb_ok (new_her w h ratio now)"
proof -
  assume "0 \<le> mant ratio"
  moreover have "34/100 \<le> val (milli 350) \<and> val (milli 350) \<le> 64/100" using milli_near(7) by linarith
  ultimately show ?thesis unfolding new_her_def by (simp add: resize_ok)
qed

text \<open>
  C38. Floating point included, the amplitude of the orb stays between 0.34 and 0.64 in every run,
  whatever the moods and the size of the window, and every circle it is painted with has a radius
  that is not negative, as the canvas demands; all this for any sine between -1 and 1.
\<close>

theorem orb_breathes:
  assumes "\<forall>y. \<bar>val (sine y)\<bar> \<le> 1" "0 \<le> mant ratio"
  shows "safe_page orb_ok (\<lambda>url body. True)
    (fold (page_step br (her_listen sine)) es (open_page (new_her w h ratio now)))"
  by (rule page_machine.page_runs_safe [OF orb_machine [OF assms(1)] new_her_orb [OF assms(2)]])

theorem orb_breathes_witness:
  "safe_page orb_ok (\<lambda>url body. True) (fold (page_step demo_browser (her_listen (\<lambda>x. dbl (- 1))))
     [Act (FrameDue 1 (dbl 40)), Act (Typed ''hi''), Act Submitted, Act (FrameDue 2 (dbl 80))]
     (open_page (new_her 800 600 (dbl 2) ''9:00'')))"
  by (rule orb_breathes) (simp_all add: val_def dbl_def)

end
