(* ===== verification/VoidServer.thy ===== *)
theory VoidServer
  imports VoidHer
begin

text \<open>
  Two routes of ui/server.py that keep to themselves: the switch of the backend, with the
  environment of the process and the companion it holds as the state, and the choice of a static
  file. Making a companion, which asks the gate and loads the mind, is a parameter here; VoidBackends
  and VoidChat model it. Stand-ins: 0x97 the dash.
\<close>

section \<open>The switch of the backend\<close>

record console_server =
  cs_env :: "(string \<times> string) list"              \<comment> \<open>os.environ\<close>
  cs_companion :: "(string \<times> string) option"      \<comment> \<open>name and model of the backend it talks to\<close>

definition env_get :: "string \<Rightarrow> console_server \<Rightarrow> string" where
  "env_get k s = (case map_of (cs_env s) k of None \<Rightarrow> [] | Some v \<Rightarrow> v)"

definition env_put :: "string \<Rightarrow> string \<Rightarrow> console_server \<Rightarrow> console_server" where
  "env_put k v s = s\<lparr>cs_env := AList.update k v (cs_env s)\<rparr>"

text \<open>\<open>str.strip()\<close>.\<close>

definition py_strip :: "string \<Rightarrow> string" where
  "py_strip s =
     (let ws = (\<lambda>c. (of_char c :: nat) \<in> {9, 10, 11, 12, 13, 28, 29, 30, 31, 32, 133, 160})
      in rev (dropWhile ws (rev (dropWhile ws s))))"

definition backend_name :: "string \<Rightarrow> string" where
  "backend_name s = py_strip (map to_lower s)"

definition get_companion ::
  "((string \<times> string) list \<Rightarrow> (string \<times> string) result) \<Rightarrow> console_server \<Rightarrow> (string \<times> string) result \<times> console_server" where
  "get_companion build s =
     (case cs_companion s of
        Some a \<Rightarrow> (return a, s)
      | None \<Rightarrow>
          if env_get ''OLLAMA_API_KEY'' s = [] \<and> map_of (cs_env s) ''OLLAMA_HOST'' = None
          then (throw (''no model backend '' @ [CHR 0x97] @ '' set OLLAMA_API_KEY''), s)
          else (case build (cs_env s) of
                  Inl e \<Rightarrow> (throw e, s)
                | Inr a \<Rightarrow> (return a, s\<lparr>cs_companion := Some a\<rparr>)))"

definition backends :: "string list" where
  "backends = [''ollama'', ''openai'', ''anthropic'']"

definition switch_target :: "string \<Rightarrow> console_server \<Rightarrow> string" where
  "switch_target b s =
     (if b \<noteq> [] then b
      else if env_get ''VOID_BACKEND'' s \<noteq> [] then env_get ''VOID_BACKEND'' s
      else if env_get ''ANTHROPIC_API_KEY'' s \<noteq> [] then ''anthropic''
      else if env_get ''OPENAI_API_KEY'' s \<noteq> [] then ''openai'' else ''ollama'')"

definition key_env :: "string \<Rightarrow> string option" where
  "key_env target =
     map_of [(''openai'', ''OPENAI_API_KEY''), (''anthropic'', ''ANTHROPIC_API_KEY''), (''ollama'', ''OLLAMA_API_KEY'')] target"

text \<open>The refusal of a switch, if it is refused before anything is done.\<close>

definition switch_refusal :: "string \<Rightarrow> string \<Rightarrow> console_server \<Rightarrow> string option" where
  "switch_refusal backend key s =
     (let b = backend_name backend; target = switch_target b s
      in if b \<noteq> [] \<and> b \<notin> set backends then
           Some (''unknown backend '' @ [CHR 0x27] @ backend @ [CHR 0x27] @ '' '' @ [CHR 0x97] @ '' use ollama, openai, or anthropic'')
         else case key_env target of
           None \<Rightarrow> None
         | Some var \<Rightarrow>
             if target \<in> {''openai'', ''anthropic''} \<and> key = [] \<and> env_get var s = [] then
               Some (target @ '' needs '' @ var @ '' '' @ [CHR 0x97] @ '' add it to /etc/voidos.env or pass the key'')
             else None)"

definition switch_env :: "string \<Rightarrow> string \<Rightarrow> string \<Rightarrow> string \<Rightarrow> console_server \<Rightarrow> console_server" where
  "switch_env b model key host s =
     (let target = switch_target b s;
          s1 = (if b = [] then s
                else
                  let s' = env_put ''VOID_BACKEND'' b s
                  in if model = [] then s'\<lparr>cs_env := AList.delete ''VOID_MODEL'' (cs_env s')\<rparr> else s');
          s2 = (if model = [] then s1 else env_put ''VOID_MODEL'' model s1);
          s3 = (case key_env target of Some var \<Rightarrow> if key = [] then s2 else env_put var key s2 | None \<Rightarrow> s2)
      in if host = [] then s3 else env_put ''OLLAMA_HOST'' host s3)"

definition switch_backend ::
  "((string \<times> string) list \<Rightarrow> (string \<times> string) result) \<Rightarrow> string \<Rightarrow> string \<Rightarrow> string \<Rightarrow> string \<Rightarrow> console_server \<Rightarrow> json \<times> console_server" where
  "switch_backend build backend model key host s =
     (case switch_refusal backend key s of
        Some e \<Rightarrow> (JObj [(''error'', JStr e)], s)
      | None \<Rightarrow>
          let b = backend_name backend;
              changed = (b \<noteq> [] \<or> model \<noteq> [] \<or> key \<noteq> [] \<or> host \<noteq> []);
              s1 = switch_env b model key host s
          in case get_companion build (if changed then s1\<lparr>cs_companion := None\<rparr> else s1) of
               (Inl e, s2) \<Rightarrow> (JObj [(''error'', JStr e)], s2)
             | (Inr (name, m), s2) \<Rightarrow>
                 (JObj ([(''backend'', JStr name), (''model'', JStr m), (''switched'', JBool changed)] @
                    (if name = ''ollama'' then
                       [(''host'', JStr (case map_of (cs_env s2) ''OLLAMA_HOST'' of None \<Rightarrow> ''https://ollama.com'' | Some h \<Rightarrow> h))]
                     else [])), s2))"

text \<open>\<open>/api/backend\<close>, for a body of four texts as her.js sends it.\<close>

definition api_backend ::
  "((string \<times> string) list \<Rightarrow> (string \<times> string) result) \<Rightarrow> json \<Rightarrow> console_server \<Rightarrow> json \<times> console_server" where
  "api_backend build body s =
     (let get = (\<lambda>k. case field body k of Some (JStr v) \<Rightarrow> v | _ \<Rightarrow> [])
      in switch_backend build (get ''backend'') (get ''model'') (get ''key'') (get ''host'') s)"

section \<open>What a switch does\<close>

lemma env_simps [simp]:
  "map_of (cs_env (env_put k v s)) j = (if j = k then Some v else map_of (cs_env s) j)"
  "cs_companion (env_put k v s) = cs_companion s"
  by (simp_all add: env_put_def update_conv')

lemma refused_switch: "switch_refusal backend key s = Some e \<Longrightarrow> switch_backend build backend model key host s = (JObj [(''error'', JStr e)], s)"
  by (simp add: switch_backend_def)

lemma env_put_env [simp]: "cs_env (env_put k v s) = AList.update k v (cs_env s)"
  by (simp add: env_put_def)

lemma get_companion_env [simp]: "cs_env (snd (get_companion build s)) = cs_env s"
  by (simp add: get_companion_def split: option.split sum.split)

lemma switch_backend_env:
  "switch_refusal backend key s = None \<Longrightarrow>
    cs_env (snd (switch_backend build backend model key host s)) =
    cs_env (switch_env (backend_name backend) model key host s)"
proof -
  assume go: "switch_refusal backend key s = None"
  define s1 where "s1 = switch_env (backend_name backend) model key host s"
  define s2 where "s2 = (if backend_name backend \<noteq> [] \<or> model \<noteq> [] \<or> key \<noteq> [] \<or> host \<noteq> [] then s1\<lparr>cs_companion := None\<rparr> else s1)"
  obtain r s3 where r: "get_companion build s2 = (r, s3)" by fastforce
  then have "cs_env s3 = cs_env s2" using get_companion_env [of build s2] by simp
  then have "cs_env s3 = cs_env s1" by (simp add: s2_def)
  then show ?thesis
    unfolding switch_backend_def go option.case Let_def s1_def [symmetric] s2_def [symmetric] r prod.case
    by (cases r) (auto split: prod.split)
qed

text \<open>
  A backend other than Ollama cannot be switched to without Ollama: the companion asks for its
  variables whatever the backend is, and the environment has changed although the answer is an error.
\<close>

lemma switch_needs_ollama:
  assumes "env_get ''OLLAMA_API_KEY'' s = []" "map_of (cs_env s) ''OLLAMA_HOST'' = None" "key \<noteq> []"
  shows "fst (switch_backend build ''openai'' model key [] s) =
      JObj [(''error'', JStr (''no model backend '' @ [CHR 0x97] @ '' set OLLAMA_API_KEY''))]"
    and "env_get ''VOID_BACKEND'' (snd (switch_backend build ''openai'' model key [] s)) = ''openai''"
proof -
  have name: "backend_name ''openai'' = ''openai''" by code_simp
  then have go: "switch_refusal ''openai'' key s = None"
    using assms(3) by (simp add: switch_refusal_def switch_target_def backends_def key_env_def name Let_def)
  have env: "map_of (cs_env (switch_env ''openai'' model key [] s)) k =
      (if k = ''OPENAI_API_KEY'' then Some key
       else if k = ''VOID_MODEL'' then (if model = [] then None else Some model)
       else if k = ''VOID_BACKEND'' then Some ''openai'' else map_of (cs_env s) k)" for k
    using assms(3) by (simp add: switch_env_def switch_target_def key_env_def Let_def update_conv' delete_conv')
  have "get_companion build ((switch_env ''openai'' model key [] s)\<lparr>cs_companion := None\<rparr>) =
      (throw (''no model backend '' @ [CHR 0x97] @ '' set OLLAMA_API_KEY''),
       (switch_env ''openai'' model key [] s)\<lparr>cs_companion := None\<rparr>)"
    using assms(1,2) by (simp add: get_companion_def env_get_def env)
  then have step: "switch_backend build ''openai'' model key [] s =
      (JObj [(''error'', JStr (''no model backend '' @ [CHR 0x97] @ '' set OLLAMA_API_KEY''))],
       (switch_env ''openai'' model key [] s)\<lparr>cs_companion := None\<rparr>)"
    by (simp add: switch_backend_def go name Let_def)
  then show "fst (switch_backend build ''openai'' model key [] s) =
      JObj [(''error'', JStr (''no model backend '' @ [CHR 0x97] @ '' set OLLAMA_API_KEY''))]" by simp
  show "env_get ''VOID_BACKEND'' (snd (switch_backend build ''openai'' model key [] s)) = ''openai''"
    by (simp add: step env_get_def env)
qed

text \<open>
  A command typed on the surface configures the process: the variables of backend, model and key
  have the words of the line, and no other variable changes.
\<close>

theorem command_configures:
  assumes "list_all plain_word [c, name, model, key]" "map to_lower c = ''/backend''" "name \<in> set backends" "\<not> is_host key"
  shows "\<exists>s' body k. her_listen sine Submitted (h\<lparr>he_input := join_with '' '' [c, name, model, key]\<rparr>) =
      Fetch s' ''/api/backend'' body k \<and>
    map_of (cs_env (snd (api_backend build body s))) =
      (map_of (cs_env s))(''VOID_BACKEND'' \<mapsto> name, ''VOID_MODEL'' \<mapsto> model, the (key_env name) \<mapsto> key)"
proof -
  let ?body = "JObj [(''backend'', JStr name), (''model'', JStr model), (''key'', JStr key), (''host'', JStr [])]"
  have words: "name \<noteq> []" "model \<noteq> []" "key \<noteq> []" using assms(1) by (simp_all add: plain_word_def)
  have strip: "backend_name name = name"
    using assms(3) unfolding backends_def by (auto; code_simp)
  obtain var where var: "key_env name = Some var" using assms(3) by (auto simp: backends_def key_env_def)
  have "switch_refusal name key s = None"
    using assms(3) words by (simp add: switch_refusal_def strip Let_def split: option.split)
  then have "cs_env (snd (switch_backend build name model key [] s)) = cs_env (switch_env name model key [] s)"
    by (simp add: switch_backend_env strip)
  also have "\<dots> = AList.update var key (AList.update ''VOID_MODEL'' model (AList.update ''VOID_BACKEND'' name (cs_env s)))"
    using words var by (simp add: switch_env_def switch_target_def Let_def)
  finally have "map_of (cs_env (snd (api_backend build ?body s))) =
      (map_of (cs_env s))(''VOID_BACKEND'' \<mapsto> name, ''VOID_MODEL'' \<mapsto> model, the (key_env name) \<mapsto> key)"
    by (simp add: api_backend_def field_def update_conv' var)
  moreover have "her_listen sine Submitted (h\<lparr>he_input := join_with '' '' [c, name, model, key]\<rparr>) =
      Fetch (setState Thinking (h\<lparr>he_input := [], he_you := join_with '' '' [c, name, model, key], he_opacity := ''0''\<rparr>))
        ''/api/backend'' ?body (\<lambda>r s'. Done (answered True r s'))"
    using command_fetch [of c "[name, model, key]" sine h] assms by (simp add: nth_or_empty_def last_or_empty_def)
  ultimately show ?thesis by blast
qed

section \<open>Static files\<close>

text \<open>
  The file a GET names, if the test of do_GET lets it pass; \<open>base\<close> is the directory ui/static, the
  path has no query any more. Links are not followed here.
\<close>

definition static_routes :: "(string \<times> string) list" where
  "static_routes =
     [(''/'', ''her.html''), (''/desktop'', ''desktop.html''), (''/os'', ''os.html''), (''/her'', ''her.html'')]"

definition static_file :: "string \<Rightarrow> string \<Rightarrow> string option" where
  "static_file base path =
     (let rel = (case map_of static_routes path of Some r \<Rightarrow> r | None \<Rightarrow> dropWhile (\<lambda>c. c = slash) path);
          file = path_resolve ''/'' [base, rel]
      in if prefix base file then Some file else None)"

text \<open>The test compares texts, not paths: a directory beside the right one passes when its name begins alike.\<close>

lemma static_sibling: "static_file ''/ui/static'' ''/../static.old/x'' = Some ''/ui/static.old/x''"
  by code_simp

lemma static_elsewhere: "static_file ''/ui/static'' ''/../server.py'' = None"
  by code_simp

end
