(* ===== verification/VoidConsole.thy ===== *)
theory VoidConsole
  imports VoidFiles
begin

text \<open>
  ui/static/app.js: the dashboard that polls the state of the machine, and its chat. Elements are
  made by \<open>el\<close>, whose text is never read as HTML; only the bar is written as HTML. The state is what
  each element of the page holds, by the id of the element. The lists of a state and of an answer
  are arrays, null or missing, as server.py makes them: any other value counts as one that throws.
  Stand-ins: 0x87 the check mark, 0x97 the dash.
\<close>

section \<open>Elements\<close>

datatype dom = El string string "dom list" | TextNode string

text \<open>\<open>textContent\<close>: the empty text makes no node.\<close>

definition text_nodes :: "string \<Rightarrow> dom list" where
  "text_nodes s = (if s = [] then [] else [TextNode s])"

definition el :: "string \<Rightarrow> string \<Rightarrow> string \<Rightarrow> dom" where
  "el tag cls s = El tag cls (text_nodes s)"

text \<open>A text argument that is a value of the answer: null and a missing one make no text.\<close>

definition text_arg :: "json option \<Rightarrow> string" where
  "text_arg v = (case v of None \<Rightarrow> [] | Some JNull \<Rightarrow> [] | Some x \<Rightarrow> text_of x)"

datatype log_item =
    Line dom
  | Turn string bool "dom list"        \<comment> \<open>what was said, whether the thinking line is there, what follows\<close>

record console =
  co_bar :: string                     \<comment> \<open>the HTML of the bar\<close>
  co_dom :: "string \<Rightarrow> dom list"       \<comment> \<open>the children of the other elements\<close>
  co_now :: string                     \<comment> \<open>the time of day as the browser writes it\<close>
  co_log :: "log_item list"
  co_input :: string
  co_disabled :: bool

definition set_children :: "string \<Rightarrow> dom list \<Rightarrow> console \<Rightarrow> console" where
  "set_children i ds s = s\<lparr>co_dom := (co_dom s)(i := ds)\<rparr>"

section \<open>Rendering\<close>

definition fmtUptime :: "int \<Rightarrow> string" where
  "fmtUptime ms =
     (let s = ms div 1000
      in if s < 60 then int_str s @ ''s''
         else if s < 3600 then int_str (s div 60) @ ''m '' @ int_str (s mod 60) @ ''s''
         else int_str (s div 3600) @ ''h '' @ int_str (s mod 3600 div 60) @ ''m'')"

definition millis :: "json \<Rightarrow> int" where
  "millis v = (case v of JNum n \<Rightarrow> n | _ \<Rightarrow> 0)"

definition or_mark :: "json \<Rightarrow> string" where
  "or_mark v = (if truthy v then text_of v else ''?'')"

definition null_mark :: "json \<Rightarrow> string" where
  "null_mark v = (if v = JNull then ''?'' else text_of v)"

definition or_object :: "json \<Rightarrow> json" where
  "or_object v = (if truthy v then v else JObj [])"

definition as_list :: "json \<Rightarrow> json list option" where
  "as_list v = (case v of JArr xs \<Rightarrow> Some xs | _ \<Rightarrow> if truthy v then None else Some [])"

definition bar_html :: "json \<Rightarrow> string \<Rightarrow> string" where
  "bar_html info now =
     ''policy <b>'' @ or_mark (prop_or_null ''policy'' info) @ ''</b> '' @ [mid_dot] @ '' <b>'' @
     null_mark (prop_or_null ''capability_count'' info) @ ''</b> caps '' @ [mid_dot] @ '' up <b>'' @
     fmtUptime (millis (prop_or_null ''uptime_ms'' info)) @ ''</b> '' @ [mid_dot] @ '' <b>'' @ now @ ''</b>''"

definition info_rows :: "json \<Rightarrow> nat \<Rightarrow> (string \<times> string) list" where
  "info_rows info n =
     (let host = or_object (prop_or_null ''host'' info); release = prop_or_null ''release'' host
      in [(''version'', ''voidOS '' @ or_mark (prop_or_null ''void_version'' info)),
          (''host'', trim (or_mark (prop_or_null ''platform'' host) @ '' '' @ (if truthy release then text_of release else []))),
          (''pid 1?'', ''kernel pid '' @ null_mark (prop_or_null ''pid'' host)),
          (''uptime'', fmtUptime (millis (prop_or_null ''uptime_ms'' info))),
          (''policy'', or_mark (prop_or_null ''policy'' info)),
          (''syscalls'', null_mark (prop_or_null ''capability_count'' info)),
          (''grants'', stringify (or_object (prop_or_null ''active_grants'' info))),
          (''memory keys'', nat_str n)])"

definition risk_line :: "json list \<Rightarrow> string \<Rightarrow> dom" where
  "risk_line caps r =
     El ''div'' []
       [el ''span'' (''rk rk-'' @ r) r,
        el ''span'' ''dim'' ('' '' @
          join_with ''  '' (map (\<lambda>c. text_arg (field c ''name'')) (filter (\<lambda>c. printed ''risk'' c = r) caps)))]"

definition statusSpan :: "json option \<Rightarrow> dom" where
  "statusSpan v = el ''span'' (''pill st-'' @ (case v of None \<Rightarrow> ''undefined'' | Some x \<Rightarrow> text_of x)) (text_arg v)"

datatype table_cell = ValueCell "json option" | NodeCell dom

fun cell_dom :: "table_cell \<Rightarrow> dom" where
  "cell_dom (NodeCell d) = El ''td'' [] [d]"
| "cell_dom (ValueCell v) = El ''td'' [] (text_nodes (text_arg v))"

definition table_dom :: "string list \<Rightarrow> table_cell list list \<Rightarrow> dom" where
  "table_dom cols rows =
     El ''table'' []
       (El ''tr'' [] (map (el ''th'' []) cols) # map (\<lambda>r. El ''tr'' [] (map cell_dom r)) rows)"

text \<open>A part of the rendering yields false when it throws.\<close>

definition renderTable ::
  "string \<Rightarrow> string \<Rightarrow> json \<Rightarrow> string list \<Rightarrow> (json \<Rightarrow> table_cell list) \<Rightarrow> console \<Rightarrow> console \<times> bool" where
  "renderTable body badge rows cols mapper s =
     (case as_list rows of
        None \<Rightarrow> (s, False)
      | Some rs \<Rightarrow>
          (let s1 = set_children badge [TextNode (nat_str (length rs))] s
           in if rs = [] then (set_children body [el ''div'' ''empty'' ''none''] s1, True)
              else if JNull \<in> set rs then (set_children body [] s1, False)
              else (set_children body [table_dom cols (map mapper rs)] s1, True)))"

definition process_cells :: "json \<Rightarrow> table_cell list" where
  "process_cells p =
     [ValueCell (field p ''id''), NodeCell (statusSpan (field p ''status'')), ValueCell (field p ''pid''), ValueCell (field p ''cmd'')]"

definition service_cells :: "json \<Rightarrow> table_cell list" where
  "service_cells v =
     [ValueCell (field v ''name''), NodeCell (statusSpan (field v ''status'')), ValueCell (field v ''restarts''), ValueCell (field v ''cmd'')]"

definition cron_cells :: "json \<Rightarrow> table_cell list" where
  "cron_cells j = map (\<lambda>k. ValueCell (field j k)) [''name'', ''kind'', ''schedule'', ''runs'']"

definition server_cells :: "json \<Rightarrow> table_cell list" where
  "server_cells v =
     [ValueCell (field v ''name''), ValueCell (field v ''port''),
      NodeCell (statusSpan (if field v ''status'' = Some (JStr ''listening'') then Some (JStr ''running'') else field v ''status'')),
      ValueCell (field v ''requests'')]"

text \<open>A slice of the time stamp, which must be a string or nothing.\<close>

definition stamp :: "json \<Rightarrow> string option" where
  "stamp e = (case prop_or_null ''ts'' e of JStr t \<Rightarrow> Some (take 8 (drop 11 t)) | v \<Rightarrow> if truthy v then None else Some [])"

definition audit_line :: "json \<Rightarrow> dom option" where
  "audit_line e =
     (if e = JNull then None
      else map_option (\<lambda>when.
        let denied = field e ''decision'' = Some (JStr ''denied''); why = prop_or_null ''reason'' e
        in El ''div'' ''audit-line''
             ([el ''span'' ''when'' when,
               el ''span'' (if denied then ''deny'' else ''ok'') [if denied then cross else CHR 0x87],
               el ''span'' (''rk rk-'' @ printed ''risk'' e) (text_arg (field e ''risk'')),
               el ''span'' [] (text_arg (field e ''capability''))] @
              (if truthy why \<and> why \<noteq> JStr ''read'' then [el ''span'' ''dim'' (text_of why)] else []))) (stamp e))"

text \<open>Newest first; the lines before one that throws are there.\<close>

fun audit_lines_until :: "json list \<Rightarrow> dom list \<times> bool" where
  "audit_lines_until [] = ([], True)"
| "audit_lines_until (e # es) =
     (case audit_line e of None \<Rightarrow> ([], False) | Some d \<Rightarrow> apfst (Cons d) (audit_lines_until es))"

definition renderAudit :: "json \<Rightarrow> console \<Rightarrow> console \<times> bool" where
  "renderAudit entries s =
     (case as_list entries of
        None \<Rightarrow> (s, False)
      | Some es \<Rightarrow>
          if es = [] then (set_children ''b-audit'' [el ''div'' ''empty'' ''no syscalls yet''] s, True)
          else (case audit_lines_until (rev es) of (ds, ok) \<Rightarrow> (set_children ''b-audit'' ds s, ok)))"

definition render_caps :: "json \<Rightarrow> console \<Rightarrow> console \<times> bool" where
  "render_caps caps s =
     (case as_list caps of
        None \<Rightarrow> (s, False)
      | Some cs \<Rightarrow>
          let s1 = set_children ''n-caps'' [TextNode (nat_str (length cs))] s
          in if list_ex (\<lambda>c. c = JNull \<or> printed ''risk'' c \<in> set inherited_keys) cs then (s1, False)
             else (set_children ''b-caps'' (map (risk_line cs) [''read'', ''write'', ''exec'']) s1, True))"

definition render_info :: "json \<Rightarrow> json \<Rightarrow> console \<Rightarrow> console \<times> bool" where
  "render_info info memory s0 =
     (let s = s0\<lparr>co_bar := bar_html info (co_now s0)\<rparr>
      in case as_list memory of
           None \<Rightarrow> (s, False)
         | Some ks \<Rightarrow>
             (set_children ''finfo''
               (concat (map (\<lambda>(k, v). [el ''span'' ''k'' k, el ''span'' ''v'' v]) (info_rows info (length ks)))) s, True))"

text \<open>The parts in order, up to the first that throws.\<close>

fun run_parts :: "(console \<Rightarrow> console \<times> bool) list \<Rightarrow> console \<Rightarrow> console \<times> bool" where
  "run_parts [] s = (s, True)"
| "run_parts (f # fs) s = (case f s of (s', ok) \<Rightarrow> if ok then run_parts fs s' else (s', False))"

definition renderState :: "json \<Rightarrow> console \<Rightarrow> console \<times> bool" where
  "renderState st =
     run_parts
       [render_info (or_object (prop_or_null ''info'' st)) (prop_or_null ''memory'' st),
        render_caps (prop_or_null ''capabilities'' st),
        renderTable ''b-proc'' ''n-proc'' (prop_or_null ''processes'' st) [''id'', ''status'', ''pid'', ''cmd''] process_cells,
        renderTable ''b-svc'' ''n-svc'' (prop_or_null ''services'' st) [''name'', ''status'', ''restarts'', ''cmd''] service_cells,
        renderTable ''b-cron'' ''n-cron'' (prop_or_null ''cron'' st) [''name'', ''kind'', ''schedule'', ''runs''] cron_cells,
        renderTable ''b-net'' ''n-net'' (prop_or_null ''servers'' st) [''name'', ''port'', ''status'', ''reqs''] server_cells,
        renderAudit (prop_or_null ''audit'' st)]"

section \<open>Polling\<close>

definition gate_down :: "console \<Rightarrow> console" where
  "gate_down s =
     s\<lparr>co_bar := ''<span style='' @ [CHR 0x22] @ ''color:var(--red)'' @ [CHR 0x22] @ ''>gate down '' @ [CHR 0x97] @
        '' npm run boot</span>''\<rparr>"

definition polled :: "json result \<Rightarrow> console \<Rightarrow> console" where
  "polled r s =
     (case r of
        Inl e \<Rightarrow> gate_down s
      | Inr st \<Rightarrow>
          if st = JNull then gate_down s
          else (case renderState st s of (s', ok) \<Rightarrow> if ok then s' else gate_down s'))"

definition poll :: "console \<Rightarrow> console prog" where
  "poll s = Fetch s ''/api/state'' JNull (\<lambda>r s'. Done (polled r s'))"

section \<open>Chat\<close>

definition call_line :: "json \<Rightarrow> dom" where
  "call_line c =
     (let args = join_with '', '' (map (\<lambda>(k, v). k @ ''='' @ stringify v) (own_props (or_object (prop_or_null ''args'' c))))
      in El ''div'' []
           [el ''span'' (''rk-'' @ printed ''risk'' c) [mid_dot, CHR '' ''],
            TextNode (printed ''capability'' c @ ''('' @
              (if length args > 80 then take 80 args @ ellipsis else args) @ '')'')])"

text \<open>What an item of the log is on the page.\<close>

fun item_dom :: "log_item \<Rightarrow> dom" where
  "item_dom (Line d) = d"
| "item_dom (Turn you thinking ds) =
     El ''div'' ''turn''
       ([el ''div'' ''you'' you] @ (if thinking then [el ''div'' ''thinking'' (''void> thinking'' @ ellipsis)] else []) @ ds)"

text \<open>The element for the calls of an answer, if there are any.\<close>

definition calls_dom :: "browser \<Rightarrow> json \<Rightarrow> dom option result" where
  "calls_dom br calls =
     (case calls of
        JArr cs \<Rightarrow>
          if cs = [] then return None
          else if JNull \<in> set cs then throw (br_type_error br)
          else return (Some (El ''div'' ''sys'' (map call_line cs)))
      | _ \<Rightarrow> if truthy calls then throw (br_type_error br) else return None)"

definition answer_dom :: "json \<Rightarrow> dom" where
  "answer_dom d =
     (let err = prop_or_null ''error'' d; said = prop_or_null ''reply'' d
      in if truthy err then el ''div'' ''err'' ([cross] @ '' '' @ text_of err)
         else el ''div'' ''void'' (if truthy said then text_of said else ''(no reply)''))"

text \<open>What an answer adds to the log, and to the turn it belongs to.\<close>

definition chat_adds :: "browser \<Rightarrow> json result \<Rightarrow> dom option \<times> dom" where
  "chat_adds br r =
     (let failed = (\<lambda>e. (None, el ''div'' ''err'' ([cross] @ '' '' @ e)))
      in case r of
           Inl e \<Rightarrow> failed e
         | Inr d \<Rightarrow>
             if d = JNull then failed (br_type_error br)
             else (case calls_dom br (prop_or_null ''syscalls'' d) of
                     Inl e \<Rightarrow> failed e
                   | Inr wrap \<Rightarrow> (wrap, answer_dom d)))"

definition end_turn :: "dom \<Rightarrow> log_item \<Rightarrow> log_item" where
  "end_turn d t = (case t of Line x \<Rightarrow> Line x | Turn you thinking ds \<Rightarrow> Turn you False (ds @ [d]))"

text \<open>The turn is the one the question made, wherever it stands by now; then comes a poll.\<close>

definition chat_answered :: "browser \<Rightarrow> nat \<Rightarrow> json result \<Rightarrow> console \<Rightarrow> console prog" where
  "chat_answered br i r s =
     (case chat_adds br r of
        (wrap, d) \<Rightarrow>
          poll (s\<lparr>co_log := (co_log s)[i := end_turn d (co_log s ! i)] @ (case wrap of None \<Rightarrow> [] | Some w \<Rightarrow> [Line w]),
                  co_disabled := False\<rparr>))"

definition chat_submit :: "browser \<Rightarrow> console \<Rightarrow> console prog" where
  "chat_submit br s =
     (let message = trim (co_input s)
      in if message = [] then Done s
         else
           let s1 = s\<lparr>co_input := [], co_disabled := True, co_log := co_log s @ [Turn message True []]\<rparr>
           in Fetch s1 ''/api/chat'' (JObj [(''message'', JStr message)]) (chat_answered br (length (co_log s))))"

datatype console_act = TypedText string | SubmitChat | PollDue | TimeIs string

fun console_listen :: "browser \<Rightarrow> console_act \<Rightarrow> console \<Rightarrow> console prog" where
  "console_listen br (TypedText v) s = Done (if co_disabled s then s else s\<lparr>co_input := v\<rparr>)"
| "console_listen br SubmitChat s = chat_submit br s"
| "console_listen br PollDue s = poll s"
| "console_listen br (TimeIs t) s = Done (s\<lparr>co_now := t\<rparr>)"

definition new_console :: console where
  "new_console =
     \<lparr>co_bar = ''connecting'' @ ellipsis, co_dom = (\<lambda>i. []), co_now = [],
      co_log = [Line (el ''div'' ''void'' ''voidOS console online. The dashboard is live; type below to drive the OS.'')],
      co_input = [], co_disabled = False\<rparr>"

definition console_page :: "browser \<Rightarrow> console page" where
  "console_page br = settle_page br (poll new_console) (open_page new_console)"

section \<open>Nothing an answer says is read as markup\<close>

text \<open>Elements are of the kinds the script makes, whatever the texts.\<close>

primrec plain_dom :: "dom \<Rightarrow> bool" where
  "plain_dom (TextNode s) = True"
| "plain_dom (El tag cls ds) =
     (tag \<in> {''div'', ''span'', ''table'', ''tr'', ''th'', ''td''} \<and> list_all plain_dom ds)"

definition console_ok :: "console \<Rightarrow> bool" where
  "console_ok s \<longleftrightarrow> (\<forall>i. list_all plain_dom (co_dom s i)) \<and> list_all (\<lambda>t. plain_dom (item_dom t)) (co_log s)"

definition console_call :: "string \<Rightarrow> json \<Rightarrow> bool" where
  "console_call url body \<longleftrightarrow>
     url = ''/api/state'' \<and> body = JNull \<or>
     url = ''/api/chat'' \<and> (\<exists>m. m \<noteq> [] \<and> body = JObj [(''message'', JStr m)])"

lemma plain_text [simp]: "list_all plain_dom (text_nodes s)"
  by (simp add: text_nodes_def)

lemma plain_el [simp]: "plain_dom (el tag cls s) = (tag \<in> {''div'', ''span'', ''table'', ''tr'', ''th'', ''td''})"
  by (simp add: el_def)

lemma plain_parts [simp]:
  "plain_dom (statusSpan v)" "plain_dom (risk_line cs r)" "plain_dom (call_line c)" "plain_dom (answer_dom d)"
  by (simp_all add: statusSpan_def risk_line_def call_line_def answer_dom_def Let_def)

lemma plain_table:
  "(\<And>r d. r \<in> set rows \<Longrightarrow> NodeCell d \<in> set r \<Longrightarrow> plain_dom d) \<Longrightarrow> plain_dom (table_dom cols rows)"
proof -
  assume *: "\<And>r d. r \<in> set rows \<Longrightarrow> NodeCell d \<in> set r \<Longrightarrow> plain_dom d"
  have "plain_dom (cell_dom c)" if "r \<in> set rows" "c \<in> set r" for r c
    using * [OF that(1)] that(2) by (cases c) auto
  then show ?thesis by (auto simp: table_dom_def list_all_iff)
qed

lemma plain_cells:
  "NodeCell d \<in> set (process_cells v) \<Longrightarrow> plain_dom d" "NodeCell d \<in> set (service_cells v) \<Longrightarrow> plain_dom d"
  "NodeCell d \<in> set (cron_cells v) \<Longrightarrow> plain_dom d" "NodeCell d \<in> set (server_cells v) \<Longrightarrow> plain_dom d"
  by (auto simp: process_cells_def service_cells_def cron_cells_def server_cells_def)

lemma console_ok_simps [simp]:
  "console_ok (s\<lparr>co_bar := b\<rparr>) = console_ok s" "console_ok (s\<lparr>co_now := n\<rparr>) = console_ok s"
  "console_ok (s\<lparr>co_input := v\<rparr>) = console_ok s" "console_ok (gate_down s) = console_ok s"
  by (simp_all add: console_ok_def gate_down_def)

lemma set_children_ok: "console_ok s \<Longrightarrow> list_all plain_dom ds \<Longrightarrow> console_ok (set_children i ds s)"
  by (simp add: console_ok_def set_children_def)

lemma renderTable_ok:
  assumes "console_ok s" "\<And>v d. NodeCell d \<in> set (mapper v) \<Longrightarrow> plain_dom d"
  shows "console_ok (fst (renderTable body badge rows cols mapper s))"
  using assms by (auto simp: renderTable_def Let_def intro!: set_children_ok plain_table split: option.split)

lemma audit_line_plain: "audit_line e = Some d \<Longrightarrow> plain_dom d"
  by (auto simp: audit_line_def Let_def split: if_splits)

lemma audit_lines_plain: "list_all plain_dom (fst (audit_lines_until es))"
  by (induction es rule: audit_lines_until.induct) (auto simp: audit_line_plain split: option.split prod.split)

lemma render_parts_ok:
  assumes "console_ok s"
  shows "console_ok (fst (renderAudit entries s))" "console_ok (fst (render_caps caps s))"
    "console_ok (fst (render_info info memory s))"
proof -
  show "console_ok (fst (renderAudit entries s))"
    using assms audit_lines_plain
    by (auto simp: renderAudit_def intro!: set_children_ok split: option.split prod.split) (metis fst_conv)
  show "console_ok (fst (render_caps caps s))"
    using assms by (auto simp: render_caps_def Let_def intro!: set_children_ok split: option.split)
  show "console_ok (fst (render_info info memory s))"
    using assms by (auto simp: render_info_def Let_def list_all_iff intro!: set_children_ok split: option.split)
qed

lemma run_parts_ok:
  "list_all (\<lambda>f. \<forall>s. console_ok s \<longrightarrow> console_ok (fst (f s))) fs \<Longrightarrow> console_ok s \<Longrightarrow> console_ok (fst (run_parts fs s))"
proof (induction fs arbitrary: s)
  case (Cons f fs)
  then have "console_ok (fst (f s))" by simp
  with Cons show ?case by (cases "f s") simp
qed simp

lemma polled_ok: "console_ok s \<Longrightarrow> console_ok (polled r s)"
proof -
  assume "console_ok s"
  then have "console_ok (fst (renderState st s))" for st
    unfolding renderState_def
    by (intro run_parts_ok) (simp_all add: render_parts_ok renderTable_ok plain_cells)
  with \<open>console_ok s\<close> show ?thesis
    by (auto simp: polled_def split: sum.split prod.split) (metis fst_conv)+
qed

lemma poll_safe: "console_ok s \<Longrightarrow> safe_prog console_ok console_call (poll s)"
  by (simp add: poll_def console_call_def polled_ok)

lemma chat_adds_plain: "chat_adds br r = (wrap, d) \<Longrightarrow> plain_dom d \<and> (\<forall>w. wrap = Some w \<longrightarrow> plain_dom w)"
  by (auto simp: chat_adds_def calls_dom_def Let_def list_all_iff split: sum.splits json.splits if_splits)

lemma end_turn_plain: "plain_dom d \<Longrightarrow> plain_dom (item_dom t) \<Longrightarrow> plain_dom (item_dom (end_turn d t))"
  by (cases t) (auto simp: end_turn_def)

lemma chat_answered_safe:
  assumes "console_ok s"
  shows "safe_prog console_ok console_call (chat_answered br i r s)"
proof -
  obtain wrap d where add: "chat_adds br r = (wrap, d)" by fastforce
  have "list_all (\<lambda>t. plain_dom (item_dom t)) ((co_log s)[i := end_turn d (co_log s ! i)])"
  proof (cases "i < length (co_log s)")
    case True
    with assms have "plain_dom (item_dom (co_log s ! i))" by (simp add: console_ok_def list_all_length)
    then show ?thesis using assms True end_turn_plain chat_adds_plain [OF add]
      by (auto simp: console_ok_def list_all_length nth_list_update)
  qed (use assms in \<open>simp add: console_ok_def list_update_beyond\<close>)
  then show ?thesis using assms chat_adds_plain [OF add]
    by (auto simp: chat_answered_def add console_ok_def intro!: poll_safe split: option.split)
qed

lemma console_listen_safe: "console_ok s \<Longrightarrow> safe_prog console_ok console_call (console_listen br a s)"
proof (cases a)
  case SubmitChat
  assume "console_ok s"
  then have "console_ok (s\<lparr>co_input := [], co_disabled := True, co_log := co_log s @ [Turn you True []]\<rparr>)" for you
    by (simp add: console_ok_def)
  then show ?thesis using \<open>console_ok s\<close> unfolding SubmitChat
    by (simp add: chat_submit_def Let_def console_call_def chat_answered_safe)
qed (simp_all add: poll_safe)

interpretation console_machine: page_machine "console_listen br" console_ok console_call for br
  by unfold_locales (rule console_listen_safe)

text \<open>
  Whatever the machine and the mind answer and in whatever order, every element below the bar
  is one the script made: no text of an answer becomes markup; and the page calls nothing but the
  state and the chat, and the chat never with an empty message.
\<close>

theorem console_runs_safe:
  "safe_page console_ok console_call (fold (page_step br (console_listen br)) es (console_page br))"
proof (rule console_machine.run_inv)
  have "console_ok new_console" by (simp add: console_ok_def new_console_def)
  then show "safe_page console_ok console_call (console_page br)"
    unfolding console_page_def by (intro settle_safe poll_safe) (simp_all add: open_page_def)
qed (simp add: runs_true)

section \<open>Every question has its answer\<close>

text \<open>
  The calls that wait, each with the turn that made it: a chat call belongs to one turn that still
  thinks, and every turn that thinks has its call.
\<close>

definition is_chat :: "console call \<Rightarrow> bool" where
  "is_chat c = (case c of Call url body k \<Rightarrow> url = ''/api/chat'')"

definition thinks :: "log_item \<Rightarrow> bool" where
  "thinks t = (case t of Line d \<Rightarrow> False | Turn you thinking ds \<Rightarrow> thinking)"

definition belongs :: "browser \<Rightarrow> nat option \<Rightarrow> console call \<Rightarrow> bool" where
  "belongs br t c =
     (case t of
        None \<Rightarrow> c = Call ''/api/state'' JNull (\<lambda>r s. Done (polled r s))
      | Some i \<Rightarrow> \<exists>body. c = Call ''/api/chat'' body (chat_answered br i))"

definition turns_wait :: "browser \<Rightarrow> console page \<Rightarrow> bool" where
  "turns_wait br pg \<longleftrightarrow>
     (\<exists>ts. list_all2 (belongs br) ts (pg_calls pg) \<and> distinct (filter (\<lambda>t. t \<noteq> None) ts) \<and>
        (\<forall>i. Some i \<in> set ts \<longleftrightarrow> i < length (co_log (pg_state pg)) \<and> thinks (co_log (pg_state pg) ! i)))"

lemma log_kept [simp]:
  "co_log (set_children i ds s) = co_log s" "co_log (gate_down s) = co_log s"
  "co_log (fst (renderTable body badge rows cols mapper s)) = co_log s" "co_log (fst (renderAudit es s)) = co_log s"
  "co_log (fst (render_caps cs s)) = co_log s" "co_log (fst (render_info i1 m1 s)) = co_log s"
  by (simp_all add: set_children_def gate_down_def renderTable_def renderAudit_def render_caps_def render_info_def Let_def
      split: option.split prod.split)

lemma run_parts_log: "list_all (\<lambda>f. \<forall>s. co_log (fst (f s)) = co_log s) fs \<Longrightarrow> co_log (fst (run_parts fs s)) = co_log s"
proof (induction fs arbitrary: s)
  case (Cons f fs)
  then have "co_log (fst (f s)) = co_log s" by simp
  with Cons show ?case by (cases "f s") simp
qed simp

lemma polled_log [simp]: "co_log (polled r s) = co_log s"
proof -
  have "co_log (fst (renderState st s)) = co_log s" for st
    unfolding renderState_def by (rule run_parts_log) simp
  then show ?thesis by (auto simp: polled_def split: sum.split prod.split) (metis fst_conv)+
qed

lemma log_kept_calls:
  "turns_wait br pg \<Longrightarrow> co_log (pg_state pg') = co_log (pg_state pg) \<Longrightarrow> pg_calls pg' = pg_calls pg \<Longrightarrow> turns_wait br pg'"
  by (simp add: turns_wait_def)

lemma poll_added:
  assumes "turns_wait br pg" "co_log (pg_state pg') = co_log (pg_state pg)"
    "pg_calls pg' = pg_calls pg @ [Call ''/api/state'' JNull (\<lambda>r s. Done (polled r s))]"
  shows "turns_wait br pg'"
proof -
  obtain ts where "list_all2 (belongs br) ts (pg_calls pg)" "distinct (filter (\<lambda>t. t \<noteq> None) ts)"
    "\<forall>i. Some i \<in> set ts \<longleftrightarrow> i < length (co_log (pg_state pg)) \<and> thinks (co_log (pg_state pg) ! i)"
    using assms(1) unfolding turns_wait_def by blast
  with assms(2,3) have "list_all2 (belongs br) (ts @ [None]) (pg_calls pg')"
    "distinct (filter (\<lambda>t. t \<noteq> None) (ts @ [None]))"
    "\<forall>i. Some i \<in> set (ts @ [None]) \<longleftrightarrow> i < length (co_log (pg_state pg')) \<and> thinks (co_log (pg_state pg') ! i)"
    by (simp_all add: list_all2_appendI belongs_def)
  then show ?thesis unfolding turns_wait_def by blast
qed

lemma question_added:
  assumes "turns_wait br pg" "co_log (pg_state pg') = co_log (pg_state pg) @ [Turn you True ds]"
    "pg_calls pg' = pg_calls pg @ [Call ''/api/chat'' body (chat_answered br (length (co_log (pg_state pg))))]"
  shows "turns_wait br pg'"
proof -
  let ?n = "length (co_log (pg_state pg))"
  obtain ts where ts: "list_all2 (belongs br) ts (pg_calls pg)" "distinct (filter (\<lambda>t. t \<noteq> None) ts)"
    "\<forall>i. Some i \<in> set ts \<longleftrightarrow> i < ?n \<and> thinks (co_log (pg_state pg) ! i)"
    using assms(1) unfolding turns_wait_def by blast
  have "list_all2 (belongs br) (ts @ [Some ?n]) (pg_calls pg')"
    using ts(1) assms(3) by (simp add: list_all2_appendI belongs_def)
  moreover have "distinct (filter (\<lambda>t. t \<noteq> None) (ts @ [Some ?n]))" using ts(2,3) by simp
  moreover have "\<forall>i. Some i \<in> set (ts @ [Some ?n]) \<longleftrightarrow> i < length (co_log (pg_state pg')) \<and> thinks (co_log (pg_state pg') ! i)"
  proof
    fix i
    show "Some i \<in> set (ts @ [Some ?n]) \<longleftrightarrow> i < length (co_log (pg_state pg')) \<and> thinks (co_log (pg_state pg') ! i)"
      using ts(3) unfolding assms(2) by (cases i ?n rule: linorder_cases) (simp_all add: nth_append thinks_def)
  qed
  ultimately show ?thesis unfolding turns_wait_def by blast
qed

text \<open>One call leaves the list of those that wait.\<close>

lemma call_removed:
  assumes "turns_wait br pg" "i < length (pg_calls pg)"
  obtains t xs ys us vs where "pg_calls pg = us @ pg_calls pg ! i # vs"
    "take i (pg_calls pg) @ drop (Suc i) (pg_calls pg) = us @ vs"
    "list_all2 (belongs br) (xs @ ys) (us @ vs)" "belongs br t (pg_calls pg ! i)"
    "distinct (filter (\<lambda>t. t \<noteq> None) (xs @ t # ys))"
    "\<forall>j. Some j \<in> set (xs @ t # ys) \<longleftrightarrow> j < length (co_log (pg_state pg)) \<and> thinks (co_log (pg_state pg) ! j)"
proof -
  obtain ts where ts: "list_all2 (belongs br) ts (pg_calls pg)" "distinct (filter (\<lambda>t. t \<noteq> None) ts)"
    "\<forall>j. Some j \<in> set ts \<longleftrightarrow> j < length (co_log (pg_state pg)) \<and> thinks (co_log (pg_state pg) ! j)"
    using assms(1) unfolding turns_wait_def by blast
  have len: "i < length ts" using ts(1) assms(2) by (simp add: list_all2_lengthD)
  have split: "ts = take i ts @ ts ! i # drop (Suc i) ts" using len by (rule id_take_nth_drop)
  show thesis
  proof (rule that)
    show "pg_calls pg = take i (pg_calls pg) @ pg_calls pg ! i # drop (Suc i) (pg_calls pg)"
      using assms(2) by (rule id_take_nth_drop)
    show "list_all2 (belongs br) (take i ts @ drop (Suc i) ts) (take i (pg_calls pg) @ drop (Suc i) (pg_calls pg))"
      using ts(1) by (simp add: list_all2_appendI list_all2_takeI list_all2_dropI)
    show "belongs br (ts ! i) (pg_calls pg ! i)" using ts(1) len by (simp add: list_all2_nthD)
    show "distinct (filter (\<lambda>t. t \<noteq> None) (take i ts @ ts ! i # drop (Suc i) ts))" using ts(2) split by simp
    show "\<forall>j. Some j \<in> set (take i ts @ ts ! i # drop (Suc i) ts) \<longleftrightarrow>
        j < length (co_log (pg_state pg)) \<and> thinks (co_log (pg_state pg) ! j)" using ts(3) split by simp
  qed simp
qed

lemma thinks_end_turn [simp]: "\<not> thinks (end_turn d t)"
  by (cases t) (simp_all add: thinks_def end_turn_def)

lemma answer_waits:
  assumes "turns_wait br pg"
  shows "turns_wait br (page_step br (console_listen br) (Answer i r) pg)"
proof (cases "i < length (pg_calls pg)")
  case True
  let ?log = "co_log (pg_state pg)"
  obtain t xs ys us vs where call: "take i (pg_calls pg) @ drop (Suc i) (pg_calls pg) = us @ vs"
    "list_all2 (belongs br) (xs @ ys) (us @ vs)" "belongs br t (pg_calls pg ! i)"
    "distinct (filter (\<lambda>t. t \<noteq> None) (xs @ t # ys))"
    "\<forall>j. Some j \<in> set (xs @ t # ys) \<longleftrightarrow> j < length ?log \<and> thinks (?log ! j)"
    by (rule call_removed [OF assms True]) (rule that)
  show ?thesis
  proof (cases t)
    case None
    with call(3) have "pg_calls pg ! i = Call ''/api/state'' JNull (\<lambda>r s. Done (polled r s))" by (simp add: belongs_def)
    then have step: "page_step br (console_listen br) (Answer i r) pg = pg\<lparr>pg_state := polled r (pg_state pg), pg_calls := us @ vs\<rparr>"
      using True call(1) by (simp add: settle_page_def)
    have "\<forall>j. Some j \<in> set (xs @ ys) \<longleftrightarrow> j < length ?log \<and> thinks (?log ! j)" using call(5) None by simp
    moreover have "distinct (filter (\<lambda>t. t \<noteq> None) (xs @ ys))" using call(4) None by simp
    ultimately show ?thesis unfolding turns_wait_def step using call(2) by (intro exI [of _ "xs @ ys"]) simp
  next
    case (Some j)
    with call(3) obtain body where c: "pg_calls pg ! i = Call ''/api/chat'' body (chat_answered br j)"
      by (auto simp: belongs_def)
    obtain wrap d where add: "chat_adds br r = (wrap, d)" by fastforce
    let ?log' = "?log[j := end_turn d (?log ! j)] @ (case wrap of None \<Rightarrow> [] | Some w \<Rightarrow> [Line w])"
    have j: "j < length ?log" using call(5) [rule_format, of j] Some by simp
    let ?pg = "pg\<lparr>pg_state := (pg_state pg)\<lparr>co_log := ?log', co_disabled := False\<rparr>, pg_calls := us @ vs\<rparr>"
    have step: "page_step br (console_listen br) (Answer i r) pg =
        ?pg\<lparr>pg_calls := pg_calls ?pg @ [Call ''/api/state'' JNull (\<lambda>r s. Done (polled r s))]\<rparr>"
      using True call(1) c by (simp add: settle_page_def chat_answered_def add poll_def)
    have "turns_wait br ?pg"
    proof -
      have out: "Some j \<notin> set (xs @ ys)" using call(4) Some by auto
      have "Some n \<in> set (xs @ ys) \<longleftrightarrow> n < length ?log' \<and> thinks (?log' ! n)" for n
      proof (cases "n = j")
        case True
        with out j show ?thesis by (simp add: nth_append)
      next
        case False
        with call(5) Some have "Some n \<in> set (xs @ ys) \<longleftrightarrow> n < length ?log \<and> thinks (?log ! n)" by auto
        with False show ?thesis
          by (cases wrap) (auto simp: nth_append less_Suc_eq thinks_def split: log_item.splits)
      qed
      moreover have "distinct (filter (\<lambda>t. t \<noteq> None) (xs @ ys))" using call(4) Some by auto
      ultimately show ?thesis unfolding turns_wait_def using call(2) by (intro exI [of _ "xs @ ys"]) simp
    qed
    then show ?thesis unfolding step by (rule poll_added) simp_all
  qed
qed (use assms in simp)

lemma act_waits:
  assumes "turns_wait br pg"
  shows "turns_wait br (page_step br (console_listen br) (Act a) pg)"
proof (cases a)
  case (TypedText v)
  then show ?thesis using assms by (auto simp: settle_page_def intro: log_kept_calls)
next
  case SubmitChat
  show ?thesis
  proof (cases "trim (co_input (pg_state pg)) = []")
    case True
    then show ?thesis using assms SubmitChat by (simp add: settle_page_def chat_submit_def)
  next
    case False
    show ?thesis unfolding SubmitChat
      by (rule question_added [OF assms]) (simp_all add: False settle_page_def chat_submit_def Let_def)
  qed
next
  case PollDue
  show ?thesis unfolding PollDue
    by (rule poll_added [OF assms]) (simp_all add: settle_page_def poll_def)
next
  case (TimeIs t)
  then show ?thesis using assms by (auto simp: settle_page_def intro: log_kept_calls)
qed

text \<open>The number of the turns that think, and of the chat calls that wait.\<close>

lemma turns_counted:
  assumes "turns_wait br pg"
  shows "length (filter thinks (co_log (pg_state pg))) = length (filter is_chat (pg_calls pg))"
proof -
  let ?log = "co_log (pg_state pg)"
  obtain ts where ts: "list_all2 (belongs br) ts (pg_calls pg)" "distinct (filter (\<lambda>t. t \<noteq> None) ts)"
    "\<forall>i. Some i \<in> set ts \<longleftrightarrow> i < length ?log \<and> thinks (?log ! i)"
    using assms unfolding turns_wait_def by blast
  have "length (filter is_chat cs) = length (filter (\<lambda>t. t \<noteq> None) xs)" if "list_all2 (belongs br) xs cs" for xs cs
    using that by (induction rule: list_all2_induct) (auto simp: belongs_def is_chat_def split: option.splits)
  then have "length (filter is_chat (pg_calls pg)) = card (set (filter (\<lambda>t. t \<noteq> None) ts))"
    using ts(1) distinct_card [OF ts(2)] by simp
  also have "set (filter (\<lambda>t. t \<noteq> None) ts) = Some ` {i. i < length ?log \<and> thinks (?log ! i)}"
    using ts(3) by (auto simp: image_iff)
  also have "card \<dots> = length (filter thinks ?log)"
    by (simp add: card_image length_filter_conv_card)
  finally show ?thesis by simp
qed

lemma console_reaches: "turns_wait br (fold (page_step br (console_listen br)) es (console_page br))"
proof -
  have "turns_wait br (open_page new_console)"
    unfolding turns_wait_def by (rule exI [of _ "[]"]) (simp add: open_page_def new_console_def nth_Cons thinks_def split: nat.split)
  then have "turns_wait br (console_page br)"
    by (rule poll_added) (simp_all add: console_page_def settle_page_def poll_def open_page_def)
  moreover have "turns_wait br (page_step br (console_listen br) e pg)" if "turns_wait br pg" for e pg
    using that by (cases e) (simp_all only: act_waits answer_waits)
  ultimately show ?thesis
    by (induction es arbitrary: br rule: rev_induct) simp_all
qed

text \<open>
  C39. In every run of the console there are as many thinking lines as questions whose answer is
  due: an answer, good or bad, clears the line of its own question, in whatever order they come.
\<close>

theorem thinking_lines_are_questions:
  "length (filter thinks (co_log (pg_state (fold (page_step br (console_listen br)) es (console_page br))))) =
   length (filter is_chat (pg_calls (fold (page_step br (console_listen br)) es (console_page br))))"
  by (rule turns_counted [OF console_reaches])

text \<open>How many answers a page still has to get: a question is followed by a poll, a poll by nothing.\<close>

definition due :: "console page \<Rightarrow> nat" where
  "due pg = sum_list (map (\<lambda>c. if is_chat c then 2 else 1) (pg_calls pg))"

lemma due_0: "due pg = 0 \<Longrightarrow> pg_calls pg = []"
  by (cases "pg_calls pg") (simp_all add: due_def split: if_splits)

lemma answer_due:
  assumes "turns_wait br pg" "due pg = Suc n"
  shows "due (page_step br (console_listen br) (Answer 0 r) pg) = n"
proof -
  obtain c cs where calls: "pg_calls pg = c # cs" using assms(2) by (cases "pg_calls pg") (simp_all add: due_def)
  then obtain t where "belongs br t c"
    using assms(1) by (auto simp: turns_wait_def list_all2_Cons2)
  then consider "c = Call ''/api/state'' JNull (\<lambda>r s. Done (polled r s))"
    | i body where "c = Call ''/api/chat'' body (chat_answered br i)"
    by (cases t) (auto simp: belongs_def)
  then show ?thesis
  proof cases
    case 1
    then show ?thesis using assms(2) calls by (simp add: due_def settle_page_def is_chat_def)
  next
    case 2
    then show ?thesis using assms(2) calls
      by (simp add: due_def settle_page_def is_chat_def chat_answered_def poll_def split: prod.split)
  qed
qed


section \<open>The dashboard shows the machine\<close>

text \<open>\<open>/api/state\<close> of server.py: eight calls that only read, an error kept or replaced by the empty list.\<close>

definition safe_call_json :: "kenv \<Rightarrow> clock \<Rightarrow> string \<Rightarrow> jobject \<Rightarrow> kernel \<Rightarrow> json \<times> kernel" where
  "safe_call_json env clk meth params k =
     (case kernel_call env clk meth params k of
        (Inl e, k') \<Rightarrow> (JObj [(''error'', JStr (err_code e @ '': '' @ err_message e))], k')
      | (Inr v, k') \<Rightarrow> (v, k'))"

definition picked :: "string \<Rightarrow> json \<Rightarrow> json" where
  "picked key v = (case field v key of None \<Rightarrow> JArr [] | Some x \<Rightarrow> x)"

definition aggregate_state :: "kenv \<Rightarrow> clock \<Rightarrow> kernel \<Rightarrow> json \<times> kernel" where
  "aggregate_state env clk k0 =
     (case safe_call_json env clk ''sys.info'' [] k0 of (info, k1) \<Rightarrow>
      case safe_call_json env clk ''sys.list'' [] k1 of (caps, k2) \<Rightarrow>
      case safe_call_json env clk ''proc.list'' [] k2 of (procs, k3) \<Rightarrow>
      case safe_call_json env clk ''svc.list'' [] k3 of (svcs, k4) \<Rightarrow>
      case safe_call_json env clk ''cron.list'' [] k4 of (jobs, k5) \<Rightarrow>
      case safe_call_json env clk ''net.list'' [] k5 of (srvs, k6) \<Rightarrow>
      case safe_call_json env clk ''memory.list'' [] k6 of (mem, k7) \<Rightarrow>
      case safe_call_json env clk ''sys.audit'' [(''limit'', JNum 30)] k7 of (audit, k8) \<Rightarrow>
        (JObj [(''info'', info), (''capabilities'', picked ''capabilities'' caps), (''processes'', picked ''processes'' procs),
               (''services'', picked ''services'' svcs), (''cron'', picked ''jobs'' jobs), (''servers'', picked ''servers'' srvs),
               (''memory'', picked ''keys'' mem), (''audit'', picked ''entries'' audit)], k8))"

text \<open>A call without parameters that only reads: its answer, and what it leaves of the kernel.\<close>

lemma quiet_call:
  assumes "c \<in> set (kernel_table env (kernel_infos env))" "cap_risk c = Read" "cap_params c = no_params"
    "snd (cap_handler c [] k) = k"
  shows "fst (safe_call_json env clk (cap_name c) [] k) =
      (case fst (cap_handler c [] k) of
         Inl e \<Rightarrow> JObj [(''error'', JStr (''EFAULT: '' @ e))] | Inr v \<Rightarrow> v)"
    and "\<exists>fs audit. snd (safe_call_json env clk (cap_name c) [] k) = k\<lparr>g_audit := audit, k_fs := fs\<rparr>"
proof -
  obtain r where h: "cap_handler c [] k = (r, k)" using assms(4) by (metis prod.collapse)
  have "fst (safe_call_json env clk (cap_name c) [] k) =
      (case r of Inl e \<Rightarrow> JObj [(''error'', JStr (''EFAULT: '' @ e))] | Inr v \<Rightarrow> v) \<and>
    (\<exists>fs audit. snd (safe_call_json env clk (cap_name c) [] k) = k\<lparr>g_audit := audit, k_fs := fs\<rparr>)"
    by (cases r)
      (auto simp: safe_call_json_def kernel_call_def dispatch_def admit_def table_lookup [OF assms(1)] assms(2,3) h decide_def
        validate_def no_params_def params_of_def Let_def or_empty_def settle_def audit_append_def flush_audit_def)
  then show "fst (safe_call_json env clk (cap_name c) [] k) =
      (case fst (cap_handler c [] k) of
         Inl e \<Rightarrow> JObj [(''error'', JStr (''EFAULT: '' @ e))] | Inr v \<Rightarrow> v)"
    "\<exists>fs audit. snd (safe_call_json env clk (cap_name c) [] k) = k\<lparr>g_audit := audit, k_fs := fs\<rparr>"
    using h by simp_all
qed

text \<open>The texts of a table, line by line, below its head.\<close>

primrec dom_text :: "dom \<Rightarrow> string" where
  "dom_text (TextNode s) = s"
| "dom_text (El tag cls ds) = concat (map dom_text ds)"

definition dom_children :: "dom \<Rightarrow> dom list" where
  "dom_children d = (case d of El tag cls ds \<Rightarrow> ds | TextNode s \<Rightarrow> [])"

definition table_texts :: "dom list \<Rightarrow> string list list" where
  "table_texts ds = (case ds of [d] \<Rightarrow> map (\<lambda>tr. map dom_text (dom_children tr)) (tl (dom_children d)) | _ \<Rightarrow> [])"

definition cell_text :: "table_cell \<Rightarrow> string" where
  "cell_text c = (case c of ValueCell v \<Rightarrow> text_arg v | NodeCell d \<Rightarrow> dom_text d)"

lemma dom_text_simps [simp]: "concat (map dom_text (text_nodes s)) = s" "dom_text (el tag cls s) = s"
  by (simp_all add: text_nodes_def el_def)

lemma cell_dom_text [simp]: "dom_text (cell_dom c) = cell_text c"
  by (cases c) (simp_all add: cell_text_def)

lemma renderTable_shows:
  assumes "JNull \<notin> set rs" "body \<noteq> badge"
  shows "snd (renderTable body badge (JArr rs) cols mapper s)"
    and "table_texts (co_dom (fst (renderTable body badge (JArr rs) cols mapper s)) body) = map (map cell_text \<circ> mapper) rs"
    and "i \<noteq> body \<Longrightarrow> i \<noteq> badge \<Longrightarrow>
      co_dom (fst (renderTable body badge (JArr rs) cols mapper s)) i = co_dom s i"
  using assms
  by (auto simp: renderTable_def as_list_def Let_def set_children_def table_texts_def table_dom_def dom_children_def el_def
      text_nodes_def)

lemma renderAudit_elsewhere: "i \<noteq> ''b-audit'' \<Longrightarrow> co_dom (fst (renderAudit es s)) i = co_dom s i"
  by (simp add: renderAudit_def set_children_def split: option.split prod.split)

text \<open>What \<open>run_parts\<close> does when the first part succeeds.\<close>

lemma run_parts_Cons: "snd (f s) \<Longrightarrow> run_parts (f # fs) s = run_parts fs (fst (f s))"
  by (cases "f s") simp

lemma renderState_shows:
  fixes s :: console
  assumes "as_list (prop_or_null ''memory'' st) \<noteq> None"
    and "prop_or_null ''capabilities'' st = JArr cs" "list_all (\<lambda>c. c \<noteq> JNull \<and> printed ''risk'' c \<notin> set inherited_keys) cs"
    and "prop_or_null ''processes'' st = JArr ps" "JNull \<notin> set ps"
    and "prop_or_null ''services'' st = JArr vs" "JNull \<notin> set vs"
    and "prop_or_null ''cron'' st = JArr js" "JNull \<notin> set js"
    and "prop_or_null ''servers'' st = JArr ns" "JNull \<notin> set ns"
  defines "s' \<equiv> fst (renderState st s)"
  shows "table_texts (co_dom s' ''b-proc'') = map (map cell_text \<circ> process_cells) ps"
    and "table_texts (co_dom s' ''b-svc'') = map (map cell_text \<circ> service_cells) vs"
    and "table_texts (co_dom s' ''b-cron'') = map (map cell_text \<circ> cron_cells) js"
    and "table_texts (co_dom s' ''b-net'') = map (map cell_text \<circ> server_cells) ns"
proof -
  have "snd (render_info i (prop_or_null ''memory'' st) x)" for i x
    using assms(1) by (auto simp: render_info_def Let_def)
  moreover have "snd (render_caps (JArr cs) x)" for x
    using assms(3) by (auto simp: render_caps_def as_list_def Let_def list_all_iff list_ex_iff)
  ultimately have parts: "snd (render_info i (prop_or_null ''memory'' st) x)" "snd (render_caps (JArr cs) x)" for i x
    by blast+
  define s1 where "s1 = fst (render_caps (JArr cs) (fst (render_info (or_object (prop_or_null ''info'' st)) (prop_or_null ''memory'' st) s)))"
  define s2 where "s2 = fst (renderTable ''b-proc'' ''n-proc'' (JArr ps) [''id'', ''status'', ''pid'', ''cmd''] process_cells s1)"
  define s3 where "s3 = fst (renderTable ''b-svc'' ''n-svc'' (JArr vs) [''name'', ''status'', ''restarts'', ''cmd''] service_cells s2)"
  define s4 where "s4 = fst (renderTable ''b-cron'' ''n-cron'' (JArr js) [''name'', ''kind'', ''schedule'', ''runs''] cron_cells s3)"
  define s5 where "s5 = fst (renderTable ''b-net'' ''n-net'' (JArr ns) [''name'', ''port'', ''status'', ''reqs''] server_cells s4)"
  have "fst (renderState st s) = fst (renderAudit (prop_or_null ''audit'' st) s5)"
    unfolding renderState_def assms(2,4,6,8,10)
    by (simp only: run_parts_Cons parts renderTable_shows(1) assms(5,7,9,11) list.inject char.inject simp_thms
        s1_def [symmetric] s2_def [symmetric] s3_def [symmetric] s4_def [symmetric] s5_def [symmetric])
      (simp add: run_parts_Cons renderTable_shows(1) assms(5,7,9,11) flip: s2_def s3_def s4_def s5_def split: prod.split)
  then show "table_texts (co_dom s' ''b-proc'') = map (map cell_text \<circ> process_cells) ps"
    "table_texts (co_dom s' ''b-svc'') = map (map cell_text \<circ> service_cells) vs"
    "table_texts (co_dom s' ''b-cron'') = map (map cell_text \<circ> cron_cells) js"
    "table_texts (co_dom s' ''b-net'') = map (map cell_text \<circ> server_cells) ns"
    by (simp_all add: s'_def renderAudit_elsewhere s5_def s4_def s3_def s2_def renderTable_shows assms(5,7,9,11))
qed

lemma table_reads:
  "fst (safe_call_json env clk ''sys.list'' [] k) = JObj [(''capabilities'', JArr (map info_json (kernel_infos env)))]"
  "fst (safe_call_json env clk ''proc.list'' [] k) = JObj [(''processes'', JArr (map proc_json (pm_list (k_procs k))))]"
  "fst (safe_call_json env clk ''svc.list'' [] k) = JObj [(''services'', JArr (map service_json (sv_list (k_services k))))]"
  "fst (safe_call_json env clk ''cron.list'' [] k) = JObj [(''jobs'', JArr (map job_json (sc_list (k_scheduler k))))]"
  "fst (safe_call_json env clk ''net.list'' [] k) = JObj [(''servers'', JArr (map server_json (net_list (k_net k))))]"
  using quiet_call(1) [of "sysCaps env (kernel_infos env) ! 0" env k clk] quiet_call(1) [of "procCaps env ! 1" env k clk]
    quiet_call(1) [of "svcCaps env ! 1" env k clk] quiet_call(1) [of "cronCaps env ! 1" env k clk]
    quiet_call(1) [of "netCaps env ! 1" env k clk]
  by (simp_all add: kernel_table_def sysCaps_def procCaps_def svcCaps_def cronCaps_def netCaps_def cap_def reads_def obj1_def)

definition tables_of :: "kernel \<Rightarrow> procman \<times> supervisor \<times> scheduler \<times> net" where
  "tables_of k = (k_procs k, k_services k, k_scheduler k, k_net k)"

lemma quiet_tables:
  assumes "c \<in> set (kernel_table env (kernel_infos env))" "cap_risk c = Read" "cap_params c = no_params"
    "snd (cap_handler c [] k) = k"
  shows "tables_of (snd (safe_call_json env clk (cap_name c) [] k)) = tables_of k"
  using quiet_call(2) [OF assms, of clk] by (auto simp: tables_of_def)

lemma table_reads_keep:
  "tables_of (snd (safe_call_json env clk ''sys.info'' [] k)) = tables_of k"
  "tables_of (snd (safe_call_json env clk ''sys.list'' [] k)) = tables_of k"
  "tables_of (snd (safe_call_json env clk ''proc.list'' [] k)) = tables_of k"
  "tables_of (snd (safe_call_json env clk ''svc.list'' [] k)) = tables_of k"
  "tables_of (snd (safe_call_json env clk ''cron.list'' [] k)) = tables_of k"
  using quiet_tables [of "sysCaps env (kernel_infos env) ! 1" env k clk] quiet_tables [of "sysCaps env (kernel_infos env) ! 0" env k clk]
    quiet_tables [of "procCaps env ! 1" env k clk] quiet_tables [of "svcCaps env ! 1" env k clk]
    quiet_tables [of "cronCaps env ! 1" env k clk]
  by (simp_all add: kernel_table_def sysCaps_def procCaps_def svcCaps_def cronCaps_def cap_def reads_def)

lemma memory_keys_list: "as_list (picked ''keys'' (fst (safe_call_json env clk ''memory.list'' [] k))) \<noteq> None"
proof -
  let ?h = "on_fs (memory_list env)"
  have "snd (?h [] k) = k" using pure_fs_reads(5) [of env] by (simp add: pure_handler_def)
  moreover have "fst (?h [] k) = throw (no_object env (k_root k)) \<or> (\<exists>ks. fst (?h [] k) = return (JObj [(''keys'', JArr ks)]))"
    by (auto simp: on_fs_def memory_list_def split: option.split)
  ultimately show ?thesis
    using quiet_call(1) [of "memoryCaps env ! 2" env k clk]
    by (auto simp: kernel_table_def memoryCaps_def cap_def picked_def field_def as_list_def)
qed

lemma shown_rows:
  "map cell_text (process_cells (proc_json p)) =
     [pr_id p, proc_status_str (pr_status p), int_str (pr_pid p), pr_cmd p]"
  "map cell_text (service_cells (service_json v)) =
     [sr_name v, service_status_str (sr_status v), int_str (sr_restarts v), sr_cmd v]"
  "map cell_text (cron_cells (job_json j)) =
     [jr_name j, job_kind_str (jr_kind j), jr_schedule j, int_str (jr_runs j)]"
  "map cell_text (server_cells (server_json n)) =
     [ns_name n, int_str (ns_port n),
      if ns_status n = Listening then ''running'' else server_status_str (ns_status n), int_str (int (ns_requests n))]"
  by (auto simp: process_cells_def service_cells_def cron_cells_def server_cells_def cell_text_def statusSpan_def
      proc_json_def service_json_def job_json_def server_json_def field_def text_arg_def text_of_def
      elim: server_status_str.elims split: if_splits)

lemma aggregate_tables:
  fixes env :: kenv and clk :: clock and k :: kernel
  defines "st \<equiv> fst (aggregate_state env clk k)"
  shows "prop_or_null ''processes'' st = JArr (map proc_json (pm_list (k_procs k)))"
    and "prop_or_null ''services'' st = JArr (map service_json (sv_list (k_services k)))"
    and "prop_or_null ''cron'' st = JArr (map job_json (sc_list (k_scheduler k)))"
    and "prop_or_null ''servers'' st = JArr (map server_json (net_list (k_net k)))"
    and "prop_or_null ''capabilities'' st = JArr (map info_json (kernel_infos env))"
    and "as_list (prop_or_null ''memory'' st) \<noteq> None" and "st \<noteq> JNull"
proof -
  define k1 where "k1 = snd (safe_call_json env clk ''sys.info'' [] k)"
  define k2 where "k2 = snd (safe_call_json env clk ''sys.list'' [] k1)"
  define k3 where "k3 = snd (safe_call_json env clk ''proc.list'' [] k2)"
  define k4 where "k4 = snd (safe_call_json env clk ''svc.list'' [] k3)"
  define k5 where "k5 = snd (safe_call_json env clk ''cron.list'' [] k4)"
  define k6 where "k6 = snd (safe_call_json env clk ''net.list'' [] k5)"
  have "tables_of k1 = tables_of k" "tables_of k2 = tables_of k" "tables_of k3 = tables_of k"
    "tables_of k4 = tables_of k" "tables_of k5 = tables_of k"
    by (simp_all add: k1_def k2_def k3_def k4_def k5_def table_reads_keep)
  then have same: "k_procs k2 = k_procs k" "k_services k3 = k_services k" "k_scheduler k4 = k_scheduler k" "k_net k5 = k_net k"
    by (simp_all add: tables_of_def)
  have st: "\<exists>info audit. st = JObj
      [(''info'', info), (''capabilities'', picked ''capabilities'' (fst (safe_call_json env clk ''sys.list'' [] k1))),
       (''processes'', picked ''processes'' (fst (safe_call_json env clk ''proc.list'' [] k2))),
       (''services'', picked ''services'' (fst (safe_call_json env clk ''svc.list'' [] k3))),
       (''cron'', picked ''jobs'' (fst (safe_call_json env clk ''cron.list'' [] k4))),
       (''servers'', picked ''servers'' (fst (safe_call_json env clk ''net.list'' [] k5))),
       (''memory'', picked ''keys'' (fst (safe_call_json env clk ''memory.list'' [] k6))), (''audit'', audit)]"
    by (auto simp: st_def aggregate_state_def split_beta k1_def k2_def k3_def k4_def k5_def k6_def)
  then show "prop_or_null ''processes'' st = JArr (map proc_json (pm_list (k_procs k)))"
    "prop_or_null ''services'' st = JArr (map service_json (sv_list (k_services k)))"
    "prop_or_null ''cron'' st = JArr (map job_json (sc_list (k_scheduler k)))"
    "prop_or_null ''servers'' st = JArr (map server_json (net_list (k_net k)))"
    "prop_or_null ''capabilities'' st = JArr (map info_json (kernel_infos env))"
    "as_list (prop_or_null ''memory'' st) \<noteq> None" "st \<noteq> JNull"
    using memory_keys_list [of env clk k6]
    by (auto simp: prop_or_null_def field_or_null_def field_def table_reads picked_def same)
qed

lemma known_risks: "list_all (\<lambda>c. c \<noteq> JNull \<and> printed ''risk'' c \<notin> set inherited_keys) (map info_json infos)"
proof -
  have "risk_str r \<notin> set inherited_keys" for r by (cases r) (simp_all add: inherited_keys_def)
  then show ?thesis by (simp add: list_all_iff info_json_def printed_def field_def text_of_def)
qed

text \<open>The page after a poll of the kernel.\<close>

definition refreshed :: "kenv \<Rightarrow> clock \<Rightarrow> kernel \<Rightarrow> console \<Rightarrow> console" where
  "refreshed env clk k s = polled (return (fst (aggregate_state env clk k))) s"

lemma refreshed_dom:
  "co_dom (refreshed env clk k s) = co_dom (fst (renderState (fst (aggregate_state env clk k)) s))"
  using aggregate_tables(7) [of env clk k] by (simp add: refreshed_def polled_def gate_down_def split: prod.split)

text \<open>
  C32. The dashboard shows the machine: after a poll the four tables hold, in order and in full, the
  processes, services, jobs and servers that the kernel has at that moment, whatever the page showed
  before and whether or not the audit file and the memory can be read.
\<close>

theorem dashboard_shows_kernel:
  "table_texts (co_dom (refreshed env clk k s) ''b-proc'') =
      map (\<lambda>p. [pr_id p, proc_status_str (pr_status p), int_str (pr_pid p), pr_cmd p]) (pm_list (k_procs k)) \<and>
   table_texts (co_dom (refreshed env clk k s) ''b-svc'') =
      map (\<lambda>v. [sr_name v, service_status_str (sr_status v), int_str (sr_restarts v), sr_cmd v]) (sv_list (k_services k)) \<and>
   table_texts (co_dom (refreshed env clk k s) ''b-cron'') =
      map (\<lambda>j. [jr_name j, job_kind_str (jr_kind j), jr_schedule j, int_str (jr_runs j)]) (sc_list (k_scheduler k)) \<and>
   table_texts (co_dom (refreshed env clk k s) ''b-net'') =
      map (\<lambda>n. [ns_name n, int_str (ns_port n),
        if ns_status n = Listening then ''running'' else server_status_str (ns_status n), int_str (int (ns_requests n))])
        (net_list (k_net k))"
proof -
  note tables = aggregate_tables [of env clk k]
  have no_null: "JNull \<notin> set (map proc_json ps)" "JNull \<notin> set (map service_json vs)" "JNull \<notin> set (map job_json js)"
    "JNull \<notin> set (map server_json ns)" for ps vs js ns
    by (auto simp: proc_json_def service_json_def job_json_def server_json_def)
  note shows_them = renderState_shows [OF tables(6,5) known_risks tables(1) no_null(1) tables(2) no_null(2)
      tables(3) no_null(3) tables(4) no_null(4)]
  show ?thesis unfolding refreshed_dom shows_them by (simp add: comp_def shown_rows)
qed

text \<open>
  The bar is HTML, and the \<open>esc\<close> of this script escapes nothing: only that the policy is one of
  three words keeps it harmless.
\<close>

lemma bar_is_markup:
  "''img src=x'' \<in> set (html_tags (bar_html (JObj [(''policy'', JStr ''<img src=x>'')]) ''9:00''))"
  by code_simp

end
