(* ===== verification/VoidClient.thy ===== *)
theory VoidClient
  imports VoidFiles VoidServer
begin

text \<open>
  mind/void_mind/client.py: the Python client of the syscall gate, from the text of \<open>json.dumps\<close>
  to the value or the exception of a call, and what it gets from the gate of the kernel.

  A Python value is the JSON value it prints: \<open>JNum\<close> is an \<open>int\<close>, \<open>JDec\<close> a \<open>float\<close>, a \<open>dict\<close> the
  list of its items. \<open>json.loads\<close> is taken to read what \<open>JSON.parse\<close> reads; the two differ in the
  order of integer keys, in integers of 2 ^ 53 and beyond and in literals the gate never writes.
\<close>

section \<open>json.dumps\<close>

text \<open>\<open>py_encode_basestring_ascii\<close>: everything outside the space and the tilde is escaped.\<close>

definition py_escape :: "char \<Rightarrow> string" where
  "py_escape c =
     (let n = (of_char c :: nat) in
      if n = 127 \<or> 128 \<le> n
        then [CHR 0x5C, CHR ''u'', CHR ''0'', CHR ''0'', hex_digit (n div 16), hex_digit (n mod 16)]
      else escape_char c)"

definition py_quote :: "string \<Rightarrow> string" where
  "py_quote s = [CHR 0x22] @ concat (map py_escape s) @ [CHR 0x22]"

text \<open>
  \<open>float.__repr__\<close>: an exponent of two digits or more for a point left of the fourth zero or right
  of the sixteenth digit, and \<open>.0\<close> for an integral value without one.
\<close>

definition two_digits :: "nat \<Rightarrow> string" where
  "two_digits m = (if m < 10 then ''0'' else []) @ nat_str m"

definition py_float :: "bool \<Rightarrow> nat \<Rightarrow> int \<Rightarrow> string" where
  "py_float neg s n =
     (let ds = nat_str s; k = int (length ds);
          body =
            (if n \<le> - 4 \<or> 16 < n then
               take 1 ds @ (if k = 1 then [] else ''.'' @ drop 1 ds) @ ''e'' @
                 (if n \<le> 0 then ''-'' else ''+'') @ two_digits (nat \<bar>n - 1\<bar>)
             else if n \<le> 0 then ''0.'' @ replicate (nat (- n)) CHR ''0'' @ ds
             else if n < k then take (nat n) ds @ ''.'' @ drop (nat n) ds
             else ds @ replicate (nat (n - k)) CHR ''0'' @ ''.0'')
      in (if neg then ''-'' else []) @ body)"

fun py_dumps :: "json \<Rightarrow> string" where
  "py_dumps JNull = ''null''"
| "py_dumps (JBool b) = (if b then ''true'' else ''false'')"
| "py_dumps (JNum i) = int_str i"
| "py_dumps (JDec neg s n) = py_float neg s n"
| "py_dumps (JStr s) = py_quote s"
| "py_dumps (JArr xs) = ''['' @ join_with '', '' (map py_dumps xs) @ '']''"
| "py_dumps (JObj ps) =
     CHR 0x7B # join_with '', '' (map (\<lambda>(k, v). py_quote k @ '': '' @ py_dumps v) ps) @ [CHR 0x7D]"

section \<open>Python values\<close>

fun py_truthy :: "json \<Rightarrow> bool" where
  "py_truthy JNull = False"
| "py_truthy (JBool b) = b"
| "py_truthy (JNum i) = (i \<noteq> 0)"
| "py_truthy (JDec neg s n) = (s \<noteq> 0)"
| "py_truthy (JStr s) = (s \<noteq> [])"
| "py_truthy (JArr xs) = (xs \<noteq> [])"
| "py_truthy (JObj ps) = (ps \<noteq> [])"

text \<open>An exception is the client's own, with code and message, or of another class.\<close>

datatype py_exc = VoidError json json | PyError string

type_synonym 'a py = "py_exc + 'a"

text \<open>\<open>v["k"]\<close>.\<close>

definition py_item :: "string \<Rightarrow> json \<Rightarrow> json py" where
  "py_item k v =
     (case v of
        JObj ps \<Rightarrow> (case map_of ps k of Some x \<Rightarrow> Inr x | None \<Rightarrow> Inl (PyError ''KeyError''))
      | _ \<Rightarrow> Inl (PyError ''TypeError''))"

definition py_get_or :: "jobject \<Rightarrow> string \<Rightarrow> json \<Rightarrow> json" where
  "py_get_or ps k d = (case map_of ps k of Some x \<Rightarrow> x | None \<Rightarrow> d)"

section \<open>A call\<close>

definition client_request :: "string \<Rightarrow> jobject \<Rightarrow> json" where
  "client_request capability params =
     JObj [(''id'', JNum 1), (''method'', JStr capability), (''params'', JObj params)]"

text \<open>
  \<open>recv\<close> until a line feed has come or the connection is closed, which is the empty chunk or the
  end of the list; the line is what stands before the first line feed.
\<close>

fun recv_line :: "string list \<Rightarrow> string \<Rightarrow> string" where
  "recv_line chunks buf =
     (if lf \<in> set buf then takeWhile (\<lambda>c. c \<noteq> lf) buf
      else (case chunks of
              [] \<Rightarrow> buf
            | data # rest \<Rightarrow> if data = [] then buf else recv_line rest (buf @ data)))"

declare recv_line.simps [simp del]

definition client_answer :: "string \<Rightarrow> json py" where
  "client_answer line =
     (case json_parse line of
        None \<Rightarrow> Inl (PyError ''JSONDecodeError'')
      | Some (JObj resp) \<Rightarrow>
          if \<not> py_truthy (py_get_or resp ''ok'' JNull) then
            (case py_get_or resp ''error'' (JObj []) of
               JObj err \<Rightarrow> Inl (VoidError (py_get_or err ''code'' (JStr ''EUNKNOWN''))
                                   (py_get_or err ''message'' (JStr ''unknown error'')))
             | _ \<Rightarrow> Inl (PyError ''AttributeError''))
          else py_item ''result'' (JObj resp)
      | Some _ \<Rightarrow> Inl (PyError ''AttributeError''))"

text \<open>
  The socket: what comes back for the bytes sent, chunk by chunk, or None when it cannot be reached.
\<close>

definition void_syscall ::
  "(string \<Rightarrow> 's \<Rightarrow> string list option \<times> 's) \<Rightarrow> string \<Rightarrow> jobject \<Rightarrow> 's \<Rightarrow> json py \<times> 's" where
  "void_syscall transport capability params s =
     (case transport (py_dumps (client_request capability params) @ [lf]) s of
        (None, s') \<Rightarrow> (Inl (PyError ''OSError''), s')
      | (Some chunks, s') \<Rightarrow> (client_answer (recv_line chunks []), s'))"

section \<open>The wrappers\<close>

type_synonym 's caller = "string \<Rightarrow> jobject \<Rightarrow> 's \<Rightarrow> json py \<times> 's"

definition py_picked :: "string \<Rightarrow> json py \<times> 's \<Rightarrow> json py \<times> 's" where
  "py_picked k r = (case fst r of Inl e \<Rightarrow> Inl e | Inr v \<Rightarrow> py_item k v, snd r)"

definition void_capabilities :: "'s caller \<Rightarrow> 's \<Rightarrow> json py \<times> 's" where
  "void_capabilities call s = py_picked ''capabilities'' (call ''sys.list'' [] s)"

definition void_info :: "'s caller \<Rightarrow> 's \<Rightarrow> json py \<times> 's" where
  "void_info call s = call ''sys.info'' [] s"

definition void_read :: "'s caller \<Rightarrow> string \<Rightarrow> 's \<Rightarrow> json py \<times> 's" where
  "void_read call path s = py_picked ''content'' (call ''fs.read'' [(''path'', JStr path)] s)"

definition void_write :: "'s caller \<Rightarrow> string \<Rightarrow> string \<Rightarrow> 's \<Rightarrow> json py \<times> 's" where
  "void_write call path content s = call ''fs.write'' [(''path'', JStr path), (''content'', JStr content)] s"

definition void_ls :: "'s caller \<Rightarrow> string \<Rightarrow> 's \<Rightarrow> json py \<times> 's" where
  "void_ls call path s = py_picked ''entries'' (call ''fs.list'' [(''path'', JStr path)] s)"

definition void_remember :: "'s caller \<Rightarrow> string \<Rightarrow> json \<Rightarrow> 's \<Rightarrow> json py \<times> 's" where
  "void_remember call key v s = call ''memory.set'' [(''key'', JStr key), (''value'', v)] s"

definition void_recall :: "'s caller \<Rightarrow> string \<Rightarrow> 's \<Rightarrow> json py \<times> 's" where
  "void_recall call key s = py_picked ''value'' (call ''memory.get'' [(''key'', JStr key)] s)"

definition void_policy :: "'s caller \<Rightarrow> 's \<Rightarrow> json py \<times> 's" where
  "void_policy call s = call ''sys.policy'' [] s"

definition void_audit :: "'s caller \<Rightarrow> int \<Rightarrow> 's \<Rightarrow> json py \<times> 's" where
  "void_audit call limit s = py_picked ''entries'' (call ''sys.audit'' [(''limit'', JNum limit)] s)"

definition void_grant :: "'s caller \<Rightarrow> string \<Rightarrow> int \<Rightarrow> string \<Rightarrow> 's \<Rightarrow> json py \<times> 's" where
  "void_grant call target uses token s =
     call ''sys.grant'' [(''token'', JStr token), (''target'', JStr target), (''uses'', JNum uses)] s"

definition void_revoke :: "'s caller \<Rightarrow> string option \<Rightarrow> string \<Rightarrow> 's \<Rightarrow> json py \<times> 's" where
  "void_revoke call target token s =
     call ''sys.revoke'' ((''token'', JStr token) # (case target of None \<Rightarrow> [] | Some t \<Rightarrow> [(''target'', JStr t)])) s"

section \<open>The gate on the other side\<close>

text \<open>One connection of socket.ts: what the kernel writes for the chunks it reads.\<close>

definition gate_answers ::
  "(string \<Rightarrow> string) \<Rightarrow> kenv \<Rightarrow> clock \<Rightarrow> string list \<Rightarrow> kernel \<Rightarrow> string \<times> kernel" where
  "gate_answers em env clk chunks k =
     (case handle_lines em (kernel_registry env) (map (\<lambda>l. (clk, l)) (fst (receive chunks []))) k of
        (out, k') \<Rightarrow> (out, flush_audit env (drop (length (g_audit k)) (g_audit k')) k'))"

text \<open>The kernel as the client sees it: the request and the reply are cut somehow.\<close>

definition gate_socket ::
  "(string \<Rightarrow> string) \<Rightarrow> (string \<Rightarrow> string list) \<Rightarrow> kenv \<Rightarrow> clock \<Rightarrow> string \<Rightarrow> kernel \<Rightarrow> string list option \<times> kernel" where
  "gate_socket em pieces env clk request k =
     (case gate_answers em env clk (pieces request) k of (out, k') \<Rightarrow> (Some (pieces out), k'))"

definition py_result :: "dispatch_result \<Rightarrow> json py" where
  "py_result r =
     (case r of Inl e \<Rightarrow> Inl (VoidError (JStr (err_code e)) (JStr (err_message e))) | Inr v \<Rightarrow> Inr v)"

definition kernel_caller :: "kenv \<Rightarrow> clock \<Rightarrow> kernel caller" where
  "kernel_caller env clk capability params k =
     (case kernel_call env clk capability params k of (r, k') \<Rightarrow> (py_result r, k'))"

section \<open>What Python prints is what the gate reads\<close>

lemma lex_string_py: "lex_string (py_escape c @ r) = map_option (\<lambda>(s, r). (c # s, r)) (lex_string r)"
proof -
  let ?n = "of_char c :: nat"
  have "?n div 16 < 16" "?n mod 16 < 16" using nat_of_char_less_256 [of c] by (simp_all add: less_mult_imp_div_less)
  moreover have "char_of (16 * (?n div 16) + ?n mod 16) = c" by simp
  ultimately show ?thesis
    using lex_string_unicode [of "?n div 16" "?n mod 16" r] lex_string_char [of c r]
    by (auto simp: py_escape_def Let_def simp del: lex_string.simps)
qed

lemma lexa_py_string: "lexa (py_quote s @ r) = map_option ((#) (TStr s)) (lexa r)"
proof (rule lexa_token)
  have "lex_string (concat (map py_escape s) @ CHR 0x22 # r) = Some (s, r)"
    by (induction s) (simp_all add: lex_string_py)
  moreover have "punctuation CHR 0x22 = None" by code_simp
  ultimately show "next_token (py_quote s @ r) = Some (TStr s, r)"
    by (simp add: next_token_def py_quote_def)
  show "\<not> is_space (hd (py_quote s @ r))" by (simp add: py_quote_def is_space_def)
qed

lemma two_digits_simps [simp]: "list_all is_digit (two_digits m)" "two_digits m \<noteq> []" "digits_value (two_digits m) = m"
  using digits_value_append [of "''0''" "nat_str m"] digits_value_zeros [of 1]
  by (simp_all add: two_digits_def nat_str_digits digit_zero(1))

lemma lex_exponent_two:
  assumes "delim r"
  shows "lex_exponent (''e'' @ (if neg then ''-'' else ''+'') @ two_digits m @ r) = Some (if neg then - int m else int m, r)"
proof -
  have c: "(of_char CHR ''e'' :: nat) = 101" "(of_char CHR ''-'' :: nat) = 45"
    "(of_char CHR ''+'' :: nat) = 43" by code_simp+
  have "span_digits (two_digits m @ r) = (two_digits m, r)"
    by (rule span_digits_here [OF two_digits_simps(1) delim_no_digit [OF assms]])
  moreover obtain d ds where "two_digits m = d # ds" using two_digits_simps(2) [of m] by (cases "two_digits m") auto
  moreover have "digits_value (d # ds) = m" using calculation(2) two_digits_simps(3) [of m] by simp
  ultimately show ?thesis by (cases neg) (simp_all add: lex_exponent_def c)
qed

lemma lex_py_float:
  assumes dec: "true_decimal s n" and r: "delim r"
  shows "lex_number (py_float neg s n @ r) = Some (JDec neg s n, r)"
proof -
  let ?ds = "nat_str s" and ?k = "int (length (nat_str s))"
  have s0: "s \<noteq> 0" using dec by (cases s) (auto simp: true_decimal_def)
  note dig = nat_str_digits [of s] and tk = list_all_takes [OF nat_str_digits [of s]]
  have head: "hd ?ds \<noteq> CHR ''0''" by (rule nat_str_head [OF s0])
  have len: "0 < ?k" by simp
  note e = delim_ends [OF r] and nd = delim_no_digit [OF r]
  consider (expo) "n \<le> - 4 \<or> 16 < n" | (small) "- 4 < n" "n \<le> 0" | (mid) "0 < n" "n \<le> 16" "n < ?k"
    | (big) "0 < n" "n \<le> 16" "?k \<le> n" by linarith
  then show ?thesis
  proof cases
    case big
    let ?z = "replicate (nat (n - ?k)) CHR ''0''"
    have "py_float neg s n @ r = (if neg then ''-'' else []) @ (?ds @ ?z) @ (''.'' @ ''0'' @ r)"
      using big by (simp add: py_float_def Let_def)
    moreover have "lex_fraction (''.'' @ ''0'' @ r) = Some (''0'', r)"
      using nd digit_zero(1) by (intro lex_fraction_dot) auto
    moreover have "number_value neg (s * 10 ^ (nat (n - ?k) + 1)) (0 - 1) = JDec neg s n"
      using big by (intro number_value_decimal [OF dec]) auto
    moreover have "digits_value ((?ds @ ?z) @ ''0'') = s * 10 ^ (nat (n - ?k) + 1)"
      using digits_value_zeros [of 1] by (simp add: digits_value_append)
    ultimately show ?thesis
      using lex_number_parts [where ds = "?ds @ ?z" and t = "''.'' @ ''0'' @ r" and fs = "''0''" and u = r and e = 0 and r = r
          and neg = neg] dig head e(2) by simp
  next
    case mid
    then have n: "0 < nat n" "nat n < length ?ds" by auto
    let ?a = "take (nat n) ?ds" and ?f = "drop (nat n) ?ds"
    have "py_float neg s n @ r = (if neg then ''-'' else []) @ ?a @ (''.'' @ ?f @ r)"
      using mid by (simp add: py_float_def Let_def)
    moreover have "number_value neg (digits_value (?a @ ?f)) (0 - int (length ?f)) = JDec neg s n"
      using number_value_decimal [OF dec, of 0 "0 - int (length ?f)" neg] n by simp
    moreover have "lex_fraction (''.'' @ ?f @ r) = Some (?f, r)"
      using n tk nd by (intro lex_fraction_dot) auto
    moreover have "?a \<noteq> []" "hd ?a \<noteq> CHR ''0''" using n head by (auto simp: hd_take)
    ultimately show ?thesis
      using lex_number_parts [where ds = ?a and t = "''.'' @ ?f @ r" and fs = ?f and u = r and e = 0 and r = r
          and neg = neg] tk e(2) by simp
  next
    case small
    let ?f = "replicate (nat (- n)) CHR ''0'' @ ?ds"
    have "py_float neg s n @ r = (if neg then ''-'' else []) @ ''0'' @ (''.'' @ ?f @ r)"
      using small by (simp add: py_float_def Let_def)
    moreover have "list_all is_digit ?f" using dig by simp
    then have "lex_fraction (''.'' @ ?f @ r) = Some (?f, r)" using nd by (intro lex_fraction_dot) auto
    moreover have "digits_value (''0'' @ ?f) = s"
      using digits_value_append [of "''0''" ?f] digits_value_append [of "replicate (nat (- n)) CHR ''0''" ?ds]
        digits_value_zeros [of 1] by simp
    moreover have "number_value neg s (0 - int (length ?f)) = JDec neg s n"
      using number_value_decimal [OF dec, of 0 "0 - int (length ?f)" neg] small by simp
    ultimately show ?thesis
      using lex_number_parts [where ds = "''0''" and t = "''.'' @ ?f @ r" and fs = ?f and u = r and e = 0
          and r = r and neg = neg] digit_zero(1) e(2) by simp
  next
    case expo
    let ?a = "take 1 ?ds" and ?f = "drop 1 ?ds"
    let ?e = "''e'' @ (if n \<le> 0 then ''-'' else ''+'') @ two_digits (nat \<bar>n - 1\<bar>) @ r"
    obtain c cs where ds: "?ds = c # cs" by (cases ?ds) auto
    have ex: "lex_exponent ?e = Some (n - 1, r)"
      using lex_exponent_two [OF r, of "n \<le> 0" "nat \<bar>n - 1\<bar>"] by auto
    have dv: "digits_value (c # cs) = s" using digits_value_nat_str [of s] ds by simp
    have k1: "?k = 1 \<longleftrightarrow> ?f = []" using ds by auto
    have "py_float neg s n @ r = (if neg then ''-'' else []) @ ?a @ (if ?f = [] then ?e else ''.'' @ ?f @ ?e)"
      using expo k1 ds by (auto simp: py_float_def Let_def)
    moreover have "lex_fraction (if ?f = [] then ?e else ''.'' @ ?f @ ?e) = Some (?f, ?e)"
      using lex_fraction_dot [of ?f ?e] tk exponent_no_fraction by (cases "?f = []") simp_all
    moreover have "number_value neg (digits_value (?a @ ?f)) (n - 1 - int (length ?f)) = JDec neg s n"
      using number_value_decimal [OF dec, of 0 "n - 1 - int (length ?f)" neg] ds dv
      by simp
    moreover have "?a \<noteq> []" "list_all is_digit ?a" using ds dig by auto
    ultimately show ?thesis
      using lex_number_parts [where ds = ?a and t = "if ?f = [] then ?e else ''.'' @ ?f @ ?e" and fs = ?f
          and u = ?e and e = "n - 1" and r = r and neg = neg] ex ds by simp
  qed
qed

lemma lexa_py_float:
  "true_decimal s n \<Longrightarrow> delim r \<Longrightarrow> lexa (py_float neg s n @ r) = map_option ((#) (TNum (JDec neg s n))) (lexa r)"
proof (intro next_token_number lex_py_float)
  obtain c cs where "nat_str s = c # cs" "is_digit c" using nat_str_digits [of s] by (cases "nat_str s") auto
  then have "py_float neg s n \<noteq> [] \<and> (hd (py_float neg s n) = CHR ''-'' \<or> is_digit (hd (py_float neg s n)))"
    by (auto simp: py_float_def Let_def take_Cons' digit_zero(1))
  then show "py_float neg s n @ r \<noteq> []" "hd (py_float neg s n @ r) = CHR ''-'' \<or> is_digit (hd (py_float neg s n @ r))"
    by simp_all
qed

lemma lexes_py_member: "lexes s ts \<Longrightarrow> lexes (py_quote k @ '': '' @ s) (TStr k # TColon # ts)"
  by (auto simp: lexes_def lexa_py_string)

lemma py_comma: "delim ('', '' @ r)" "lexa ('', '' @ r) = map_option ((#) TComma) (lexa r)"
  by simp_all

lemma lexes_py: "json_ok v \<Longrightarrow> lexes (py_dumps v) (tokens_of v)"
proof (induction v rule: py_dumps.induct)
  case (6 xs)
  then have "lexes (join_with '', '' (map py_dumps xs)) (comma_tokens (map tokens_of xs))"
    by (intro lexes_join py_comma) (auto simp: list_all_iff)
  then show ?case by (simp add: lexes_brackets)
next
  case (7 ps)
  then have "lexes (join_with '', '' (map (\<lambda>(k, v). py_quote k @ '': '' @ py_dumps v) ps))
      (comma_tokens (map (\<lambda>(k, v). TStr k # TColon # tokens_of v) ps))"
    by (intro lexes_join py_comma) (auto simp: list_all_iff intro!: lexes_py_member [simplified])
  then show ?case by (simp add: lexes_brackets)
next
  case (4 neg s n)
  have one: "map_option ((#) t) x = map_option ((@) [t]) x" for t :: token and x by (cases x) simp_all
  from 4 show ?case by (auto simp: lexes_def lexa_py_float one)
next
  case (5 s)
  have one: "map_option ((#) t) x = map_option ((@) [t]) x" for t :: token and x by (cases x) simp_all
  show ?case by (auto simp: lexes_def lexa_py_string one)
qed (use lexa_atom in \<open>fastforce simp del: json_ok.simps\<close>)+

lemma py_dumps_parse: "json_ok v \<Longrightarrow> json_parse (py_dumps v) = Some v"
  by (rule json_parse_of_lexes [OF lexes_py])

section \<open>The call is the dispatch\<close>

lemma printable_py [simp]: "printable (py_quote s)" "printable (py_float neg m n)"
proof -
  have "printable (py_escape c)" for c
    using nat_of_char_less_256 [of c] printable_escape [of c]
    by (auto simp: py_escape_def Let_def of_char_hex less_mult_imp_div_less)
  then show "printable (py_quote s)" by (simp add: py_quote_def list_all_iff)
  show "printable (py_float neg m n)"
    by (simp add: py_float_def Let_def two_digits_def printable_take printable_drop)
qed

lemma printable_dumps: "printable (py_dumps v)"
  by (induction v rule: py_dumps.induct) (auto simp: list_all_iff intro!: printable_join)

lemma recv_line_all: "lf \<in> set (buf @ concat chunks) \<Longrightarrow> [] \<notin> set chunks \<Longrightarrow> recv_line chunks buf = takeWhile (\<lambda>c. c \<noteq> lf) (buf @ concat chunks)"
proof (induction chunks arbitrary: buf)
  case (Cons c cs)
  show ?case
  proof (cases "lf \<in> set buf")
    case True
    then have "takeWhile (\<lambda>c. c \<noteq> lf) (buf @ concat (c # cs)) = takeWhile (\<lambda>c. c \<noteq> lf) buf"
      by (intro takeWhile_append1) auto
    with True show ?thesis by (simp add: recv_line.simps)
  next
    case False
    with Cons.IH [of "buf @ c"] Cons.prems show ?thesis by (auto simp: recv_line.simps [of "c # cs"])
  qed
qed (simp add: recv_line.simps)

lemma handle_lines_one: "handle_lines em reg [(clk, l)] s = (case handle_line em clk reg l s of (rep, s') \<Rightarrow> (wire_line rep, s'))"
  by (simp split: prod.splits)

text \<open>The reply line of the gate, read by the client.\<close>

lemma client_answer_reply:
  assumes "\<And>v. r = Inr v \<Longrightarrow> json_ok v"
  shows "client_answer (stringify (result_reply (JNum 1) r)) = py_result r"
proof -
  have "json_ok (result_reply (JNum 1) r)"
    using assms by (auto simp: result_reply_def error_reply_def json_ok_object key_before_def is_index_def is_digit_def
        simp del: json_ok.simps(4) split: sum.split)
  then have "json_parse (stringify (result_reply (JNum 1) r)) = Some (result_reply (JNum 1) r)" by (rule json_roundtrip)
  then show ?thesis
    by (cases r) (simp_all add: client_answer_def result_reply_def error_reply_def py_result_def py_get_or_def py_item_def)
qed

lemma gate_answers_request:
  assumes "json_ok (JObj params)" "capability \<noteq> []" "concat chunks = py_dumps (client_request capability params) @ [lf]"
  shows "gate_answers em env clk chunks k =
    (case kernel_call env clk capability params k of (r, k') \<Rightarrow> (wire_line (result_reply (JNum 1) r), k'))"
proof -
  let ?req = "client_request capability params"
  have "json_ok ?req"
    using assms(1) by (simp add: client_request_def json_ok_object key_before_def is_index_def is_digit_def del: json_ok.simps(4))
  then have parse: "json_parse (py_dumps ?req) = Some ?req" by (rule py_dumps_parse)
  have "lf \<notin> set (py_dumps ?req)" using printable_dumps [of ?req] by (auto simp: printable_def list_all_iff)
  then have "split_lf (concat chunks) = [py_dumps ?req, []]" by (simp add: assms(3) split_lf_append split_lf_no_lf)
  moreover have "\<not> blank (py_dumps ?req)" by (simp add: client_request_def blank_def)
  ultimately have "fst (receive chunks []) = [py_dumps ?req]" by (simp add: receive_split)
  moreover have "handle_line em clk (kernel_registry env) (py_dumps ?req) k =
      (case dispatch clk (kernel_registry env) capability params k of (r, k') \<Rightarrow> (result_reply (JNum 1) r, k'))"
    using assms(2) parse
    by (simp add: handle_line_def client_request_def field_or_null_def field_def request_params_def own_props_def dispatch_value_def)
  ultimately show ?thesis by (simp add: gate_answers_def handle_lines_one kernel_call_def split: prod.split)
qed

text \<open>
  C12. What the client makes of a call is what the bus makes of it: however the request and the reply
  are cut into chunks, the Python program gets the value the capability answered or the code and the
  message of its refusal, and the kernel is left as one dispatch leaves it.
\<close>

theorem client_call_is_dispatch:
  assumes "json_ok (JObj params)" "capability \<noteq> []"
    and "\<And>s. concat (pieces s) = s \<and> [] \<notin> set (pieces s)"
    and "\<And>v. fst (kernel_call env clk capability params k) = Inr v \<Longrightarrow> json_ok v"
  shows "void_syscall (gate_socket em pieces env clk) capability params k = kernel_caller env clk capability params k"
proof -
  obtain r k' where call: "kernel_call env clk capability params k = (r, k')" by fastforce
  let ?out = "wire_line (result_reply (JNum 1) r)"
  have "lf \<notin> set (stringify v)" for v by (rule stringify_no_newline)
  then have "recv_line (pieces ?out) [] = stringify (result_reply (JNum 1) r)"
    using recv_line_all [of "[]" "pieces ?out"] assms(3) [of ?out]
    by (simp add: wire_line_def takeWhile_append takeWhile_eq_all_conv [THEN iffD2] del: set_concat)
  moreover have "gate_socket em pieces env clk (py_dumps (client_request capability params) @ [lf]) k = (Some (pieces ?out), k')"
    using gate_answers_request [OF assms(1,2), of "pieces (py_dumps (client_request capability params) @ [lf])"] assms(3) call
    by (simp add: gate_socket_def)
  ultimately show ?thesis
    using client_answer_reply [of r] assms(4) by (simp add: void_syscall_def kernel_caller_def call)
qed

definition noted_kernel :: kernel where
  "noted_kernel = granted_kernel\<lparr>k_fs := Dir [(''srv'', Dir [(''a'', File ''hi'' 0)] 0)] 0\<rparr>"

theorem client_call_is_dispatch_witness:
  "void_syscall (gate_socket id (map (\<lambda>c. [c])) demo_kenv demo_clock) ''fs.read'' [(''path'', JStr ''/a'')] noted_kernel
     = kernel_caller demo_kenv demo_clock ''fs.read'' [(''path'', JStr ''/a'')] noted_kernel"
proof (rule client_call_is_dispatch)
  show "json_ok (JObj [(''path'', JStr ''/a'')])" by code_simp
  show "concat (map (\<lambda>c. [c]) s) = s \<and> [] \<notin> set (map (\<lambda>c. [c]) s)" for s :: string by (induction s) auto
  have "case fst (fs_read demo_kenv ''/srv'' [(''path'', JStr ''/a'')] (k_fs noted_kernel)) of
      Inr v \<Rightarrow> json_ok v | Inl e \<Rightarrow> True" by code_simp
  then show "json_ok v" if "fst (kernel_call demo_kenv demo_clock ''fs.read'' [(''path'', JStr ''/a'')] noted_kernel) = Inr v" for v
    using that by (simp add: read_call noted_kernel_def granted_kernel_def split: sum.splits)
qed simp

end
