(* ===== verification/VoidMind.thy ===== *)
theory VoidMind
  imports VoidClient
begin

text \<open>
  mind/void_mind/agent.py: the tools an agent discovers, one syscall of the model with the operator
  in between, and the loop of a turn.

  The model behind the backend, the operator at the terminal and the gate are parameters: the first
  two act on the host state \<open>'h\<close>, the calls on the gate state \<open>'g\<close>. What is printed is left out.
\<close>

section \<open>Messages and tools\<close>

record tool_call =
  tc_id :: string
  tc_name :: string
  tc_args :: json

datatype message =
    UserMsg string
  | AssistantMsg string "tool_call list"
  | ToolMsg string string string        \<comment> \<open>id, name, content\<close>

record reply =
  rp_content :: string
  rp_calls :: "tool_call list"

record tool =
  tl_name :: string
  tl_description :: json
  tl_parameters :: json

definition tool_name :: "string \<Rightarrow> string" where
  "tool_name capability = map (\<lambda>c. if c = CHR ''.'' then CHR ''_'' else c) capability"

section \<open>Discovery\<close>

record tables =
  tb_tools :: "tool list"
  tb_names :: "(string \<times> string) list"     \<comment> \<open>\<open>_tool_to_capability\<close>\<close>
  tb_risks :: "(string \<times> json) list"       \<comment> \<open>\<open>_risk\<close>\<close>

definition py_get :: "json \<Rightarrow> string \<Rightarrow> json \<Rightarrow> json" where
  "py_get v k d = (case v of JObj ps \<Rightarrow> py_get_or ps k d | _ \<Rightarrow> d)"

definition no_parameters :: json where
  "no_parameters = JObj [(''type'', JStr ''object''), (''properties'', JObj [])]"

definition add_tool :: "string list \<Rightarrow> json \<Rightarrow> tables \<Rightarrow> tables py" where
  "add_tool exclude c tb =
     (case py_item ''name'' c of
        Inl e \<Rightarrow> Inl e
      | Inr (JStr full) \<Rightarrow>
          let name = tool_name full;
              tb1 = tb\<lparr>tb_names := AList.update name full (tb_names tb),
                       tb_risks := AList.update name (py_get c ''risk'' (JStr ''read'')) (tb_risks tb)\<rparr>
          in if list_ex (\<lambda>p. take (length p) full = p) exclude then Inr tb1
             else (case py_item ''summary'' c of
                     Inl e \<Rightarrow> Inl e
                   | Inr d \<Rightarrow>
                       let ps = py_get c ''params'' JNull
                       in Inr (tb1\<lparr>tb_tools := tb_tools tb1 @
                            [\<lparr>tl_name = name, tl_description = d,
                              tl_parameters = (if py_truthy ps then ps else no_parameters)\<rparr>]\<rparr>))
      | Inr _ \<Rightarrow> Inl (PyError ''AttributeError''))"

fun add_tools :: "string list \<Rightarrow> json list \<Rightarrow> tables \<Rightarrow> tables py" where
  "add_tools exclude [] tb = Inr tb"
| "add_tools exclude (c # cs) tb =
     (case add_tool exclude c tb of Inl e \<Rightarrow> Inl e | Inr tb' \<Rightarrow> add_tools exclude cs tb')"

definition no_tables :: tables where
  "no_tables = \<lparr>tb_tools = [], tb_names = [], tb_risks = []\<rparr>"

text \<open>The \<open>for\<close> over the answer: nothing to iterate in an empty text or dict, no item in their parts.\<close>

definition discover :: "string list \<Rightarrow> json \<Rightarrow> tables py" where
  "discover exclude v =
     (case v of
        JArr cs \<Rightarrow> add_tools exclude cs no_tables
      | JObj [] \<Rightarrow> Inr no_tables
      | JStr [] \<Rightarrow> Inr no_tables
      | _ \<Rightarrow> Inl (PyError ''TypeError''))"

section \<open>The agent\<close>

record ('h, 'g) agent =
  ag_system :: string
  ag_chat :: "string \<Rightarrow> message list \<Rightarrow> tool list \<Rightarrow> 'h \<Rightarrow> reply py \<times> 'h"
  ag_call :: "'g caller"
  ag_approver :: "(string \<Rightarrow> jobject \<Rightarrow> json \<Rightarrow> 'h \<Rightarrow> bool py \<times> 'h) option"
  ag_granter :: "(string \<Rightarrow> 'g \<Rightarrow> unit py \<times> 'g) option"
  ag_tap :: "(string \<Rightarrow> jobject \<Rightarrow> json \<Rightarrow> 'h \<Rightarrow> 'h) option"
  ag_tables :: tables

text \<open>The constructor, after its defaults: it asks the gate for the capabilities.\<close>

definition new_agent :: "('h, 'g) agent \<Rightarrow> string list \<Rightarrow> 'g \<Rightarrow> ('h, 'g) agent py \<times> 'g" where
  "new_agent ag exclude g =
     (case void_capabilities (ag_call ag) g of
        (Inl e, g') \<Rightarrow> (Inl e, g')
      | (Inr v, g') \<Rightarrow>
          (case discover exclude v of Inl e \<Rightarrow> (Inl e, g') | Inr tb \<Rightarrow> (Inr (ag\<lparr>ag_tables := tb\<rparr>), g')))"

text \<open>The gate in front of a syscall: the approver's word and, if there is one, the granter's.\<close>

definition authorize ::
  "('h, 'g) agent \<Rightarrow> string \<Rightarrow> jobject \<Rightarrow> json \<Rightarrow> 'h \<Rightarrow> 'g \<Rightarrow> bool py \<times> 'h \<times> 'g" where
  "authorize ag capability args risk h g =
     (case ag_approver ag of
        None \<Rightarrow> (Inr True, h, g)
      | Some approver \<Rightarrow>
          if risk = JStr ''read'' then (Inr True, h, g)
          else (case approver capability args risk h of
                  (Inl e, h') \<Rightarrow> (Inl e, h', g)
                | (Inr False, h') \<Rightarrow> (Inr False, h', g)
                | (Inr True, h') \<Rightarrow>
                    (case ag_granter ag of
                       None \<Rightarrow> (Inr True, h', g)
                     | Some granter \<Rightarrow>
                         (case granter capability g of
                            (Inl e, g') \<Rightarrow> (Inl e, h', g')
                          | (Inr _, g') \<Rightarrow> (Inr True, h', g')))))"

definition error_text :: "json \<Rightarrow> json option \<Rightarrow> string" where
  "error_text code msg =
     py_dumps (JObj ((''error'', code) # (case msg of None \<Rightarrow> [] | Some m \<Rightarrow> [(''message'', m)])))"

definition run_syscall ::
  "('h, 'g) agent \<Rightarrow> string \<Rightarrow> jobject \<Rightarrow> 'h \<Rightarrow> 'g \<Rightarrow> string py \<times> 'h \<times> 'g" where
  "run_syscall ag tool args h g =
     (case map_of (tb_names (ag_tables ag)) tool of
        None \<Rightarrow> (Inr (error_text (JStr (''no such capability for tool '' @ tool)) None), h, g)
      | Some capability \<Rightarrow>
          let risk = (case map_of (tb_risks (ag_tables ag)) tool of None \<Rightarrow> JStr ''read'' | Some r \<Rightarrow> r);
              h1 = (case ag_tap ag of None \<Rightarrow> h | Some tap \<Rightarrow> tap capability args risk h)
          in (case authorize ag capability args risk h1 g of
                (Inl e, h2, g2) \<Rightarrow> (Inl e, h2, g2)
              | (Inr False, h2, g2) \<Rightarrow>
                  (Inr (error_text (JStr ''EPERM'') (Some (JStr (''operator denied '' @ capability)))), h2, g2)
              | (Inr True, h2, g2) \<Rightarrow>
                  (case ag_call ag capability args g2 of
                     (Inr v, g3) \<Rightarrow> (Inr (py_dumps v), h2, g3)
                   | (Inl (VoidError code msg), g3) \<Rightarrow> (Inr (error_text code (Some msg)), h2, g3)
                   | (Inl (PyError e), g3) \<Rightarrow> (Inl (PyError e), h2, g3))))"

text \<open>
  \<open>dict(arguments or {})\<close>: a list of pairs makes a dict too. Pairs whose first half is no text
  make a dict that no call takes: the exception is raised here.
\<close>

definition pair_of :: "json \<Rightarrow> (string \<times> json) option" where
  "pair_of v =
     (case v of
        JArr [JStr k, x] \<Rightarrow> Some (k, x)
      | JStr [a, b] \<Rightarrow> Some ([a], JStr [b])
      | JObj [(k, x), (k', x')] \<Rightarrow> Some (k, JStr k')
      | _ \<Rightarrow> None)"

definition dict_of :: "json \<Rightarrow> jobject option" where
  "dict_of v =
     (if \<not> py_truthy v then Some []
      else case v of
        JObj ps \<Rightarrow> Some ps
      | JArr xs \<Rightarrow> map_option (\<lambda>kvs. fold (\<lambda>(k, x). AList.update k x) kvs []) (those (map pair_of xs))
      | _ \<Rightarrow> None)"

section \<open>A turn\<close>

record ('h, 'g) session =
  se_messages :: "message list"
  se_host :: 'h
  se_gate :: 'g

fun run_calls :: "('h, 'g) agent \<Rightarrow> tool_call list \<Rightarrow> ('h, 'g) session \<Rightarrow> unit py \<times> ('h, 'g) session" where
  "run_calls ag [] st = (Inr (), st)"
| "run_calls ag (tc # tcs) st =
     (case dict_of (tc_args tc) of
        None \<Rightarrow> (Inl (PyError ''TypeError''), st)
      | Some args \<Rightarrow>
          (case run_syscall ag (tc_name tc) args (se_host st) (se_gate st) of
             (Inl e, h, g) \<Rightarrow> (Inl e, st\<lparr>se_host := h, se_gate := g\<rparr>)
           | (Inr text, h, g) \<Rightarrow>
               run_calls ag tcs
                 (st\<lparr>se_host := h, se_gate := g,
                    se_messages := se_messages st @ [ToolMsg (tc_id tc) (tc_name tc) text]\<rparr>)))"

fun run_steps :: "nat \<Rightarrow> ('h, 'g) agent \<Rightarrow> string \<Rightarrow> ('h, 'g) session \<Rightarrow> string py \<times> ('h, 'g) session" where
  "run_steps 0 ag final st = (Inr final, st)"
| "run_steps (Suc n) ag final st =
     (case ag_chat ag (ag_system ag) (se_messages st) (tb_tools (ag_tables ag)) (se_host st) of
        (Inl e, h) \<Rightarrow> (Inl e, st\<lparr>se_host := h\<rparr>)
      | (Inr rep, h) \<Rightarrow>
          let final' = (if rp_content rep = [] then final else rp_content rep);
              st1 = st\<lparr>se_host := h, se_messages := se_messages st @ [AssistantMsg (rp_content rep) (rp_calls rep)]\<rparr>
          in if rp_calls rep = [] then (Inr final', st1)
             else (case run_calls ag (rp_calls rep) st1 of
                     (Inl e, st2) \<Rightarrow> (Inl e, st2)
                   | (Inr _, st2) \<Rightarrow> run_steps n ag final' st2))"

definition MAX_STEPS :: nat where
  "MAX_STEPS = 25"

definition run_turn :: "('h, 'g) agent \<Rightarrow> string \<Rightarrow> ('h, 'g) session \<Rightarrow> string py \<times> ('h, 'g) session" where
  "run_turn ag user_message st =
     run_steps MAX_STEPS ag [] (st\<lparr>se_messages := se_messages st @ [UserMsg user_message]\<rparr>)"

text \<open>Turn after turn, whatever becomes of each.\<close>

definition run_turns :: "('h, 'g) agent \<Rightarrow> string list \<Rightarrow> ('h, 'g) session \<Rightarrow> ('h, 'g) session" where
  "run_turns ag msgs st = fold (\<lambda>msg st. snd (run_turn ag msg st)) msgs st"

section \<open>What an agent keeps\<close>

text \<open>
  The contract between an agent and those it works with: what the model, the operator and the gate
  keep in each exchange, with calls that are fair, the agent keeps through every turn, however it ends.
\<close>

locale agent_contract =
  fixes ag :: "('h, 'g) agent"
    and inv :: "'h \<Rightarrow> 'g \<Rightarrow> bool"
    and fair :: "tool_call \<Rightarrow> bool"
  assumes chat_keeps: "inv h g \<Longrightarrow> ag_chat ag prompt ms tools h = (r, h') \<Longrightarrow>
      inv h' g \<and> (case r of Inl e \<Rightarrow> True | Inr rep \<Rightarrow> list_all fair (rp_calls rep))"
    and syscall_keeps: "inv h g \<Longrightarrow> fair tc \<Longrightarrow> dict_of (tc_args tc) = Some args \<Longrightarrow>
      run_syscall ag (tc_name tc) args h g = (x, h', g') \<Longrightarrow> inv h' g'"
begin

lemma calls_keep:
  "inv (se_host st) (se_gate st) \<Longrightarrow> list_all fair tcs \<Longrightarrow> run_calls ag tcs st = (r, st') \<Longrightarrow> inv (se_host st') (se_gate st')"
proof (induction tcs arbitrary: st)
  case (Cons tc tcs)
  show ?case
  proof (cases "dict_of (tc_args tc)")
    case None
    with Cons.prems show ?thesis by simp
  next
    case (Some args)
    obtain x h g where call: "run_syscall ag (tc_name tc) args (se_host st) (se_gate st) = (x, h, g)"
      using prod_cases3 by blast
    have "inv h g" using syscall_keeps [OF Cons.prems(1) _ Some call] Cons.prems(2) by simp
    with Cons.prems Some call show ?thesis by (cases x) (auto intro: Cons.IH [rotated 2])
  qed
qed simp

lemma steps_keep:
  "inv (se_host st) (se_gate st) \<Longrightarrow> run_steps n ag final st = (r, st') \<Longrightarrow> inv (se_host st') (se_gate st')"
proof (induction n arbitrary: final st)
  case (Suc n)
  obtain x h where chat: "ag_chat ag (ag_system ag) (se_messages st) (tb_tools (ag_tables ag)) (se_host st) = (x, h)" by fastforce
  note kept = chat_keeps [OF Suc.prems(1) chat]
  show ?case
  proof (cases x)
    case (Inl e)
    with Suc.prems chat kept show ?thesis by auto
  next
    case (Inr rep)
    define st1 where "st1 = st\<lparr>se_host := h, se_messages := se_messages st @ [AssistantMsg (rp_content rep) (rp_calls rep)]\<rparr>"
    obtain y st2 where calls: "run_calls ag (rp_calls rep) st1 = (y, st2)" by fastforce
    have "inv (se_host st1) (se_gate st1)" using kept by (simp add: st1_def)
    moreover from calls_keep [OF this _ calls] kept Inr have "inv (se_host st2) (se_gate st2)" by simp
    moreover have "run_steps (Suc n) ag final st =
        (if rp_calls rep = [] then (Inr (if rp_content rep = [] then final else rp_content rep), st1)
         else (case y of Inl e \<Rightarrow> (Inl e, st2) | Inr _ \<Rightarrow> run_steps n ag (if rp_content rep = [] then final else rp_content rep) st2))"
      using calls chat by (simp only: run_steps.simps Inr prod.case sum.case Let_def st1_def)
    then have "st' = st1 \<or> st' = st2 \<or> (\<exists>final'. run_steps n ag final' st2 = (r, st'))"
      using Suc.prems(2) by (auto split: if_splits sum.splits)
    ultimately show ?thesis using Suc.IH by blast
  qed
qed simp

lemma turns_keep:
  "inv (se_host st) (se_gate st) \<Longrightarrow> inv (se_host (run_turns ag msgs st)) (se_gate (run_turns ag msgs st))"
proof (induction msgs arbitrary: st)
  case (Cons msg msgs)
  obtain r st' where turn: "run_turn ag msg st = (r, st')" by fastforce
  have "inv (se_host st') (se_gate st')" using steps_keep [OF _ turn [unfolded run_turn_def]] Cons.prems by simp
  from Cons.IH [OF this] turn show ?case by (simp add: run_turns_def)
qed (simp add: run_turns_def)

end

section \<open>The history is a conversation\<close>

text \<open>
  What providers require of a history: a call of the assistant is answered right after it, in order
  and under its id and name, before anything else is said. \<open>pending\<close> are the calls still to be
  answered, None when the history has broken the rule.
\<close>

fun pending :: "tool_call list \<Rightarrow> message list \<Rightarrow> tool_call list option" where
  "pending p [] = Some p"
| "pending p (UserMsg c # ms) = (if p = [] then pending [] ms else None)"
| "pending p (AssistantMsg c tcs # ms) = (if p = [] then pending tcs ms else None)"
| "pending p (ToolMsg i n c # ms) =
     (case p of [] \<Rightarrow> None | q # qs \<Rightarrow> if tc_id q = i \<and> tc_name q = n then pending qs ms else None)"

definition conversation :: "message list \<Rightarrow> bool" where
  "conversation ms \<longleftrightarrow> pending [] ms = Some []"

text \<open>The texts the model said, and how often it was asked.\<close>

definition spoken :: "message list \<Rightarrow> string list" where
  "spoken ms = filter (\<lambda>c. c \<noteq> []) (concat (map (\<lambda>m. case m of AssistantMsg c _ \<Rightarrow> [c] | _ \<Rightarrow> []) ms))"

definition replies :: "message list \<Rightarrow> nat" where
  "replies ms = length (filter (\<lambda>m. case m of AssistantMsg _ _ \<Rightarrow> True | _ \<Rightarrow> False) ms)"

definition last_or :: "string \<Rightarrow> string list \<Rightarrow> string" where
  "last_or d cs = (if cs = [] then d else last cs)"

lemma spoken_simps [simp]:
  "spoken [] = []" "spoken (ms @ ms') = spoken ms @ spoken ms'"
  "spoken (UserMsg c # ms) = spoken ms" "spoken (ToolMsg i n c # ms) = spoken ms"
  "spoken (AssistantMsg c tcs # ms) = (if c = [] then spoken ms else c # spoken ms)"
  by (simp_all add: spoken_def)

lemma replies_simps [simp]:
  "replies [] = 0" "replies (ms @ ms') = replies ms + replies ms'"
  "replies (UserMsg c # ms) = replies ms" "replies (ToolMsg i n c # ms) = replies ms"
  "replies (AssistantMsg c tcs # ms) = Suc (replies ms)"
  by (simp_all add: replies_def)

lemma pending_append:
  "pending p (ms @ ms') = (case pending p ms of None \<Rightarrow> None | Some q \<Rightarrow> pending q ms')"
  by (induction p ms rule: pending.induct) (auto split: list.splits)

lemma pending_snoc [simp]:
  "pending [] (ms @ [UserMsg c]) = (if conversation ms then Some [] else None)"
  "conversation ms \<Longrightarrow> pending [] (ms @ [AssistantMsg c tcs]) = Some tcs"
  "pending [] ms = Some (q # qs) \<Longrightarrow> pending [] (ms @ [ToolMsg (tc_id q) (tc_name q) c]) = Some qs"
  by (auto simp: pending_append conversation_def split: option.split)

lemma run_calls_history:
  assumes "run_calls ag tcs st = (r, st')" "pending [] (se_messages st) = Some tcs"
  shows "\<exists>more rest. se_messages st' = se_messages st @ more \<and> spoken more = [] \<and> replies more = 0 \<and>
    pending [] (se_messages st') = Some rest \<and> (rest = [] \<longleftrightarrow> \<not> isl r)"
  using assms
proof (induction ag tcs st arbitrary: r st' rule: run_calls.induct)
  case (1 ag st)
  then show ?case by (auto intro: exI [of _ "[]"])
next
  case (2 ag tc tcs st)
  show ?case
  proof (cases "dict_of (tc_args tc)")
    case None
    with 2 show ?thesis by (auto intro: exI [of _ "[]"])
  next
    case (Some args)
    obtain x h g where call: "run_syscall ag (tc_name tc) args (se_host st) (se_gate st) = (x, h, g)"
      using prod_cases3 by blast
    show ?thesis
    proof (cases x)
      case (Inl e)
      with 2(2,3) Some call show ?thesis by (auto intro: exI [of _ "[]"])
    next
      case (Inr out)
      let ?st = "st\<lparr>se_host := h, se_gate := g, se_messages := se_messages st @ [ToolMsg (tc_id tc) (tc_name tc) out]\<rparr>"
      have "run_calls ag tcs ?st = (r, st')" using 2(2) Some call Inr by simp
      moreover have "pending [] (se_messages ?st) = Some tcs" using 2(3) by simp
      ultimately obtain more rest where "se_messages st' = se_messages ?st @ more" "spoken more = []" "replies more = 0"
          "pending [] (se_messages st') = Some rest" "rest = [] \<longleftrightarrow> \<not> isl r"
        using 2(1) [OF Some call [symmetric]] Inr by blast
      then show ?thesis
        by (intro exI [of _ "ToolMsg (tc_id tc) (tc_name tc) out # more"] exI [of _ rest]) simp
    qed
  qed
qed

lemma run_steps_history:
  assumes "run_steps n ag final st = (r, st')" "conversation (se_messages st)"
  shows "\<exists>more. se_messages st' = se_messages st @ more \<and> replies more \<le> n \<and> (\<not> isl r \<and> 0 < n \<longrightarrow> 0 < replies more) \<and>
    (\<forall>x. r = Inr x \<longrightarrow> conversation (se_messages st') \<and> x = last_or final (spoken more))"
  using assms
proof (induction n arbitrary: final st)
  case 0
  then show ?case by (auto simp: last_or_def intro: exI [of _ "[]"])
next
  case (Suc n)
  obtain x h where chat: "ag_chat ag (ag_system ag) (se_messages st) (tb_tools (ag_tables ag)) (se_host st) = (x, h)" by fastforce
  show ?case
  proof (cases x)
    case (Inl e)
    with Suc.prems chat show ?thesis by (auto intro: exI [of _ "[]"])
  next
    case (Inr rep)
    define final' where "final' = (if rp_content rep = [] then final else rp_content rep)"
    define st1 where "st1 = st\<lparr>se_host := h, se_messages := se_messages st @ [AssistantMsg (rp_content rep) (rp_calls rep)]\<rparr>"
    have "run_steps (Suc n) ag final st = (if rp_calls rep = [] then (Inr final', st1)
        else (case run_calls ag (rp_calls rep) st1 of (Inl e, st2) \<Rightarrow> (Inl e, st2) | (Inr _, st2) \<Rightarrow> run_steps n ag final' st2))"
      by (simp only: run_steps.simps chat Inr prod.case sum.case Let_def final'_def st1_def)
    note step = this [unfolded Suc.prems(1)]
    have p1: "pending [] (se_messages st1) = Some (rp_calls rep)" using Suc.prems(2) by (simp add: st1_def)
    let ?a = "AssistantMsg (rp_content rep) (rp_calls rep)"
    have m1: "se_messages st1 = se_messages st @ [?a]" by (simp add: st1_def)
    have fin: "last_or final (spoken (?a # more)) = last_or final' (spoken more)" for more
      by (simp add: last_or_def final'_def)
    show ?thesis
    proof (cases "rp_calls rep = []")
      case True
      with step p1 m1 fin [of "[]"] show ?thesis
        by (intro exI [of _ "[?a]"]) (auto simp: conversation_def last_or_def)
    next
      case False
      obtain y st2 where calls: "run_calls ag (rp_calls rep) st1 = (y, st2)" by fastforce
      obtain m2 rest where m2: "se_messages st2 = se_messages st1 @ m2" "spoken m2 = []" "replies m2 = 0"
          "pending [] (se_messages st2) = Some rest" "rest = [] \<longleftrightarrow> \<not> isl y"
        using run_calls_history [OF calls p1] by blast
      show ?thesis
      proof (cases y)
        case (Inl e)
        with step calls False m1 m2 show ?thesis by (intro exI [of _ "?a # m2"]) auto
      next
        case Inr
        with m2 have "conversation (se_messages st2)" by (simp add: conversation_def)
        moreover have "run_steps n ag final' st2 = (r, st')" using step calls False Inr by simp
        ultimately obtain more where more: "se_messages st' = se_messages st2 @ more" "replies more \<le> n"
            "\<forall>x. r = Inr x \<longrightarrow> conversation (se_messages st') \<and> x = last_or final' (spoken more)"
          using Suc.IH [of final' st2] by blast
        then show ?thesis
          using m1 m2 fin [of "m2 @ more"] by (intro exI [of _ "?a # m2 @ more"]) auto
      qed
    qed
  qed
qed

text \<open>A provider that refuses a history that is no conversation.\<close>

definition strict :: "('h, 'g) agent \<Rightarrow> ('h, 'g) agent" where
  "strict ag = ag\<lparr>ag_chat := \<lambda>sys ms tools h.
     if conversation ms then ag_chat ag sys ms tools h else (Inl (PyError ''BadRequest''), h)\<rparr>"

lemma strict_fields [simp]:
  "ag_system (strict ag) = ag_system ag" "ag_tables (strict ag) = ag_tables ag" "ag_call (strict ag) = ag_call ag"
  "ag_approver (strict ag) = ag_approver ag" "ag_granter (strict ag) = ag_granter ag" "ag_tap (strict ag) = ag_tap ag"
  by (simp_all add: strict_def)

lemma strict_syscall [simp]: "authorize (strict ag) = authorize ag" "run_syscall (strict ag) = run_syscall ag"
proof -
  show "authorize (strict ag) = authorize ag" by (simp add: fun_eq_iff authorize_def cong: option.case_cong sum.case_cong prod.case_cong bool.case_cong if_cong)
  then show "run_syscall (strict ag) = run_syscall ag"
    by (simp add: fun_eq_iff run_syscall_def Let_def cong: option.case_cong sum.case_cong prod.case_cong bool.case_cong py_exc.case_cong)
qed

lemma run_calls_strict: "run_calls (strict ag) tcs st = run_calls ag tcs st"
  by (induction ag tcs st rule: run_calls.induct) (simp_all split: option.split sum.split prod.split)

lemma run_steps_strict: "conversation (se_messages st) \<Longrightarrow> run_steps n (strict ag) final st = run_steps n ag final st"
proof (induction n arbitrary: final st)
  case (Suc n)
  have chat: "ag_chat (strict ag) sys (se_messages st) tools h = ag_chat ag sys (se_messages st) tools h" for sys tools h
    using Suc.prems by (simp add: strict_def)
  obtain x h where x: "ag_chat ag (ag_system ag) (se_messages st) (tb_tools (ag_tables ag)) (se_host st) = (x, h)" by fastforce
  show ?case
  proof (cases x)
    case (Inr rep)
    define st1 where "st1 = st\<lparr>se_host := h, se_messages := se_messages st @ [AssistantMsg (rp_content rep) (rp_calls rep)]\<rparr>"
    obtain y st2 where calls: "run_calls ag (rp_calls rep) st1 = (y, st2)" by fastforce
    have "pending [] (se_messages st1) = Some (rp_calls rep)" using Suc.prems by (simp add: st1_def)
    from run_calls_history [OF calls this]
    have "run_steps n (strict ag) final' st2 = run_steps n ag final' st2" if "y = Inr ()" for final'
      using that by (intro Suc.IH) (auto simp: conversation_def)
    with calls show ?thesis by (cases y) (simp_all add: x chat Inr run_calls_strict Let_def flip: st1_def)
  qed (simp add: x chat)
qed simp

text \<open>
  C20. As long as turns return, the history is a conversation: every history that a turn sends to the
  model, and the one it leaves, has each call answered in order under its id before anything else. A
  turn asks the model at least once and at most 25 times and returns the last words it said.
\<close>

theorem turn_keeps_conversation:
  assumes "conversation (se_messages st)"
  shows "run_turn (strict ag) msg st = run_turn ag msg st \<and>
    (case run_turn ag msg st of
       (Inl e, st') \<Rightarrow> True
     | (Inr final, st') \<Rightarrow>
         \<exists>more. se_messages st' = se_messages st @ UserMsg msg # more \<and> conversation (se_messages st') \<and>
           1 \<le> replies more \<and> replies more \<le> 25 \<and> final = last_or [] (spoken more))"
proof
  have start: "conversation (se_messages (st\<lparr>se_messages := se_messages st @ [UserMsg msg]\<rparr>))"
    using assms by (simp add: conversation_def [of "_ @ _"])
  then show "run_turn (strict ag) msg st = run_turn ag msg st" by (simp add: run_turn_def run_steps_strict)
  have "\<exists>more. se_messages st' = se_messages st @ UserMsg msg # more \<and> conversation (se_messages st') \<and>
      1 \<le> replies more \<and> replies more \<le> 25 \<and> final = last_or [] (spoken more)"
    if "run_turn ag msg st = (Inr final, st')" for final st'
    using run_steps_history [OF that [unfolded run_turn_def] start] by (auto simp: MAX_STEPS_def)
  then show "case run_turn ag msg st of (Inl e, st') \<Rightarrow> True | (Inr final, st') \<Rightarrow>
      \<exists>more. se_messages st' = se_messages st @ UserMsg msg # more \<and> conversation (se_messages st') \<and>
        1 \<le> replies more \<and> replies more \<le> 25 \<and> final = last_or [] (spoken more)"
    by (auto split: prod.split sum.split)
qed

text \<open>An agent for examples: one call, then a word.\<close>

definition sys_tables :: tables where
  "sys_tables = \<lparr>tb_tools = [], tb_names = [(''sys_info'', ''sys.info'')], tb_risks = [(''sys_info'', JStr ''read'')]\<rparr>"

definition lone_call :: tool_call where
  "lone_call = \<lparr>tc_id = ''call_0'', tc_name = ''sys_info'', tc_args = JObj []\<rparr>"

definition demo_agent :: "json py \<Rightarrow> (nat, unit) agent" where
  "demo_agent answer =
     \<lparr>ag_system = [],
      ag_chat = (\<lambda>sys ms tools n. (Inr (if n = 0 then \<lparr>rp_content = [], rp_calls = [lone_call]\<rparr>
                                        else \<lparr>rp_content = ''done'', rp_calls = []\<rparr>), Suc n)),
      ag_call = (\<lambda>c ps g. (answer, g)), ag_approver = None, ag_granter = None, ag_tap = None, ag_tables = sys_tables\<rparr>"

definition fresh_session :: "'h \<Rightarrow> 'g \<Rightarrow> ('h, 'g) session" where
  "fresh_session h g = \<lparr>se_messages = [], se_host = h, se_gate = g\<rparr>"

theorem turn_keeps_conversation_witness:
  "run_turn (demo_agent (Inr JNull)) ''hi'' (fresh_session 0 ()) =
     (Inr ''done'',
      \<lparr>se_messages = [UserMsg ''hi'', AssistantMsg [] [lone_call], ToolMsg ''call_0'' ''sys_info'' ''null'', AssistantMsg ''done'' []],
       se_host = 2, se_gate = ()\<rparr>) \<and>
   run_turn (strict (demo_agent (Inr JNull))) ''hi'' (fresh_session 0 ()) = run_turn (demo_agent (Inr JNull)) ''hi'' (fresh_session 0 ())"
proof
  show "run_turn (demo_agent (Inr JNull)) ''hi'' (fresh_session 0 ()) =
     (Inr ''done'',
      \<lparr>se_messages = [UserMsg ''hi'', AssistantMsg [] [lone_call], ToolMsg ''call_0'' ''sys_info'' ''null'', AssistantMsg ''done'' []],
       se_host = 2, se_gate = ()\<rparr>)" by code_simp
  have "conversation (se_messages (fresh_session (0 :: nat) ()))" by code_simp
  from turn_keeps_conversation [OF this]
  show "run_turn (strict (demo_agent (Inr JNull))) ''hi'' (fresh_session 0 ()) = run_turn (demo_agent (Inr JNull)) ''hi'' (fresh_session 0 ())"
    by blast
qed

text \<open>
  A turn that an exception ends in the middle of its calls leaves them unanswered for good: with a
  provider that insists on the answers, no later turn succeeds.
\<close>

lemma broken_stays:
  assumes "\<not> conversation (se_messages st)"
  shows "fst (run_turn (strict ag) msg st) = Inl (PyError ''BadRequest'')"
    and "\<not> conversation (se_messages (snd (run_turn (strict ag) msg st)))"
proof -
  have "\<not> conversation (se_messages st @ [UserMsg msg])" using assms by (simp add: conversation_def [of "_ @ _"])
  then show "fst (run_turn (strict ag) msg st) = Inl (PyError ''BadRequest'')"
    "\<not> conversation (se_messages (snd (run_turn (strict ag) msg st)))"
    by (simp_all add: run_turn_def MAX_STEPS_def strict_def numeral_eq_Suc)
qed

lemma failed_call_wedges:
  assumes "\<not> conversation (se_messages st)"
  shows "fst (run_turn (strict ag) msg (run_turns (strict ag) msgs st)) = Inl (PyError ''BadRequest'')"
  using assms
proof (induction msgs arbitrary: st)
  case Nil
  then show ?case by (simp add: run_turns_def broken_stays)
next
  case (Cons m msgs)
  from Cons.IH [OF broken_stays(2) [OF Cons.prems, of ag m]] show ?case by (simp add: run_turns_def)
qed

text \<open>Such a turn: the model calls \<open>sys.info\<close> while the gate cannot be reached.\<close>

lemma gate_down_breaks:
  "\<not> conversation (se_messages (snd (run_turn (demo_agent (Inl (PyError ''OSError''))) ''hi'' (fresh_session 0 ()))))"
  by code_simp

end
