(* ===== verification/VoidOperator.thy ===== *)
theory VoidOperator
  imports VoidMind
begin

text \<open>
  mind/shell.py: the operator between the mind and the kernel. What the approver and the granter do,
  the tools the agent gets from this kernel, and what the two together are worth: no write or exec
  capability starts more often than the operator agreed to it.
\<close>

section \<open>The tools of this kernel\<close>

definition tool_of :: "cap_info \<Rightarrow> tool" where
  "tool_of c = \<lparr>tl_name = tool_name (cap_name c), tl_description = JStr (cap_summary c), tl_parameters = schema_json (cap_params c)\<rparr>"

lemma update_fresh: "k \<notin> set (map fst ps) \<Longrightarrow> AList.update k v ps = ps @ [(k, v)]"
  by (induction ps) auto

lemma add_tools_infos:
  assumes "distinct (map fst (tb_names tb) @ map (\<lambda>c. tool_name (cap_name c)) cs)" "map fst (tb_risks tb) = map fst (tb_names tb)"
    and "list_all (\<lambda>c. py_truthy (schema_json (cap_params c))) cs"
  shows "add_tools exclude (map info_json cs) tb = Inr
    \<lparr>tb_tools = tb_tools tb @ map tool_of (filter (\<lambda>c. \<not> list_ex (\<lambda>p. take (length p) (cap_name c) = p) exclude) cs),
     tb_names = tb_names tb @ map (\<lambda>c. (tool_name (cap_name c), cap_name c)) cs,
     tb_risks = tb_risks tb @ map (\<lambda>c. (tool_name (cap_name c), JStr (risk_str (cap_risk c)))) cs\<rparr>"
  using assms
proof (induction cs arbitrary: tb)
  case (Cons c cs)
  let ?n = "tool_name (cap_name c)"
  let ?more = "if list_ex (\<lambda>p. take (length p) (cap_name c) = p) exclude then [] else [tool_of c]"
  let ?tb = "\<lparr>tb_tools = tb_tools tb @ ?more, tb_names = tb_names tb @ [(?n, cap_name c)],
     tb_risks = tb_risks tb @ [(?n, JStr (risk_str (cap_risk c)))]\<rparr>"
  have fresh: "?n \<notin> set (map fst (tb_names tb))" using Cons.prems(1) by auto
  then have fresh': "?n \<notin> set (map fst (tb_risks tb))" using Cons.prems(2) by simp
  have "add_tool exclude (info_json c) tb = Inr ?tb"
    using Cons.prems(3) update_fresh [OF fresh] update_fresh [OF fresh']
    by (simp add: add_tool_def info_json_def py_item_def py_get_def py_get_or_def tool_of_def Let_def)
  moreover have "add_tools exclude (map info_json cs) ?tb = Inr
    \<lparr>tb_tools = tb_tools ?tb @ map tool_of (filter (\<lambda>c. \<not> list_ex (\<lambda>p. take (length p) (cap_name c) = p) exclude) cs),
     tb_names = tb_names ?tb @ map (\<lambda>c. (tool_name (cap_name c), cap_name c)) cs,
     tb_risks = tb_risks ?tb @ map (\<lambda>c. (tool_name (cap_name c), JStr (risk_str (cap_risk c)))) cs\<rparr>"
    using Cons.prems by (intro Cons.IH) auto
  ultimately show ?case by simp
qed simp

lemma infos_of_names: "mset (map cap_name (kernel_infos env)) = mset capability_names"
proof -
  have "mset (map cap_name (kernel_infos env)) = mset (map cap_name (map cap_info (kernel_table env [])))"
    by (simp only: kernel_infos_def mset_map mset_sort)
  also have "map cap_name (map cap_info (kernel_table env [])) = capability_names"
    using table_names [of env "[]"] by (simp add: cap_info_def comp_def)
  finally show ?thesis .
qed

lemma infos_member:
  "c \<in> set (kernel_infos env) \<longleftrightarrow> (\<exists>h. registry_get (kernel_registry env) (cap_name c) = Some h \<and> c = cap_info h)"
proof -
  have "set (kernel_infos env) = cap_info ` set (kernel_table env (kernel_infos env))"
    using infos_of_table [of env "[]" "kernel_infos env"] by (simp add: kernel_infos_def flip: set_map)
  moreover have "h \<in> set (kernel_table env (kernel_infos env)) \<longleftrightarrow> registry_get (kernel_registry env) (cap_name h) = Some h" for h
    using table_lookup [of h env] registry_member [of env "cap_name h" h] by blast
  ultimately show ?thesis by (auto simp: cap_info_def)
qed

lemma map_of_find: "map_of (map (\<lambda>c. (f c, g c)) cs) t = map_option g (find (\<lambda>c. f c = t) cs)"
  by (induction cs) auto

lemma distinct_tools: "distinct (map tool_name capability_names)"
  by code_simp

lemma infos_params: "list_all (\<lambda>c. py_truthy (schema_json (cap_params c))) (kernel_infos env)"
proof -
  have "list_all (\<lambda>c. sc_type (cap_params c) = Some ''object'') (kernel_table env [])"
    by (simp add: kernel_table_def caps_defs cap_def params_of_def no_params_def name_params_def)
  moreover have "py_truthy (schema_json s)" if "sc_type s = Some ''object''" for s
    using that by (cases s) (simp add: opt_field_def)
  ultimately show ?thesis by (auto simp: kernel_infos_def list_all_iff cap_info_def)
qed

text \<open>
  C22. What a new agent may call are the capabilities of the kernel, each under its name with the dots
  replaced, which can be read back; its risk is the one the gate judges by; and the tools the model is
  shown are all of them but the excluded ones, in the order of their names.
\<close>

theorem tools_are_capabilities:
  fixes ag :: "('h, kernel) agent"
  shows "case new_agent (ag\<lparr>ag_call := kernel_caller env clk\<rparr>) exclude k of
    (Inl e, k') \<Rightarrow> False
  | (Inr ag', k') \<Rightarrow>
      (\<forall>t n. map_of (tb_names (ag_tables ag')) t = Some n \<longleftrightarrow> n \<in> set capability_names \<and> t = tool_name n) \<and>
      (\<forall>t. map_of (tb_risks (ag_tables ag')) t =
         (case map_of (tb_names (ag_tables ag')) t of None \<Rightarrow> None
          | Some n \<Rightarrow> map_option (\<lambda>c. JStr (risk_str (cap_risk c))) (registry_get (kernel_registry env) n))) \<and>
      tb_tools (ag_tables ag') =
        map tool_of (filter (\<lambda>c. \<not> list_ex (\<lambda>p. take (length p) (cap_name c) = p) exclude) (kernel_infos env))"
proof -
  let ?cs = "kernel_infos env"
  let ?tb = "\<lparr>tb_tools = map tool_of (filter (\<lambda>c. \<not> list_ex (\<lambda>p. take (length p) (cap_name c) = p) exclude) ?cs),
     tb_names = map (\<lambda>c. (tool_name (cap_name c), cap_name c)) ?cs,
     tb_risks = map (\<lambda>c. (tool_name (cap_name c), JStr (risk_str (cap_risk c)))) ?cs\<rparr>"
  have names: "set (map cap_name ?cs) = set capability_names" using infos_of_names by (metis mset_eq_setD)
  have "mset (map tool_name (map cap_name ?cs)) = mset (map tool_name capability_names)"
    using infos_of_names [of env] by (simp only: mset_map)
  then have dist: "distinct (map tool_name (map cap_name ?cs))" using distinct_tools by (metis mset_eq_imp_distinct_iff)
  have "add_tools exclude (map info_json ?cs) no_tables = Inr ?tb"
    using add_tools_infos [of no_tables ?cs exclude] dist infos_params by (simp add: no_tables_def comp_def)
  moreover obtain k' where "kernel_call env clk ''sys.list'' [] k = (Inr (obj1 ''capabilities'' (JArr (map info_json ?cs))), k')"
    using call_sys_list [of env clk "[]" k] by (metis prod.collapse)
  ultimately have new: "new_agent (ag\<lparr>ag_call := kernel_caller env clk\<rparr>) exclude k
      = (Inr (ag\<lparr>ag_call := kernel_caller env clk, ag_tables := ?tb\<rparr>), k')"
    by (simp add: new_agent_def void_capabilities_def kernel_caller_def py_result_def py_picked_def py_item_def obj1_def discover_def)
  have dn: "distinct (map fst (tb_names ?tb))" using dist by (simp add: comp_def)
  have look: "map_of (tb_names ?tb) t = Some n \<longleftrightarrow> n \<in> set capability_names \<and> t = tool_name n" for t n
    using map_of_eq_Some_iff [OF dn, of t n] by (auto simp flip: names)
  have risk: "map_of (tb_risks ?tb) t = (case map_of (tb_names ?tb) t of None \<Rightarrow> None
      | Some n \<Rightarrow> map_option (\<lambda>c. JStr (risk_str (cap_risk c))) (registry_get (kernel_registry env) n))" for t
  proof (cases "find (\<lambda>c. tool_name (cap_name c) = t) ?cs")
    case (Some c)
    then have "c \<in> set ?cs" by (auto simp: find_Some_iff)
    then obtain h where "registry_get (kernel_registry env) (cap_name c) = Some h" "c = cap_info h"
      using infos_member by blast
    with Some show ?thesis by (simp add: map_of_find cap_info_def)
  qed (simp add: map_of_find)
  show ?thesis unfolding new prod.case sum.case agent.simps using look risk by (intro conjI allI) simp_all
qed

section \<open>The shell\<close>

record console_tty =
  te_always :: "string list"      \<comment> \<open>the capabilities answered with \<open>a\<close>\<close>
  te_lines :: "string list"       \<comment> \<open>what the operator types next\<close>

definition shell_approver :: "string \<Rightarrow> jobject \<Rightarrow> json \<Rightarrow> console_tty \<Rightarrow> bool py \<times> console_tty" where
  "shell_approver capability args risk t =
     (if capability \<in> set (te_always t) then (Inr True, t)
      else case te_lines t of
        [] \<Rightarrow> (Inl (PyError ''EOFError''), t)
      | line # rest \<Rightarrow>
          let ans = map to_lower (py_strip line); t' = t\<lparr>te_lines := rest\<rparr>
          in if ans = ''a'' then (Inr True, t'\<lparr>te_always := List.insert capability (te_always t)\<rparr>)
             else (Inr (ans \<in> {''y'', ''yes''}), t'))"

definition shell_granter :: "'g caller \<Rightarrow> string \<Rightarrow> string \<Rightarrow> 'g \<Rightarrow> unit py \<times> 'g" where
  "shell_granter call token capability g =
     (case void_grant call capability 1 token g of (Inl e, g') \<Rightarrow> (Inl e, g') | (Inr _, g') \<Rightarrow> (Inr (), g'))"

text \<open>The agent that main sets up: it asks the operator unless the policy is permissive.\<close>

definition shell_start ::
  "(string \<Rightarrow> message list \<Rightarrow> tool list \<Rightarrow> 'h \<Rightarrow> reply py \<times> 'h) \<Rightarrow> (string \<Rightarrow> jobject \<Rightarrow> json \<Rightarrow> 'h \<Rightarrow> bool py \<times> 'h) \<Rightarrow>
   'g caller \<Rightarrow> string \<Rightarrow> string \<Rightarrow> string \<Rightarrow> 'g \<Rightarrow> ('h, 'g) agent py \<times> 'g" where
  "shell_start chat consult call token prompt extra g =
     (case void_policy call g of
        (Inl e, g1) \<Rightarrow> (Inl e, g1)
      | (Inr (JObj ps), g1) \<Rightarrow>
          let asks = (py_get_or ps ''mode'' (JStr ''guarded'') \<noteq> JStr ''permissive'')
          in new_agent
               \<lparr>ag_system = prompt @ (if extra = [] then [] else [lf, lf] @ extra), ag_chat = chat, ag_call = call,
                ag_approver = (if asks then Some consult else None),
                ag_granter = (if asks then Some (shell_granter call token) else None),
                ag_tap = None, ag_tables = no_tables\<rparr> [] g1
      | (Inr _, g1) \<Rightarrow> (Inl (PyError ''AttributeError''), g1))"

text \<open>The lines at the prompt, up to the one that leaves; a turn that fails is reported and passed.\<close>

fun shell_lines :: "('h, 'g) agent \<Rightarrow> string list \<Rightarrow> ('h, 'g) session \<Rightarrow> ('h, 'g) session" where
  "shell_lines ag [] st = st"
| "shell_lines ag (l # ls) st =
     (let line = py_strip l
      in if line = [] then shell_lines ag ls st
         else if line = ''exit'' \<or> line = ''quit'' then st
         else shell_lines ag ls (snd (run_turn ag line st)))"

section \<open>A kernel with a counter\<close>

text \<open>
  The gate of one agent: the kernel, what the host answers during each call, and for each capability
  how often its write or exec handler was started.
\<close>

record meter =
  mt_kernel :: kernel
  mt_hosts :: "nat \<Rightarrow> kenv \<times> clock"
  mt_tick :: nat
  mt_started :: "string \<Rightarrow> nat"

definition metered :: "meter caller" where
  "metered capability params m =
     (case mt_hosts m (mt_tick m) of (env, clk) \<Rightarrow>
      case kernel_caller env clk capability params (mt_kernel m) of (r, k') \<Rightarrow>
        (r, m\<lparr>mt_kernel := k', mt_tick := Suc (mt_tick m),
              mt_started := (mt_started m)(capability := mt_started m capability +
                 of_bool (starts_risky clk (kernel_registry env) capability params (mt_kernel m)))\<rparr>))"

definition new_meter :: "kernel \<Rightarrow> (nat \<Rightarrow> kenv \<times> clock) \<Rightarrow> meter" where
  "new_meter k hosts = \<lparr>mt_kernel = k, mt_hosts = hosts, mt_tick = 0, mt_started = (\<lambda>c. 0)\<rparr>"

text \<open>The operator's word, counted; the model acts on the rest of the host.\<close>

type_synonym consents = "string \<Rightarrow> nat"

definition counted ::
  "(string \<Rightarrow> jobject \<Rightarrow> json \<Rightarrow> 'h \<Rightarrow> bool py \<times> 'h) \<Rightarrow> string \<Rightarrow> jobject \<Rightarrow> json \<Rightarrow> 'h \<times> consents \<Rightarrow> bool py \<times> 'h \<times> consents" where
  "counted consult capability args risk hy =
     (case hy of (h, yes) \<Rightarrow>
      case consult capability args risk h of
        (Inr True, h') \<Rightarrow> (Inr True, h', yes(capability := Suc (yes capability)))
      | (x, h') \<Rightarrow> (x, h', yes))"

definition on_host ::
  "(string \<Rightarrow> message list \<Rightarrow> tool list \<Rightarrow> 'h \<Rightarrow> reply py \<times> 'h) \<Rightarrow>
   string \<Rightarrow> message list \<Rightarrow> tool list \<Rightarrow> 'h \<times> 'y \<Rightarrow> reply py \<times> 'h \<times> 'y" where
  "on_host chat prompt ms tools hy =
     (case hy of (h, y) \<Rightarrow> case chat prompt ms tools h of (r, h') \<Rightarrow> (r, h', y))"

definition watched_agent ::
  "(string \<Rightarrow> message list \<Rightarrow> tool list \<Rightarrow> 'h \<Rightarrow> reply py \<times> 'h) \<Rightarrow> (string \<Rightarrow> jobject \<Rightarrow> json \<Rightarrow> 'h \<Rightarrow> bool py \<times> 'h) \<Rightarrow>
   string \<Rightarrow> string \<Rightarrow> tables \<Rightarrow> ('h \<times> consents, meter) agent" where
  "watched_agent chat consult token prompt tb =
     \<lparr>ag_system = prompt, ag_chat = on_host chat, ag_call = metered, ag_approver = Some (counted consult),
      ag_granter = Some (shell_granter metered token), ag_tap = None, ag_tables = tb\<rparr>"

text \<open>A model that does not know the token never passes it as an argument.\<close>

definition innocent :: "string \<Rightarrow> tool_call \<Rightarrow> bool" where
  "innocent token tc = (case dict_of (tc_args tc) of None \<Rightarrow> True | Some args \<Rightarrow> \<not> holds_token token args)"

definition never_says :: "string \<Rightarrow> (string \<Rightarrow> message list \<Rightarrow> tool list \<Rightarrow> 'h \<Rightarrow> reply py \<times> 'h) \<Rightarrow> bool" where
  "never_says token chat \<longleftrightarrow>
     (\<forall>prompt ms tools h. case fst (chat prompt ms tools h) of Inl e \<Rightarrow> True | Inr rep \<Rightarrow> list_all (innocent token) (rp_calls rep))"

section \<open>A start spends a consent\<close>

text \<open>The uses that are granted for exactly this key.\<close>

definition stock :: "grants \<Rightarrow> string \<Rightarrow> enat" where
  "stock g c = (case map_of g c of None \<Rightarrow> 0 | Some u \<Rightarrow> worth u)"

definition consented :: "string \<Rightarrow> consents \<Rightarrow> meter \<Rightarrow> bool" where
  "consented token yes m \<longleftrightarrow>
     g_mode (mt_kernel m) = Guarded \<and> g_token (mt_kernel m) = token \<and> map_wf (g_grants (mt_kernel m)) \<and>
     (\<forall>c. enat (mt_started m c) + stock (g_grants (mt_kernel m)) c \<le> enat (yes c)) \<and>
     (\<forall>c. c \<notin> set capability_names \<longrightarrow> yes c = 0)"

lemma stock_live: "live g c \<longleftrightarrow> stock g c \<noteq> 0"
proof (cases "map_of g c")
  case (Some u)
  then show ?thesis by (cases u) (auto simp: live_def stock_def zero_enat_def)
qed (simp add: live_def stock_def)

lemma stock_consume:
  assumes "map_wf g" "live g c"
  shows "stock (consume c g) d + (if d = c then 1 else 0) = stock g d \<or> stock g c = \<infinity>"
proof -
  obtain u where u: "map_of g c = Some u" "Fin 0 < u" using assms(2) by (auto simp: live_def)
  show ?thesis
  proof (cases u)
    case (Fin n)
    with u have "0 < n" by simp
    then have "enat (nat (n - 1)) + 1 = enat (nat n)" by (simp add: one_enat_def)
    with u Fin \<open>0 < n\<close> show ?thesis
      by (auto simp: stock_def consume_def update_conv' delete_conv' one_enat_def zero_enat_def)
  qed (use u in \<open>simp add: stock_def\<close>)
qed

lemma stock_grant_one: "stock (grant c (Fin 1) g) d \<le> stock g d + (if d = c then 1 else 0)"
  by (auto simp: stock_def grant_def Let_def update_conv' one_enat_def zero_enat_def split: option.splits uses.splits)

lemma lookup_grant: "registry_get (kernel_registry env) ''sys.grant'' = Some (sysCaps env (kernel_infos env) ! 4)"
  using table_lookup [of "sysCaps env (kernel_infos env) ! 4" env] by (simp add: kernel_table_def sysCaps_def cap_def)

text \<open>What a one-shot grant of the operator does to the gate.\<close>

lemma grant_call:
  fixes target :: string and k :: kernel
  defines "args \<equiv> [(''token'', JStr (g_token k)), (''target'', JStr target), (''uses'', JNum 1)]"
  shows "g_grants (snd (kernel_call env clk ''sys.grant'' args k)) = grant target (Fin 1) (g_grants k)"
    and "\<not> starts_risky clk (kernel_registry env) ''sys.grant'' args k"
  by (simp_all add: args_def kernel_call_def dispatch_def admit_def starts_risky_def lookup_grant sysCaps_def cap_def decide_def
      validate_def Let_def params_of_def described_def or_empty_def settle_def type_ok_def audit_append_def sys_grant_def
      arg_num_def num_int_def arg_str_def split: sum.splits)

text \<open>A call without the token takes a use off the grant it is charged to, if it starts anything.\<close>

lemma call_charges:
  assumes "g_mode k = Guarded" "map_wf (g_grants k)" "\<not> holds_token (g_token k) ps"
  shows "map_wf (g_grants (snd (kernel_call env clk c ps k)))"
    and "if starts_risky clk (kernel_registry env) c ps k
      then \<exists>key. (key = c \<or> key \<in> {''write'', ''exec'', ''all''}) \<and> live (g_grants k) key \<and>
        g_grants (snd (kernel_call env clk c ps k)) = consume key (g_grants k)
      else g_grants (snd (kernel_call env clk c ps k)) = g_grants k"
proof -
  have g: "g_grants (snd (kernel_call env clk c ps k)) = g_grants (snd (admit clk (kernel_registry env) c ps k))"
    using kt.dispatch_grants [OF assms(3)] by (simp add: kernel_call_gate)
  show "map_wf (g_grants (snd (kernel_call env clk c ps k)))"
    using kt.guarded_request_budget(1) [OF assms] by (simp add: kernel_call_gate)
  show "if starts_risky clk (kernel_registry env) c ps k
      then \<exists>key. (key = c \<or> key \<in> {''write'', ''exec'', ''all''}) \<and> live (g_grants k) key \<and>
        g_grants (snd (kernel_call env clk c ps k)) = consume key (g_grants k)
      else g_grants (snd (kernel_call env clk c ps k)) = g_grants k"
  proof (cases "registry_get (kernel_registry env) c")
    case None
    then show ?thesis by (simp add: g starts_risky_def admit_def)
  next
    case (Some d)
    let ?key = "permitKey c (cap_risk d) (g_grants k)"
    have key: "(x = c \<or> x \<in> {''write'', ''exec'', ''all''}) \<and> live (g_grants k) x" if "?key = Some x" "cap_risk d \<noteq> Read" for x
      using that permitKey_live [OF that(1)] by (cases "cap_risk d") (auto simp: permitKey_cases split: if_splits)
    define v where "v = validate (cap_params d) ps"
    show ?thesis
    proof (cases "cap_risk d = Read")
      case True
      with Some show ?thesis by (cases v) (simp_all add: g starts_risky_def admit_def decide_def Let_def flip: v_def)
    next
      case False
      show ?thesis
      proof (cases ?key)
        case None
        with False Some assms(1) show ?thesis by (simp add: g starts_risky_def admit_def decide_def Let_def)
      next
        case (Some x)
        with False \<open>registry_get (kernel_registry env) c = Some d\<close> key [OF Some False] assms(1)
        show ?thesis by (cases v) (auto simp: g starts_risky_def admit_def decide_def Let_def simp flip: v_def)
      qed
    qed
  qed
qed

lemma metered_fields:
  assumes "mt_hosts m (mt_tick m) = (env, clk)"
  shows "mt_kernel (snd (metered c ps m)) = snd (kernel_call env clk c ps (mt_kernel m))"
    and "mt_started (snd (metered c ps m)) =
      (mt_started m)(c := mt_started m c + of_bool (starts_risky clk (kernel_registry env) c ps (mt_kernel m)))"
  by (simp_all add: metered_def assms kernel_caller_def split_beta)

lemma consentedD:
  assumes "consented token yes m"
  shows "g_mode (mt_kernel m) = Guarded" "g_token (mt_kernel m) = token" "map_wf (g_grants (mt_kernel m))"
    "enat (mt_started m c) + stock (g_grants (mt_kernel m)) c \<le> enat (yes c)"
    "c \<notin> set capability_names \<Longrightarrow> yes c = 0"
  using assms by (auto simp: consented_def)

lemma stock_bounded: "enat n + stock g c \<le> enat y \<Longrightarrow> live g c \<Longrightarrow> stock g c \<noteq> \<infinity> \<and> y \<noteq> 0"
  using stock_live [of g c] by (cases "stock g c") (auto simp: zero_enat_def)

lemma no_class_names: "''write'' \<notin> set capability_names" "''exec'' \<notin> set capability_names" "''all'' \<notin> set capability_names"
  by code_simp+

lemma consented_call:
  assumes "consented token yes m" "\<not> holds_token token ps"
  shows "consented token yes (snd (metered c ps m))"
proof -
  obtain env clk where host: "mt_hosts m (mt_tick m) = (env, clk)" by fastforce
  define k where "k = mt_kernel m"
  define k' where "k' = snd (kernel_call env clk c ps k)"
  define started where "started = starts_risky clk (kernel_registry env) c ps k"
  note m' = metered_fields [OF host, of c ps, folded k_def, folded k'_def started_def]
  note inv = consentedD [OF assms(1), folded k_def]
  note charge = call_charges [where k = k and ps = ps and env = env and clk = clk and c = c, OF inv(1,3),
      unfolded inv(2), OF assms(2), folded k'_def started_def]
  have frame: "g_mode k' = Guarded" "g_token k' = token"
    using inv(1,2) by (simp_all add: k'_def k_def kernel_call_gate)
  have "enat (((mt_started m)(c := mt_started m c + of_bool started)) d) + stock (g_grants k') d \<le> enat (yes d)" for d
  proof (cases started)
    case True
    with charge(2) obtain key where key: "key = c \<or> key \<in> {''write'', ''exec'', ''all''}" "live (g_grants k) key"
        "g_grants k' = consume key (g_grants k)" by auto
    note b = stock_bounded [OF inv(4) key(2)]
    have "key \<in> set capability_names" by (rule ccontr) (use b inv(5) in simp)
    then have "key = c" using key(1) no_class_names by auto
    then have "stock (g_grants k) d = stock (g_grants k') d + (if d = c then 1 else 0)"
      using stock_consume [OF inv(3) key(2), of d] key(3) b by auto
    with inv(4) [of d] True show ?thesis
      by (cases "d = c"; cases "stock (g_grants k') d") (auto simp: one_enat_def)
  next
    case False
    with charge(2) inv(4) [of d] show ?thesis by simp
  qed
  then show ?thesis
    unfolding consented_def m' using frame charge(1) inv(5) by blast
qed

lemma consented_more: "consented token yes m \<Longrightarrow> c \<in> set capability_names \<Longrightarrow> consented token (yes(c := Suc (yes c))) m"
  unfolding consented_def by (auto intro: order_trans [of _ "enat (yes c)" "enat (Suc (yes c))"])

lemma consented_grant:
  assumes "consented token yes m" "c \<in> set capability_names"
  shows "consented token (yes(c := Suc (yes c))) (snd (shell_granter metered token c m))"
proof -
  obtain env clk where host: "mt_hosts m (mt_tick m) = (env, clk)" by fastforce
  define k where "k = mt_kernel m"
  define k' where "k' = snd (kernel_call env clk ''sys.grant'' [(''token'', JStr token), (''target'', JStr c), (''uses'', JNum 1)] k)"
  note inv = consentedD [OF assms(1), folded k_def]
  note effect = grant_call [where env = env and clk = clk and target = c and k = k, unfolded inv(2), folded k'_def]
  have snd_granter: "snd (shell_granter metered token c m) =
      snd (metered ''sys.grant'' [(''token'', JStr token), (''target'', JStr c), (''uses'', JNum 1)] m)"
    by (auto simp: shell_granter_def void_grant_def split: prod.split sum.split)
  note m' = metered_fields [OF host, folded k_def]
  have frame: "g_mode k' = Guarded" "g_token k' = token" using inv(1,2) by (simp_all add: k'_def kernel_call_gate)
  have bound: "enat (mt_started m d) + stock (g_grants k') d \<le> enat ((yes(c := Suc (yes c))) d)" for d
  proof -
    have "enat (mt_started m d) + stock (g_grants k') d
        \<le> enat (mt_started m d) + (stock (g_grants k) d + (if d = c then 1 else 0))"
      unfolding effect(1) by (intro add_left_mono stock_grant_one)
    also have "\<dots> \<le> enat (yes d) + (if d = c then 1 else 0)"
      using add_right_mono [OF inv(4) [of d]] by (simp add: add.assoc)
    finally show ?thesis by (simp add: one_enat_def split: if_splits)
  qed
  have wf: "map_wf (g_grants k')" unfolding effect(1) by (rule grant_wf [OF inv(3)])
  have names: "d \<notin> set capability_names \<Longrightarrow> (yes(c := Suc (yes c))) d = 0" for d using inv(5) assms(2) by auto
  show ?thesis
    unfolding consented_def snd_granter m' k'_def [symmetric] using frame bound wf names effect(2) by simp
qed

section \<open>No call without consent\<close>

lemma watched_fields [simp]:
  "ag_chat (watched_agent chat consult token prompt tb) = on_host chat" "ag_call (watched_agent chat consult token prompt tb) = metered"
  "ag_approver (watched_agent chat consult token prompt tb) = Some (counted consult)"
  "ag_granter (watched_agent chat consult token prompt tb) = Some (shell_granter metered token)"
  "ag_tap (watched_agent chat consult token prompt tb) = None" "ag_tables (watched_agent chat consult token prompt tb) = tb"
  "ag_system (watched_agent chat consult token prompt tb) = prompt"
  by (simp_all add: watched_agent_def)

lemma consented_authorize:
  assumes "consented token (snd hy) m" "c \<in> set capability_names"
    and "authorize (watched_agent chat consult token prompt tb) c args risk hy m = (r, hy', m')"
  shows "consented token (snd hy') m'"
proof -
  obtain h yes where hy: "hy = (h, yes)" by fastforce
  obtain x h' where x: "consult c args risk h = (x, h')" by fastforce
  obtain y m1 where y: "shell_granter metered token c m = (y, m1)" by fastforce
  have "consented token yes m" "consented token (yes(c := Suc (yes c))) m1"
    using assms(1) consented_grant [OF _ assms(2), of token yes m] y by (simp_all add: hy)
  with assms(3) show ?thesis
    by (auto simp: authorize_def counted_def hy x y split: if_splits sum.splits bool.splits)
qed

lemma consented_syscall:
  assumes "consented token (snd hy) m" "\<And>t c. map_of (tb_names tb) t = Some c \<Longrightarrow> c \<in> set capability_names"
    and "\<not> holds_token token args"
    and "run_syscall (watched_agent chat consult token prompt tb) t args hy m = (r, hy', m')"
  shows "consented token (snd hy') m'"
proof (cases "map_of (tb_names tb) t")
  case None
  with assms(1,4) show ?thesis by (simp add: run_syscall_def)
next
  case (Some c)
  define risk where "risk = (case map_of (tb_risks tb) t of None \<Rightarrow> JStr ''read'' | Some r \<Rightarrow> r)"
  obtain x hy1 m1 where auth: "authorize (watched_agent chat consult token prompt tb) c args risk hy m = (x, hy1, m1)"
    using prod_cases3 by blast
  obtain y m2 where call: "metered c args m1 = (y, m2)" by fastforce
  have "consented token (snd hy1) m1" by (rule consented_authorize [OF assms(1) assms(2) [OF Some] auth])
  moreover from consented_call [OF this assms(3), of c] have "consented token (snd hy1) m2" by (simp add: call)
  moreover have "hy' = hy1 \<and> (m' = m1 \<or> m' = m2)"
    using assms(4) by (auto simp: run_syscall_def Some auth call simp flip: risk_def split: sum.splits bool.splits py_exc.splits)
  ultimately show ?thesis by auto
qed

text \<open>The watched agent keeps the account, given the names it may use and a model without the token.\<close>

definition watched_inv ::
  "(string \<Rightarrow> message list \<Rightarrow> tool list \<Rightarrow> 'h \<Rightarrow> reply py \<times> 'h) \<Rightarrow> string \<Rightarrow> tables \<Rightarrow> 'h \<times> consents \<Rightarrow> meter \<Rightarrow> bool" where
  "watched_inv chat token tb hy m \<longleftrightarrow>
     never_says token chat \<and> list_all (\<lambda>(t, c). c \<in> set capability_names) (tb_names tb) \<and> consented token (snd hy) m"

lemma watched_names: "watched_inv chat token tb hy m \<Longrightarrow> map_of (tb_names tb) t = Some c \<Longrightarrow> c \<in> set capability_names"
  by (auto simp: watched_inv_def list_all_iff dest: map_of_SomeD)

interpretation watched: agent_contract "watched_agent chat consult token prompt tb" "watched_inv chat token tb" "innocent token"
  for chat consult token prompt tb
proof
  fix h g prompt' ms tools r h'
  assume *: "watched_inv chat token tb h g" "ag_chat (watched_agent chat consult token prompt tb) prompt' ms tools h = (r, h')"
  obtain h0 yes where h: "h = (h0, yes)" by fastforce
  have "case fst (chat prompt' ms tools h0) of Inl e \<Rightarrow> True | Inr rep \<Rightarrow> list_all (innocent token) (rp_calls rep)"
    using *(1) unfolding watched_inv_def never_says_def by blast
  with * show "watched_inv chat token tb h' g \<and> (case r of Inl e \<Rightarrow> True | Inr rep \<Rightarrow> list_all (innocent token) (rp_calls rep))"
    by (auto simp: on_host_def h watched_inv_def split: prod.splits)
next
  fix h g tc args x h' g'
  assume *: "watched_inv chat token tb h g" "innocent token tc" "dict_of (tc_args tc) = Some args"
    "run_syscall (watched_agent chat consult token prompt tb) (tc_name tc) args h g = (x, h', g')"
  have "\<not> holds_token token args" using *(2,3) by (simp add: innocent_def)
  from consented_syscall [OF _ watched_names [OF *(1)] this *(4)] *(1)
  show "watched_inv chat token tb h' g'" by (simp add: watched_inv_def)
qed

text \<open>
  C3. On a guarded kernel with nothing granted, whatever the model asks for and however its turns end,
  each capability that writes or runs anything is started at most as often as the operator agreed to
  it by name: every start spends a consent of its own.
\<close>

theorem no_call_without_consent:
  assumes "g_mode k = Guarded" "g_grants k = []" "never_says (g_token k) chat"
    and "list_all (\<lambda>(t, c). c \<in> set capability_names) (tb_names tb)"
  shows "mt_started (se_gate (run_turns (watched_agent chat consult (g_token k) prompt tb) msgs
            (fresh_session (h, \<lambda>c. 0) (new_meter k hosts)))) c
      \<le> snd (se_host (run_turns (watched_agent chat consult (g_token k) prompt tb) msgs
            (fresh_session (h, \<lambda>c. 0) (new_meter k hosts)))) c"
proof -
  let ?st = "fresh_session (h, \<lambda>c. 0) (new_meter k hosts)"
  have "watched_inv chat (g_token k) tb (se_host ?st) (se_gate ?st)"
    using assms by (simp add: watched_inv_def consented_def fresh_session_def new_meter_def stock_def zero_enat_def map_wf_def)
  from watched.turns_keep [OF this] have "consented (g_token k)
      (snd (se_host (run_turns (watched_agent chat consult (g_token k) prompt tb) msgs ?st)))
      (se_gate (run_turns (watched_agent chat consult (g_token k) prompt tb) msgs ?st))" by (simp add: watched_inv_def)
  note bound = consentedD(4) [OF this, of c]
  show ?thesis
    by (rule enat_ord_simps(1) [THEN iffD1]) (rule order_trans [OF _ bound], simp)
qed

text \<open>An operator who agrees to everything, and a model that always writes the same note.\<close>

definition note_call :: tool_call where
  "note_call = \<lparr>tc_id = ''call_0'', tc_name = ''fs_write'', tc_args = JObj [(''path'', JStr ''/n''), (''content'', JStr ''x'')]\<rparr>"

definition note_taker :: "string \<Rightarrow> message list \<Rightarrow> tool list \<Rightarrow> console_tty \<Rightarrow> reply py \<times> console_tty" where
  "note_taker prompt ms tools t = (Inr \<lparr>rp_content = [], rp_calls = [note_call]\<rparr>, t)"

definition guarded_kernel :: kernel where
  "guarded_kernel = granted_kernel\<lparr>g_grants := []\<rparr>"

theorem no_call_without_consent_witness:
  "mt_started (se_gate (run_turns (watched_agent note_taker shell_approver ''secret'' [] (no_tables\<lparr>tb_names := [(''fs_write'', ''fs.write'')]\<rparr>)) [''hi'']
            (fresh_session (\<lparr>te_always = [], te_lines = [''a'']\<rparr>, \<lambda>c. 0) (new_meter guarded_kernel (\<lambda>n. (demo_kenv, demo_clock)))))) ''fs.write''
      \<le> snd (se_host (run_turns (watched_agent note_taker shell_approver ''secret'' [] (no_tables\<lparr>tb_names := [(''fs_write'', ''fs.write'')]\<rparr>)) [''hi'']
            (fresh_session (\<lparr>te_always = [], te_lines = [''a'']\<rparr>, \<lambda>c. 0) (new_meter guarded_kernel (\<lambda>n. (demo_kenv, demo_clock)))))) ''fs.write''"
proof -
  have k: "g_mode guarded_kernel = Guarded" "g_grants guarded_kernel = []" "g_token guarded_kernel = ''secret''"
    by (simp_all add: guarded_kernel_def granted_kernel_def)
  have "innocent ''secret'' note_call" by code_simp
  then have says: "never_says (g_token guarded_kernel) note_taker" by (simp add: never_says_def note_taker_def k)
  have "list_all (\<lambda>(t, c). c \<in> set capability_names) (tb_names (no_tables\<lparr>tb_names := [(''fs_write'', ''fs.write'')]\<rparr>))"
    by code_simp
  from no_call_without_consent [OF k(1,2) says this] show ?thesis unfolding k(3) .
qed

section \<open>What consents leave behind\<close>

text \<open>A call that the gate refuses for its arguments does not spend the use it was granted.\<close>

lemma consent_left_over:
  assumes "g_mode k = Guarded" "map_wf (g_grants k)" "\<not> holds_token (g_token k) ps"
    and "registry_get (kernel_registry env) c = Some d" "validate (cap_params d) ps \<noteq> None"
  shows "g_grants (snd (kernel_call env clk c ps k)) = g_grants k"
proof -
  have "\<not> starts_risky clk (kernel_registry env) c ps k"
    using assms(4,5) by (auto simp: starts_risky_def admit_def Let_def split: option.splits)
  with call_charges(2) [OF assms(1-3), of clk env c] show ?thesis by simp
qed

text \<open>In paranoid mode the shell asks and grants all the same, for nothing.\<close>

lemma paranoid_ignores_consent:
  "g_mode k = Paranoid \<Longrightarrow>
   \<not> starts_risky clk (kernel_registry env) c ps (snd (kernel_caller env' clk' ''sys.grant'' args k) )"
proof -
  assume "g_mode k = Paranoid"
  then have "g_mode (snd (kernel_caller env' clk' ''sys.grant'' args k)) = Paranoid"
    using kernel_call_gate(1) [of env' clk' "''sys.grant''" args k] by (simp add: kernel_caller_def split_beta)
  from kt.paranoid_never_starts [OF this, of env "[(clk, c, ps)]"] show ?thesis by auto
qed

end
