(* ===== verification/VoidBackends.thy ===== *)
theory VoidBackends
  imports VoidOperator
begin

text \<open>
  mind/void_mind/backends.py: how the history of a conversation is put to each provider and how its
  answer becomes a reply, and which provider the environment chooses. The providers' clients are
  packages: what they return is an argument of the definitions.
\<close>

section \<open>Messages for each provider\<close>

definition tool_json :: "string \<Rightarrow> tool \<Rightarrow> json" where
  "tool_json schema_key t =
     JObj [(''name'', JStr (tl_name t)), (''description'', tl_description t), (schema_key, tl_parameters t)]"

definition function_tools :: "tool list \<Rightarrow> json" where
  "function_tools tools =
     (if tools = [] then JNull
      else JArr (map (\<lambda>t. JObj [(''type'', JStr ''function''), (''function'', tool_json ''parameters'' t)]) tools))"

definition said :: "string \<Rightarrow> json \<Rightarrow> json" where
  "said role content = JObj [(''role'', JStr role), (''content'', content)]"

definition with_calls :: "json \<Rightarrow> json list \<Rightarrow> json" where
  "with_calls m calls =
     (case m of JObj ps \<Rightarrow> JObj (ps @ (if calls = [] then [] else [(''tool_calls'', JArr calls)])) | _ \<Rightarrow> m)"

text \<open>Ollama: thinking is switched off by a line of the system prompt unless \<open>VOID_THINK\<close> says so.\<close>

definition ollama_system :: "(string \<times> string) list \<Rightarrow> string \<Rightarrow> string" where
  "ollama_system env prompt =
     (let think = map to_lower (case map_of env ''VOID_THINK'' of None \<Rightarrow> [] | Some v \<Rightarrow> v)
      in if think \<in> {''1'', ''true'', ''on'', ''yes''} then prompt else prompt @ [lf] @ ''/no_think'')"

definition ollama_message :: "message \<Rightarrow> json" where
  "ollama_message m =
     (case m of
        ToolMsg i n c \<Rightarrow> JObj [(''role'', JStr ''tool''), (''tool_name'', JStr n), (''content'', JStr c)]
      | AssistantMsg c tcs \<Rightarrow>
          with_calls (said ''assistant'' (JStr c))
            (map (\<lambda>tc. JObj [(''function'', JObj [(''name'', JStr (tc_name tc)), (''arguments'', tc_args tc)])]) tcs)
      | UserMsg c \<Rightarrow> said ''user'' (JStr c))"

definition ollama_messages :: "(string \<times> string) list \<Rightarrow> string \<Rightarrow> message list \<Rightarrow> json list" where
  "ollama_messages env prompt ms = said ''system'' (JStr (ollama_system env prompt)) # map ollama_message ms"

definition openai_message :: "message \<Rightarrow> json" where
  "openai_message m =
     (case m of
        ToolMsg i n c \<Rightarrow> JObj [(''role'', JStr ''tool''), (''tool_call_id'', JStr i), (''content'', JStr c)]
      | AssistantMsg c tcs \<Rightarrow>
          with_calls (said ''assistant'' (if c = [] then JNull else JStr c))
            (map (\<lambda>tc. JObj [(''id'', JStr (tc_id tc)), (''type'', JStr ''function''),
               (''function'', JObj [(''name'', JStr (tc_name tc)), (''arguments'', JStr (py_dumps (tc_args tc)))])]) tcs)
      | UserMsg c \<Rightarrow> said ''user'' (JStr c))"

definition openai_messages :: "string \<Rightarrow> message list \<Rightarrow> json list" where
  "openai_messages prompt ms = said ''system'' (JStr prompt) # map openai_message ms"

text \<open>
  Anthropic: a message of the user is a text or a list of tool results, one of the assistant a list of
  blocks, or its empty text when there are none.
\<close>

datatype block = TextBlock string | ToolUse string string json

datatype amsg =
    AText string
  | AResults "(string \<times> string) list"      \<comment> \<open>id of the call, content\<close>
  | AAssistant "block list"

definition blocks_of :: "string \<Rightarrow> tool_call list \<Rightarrow> block list" where
  "blocks_of c tcs =
     (if c = [] then [] else [TextBlock c]) @ map (\<lambda>tc. ToolUse (tc_id tc) (tc_name tc) (tc_args tc)) tcs"

definition anthropic_add :: "amsg list \<Rightarrow> message \<Rightarrow> amsg list" where
  "anthropic_add as m =
     (case m of
        UserMsg c \<Rightarrow> as @ [AText c]
      | AssistantMsg c tcs \<Rightarrow> as @ [AAssistant (blocks_of c tcs)]
      | ToolMsg i n c \<Rightarrow>
          (case rev as of
             AResults rs # before \<Rightarrow> rev before @ [AResults (rs @ [(i, c)])]
           | _ \<Rightarrow> as @ [AResults [(i, c)]]))"

definition anthropic_messages :: "message list \<Rightarrow> amsg list" where
  "anthropic_messages ms = foldl anthropic_add [] ms"

fun block_json :: "block \<Rightarrow> json" where
  "block_json (TextBlock c) = JObj [(''type'', JStr ''text''), (''text'', JStr c)]"
| "block_json (ToolUse i n x) =
     JObj [(''type'', JStr ''tool_use''), (''id'', JStr i), (''name'', JStr n), (''input'', x)]"

fun amsg_json :: "amsg \<Rightarrow> json" where
  "amsg_json (AText c) = said ''user'' (JStr c)"
| "amsg_json (AResults rs) = said ''user''
     (JArr (map (\<lambda>(i, c). JObj [(''type'', JStr ''tool_result''), (''tool_use_id'', JStr i), (''content'', JStr c)]) rs))"
| "amsg_json (AAssistant bs) = said ''assistant'' (if bs = [] then JStr [] else JArr (map block_json bs))"

definition anthropic_request :: "string \<Rightarrow> int \<Rightarrow> string \<Rightarrow> message list \<Rightarrow> tool list \<Rightarrow> json" where
  "anthropic_request model max_tokens prompt ms tools =
     JObj ([(''model'', JStr model), (''system'', JStr prompt), (''max_tokens'', JNum max_tokens),
            (''messages'', JArr (map amsg_json (anthropic_messages ms)))] @
           (if tools = [] then [] else [(''tools'', JArr (map (tool_json ''input_schema'') tools))]))"

section \<open>Answers\<close>

text \<open>The calls of an Ollama answer are numbered, each answer from zero.\<close>

definition ollama_reply :: "string option \<Rightarrow> (string \<times> json) list \<Rightarrow> reply py" where
  "ollama_reply content calls =
     (case those (map (\<lambda>(name, args). map_option (Pair name) (dict_of args)) calls) of
        None \<Rightarrow> Inl (PyError ''TypeError'')
      | Some cs \<Rightarrow> Inr
          \<lparr>rp_content = (case content of None \<Rightarrow> [] | Some c \<Rightarrow> c),
           rp_calls = map (\<lambda>(i, name, args). \<lparr>tc_id = ''call_'' @ nat_str i, tc_name = name, tc_args = JObj args\<rparr>)
             (List.enumerate 0 cs)\<rparr>)"

text \<open>The arguments of an OpenAI call are a text; one that is no JSON counts as no arguments.\<close>

definition openai_args :: "string \<Rightarrow> json" where
  "openai_args arguments =
     (case json_parse (if arguments = [] then [CHR 0x7B, CHR 0x7D] else arguments) of None \<Rightarrow> JObj [] | Some v \<Rightarrow> v)"

definition openai_reply :: "string option \<Rightarrow> (string \<times> string \<times> string) list \<Rightarrow> reply" where
  "openai_reply content calls =
     \<lparr>rp_content = (case content of None \<Rightarrow> [] | Some c \<Rightarrow> c),
      rp_calls = map (\<lambda>(i, name, arguments). \<lparr>tc_id = i, tc_name = name, tc_args = openai_args arguments\<rparr>) calls\<rparr>"

fun anthropic_reply :: "block list \<Rightarrow> reply py" where
  "anthropic_reply [] = Inr \<lparr>rp_content = [], rp_calls = []\<rparr>"
| "anthropic_reply (TextBlock c # bs) =
     (case anthropic_reply bs of Inl e \<Rightarrow> Inl e | Inr rep \<Rightarrow> Inr (rep\<lparr>rp_content := c @ rp_content rep\<rparr>))"
| "anthropic_reply (ToolUse i n x # bs) =
     (case dict_of x of
        None \<Rightarrow> Inl (PyError ''TypeError'')
      | Some args \<Rightarrow>
          (case anthropic_reply bs of
             Inl e \<Rightarrow> Inl e
           | Inr rep \<Rightarrow> Inr (rep\<lparr>rp_calls := \<lparr>tc_id = i, tc_name = n, tc_args = JObj args\<rparr> # rp_calls rep\<rparr>)))"

section \<open>The choice of the provider\<close>

definition make_backend :: "(string \<times> string) list \<Rightarrow> string" where
  "make_backend env =
     (let get = (\<lambda>k. case map_of env k of None \<Rightarrow> [] | Some v \<Rightarrow> v);
          named = backend_name (get ''VOID_BACKEND'');
          choice = (if named \<noteq> [] then named
                    else if get ''ANTHROPIC_API_KEY'' \<noteq> [] then ''anthropic''
                    else if get ''OPENAI_API_KEY'' \<noteq> [] then ''openai'' else ''ollama'')
      in if choice = ''openai'' \<or> choice = ''anthropic'' then choice else ''ollama'')"

definition backend_model :: "string \<Rightarrow> (string \<times> string) list \<Rightarrow> string" where
  "backend_model name env =
     (case map_of env ''VOID_MODEL'' of
        Some m \<Rightarrow> m
      | None \<Rightarrow> if name = ''openai'' then ''gpt-4o'' else if name = ''anthropic'' then ''claude-opus-4-8'' else ''gpt-oss:120b'')"

text \<open>The backend made; the constructor of a client may fail, as the package decides.\<close>

definition build_backend ::
  "(string \<Rightarrow> (string \<times> string) list \<Rightarrow> string option) \<Rightarrow> (string \<times> string) list \<Rightarrow> (string \<times> string) result" where
  "build_backend failure env =
     (let name = make_backend env
      in case failure name env of Some e \<Rightarrow> throw e | None \<Rightarrow> return (name, backend_model name env))"

section \<open>A conversation keeps its pairs\<close>

text \<open>
  What the Messages API asks for: the results of the calls of an assistant message are all in the next
  message, under their ids and in order, and results stand nowhere else.
\<close>

definition use_ids :: "block list \<Rightarrow> string list" where
  "use_ids bs = concat (map (\<lambda>b. case b of ToolUse i n x \<Rightarrow> [i] | TextBlock c \<Rightarrow> []) bs)"

fun paired :: "string list \<Rightarrow> amsg list \<Rightarrow> bool" where
  "paired p [] \<longleftrightarrow> p = []"
| "paired p (AText c # as) \<longleftrightarrow> p = [] \<and> paired [] as"
| "paired p (AAssistant bs # as) \<longleftrightarrow> p = [] \<and> paired (use_ids bs) as"
| "paired p (AResults rs # as) \<longleftrightarrow> p \<noteq> [] \<and> map fst rs = p \<and> paired [] as"

lemma paired_append: "paired p as \<Longrightarrow> paired p (as @ as') \<longleftrightarrow> paired [] as'"
  by (induction p as rule: paired.induct) auto

lemma use_ids_blocks: "use_ids (blocks_of c tcs) = map tc_id tcs"
  by (simp add: use_ids_def blocks_of_def comp_def)

text \<open>Where the translation stands in the middle of a conversation.\<close>

definition half_paired :: "tool_call list \<Rightarrow> amsg list \<Rightarrow> bool" where
  "half_paired q as \<longleftrightarrow>
     (if q = [] then paired [] as
      else \<exists>before bs. paired [] before \<and>
        (as = before @ [AAssistant bs] \<and> use_ids bs = map tc_id q \<or>
         (\<exists>rs. as = before @ [AAssistant bs, AResults rs] \<and> use_ids bs = map fst rs @ map tc_id q)))"

lemma half_paired_result:
  assumes "half_paired (q # qs) as"
  shows "half_paired qs (anthropic_add as (ToolMsg (tc_id q) n c))"
proof -
  obtain before bs where b: "paired [] before"
      "as = before @ [AAssistant bs] \<and> use_ids bs = map tc_id (q # qs) \<or>
       (\<exists>rs. as = before @ [AAssistant bs, AResults rs] \<and> use_ids bs = map fst rs @ map tc_id (q # qs))"
    using assms by (auto simp: half_paired_def)
  from b(2) obtain rs where "anthropic_add as (ToolMsg (tc_id q) n c) = before @ [AAssistant bs, AResults rs]"
      "use_ids bs = map fst rs @ map tc_id qs" "rs \<noteq> []"
    by (auto simp: anthropic_add_def)
  with b(1) show ?thesis
    by (cases "qs = []") (auto simp: half_paired_def paired_append intro!: exI [of _ before] exI [of _ bs])
qed

lemma half_paired_history: "pending [] ms = Some q \<Longrightarrow> half_paired q (anthropic_messages ms)"
proof (induction ms arbitrary: q rule: rev_induct)
  case Nil
  then show ?case by (simp add: half_paired_def anthropic_messages_def)
next
  case (snoc m ms)
  then obtain p where p: "pending [] ms = Some p" "pending p [m] = Some q"
    by (auto simp: pending_append split: option.splits)
  have IH: "half_paired p (anthropic_messages ms)" by (rule snoc.IH [OF p(1)])
  have step: "anthropic_messages (ms @ [m]) = anthropic_add (anthropic_messages ms) m" by (simp add: anthropic_messages_def)
  show ?case
  proof (cases m)
    case (UserMsg c)
    with p(2) IH show ?thesis unfolding step
      by (auto simp: anthropic_add_def half_paired_def paired_append split: if_splits)
  next
    case (AssistantMsg c tcs)
    with p(2) IH show ?thesis unfolding step
      by (auto simp: anthropic_add_def half_paired_def paired_append use_ids_blocks split: if_splits)
  next
    case (ToolMsg i n c)
    with p(2) IH half_paired_result show ?thesis unfolding step by (auto split: list.splits if_splits)
  qed
qed

text \<open>
  C25. What the Anthropic backend sends of a conversation is well formed for its provider: all the
  results of the calls of an assistant message are in the next message, under their ids, in their
  order, and no result stands anywhere else.
\<close>

theorem anthropic_pairs:
  assumes "conversation ms"
  shows "paired [] (anthropic_messages ms)"
  using half_paired_history [of ms "[]"] assms by (simp add: conversation_def half_paired_def)

theorem anthropic_pairs_witness:
  "paired [] (anthropic_messages [UserMsg ''hi'', AssistantMsg ''look'' [lone_call, note_call],
     ToolMsg ''call_0'' ''sys_info'' ''null'', ToolMsg ''call_0'' ''fs_write'' ''null'', AssistantMsg ''done'' []])"
proof (rule anthropic_pairs)
  show "conversation [UserMsg ''hi'', AssistantMsg ''look'' [lone_call, note_call],
     ToolMsg ''call_0'' ''sys_info'' ''null'', ToolMsg ''call_0'' ''fs_write'' ''null'', AssistantMsg ''done'' []]" by code_simp
qed

section \<open>The backend that is asked for\<close>

text \<open>A switch that is accepted and names a backend makes that backend, with the model it names or the default.\<close>

lemma switch_makes_backend:
  assumes "switch_refusal backend key s = None" "backend_name backend \<noteq> []"
    and "switch_backend (build_backend failure) backend model key host s = (v, s')" "cs_companion s' = Some (name, m)"
  shows "name = backend_name backend"
proof -
  define b where "b = backend_name backend"
  define s1 where "s1 = switch_env b model key host s"
  have b: "b \<in> {''ollama'', ''openai'', ''anthropic''}"
    using assms(1,2) by (auto simp: switch_refusal_def b_def backends_def Let_def split: if_splits)
  have var: "key_env t \<noteq> Some ''VOID_BACKEND''" for t by (simp add: key_env_def)
  have "map_of (cs_env s1) ''VOID_BACKEND'' = Some b"
    using assms(2) var by (auto simp: s1_def switch_env_def Let_def update_conv' delete_conv' b_def split: option.split)
  moreover have "backend_name b = b" using b by (elim insertE emptyE; simp only:; code_simp)
  ultimately have made: "make_backend (cs_env s1) = b" using b by (auto simp: make_backend_def Let_def)
  obtain r s2 where r: "get_companion (build_backend failure) (s1\<lparr>cs_companion := None\<rparr>) = (r, s2)" by fastforce
  have "s' = s2"
    using assms(2,3) r
    unfolding switch_backend_def assms(1) option.case Let_def b_def [symmetric] s1_def [symmetric]
    by (auto split: sum.splits prod.splits)
  with assms(4) r made show ?thesis
    by (auto simp: get_companion_def build_backend_def Let_def b_def [symmetric] split: if_splits option.splits)
qed

text \<open>The switch compares \<open>VOID_BACKEND\<close> as it is written, the choice of the backend does not: the key is not asked for.\<close>

lemma capital_dodges_key:
  "switch_refusal [] [] \<lparr>cs_env = [(''VOID_BACKEND'', ''OpenAI'')], cs_companion = None\<rparr> = None"
  "make_backend [(''VOID_BACKEND'', ''OpenAI'')] = ''openai''"
  by code_simp+

end
