(* ===== verification/VoidChat.thy ===== *)
theory VoidChat
  imports VoidBackends VoidViewer
begin

text \<open>
  The routes of ui/server.py that lead to the mind: the agent of the console and the companion, what
  main grants them at the start, the two chat routes and the calls they report. The text of an
  exception that is not the client's is the argument \<open>message\<close>. Stand-ins: 0x97 the dash.
\<close>

section \<open>The console opens the gate\<close>

text \<open>The console acts for the operator: under the guarded policy it grants everything for good.\<close>

definition console_open :: "'g caller \<Rightarrow> string \<Rightarrow> 'g \<Rightarrow> unit py \<times> 'g" where
  "console_open call token g =
     (case void_policy call g of
        (Inl e, g1) \<Rightarrow> (Inl e, g1)
      | (Inr (JObj ps), g1) \<Rightarrow>
          if py_get_or ps ''mode'' JNull = JStr ''guarded'' then
            (case void_grant call ''all'' (- 1) token g1 of (Inl e, g2) \<Rightarrow> (Inl e, g2) | (Inr _, g2) \<Rightarrow> (Inr (), g2))
          else (Inr (), g1)
      | (Inr _, g1) \<Rightarrow> (Inl (PyError ''AttributeError''), g1))"

definition no_model :: "(string \<times> string) list \<Rightarrow> bool" where
  "no_model env \<longleftrightarrow> (case map_of env ''OLLAMA_API_KEY'' of None \<Rightarrow> True | Some v \<Rightarrow> v = []) \<and> map_of env ''OLLAMA_HOST'' = None"

text \<open>\<open>get_agent\<close> and \<open>get_companion\<close> when there is none yet: they differ in prompt and exclusions.\<close>

definition open_agent ::
  "(string \<times> string) list \<Rightarrow> (string \<Rightarrow> message list \<Rightarrow> tool list \<Rightarrow> 'h \<Rightarrow> reply py \<times> 'h) \<Rightarrow> 'g caller \<Rightarrow>
   string \<Rightarrow> string \<Rightarrow> string list \<Rightarrow> 'g \<Rightarrow> ('h, 'g) agent py \<times> 'g" where
  "open_agent env chat call token prompt exclude g =
     (if no_model env then (Inl (PyError ''RuntimeError''), g)
      else case console_open call token g of
        (Inl e, g1) \<Rightarrow> (Inl e, g1)
      | (Inr _, g1) \<Rightarrow>
          new_agent \<lparr>ag_system = prompt, ag_chat = chat, ag_call = call, ag_approver = None, ag_granter = None,
                     ag_tap = None, ag_tables = no_tables\<rparr> exclude g1)"

definition companion_excludes :: "string list" where
  "companion_excludes = [''desktop.'', ''sys.'', ''proc.'', ''svc.'']"

section \<open>The chat routes\<close>

type_synonym tried = "string \<times> jobject \<times> json"

definition lifted ::
  "(string \<Rightarrow> jobject \<Rightarrow> json \<Rightarrow> 'h \<Rightarrow> bool py \<times> 'h) \<Rightarrow> string \<Rightarrow> jobject \<Rightarrow> json \<Rightarrow> 'h \<times> 'y \<Rightarrow> bool py \<times> 'h \<times> 'y" where
  "lifted consult c args risk hy = (case hy of (h, y) \<Rightarrow> case consult c args risk h of (r, h') \<Rightarrow> (r, h', y))"

text \<open>\<open>agent.tap\<close> is set for the turn: each call that is tried is appended to the list.\<close>

definition tapped :: "('h, 'g) agent \<Rightarrow> ('h \<times> tried list, 'g) agent" where
  "tapped ag =
     \<lparr>ag_system = ag_system ag, ag_chat = on_host (ag_chat ag), ag_call = ag_call ag,
      ag_approver = map_option lifted (ag_approver ag), ag_granter = ag_granter ag,
      ag_tap = Some (\<lambda>c args risk (h, seen). (h, seen @ [(c, args, risk)])), ag_tables = ag_tables ag\<rparr>"

definition tried_json :: "tried list \<Rightarrow> json" where
  "tried_json seen = JArr (map (\<lambda>(c, args, risk). JObj [(''capability'', JStr c), (''args'', JObj args), (''risk'', risk)]) seen)"

definition occurs :: "string \<Rightarrow> string \<Rightarrow> bool" where
  "occurs w s \<longleftrightarrow> list_ex (\<lambda>i. take (length w) (drop i s) = w) [0..<Suc (length s)]"

text \<open>\<open>except RuntimeError\<close> takes the client's exceptions too, which are of that class.\<close>

fun runtime_error :: "py_exc \<Rightarrow> bool" where
  "runtime_error (VoidError code msg) = True"
| "runtime_error (PyError c) = (c = ''RuntimeError'')"

definition run_chat ::
  "(py_exc \<Rightarrow> string) \<Rightarrow> string \<Rightarrow> ('h, 'g) agent py \<Rightarrow> string \<Rightarrow> ('h, 'g) session \<Rightarrow> json py \<times> ('h, 'g) session" where
  "run_chat message model got msg st =
     (case got of
        Inl e \<Rightarrow> (if runtime_error e then Inr (JObj [(''error'', JStr (message e))]) else Inl e, st)
      | Inr ag \<Rightarrow>
          (case run_turn (tapped ag) msg \<lparr>se_messages = se_messages st, se_host = (se_host st, []), se_gate = se_gate st\<rparr> of
             (r, st1) \<Rightarrow>
               (Inr (JObj
                  ((case r of
                      Inl e \<Rightarrow>
                        (''error'', JStr
                          (if occurs ''subscription'' (message e)
                           then ''model '' @ [CHR 0x27] @ model @ [CHR 0x27] @ '' needs an Ollama subscription '' @ [CHR 0x97] @
                             '' set VOID_MODEL to an accessible model.''
                           else message e))
                    | Inr reply \<Rightarrow> (''reply'', JStr reply)) #
                   [(''syscalls'', tried_json (snd (se_host st1)))])),
                \<lparr>se_messages = se_messages st1, se_host = fst (se_host st1), se_gate = se_gate st1\<rparr>)))"

text \<open>The companion: \<open>free\<close> tells whether the lock was got within two seconds.\<close>

definition run_her ::
  "(py_exc \<Rightarrow> string) \<Rightarrow> bool \<Rightarrow> ('h, 'g) agent py \<Rightarrow> string \<Rightarrow> ('h, 'g) session \<Rightarrow> json py \<times> ('h, 'g) session" where
  "run_her message free got msg st =
     (if \<not> free then
        (Inr (JObj [(''reply'', JStr (''Still finishing the last thing '' @ [CHR 0x97] @ '' give me a moment, then ask again.''))]), st)
      else case got of
        Inl e \<Rightarrow> (if runtime_error e then Inr (JObj [(''error'', JStr (message e))]) else Inl e, st)
      | Inr ag \<Rightarrow>
          (case run_turn ag msg st of
             (Inr reply, st1) \<Rightarrow> (Inr (JObj [(''reply'', JStr reply)]), st1)
           | (Inl e, st1) \<Rightarrow>
               (Inr (JObj [(''error'', JStr
                  (if occurs ''subscription'' (message e)
                   then ''I can'' @ [CHR 0x27] @ ''t reach my mind right now '' @ [CHR 0x97] @ '' that model needs a subscription.''
                   else message e))]), st1)))"

text \<open>The body of a POST to either route; \<open>text_of\<close> is \<open>str\<close> of a value that is no text.\<close>

definition chat_message :: "(json \<Rightarrow> string) \<Rightarrow> json \<Rightarrow> string option" where
  "chat_message str_of payload =
     (let m = py_strip (case py_get payload ''message'' (JStr []) of JStr s \<Rightarrow> s | v \<Rightarrow> str_of v)
      in if m = [] then None else Some m)"

section \<open>The calls the console shows\<close>

text \<open>The calls of a history that reach the operator's word, with the name and the risk of the capability.\<close>

definition try_of :: "tables \<Rightarrow> tool_call \<Rightarrow> tried list" where
  "try_of tb tc =
     (case (map_of (tb_names tb) (tc_name tc), dict_of (tc_args tc)) of
        (Some c, Some args) \<Rightarrow> [(c, args, case map_of (tb_risks tb) (tc_name tc) of None \<Rightarrow> JStr ''read'' | Some r \<Rightarrow> r)]
      | _ \<Rightarrow> [])"

definition tried_in :: "tables \<Rightarrow> message list \<Rightarrow> tried list" where
  "tried_in tb ms =
     concat (map (\<lambda>m. case m of AssistantMsg c tcs \<Rightarrow> concat (map (try_of tb) tcs) | _ \<Rightarrow> []) ms)"

lemma tried_in_simps [simp]:
  "tried_in tb [] = []" "tried_in tb (ms @ ms') = tried_in tb ms @ tried_in tb ms'"
  "tried_in tb (UserMsg c # ms) = tried_in tb ms" "tried_in tb (ToolMsg i n c # ms) = tried_in tb ms"
  "tried_in tb (AssistantMsg c tcs # ms) = concat (map (try_of tb) tcs) @ tried_in tb ms"
  by (simp_all add: tried_in_def)

lemma tapped_fields [simp]:
  "ag_tables (tapped ag) = ag_tables ag" "ag_chat (tapped ag) = on_host (ag_chat ag)"
  "ag_tap (tapped ag) = Some (\<lambda>c args risk (h, seen). (h, seen @ [(c, args, risk)]))"
  by (simp_all add: tapped_def)

lemma tapped_authorize: "authorize (tapped ag) c args risk (h, seen) g = (r, hy, g') \<Longrightarrow> snd hy = seen"
  by (cases "ag_approver ag")
    (auto simp: authorize_def tapped_def lifted_def split: if_splits sum.splits bool.splits prod.splits option.splits)

lemma tapped_syscall:
  assumes "run_syscall (tapped ag) (tc_name tc) args hy g = (r, hy', g')" "dict_of (tc_args tc) = Some args"
  shows "snd hy' = snd hy @ try_of (ag_tables ag) tc"
proof (cases "map_of (tb_names (ag_tables ag)) (tc_name tc)")
  case None
  with assms show ?thesis by (simp add: run_syscall_def try_of_def)
next
  case (Some c)
  define risk where "risk = (case map_of (tb_risks (ag_tables ag)) (tc_name tc) of None \<Rightarrow> JStr ''read'' | Some r \<Rightarrow> r)"
  obtain h seen where hy: "hy = (h, seen)" by fastforce
  obtain y hy1 g1 where auth: "authorize (tapped ag) c args risk (h, seen @ [(c, args, risk)]) g = (y, hy1, g1)"
    using prod_cases3 by blast
  have "hy' = hy1"
    using assms(1) auth
    by (auto simp: run_syscall_def Some hy simp flip: risk_def split: sum.splits bool.splits py_exc.splits prod.splits)
  with tapped_authorize [OF auth] show ?thesis
    by (simp add: try_of_def Some assms(2) hy risk_def)
qed

lemma run_calls_adds:
  "run_calls ag tcs st = (r, st') \<Longrightarrow> \<exists>more. se_messages st' = se_messages st @ more \<and> tried_in tb more = []"
proof (induction ag tcs st arbitrary: r st' rule: run_calls.induct)
  case (2 ag tc tcs st)
  then show ?case
    by (auto split: option.splits prod.splits sum.splits) (metis append.assoc append_Cons append_Nil tried_in_simps(4))+
qed simp

lemma tapped_calls:
  assumes "run_calls (tapped ag) tcs st = (r, st')"
  shows "\<exists>seen rest. snd (se_host st') = snd (se_host st) @ seen \<and> concat (map (try_of (ag_tables ag)) tcs) = seen @ rest \<and>
    (case r of Inl e \<Rightarrow> True | Inr u \<Rightarrow> rest = [])"
  using assms
proof (induction tcs arbitrary: st)
  case (Cons tc tcs)
  show ?case
  proof (cases "dict_of (tc_args tc)")
    case None
    with Cons.prems show ?thesis by (auto intro: exI [of _ "[]"])
  next
    case (Some args)
    obtain x hy g where call: "run_syscall (tapped ag) (tc_name tc) args (se_host st) (se_gate st) = (x, hy, g)"
      using prod_cases3 by blast
    note seen = tapped_syscall [OF call Some]
    show ?thesis
    proof (cases x)
      case (Inl e)
      with Cons.prems Some call seen show ?thesis by auto
    next
      case (Inr out)
      let ?st = "st\<lparr>se_host := hy, se_gate := g, se_messages := se_messages st @ [ToolMsg (tc_id tc) (tc_name tc) out]\<rparr>"
      have "run_calls (tapped ag) tcs ?st = (r, st')" using Cons.prems Some call Inr by simp
      from Cons.IH [OF this] obtain more rest where "snd (se_host st') = snd hy @ more"
          "concat (map (try_of (ag_tables ag)) tcs) = more @ rest" "case r of Inl e \<Rightarrow> True | Inr u \<Rightarrow> rest = []"
        by auto
      with seen show ?thesis by (intro exI [of _ "try_of (ag_tables ag) tc @ more"] exI [of _ rest]) simp
    qed
  qed
qed auto

lemma tapped_steps:
  assumes "run_steps n (tapped ag) final st = (r, st')"
  shows "\<exists>more seen rest. se_messages st' = se_messages st @ more \<and> snd (se_host st') = snd (se_host st) @ seen \<and>
    tried_in (ag_tables ag) more = seen @ rest \<and> (case r of Inl e \<Rightarrow> True | Inr u \<Rightarrow> rest = [])"
  using assms
proof (induction n arbitrary: final st)
  case 0
  then show ?case by (auto intro: exI [of _ "[]"])
next
  case (Suc n)
  let ?ag = "tapped ag"
  obtain h seen0 where hy: "se_host st = (h, seen0)" by fastforce
  obtain x h' where x: "ag_chat ag (ag_system ag) (se_messages st) (tb_tools (ag_tables ag)) h = (x, h')" by fastforce
  then have chat: "ag_chat ?ag (ag_system ?ag) (se_messages st) (tb_tools (ag_tables ?ag)) (se_host st) = (x, (h', seen0))"
    by (simp add: on_host_def hy tapped_def)
  show ?case
  proof (cases x)
    case (Inl e)
    with Suc.prems chat hy show ?thesis by (auto intro!: exI [of _ "[]"])
  next
    case (Inr rep)
    let ?m = "AssistantMsg (rp_content rep) (rp_calls rep)"
    define st1 where "st1 = st\<lparr>se_host := (h', seen0), se_messages := se_messages st @ [?m]\<rparr>"
    obtain y st2 where calls: "run_calls ?ag (rp_calls rep) st1 = (y, st2)" by fastforce
    have step: "run_steps (Suc n) ?ag final st =
        (if rp_calls rep = [] then (Inr (if rp_content rep = [] then final else rp_content rep), st1)
         else (case y of Inl e \<Rightarrow> (Inl e, st2) | Inr _ \<Rightarrow> run_steps n ?ag (if rp_content rep = [] then final else rp_content rep) st2))"
      using calls chat by (simp only: run_steps.simps Inr prod.case sum.case Let_def st1_def)
    obtain s2 rest2 where s2: "snd (se_host st2) = seen0 @ s2" "concat (map (try_of (ag_tables ag)) (rp_calls rep)) = s2 @ rest2"
        "case y of Inl e \<Rightarrow> True | Inr u \<Rightarrow> rest2 = []"
      using tapped_calls [OF calls] by (auto simp: st1_def)
    obtain m2 where m2: "se_messages st2 = se_messages st @ ?m # m2" "tried_in (ag_tables ag) m2 = []"
      using run_calls_adds [OF calls] by (auto simp: st1_def)
    show ?thesis
    proof (cases "rp_calls rep = []")
      case True
      with step Suc.prems show ?thesis by (intro exI [of _ "[?m]"] exI [of _ "[]"]) (auto simp: st1_def hy)
    next
      case False
      show ?thesis
      proof (cases y)
        case (Inl e)
        with step Suc.prems False m2 s2 show ?thesis
          by (intro exI [of _ "?m # m2"] exI [of _ s2] exI [of _ rest2]) (auto simp: hy)
      next
        case (Inr u)
        then have "run_steps n ?ag (if rp_content rep = [] then final else rp_content rep) st2 = (r, st')"
          using step Suc.prems False by simp
        from Suc.IH [OF this] obtain more seen rest where "se_messages st' = se_messages st2 @ more"
            "snd (se_host st') = snd (se_host st2) @ seen" "tried_in (ag_tables ag) more = seen @ rest"
            "case r of Inl e \<Rightarrow> True | Inr u \<Rightarrow> rest = []" by blast
        with m2 s2 Inr show ?thesis
          by (intro exI [of _ "?m # m2 @ more"] exI [of _ "s2 @ seen"] exI [of _ rest]) (simp add: hy)
      qed
    qed
  qed
qed

text \<open>
  C33. The calls that the console shows with an answer are the calls the model tried during the turn:
  each with its capability, arguments and risk, in order, none left out and none added; with an error
  they are those up to the one where the turn broke off.
\<close>

theorem chat_reports_calls:
  fixes ag :: "('h, 'g) agent"
  shows "case run_chat message model (Inr ag) msg st of
    (Inl e, st') \<Rightarrow> False
  | (Inr v, st') \<Rightarrow>
      \<exists>more seen rest. se_messages st' = se_messages st @ UserMsg msg # more \<and> field v ''syscalls'' = Some (tried_json seen) \<and>
        tried_in (ag_tables ag) more = seen @ rest \<and> (case field v ''error'' of None \<Rightarrow> rest = [] | Some t \<Rightarrow> True)"
proof -
  let ?st = "\<lparr>se_messages = se_messages st, se_host = (se_host st, [] :: tried list), se_gate = se_gate st\<rparr>"
  obtain r st1 where turn: "run_turn (tapped ag) msg ?st = (r, st1)" by fastforce
  from tapped_steps [OF this [unfolded run_turn_def]] show ?thesis
    by (cases r) (auto simp: run_chat_def turn field_def)
qed

section \<open>The console lets its mind do everything\<close>

lemma policy_call:
  "\<exists>k'. kernel_call env clk ''sys.policy'' [] k = (Inr (sys_policy k), k') \<and>
     g_mode k' = g_mode k \<and> g_token k' = g_token k \<and> g_grants k' = g_grants k"
proof -
  have "registry_get (kernel_registry env) ''sys.policy'' = Some (sysCaps env (kernel_infos env) ! 2)"
    using table_lookup [of "sysCaps env (kernel_infos env) ! 2" env] by (simp add: kernel_table_def sysCaps_def cap_def)
  then have "fst (kernel_call env clk ''sys.policy'' [] k) = Inr (sys_policy k)"
    "g_grants (snd (dispatch clk (kernel_registry env) ''sys.policy'' [] k)) = g_grants k"
    by (simp_all add: kernel_call_def dispatch_def admit_def decide_def validate_def sysCaps_def cap_def no_params_def
        params_of_def or_empty_def reads_def settle_def audit_append_def)
  then show ?thesis
    by (intro exI [of _ "snd (kernel_call env clk ''sys.policy'' [] k)"]) (simp add: kernel_call_gate prod_eq_iff)
qed

lemma grant_all_call:
  fixes k :: kernel
  defines "args \<equiv> [(''token'', JStr (g_token k)), (''target'', JStr ''all''), (''uses'', JNum (- 1))]"
  shows "\<exists>v k'. kernel_call env clk ''sys.grant'' args k = (Inr v, k') \<and> g_mode k' = g_mode k \<and>
    map_of (g_grants k') ''all'' = Some Infinity"
proof -
  have "g_grants (snd (kernel_call env clk ''sys.grant'' args k)) = grant ''all'' Infinity (g_grants k) \<and>
      \<not> isl (fst (kernel_call env clk ''sys.grant'' args k))"
    by (simp add: args_def kernel_call_def dispatch_def admit_def lookup_grant sysCaps_def cap_def decide_def
        validate_def Let_def params_of_def described_def or_empty_def settle_def type_ok_def audit_append_def sys_grant_def
        arg_num_def num_int_def arg_str_def)
  moreover have "map_of (grant ''all'' Infinity g) ''all'' = Some Infinity" for g
    by (simp add: grant_def Let_def update_conv' split: option.split uses.split)
  ultimately show ?thesis
    using kernel_call_gate(1) [of env clk "''sys.grant''" args k]
    by (cases "fst (kernel_call env clk ''sys.grant'' args k)")
      (auto intro!: exI [of _ "snd (kernel_call env clk ''sys.grant'' args k)"] simp: prod_eq_iff)
qed

text \<open>
  Once the console has opened a gate that is not paranoid, no write or exec call is refused for want of
  a grant: nothing stands between its mind, or any other client, and the kernel.
\<close>

lemma console_unlocks:
  assumes "g_mode k \<noteq> Paranoid" "token = g_token k"
  shows "fst (console_open (kernel_caller env clk) token k) = Inr ()"
    and "console_ready (snd (console_open (kernel_caller env clk) token k))"
proof -
  obtain k1 where p: "kernel_call env clk ''sys.policy'' [] k = (Inr (sys_policy k), k1)"
      "g_mode k1 = g_mode k" "g_token k1 = g_token k" using policy_call by blast
  obtain v k2 where gr: "kernel_call env clk ''sys.grant'' [(''token'', JStr (g_token k1)), (''target'', JStr ''all''), (''uses'', JNum (- 1))] k1 = (Inr v, k2)"
      "g_mode k2 = g_mode k1" "map_of (g_grants k2) ''all'' = Some Infinity" using grant_all_call by blast
  have "fst (console_open (kernel_caller env clk) token k) = Inr () \<and> console_ready (snd (console_open (kernel_caller env clk) token k))"
    using assms p gr
    by (cases "g_mode k")
      (simp_all add: console_open_def void_policy_def void_grant_def kernel_caller_def py_result_def sys_policy_def py_get_or_def console_ready_def)
  then show "fst (console_open (kernel_caller env clk) token k) = Inr ()"
    "console_ready (snd (console_open (kernel_caller env clk) token k))" by blast+
qed

end
