(* ===== verification/VoidInit.thy ===== *)
theory VoidInit
  imports VoidChat
begin

text \<open>
  boot/voidinit.py, the init process: how it waits for the gate, what it hands the machine to, the
  wakeups of the scheduler that it turns into turns of the mind, and the loop that supervises. The
  clock is read in milliseconds; the processes and the terminal are arguments.
\<close>

section \<open>Waiting for the gate\<close>

text \<open>The attempts in order: the time before each, whether the kernel has exited, what the gate answers.\<close>

fun wait_ready :: "int \<Rightarrow> (int \<times> bool \<times> json option) list \<Rightarrow> json option" where
  "wait_ready deadline [] = None"
| "wait_ready deadline ((now, gone, answer) # rest) =
     (if \<not> now < deadline \<or> gone then None
      else case answer of Some info \<Rightarrow> Some info | None \<Rightarrow> wait_ready deadline rest)"

section \<open>What the machine is handed to\<close>

datatype plan = Aborted | Shell | Halted | Supervising bool   \<comment> \<open>with a mind or without\<close>

text \<open>
  \<open>main\<close> from the answer of the gate on: the boot task that is run, if any, and how it goes on. A mind
  is built only away from a terminal, and only when a model is configured.
\<close>

definition init_plan :: "bool \<Rightarrow> bool \<Rightarrow> (string \<times> string) list \<Rightarrow> string option \<times> plan" where
  "init_plan ready interactive env =
     (let task = (case map_of env ''VOID_BOOT_TASK'' of None \<Rightarrow> [] | Some t \<Rightarrow> t);
          bundle = (\<not> interactive \<and> \<not> no_model env)
      in if \<not> ready then (None, Aborted)
         else if task \<noteq> [] then
           (if bundle then Some task else None,
            if map_of env ''VOID_BOOT_ONCE'' = Some ''1'' then Halted else Supervising bundle)
         else if interactive then (None, Shell)
         else (None, Supervising bundle))"

text \<open>\<open>build_autonomous_mind\<close>: without a human init is the operator and grants everything.\<close>

definition build_mind ::
  "(string \<times> string) list \<Rightarrow> (string \<Rightarrow> message list \<Rightarrow> tool list \<Rightarrow> 'h \<Rightarrow> reply py \<times> 'h) \<Rightarrow> 'g caller \<Rightarrow>
   string \<Rightarrow> string \<Rightarrow> json \<Rightarrow> 'g \<Rightarrow> ('h, 'g) agent option py \<times> 'g" where
  "build_mind env chat call token prompt mode g =
     (if no_model env then (Inr None, g)
      else case (if mode = JStr ''guarded'' then void_grant call ''all'' (- 1) token g else (Inr JNull, g)) of
        (Inl e, g1) \<Rightarrow> (Inl e, g1)
      | (Inr _, g1) \<Rightarrow>
          (case new_agent \<lparr>ag_system = prompt, ag_chat = chat, ag_call = call, ag_approver = None, ag_granter = None,
                           ag_tap = None, ag_tables = no_tables\<rparr> [] g1 of
             (Inl e, g2) \<Rightarrow> (Inl e, g2) | (Inr ag, g2) \<Rightarrow> (Inr (Some ag), g2)))"

section \<open>Wakeups\<close>

text \<open>A turn for each wakeup, whatever becomes of it; prompts are texts.\<close>

fun wake_turns :: "('h, 'g) agent \<Rightarrow> json list \<Rightarrow> ('h, 'g) session \<Rightarrow> unit py \<times> ('h, 'g) session" where
  "wake_turns ag [] st = (Inr (), st)"
| "wake_turns ag (w # ws) st =
     (case (py_item ''id'' w, py_item ''job'' w) of
        (Inr _, Inr _) \<Rightarrow>
          wake_turns ag ws (case py_item ''prompt'' w of Inr (JStr p) \<Rightarrow> snd (run_turn ag p st) | _ \<Rightarrow> st)
      | (Inl e, _) \<Rightarrow> (Inl e, st)
      | (_, Inl e) \<Rightarrow> (Inl e, st))"

definition poll_wakeups :: "'g caller \<Rightarrow> ('h, 'g) agent \<Rightarrow> ('h, 'g) session \<Rightarrow> unit py \<times> ('h, 'g) session" where
  "poll_wakeups call ag st =
     (case py_picked ''wakeups'' (call ''cron.wakeups'' [] (se_gate st)) of
        (Inl e, g) \<Rightarrow> (Inr (), st\<lparr>se_gate := g\<rparr>)
      | (Inr (JArr ws), g) \<Rightarrow> wake_turns ag ws (st\<lparr>se_gate := g\<rparr>)
      | (Inr _, g) \<Rightarrow> (Inl (PyError ''TypeError''), st\<lparr>se_gate := g\<rparr>))"

section \<open>Supervision\<close>

text \<open>One round of the loop: the children reaped, whether none are left, the clock.\<close>

record init_round =
  rn_exits :: "int list"
  rn_none :: bool
  rn_now :: int

datatype halt = KernelExited | NoChildren

definition WAKE_POLL_MS :: int where
  "WAKE_POLL_MS = 2000"

fun supervise :: "int \<Rightarrow> ('s \<Rightarrow> 's) option \<Rightarrow> int \<Rightarrow> init_round list \<Rightarrow> 's \<Rightarrow> halt option \<times> 's" where
  "supervise kernel_pid poll last_poll [] s = (None, s)"
| "supervise kernel_pid poll last_poll (r # rs) s =
     (if kernel_pid \<in> set (rn_exits r) then (Some KernelExited, s)
      else if rn_none r then (Some NoChildren, s)
      else case poll of
        None \<Rightarrow> supervise kernel_pid poll last_poll rs s
      | Some p \<Rightarrow>
          if WAKE_POLL_MS \<le> rn_now r - last_poll then supervise kernel_pid poll (rn_now r) rs (p s)
          else supervise kernel_pid poll last_poll rs s)"

section \<open>Each wakeup is one turn\<close>

definition asked :: "message list \<Rightarrow> string list" where
  "asked ms = concat (map (\<lambda>m. case m of UserMsg c \<Rightarrow> [c] | _ \<Rightarrow> []) ms)"

lemma asked_simps [simp]:
  "asked [] = []" "asked (ms @ ms') = asked ms @ asked ms'" "asked (UserMsg c # ms) = c # asked ms"
  "asked (ToolMsg i n c # ms) = asked ms" "asked (AssistantMsg c tcs # ms) = asked ms"
  by (simp_all add: asked_def)

lemma asked_calls: "run_calls ag tcs st = (r, st') \<Longrightarrow> asked (se_messages st') = asked (se_messages st)"
proof (induction ag tcs st arbitrary: r st' rule: run_calls.induct)
  case (2 ag tc tcs st)
  then show ?case by (auto split: option.splits prod.splits sum.splits)
qed simp

lemma asked_steps: "run_steps n ag final st = (r, st') \<Longrightarrow> asked (se_messages st') = asked (se_messages st)"
proof (induction n arbitrary: final st)
  case (Suc n)
  from Suc.prems show ?case
    by (auto simp: Let_def dest!: Suc.IH asked_calls split: prod.splits sum.splits if_splits)
qed simp

lemma asked_turn: "asked (se_messages (snd (run_turn ag p st))) = asked (se_messages st) @ [p]"
proof -
  obtain r st' where "run_turn ag p st = (r, st')" by fastforce
  with asked_steps [OF this [unfolded run_turn_def]] show ?thesis by simp
qed

lemma wake_turns_all:
  "fst (wake_turns ag (map wakeup_json ws) st) = Inr () \<and>
   asked (se_messages (snd (wake_turns ag (map wakeup_json ws) st))) = asked (se_messages st) @ map wk_prompt ws"
  by (induction ws arbitrary: st) (simp_all add: wakeup_json_def py_item_def asked_turn)

lemma wakeups_call:
  assumes "console_ready k"
  shows "fst (kernel_call env clk ''cron.wakeups'' [] k) = Inr (obj1 ''wakeups'' (JArr (map wakeup_json (fst (sc_drain (k_scheduler k))))))"
    and "k_scheduler (snd (kernel_call env clk ''cron.wakeups'' [] k)) = snd (sc_drain (k_scheduler k))"
proof -
  let ?d = "decide (g_mode k) ''cron.wakeups'' Write (g_grants k)"
  have "allow ?d" by (rule ready_allows [OF assms])
  moreover have "registry_get (kernel_registry env) ''cron.wakeups'' = Some (cronCaps env ! 4)"
    using table_lookup [of "cronCaps env ! 4" env] by (simp add: kernel_table_def cronCaps_def cap_def)
  ultimately have "fst (kernel_call env clk ''cron.wakeups'' [] k) = Inr (obj1 ''wakeups'' (JArr (map wakeup_json (fst (sc_drain (k_scheduler k)))))) \<and>
      k_scheduler (snd (kernel_call env clk ''cron.wakeups'' [] k)) = snd (sc_drain (k_scheduler k))"
    by (cases "grantKey ?d")
      (auto simp: kernel_call_def dispatch_def admit_def cronCaps_def cap_def validate_def Let_def no_params_def
        params_of_def or_empty_def settle_def on_scheduler_def audit_append_def flush_audit_def split: prod.splits)
  then show "fst (kernel_call env clk ''cron.wakeups'' [] k) = Inr (obj1 ''wakeups'' (JArr (map wakeup_json (fst (sc_drain (k_scheduler k))))))"
    "k_scheduler (snd (kernel_call env clk ''cron.wakeups'' [] k)) = snd (sc_drain (k_scheduler k))" by blast+
qed


definition waking_kernel :: kernel where
  "waking_kernel = granted_kernel\<lparr>g_grants := [(''all'', Infinity)],
     k_scheduler := new_scheduler\<lparr>sc_wakeQueue := [\<lparr>wk_id = ''w1'', wk_job = ''tea'', wk_prompt = ''make tea'', wk_firedAt = 5\<rparr>]\<rparr>\<rparr>"

definition silent_agent :: "(unit, kernel) agent" where
  "silent_agent =
     \<lparr>ag_system = [], ag_chat = (\<lambda>prompt ms tools h. (Inl (PyError ''ConnectionError''), h)),
      ag_call = kernel_caller demo_kenv demo_clock, ag_approver = None, ag_granter = None, ag_tap = None, ag_tables = no_tables\<rparr>"


text \<open>The loop goes on exactly as long as the kernel lives and there are children.\<close>

lemma supervise_ends:
  "fst (supervise kernel_pid poll last_poll rs s) = None \<longleftrightarrow> list_all (\<lambda>r. kernel_pid \<notin> set (rn_exits r) \<and> \<not> rn_none r) rs"
  by (induction kernel_pid poll last_poll rs s rule: supervise.induct) (auto split: option.split)

text \<open>At a terminal a boot task is not run, though a model is configured, and the shell is not started either.\<close>

lemma boot_task_at_terminal:
  assumes "map_of env ''VOID_BOOT_TASK'' = Some (c # cs)" "map_of env ''VOID_BOOT_ONCE'' \<noteq> Some ''1''"
  shows "init_plan True True env = (None, Supervising False)"
  using assms by (simp add: init_plan_def)

end
