(* ===== verification/Spec2Isabelle.thy ===== *)
theory Spec2Isabelle
  imports VoidBoot VoidScanout VoidChrome VoidViewer VoidServer VoidConsole VoidInit
begin

text \<open>
  A verification development for voidOS: its kernel (kernel/src, TypeScript on node), which is the
  system-call gate through which an agent acts on a machine and the supervisors behind it, the
  pages in the browser (ui/static) that drive the machine through the same gate, and the mind (mind/,
  Python), the agent itself, with the init process that starts it.

  The program. An agent connects to a Unix socket (transport/socket.ts, client cli.ts) and sends
  one JSON request a line. The bus (bus.ts) looks the method up in the registry (registry.ts,
  types.ts), asks the policy (policy.ts) whether its class of risk is allowed in the mode of the
  kernel or by a grant of the operator, validates the parameters, spends the grant, runs the
  handler and audits the call. The handlers (capabilities/) work on the files below the root
  directory (fs.ts, memory.ts, vpath.ts), run commands (shell.ts), fetch (web.ts) or drive a
  component: processes (procman.ts), services (services.ts), timed jobs (scheduler.ts), HTTP
  servers (net.ts), the desktop (desktop/). index.ts puts all this together. A server (ui/server.py)
  hands the calls of four pages on to the gate: a desktop of its own (os.js), a viewer of the
  kernel's desktop (desktop.js), a dashboard with a chat (app.js), a surface to talk to the mind (her.js).
  The mind (agent.py, backends.py) shows a language model the table of the gate as its tools, runs the
  calls the model asks for through its client (client.py), with the consent of the person at the
  terminal (shell.py), and feeds the results back; the console server runs it for a chat, and the
  init process (boot/voidinit.py) for every wake-up that a timed job leaves behind.

  The theories, in the order they build on each other:
  VoidPrelude - results, Map as association list, strings, slices; the interface of an event
    machine, whose runs keep an invariant.
  VoidJson, VoidParse - JSON values, own-property order, stringify, a lexer and parser for
    JSON.parse, and that parsing undoes printing.
  VoidPolicy - the grant table, the policy decision; the interface grant_table (a permit is
    always backed by a use) and its interpretation on the code's grants.
  VoidTypes, VoidBus - schemas, capabilities, registry; validation, redaction, dispatch; the
    interface capability_table: what the bus needs of the handlers.
  VoidPath - node:path (POSIX) and resolveIn; its specification walks segments.
  VoidTime, VoidHost - toISOString; timers and child processes of node.
  VoidFs, VoidMemory - the file tree of the host and node:fs/promises; fs and memory calls.
  VoidProc, VoidServices, VoidScheduler, VoidNet - the supervisors as event machines: their
    methods and their callbacks are the events, a run is any sequence the host allows.
  VoidTheme, VoidWm - the desktop's geometry and window manager.
  VoidDouble - the IEEE doubles that blending and shading compute with, rounding written out.
  VoidPaint - the canvas of compositor.ts: a list of pixels, its primitives and font; every
    primitive paints only within a box (paints), which is how the scene bounds what it draws.
  VoidPng - CRC-32 and the PNG encoder, and a decoder that undoes it.
  VoidScene - scene.ts: wallpaper, panels, dock, windows, the frame of the whole desktop.
  VoidScanout - the surface of the native demo (surface.ts) and the framebuffer device it is put on.
  VoidTransport - framing, requests, replies, and the client.
  VoidShell - a matcher for the regular expressions of the backstop, and shell.exec.
  VoidKernel, VoidCaps, VoidBoot - the state of the kernel, all 44 capabilities with schema and
    handler, the registry, boot, one call with its line in the audit file, shutdown; the
    interpretation of capability_table on the kernel's own registry.
  VoidPage - the text helpers of os.js, and how a browser reads the HTML they build.
  VoidUi - listeners as programs that wait for fetch, prompt or confirm (prog); a page as its state
    and the calls that wait; the interface page_machine, whose runs keep an invariant whatever the
    order of events and answers; the gate of os.js and the route to the kernel.
  VoidDesk - the window manager of os.js.
  VoidFiles, VoidApps, VoidIcons, VoidChrome - its file manager and editor; terminal, panels, chat,
    launcher; the icons of the desktop, menus, power menu; the opening of windows, dock, top bar.
  VoidRound - Math.round and the rounding error of an operation on doubles.
  VoidViewer - desktop.js and the route of its pointer events to the window manager of the kernel.
  VoidHer - her.js: moods, frames, timeouts, commands, the painting of the orb.
  VoidConsole - app.js: rendering, polling, chat, and the route of the state it shows.
  VoidServer - server.py: the switch of the backend and the choice of a static file.
  VoidClient - client.py: how Python prints a request, the loop that receives the reply, and the gate
    at the other end of the socket.
  VoidMind - agent.py: the tools, the authorization of a call, a turn and a run of turns; the interface
    agent_contract: what a caller, an approver and a granter may rely on over a whole turn.
  VoidOperator - shell.py: the conversation at the terminal; the interpretation of agent_contract on
    the kernel's own dispatch, watched by a meter of the consent given.
  VoidBackends - backends.py: the translation of the conversation for each provider, and the choice
    of one.
  VoidChat - server.py: opening the gate for the console, a chat and its trail of calls.
  VoidInit - voidinit.py: waiting for the gate, choosing what to start, the loop over wake-ups.
  This theory - what the parts promise together.

  How the state corresponds. A class is a record of its fields; objects that callbacks capture
  (services, jobs, servers) live in a list and are named by their index, so that a method and a
  late callback work on the same object even after the map has forgotten it. A Map or an object
  is an association list in insertion or own-property order. A throw is a value of the sum type
  result; a throw in a callback, which nobody catches and which ends the kernel, is a flag of the
  component. Numbers are exact integers (the code computes with none above 2 ^ 53), strings lists
  of code units below 256; the ellipsis and the multiplication sign have Latin-1 stand-ins.

  What a call learns from the outside is a parameter: the clock, the pid or error of a spawn, the
  exit of a command and what it leaves of the files, the answer of fetch, whether a port can be
  bound, the compression of zlib (ke_deflate), the engine's own error texts. What a page learns from
  the browser is one too: the answers of the user, sizes that layout computes, the time of day in
  the words of the locale, Math.sin. What the mind learns from the model and from the person is one:
  the model is any function from the conversation to a reply or an error, the clients of the
  providers are parameters, and so is how the socket cuts a message into pieces. An async handler runs
  as one step, except where a lemma says what two overlapping calls do (memory.ts, net.ts).

  The groups of theorems. The gate: an agent without grants is harmless, grants bound risky
  calls exactly, every call is audited once, refusals have no effect, the trail reads back. The
  sandbox: resolveIn refines the walk of segments, fs calls and HTTP answers stay within the
  root and out of the control plane, writes read back. The supervisors: invariants on every run,
  backoff, crash loops, run limits, wake-ups exactly once, logs as tails. The wire: framing,
  round trips, shape of replies. The window manager: an invariant and what a click does. The
  drawing: a frame has every pixel, a window stays inside its box, a click hits what is drawn
  there, PNG decodes to the pixels, the scanout shows the surface. The pages: invariants in every
  order of answers and events, what the machine answers is shown and not run as markup (and where it
  is run), an editor reads what it saved, a gesture in the viewer is the gesture on the kernel's
  desktop, the dashboard shows the tables of the kernel, every call comes to rest, the orb stays in
  its bounds with the rounding counted in. The mind: its tools are the capabilities of the gate, a
  call of its client is one dispatch of the bus, no risky call of a supervised agent without a
  consent of the operator, every call of the conversation is answered in order, the translation for a
  provider pairs each call with its result, a chat reports the calls it made, every wake-up
  becomes a turn.

  Bounds and loops. Every function is total; the matcher of regular expressions explores the
  finitely many end positions, the lexer takes the length of the text as fuel, which json_roundtrip
  and the lexer lemmas show to be enough, and the line loop has a measure. A listener of a page is a
  finite tree of waits, so playing it against any answers ends; the tokenizer and the split at white
  space have the length of the text as measure. A turn of the mind asks the model at most 25 times,
  the MAX_STEPS of agent.py, and then gives up as the code does; the init process is run for the
  rounds the host gives it.

  Not modelled: symbolic links, permissions and I/O errors of the host's files (resolveIn is
  lexical, so a link made by a shell command leads out of the root); the interleaving of async
  handlers of the kernel in general; layout, focus and scrolling of the pages, and what the canvas
  makes of the operations it is given. Of the Python: the packages of the providers and the
  models behind them, what is printed at the terminal, the starting and stopping of processes
  in voidinit.py, and demo.py, a fixed sequence of calls. The shell scripts that build
  and install a boot medium (boot/gui, boot/laptop, boot/vm) only configure other programs.
\<close>

section \<open>The kernel as a whole\<close>

definition demo_calls :: "kernel_request list" where
  "demo_calls =
     [(demo_kenv, demo_clock, ''shell.exec'', [(''cmd'', JStr ''id'')]),
      (demo_kenv, demo_clock, ''fs.write'', [(''path'', JStr ''/a''), (''content'', JStr ''b'')]),
      (demo_kenv, demo_clock, ''sys.grant'', [(''token'', JStr ''guess''), (''target'', JStr ''all'')]),
      (demo_kenv, demo_clock, ''fs.list'', [])]"

section \<open>Properties\<close>

text \<open>
  C1. An agent without grants can do no harm: of a kernel booted with any policy but
  permissive, a run of any calls that do not carry the operator token changes nothing but the
  audit, which grows by one entry a call and by its line on disk; every other file, process,
  service, job, server, window and grant is as it was.
\<close>

theorem ungranted_agent_is_harmless:
  assumes "proper rs" "rs \<noteq> []" "\<not> has_nul (abs_path rs)"
    and "boot env (abs_path rs) policy token tree = Inr k" "policy \<noteq> Some ''permissive''"
    and "without_token token calls" "k' = snd (kernel_run calls k)"
  shows "length (g_audit k') = length calls \<and> without_files k' = without_files k \<and>
    (\<forall>old. log_text rs (k_fs k) = Some old \<longrightarrow>
       log_text rs (k_fs k') = Some (old @ audit_text (g_audit k')) \<and>
       (\<forall>q. q \<noteq> audit_segs rs \<longrightarrow> file_at q (k_fs k') = file_at q (k_fs k)))"
proof -
  note k = boot_fields [OF assms(4)] boot_locked [OF assms(4,5)]
  obtain es where "length es = length calls" "only_audited rs es k k'"
    using locked_run [OF assms(1-3) k(5,6)] assms(6,7) k(4) by blast
  with k(3) show ?thesis by (simp add: only_audited_def log_grows_def)
qed

theorem ungranted_agent_is_harmless_witness:
  "\<exists>k. boot demo_kenv ''/srv'' None ''secret'' (Dir [(''srv'', Dir [] 0)] 0) = Inr k \<and>
     length (g_audit (snd (kernel_run demo_calls k))) = 4 \<and>
     without_files (snd (kernel_run demo_calls k)) = without_files k \<and>
     log_text [''srv''] (k_fs (snd (kernel_run demo_calls k))) =
       Some (audit_text (g_audit (snd (kernel_run demo_calls k)))) \<and>
     file_at [''srv'', ''.void'', ''operator.token''] (k_fs (snd (kernel_run demo_calls k))) = Some ''secret''"
proof -
  let ?tree = "Dir [(''srv'', Dir [] 0)] 0"
  have root: "abs_path [''srv''] = ''/srv''" by (simp add: abs_path_def)
  have "map_option (\<lambda>r. case r of Inl e \<Rightarrow> None | Inr k \<Rightarrow> Some (log_text [''srv''] (k_fs k), file_at [''srv'', ''.void'', ''operator.token''] (k_fs k)))
      (Some (boot demo_kenv ''/srv'' None ''secret'' ?tree)) = Some (Some (Some [], Some ''secret''))"
    by code_simp
  then obtain k where k: "boot demo_kenv ''/srv'' None ''secret'' ?tree = Inr k"
      "log_text [''srv''] (k_fs k) = Some []" "file_at [''srv'', ''.void'', ''operator.token''] (k_fs k) = Some ''secret''"
    by (auto split: sum.splits)
  have token: "without_token ''secret'' demo_calls"
    by (simp add: without_token_def demo_calls_def holds_token_def)
  have "proper [''srv'']" "\<not> has_nul (abs_path [''srv''])" by (simp_all add: proper_seg_def root has_nul_def)
  from ungranted_agent_is_harmless [OF this(1) _ this(2), unfolded root, OF _ k(1) _ token refl] k(2,3)
  show ?thesis using k(1) by (intro exI [of _ k]) (simp add: demo_calls_def audit_segs_def)
qed

text \<open>
  C2. The operator's grants bound what an agent can do, exactly: in guarded mode, the write and
  exec handlers that a run of calls without the token gets started, and the uses that are left
  after it, add up to the uses there were; only an unlimited grant is never used up.
\<close>

theorem grants_bound_risky_calls:
  assumes "g_mode k = Guarded" "map_wf (g_grants k)" "without_token (g_token k) calls"
  shows "enat (risky_starts calls k) + budget (g_grants (snd (kernel_run calls k))) = budget (g_grants k)"
  using assms by (rule run_budget)

theorem grants_bound_risky_calls_witness:
  "enat (risky_starts demo_calls granted_kernel) + budget (g_grants (snd (kernel_run demo_calls granted_kernel))) = 1"
proof -
  have "g_mode granted_kernel = Guarded" "map_wf (g_grants granted_kernel)"
    "without_token (g_token granted_kernel) demo_calls" "budget (g_grants granted_kernel) = 1"
    by (simp_all add: granted_kernel_def without_token_def demo_calls_def holds_token_def budget_def one_enat_def)
  from grants_bound_risky_calls [OF this(1-3)] this(4) show ?thesis by simp
qed

text \<open>
  C7. Every call, whatever it is and whatever becomes of it, is answered once and adds exactly
  one audit entry, and no call changes the policy or the operator token.
\<close>

theorem every_call_audited:
  "length (fst (kernel_run calls k)) = length calls \<and>
   length (g_audit (snd (kernel_run calls k))) = length (g_audit k) + length calls \<and>
   g_mode (snd (kernel_run calls k)) = g_mode k \<and> g_token (snd (kernel_run calls k)) = g_token k"
  by (simp add: length_kernel_run run_audit)

text \<open>
  The table of the kernel: all ten lists register, without a name taken twice, as the 44
  capabilities of the documentation, and \<open>sys.list\<close> reports exactly the registry it is itself part
  of, whatever the parameters and the policy.
\<close>

theorem kernel_table_registers:
  "registerAll (kernel_table env (kernel_infos env)) [] = return (kernel_registry env) \<and>
   map fst (kernel_registry env) = capability_names \<and>
   fst (kernel_call env clk ''sys.list'' params k) =
     Inr (obj1 ''capabilities'' (JArr (map (\<lambda>c. info_json (cap_info c)) (registry_list (kernel_registry env)))))"
proof -
  have "registerAll (kernel_table env (kernel_infos env)) [] = return (kernel_registry env)"
    using distinct_names by (subst registerAll_iff [OF registry_wf_Nil]) (simp add: table_names registry_is_table)
  moreover have "map fst (kernel_registry env) = map cap_name (kernel_table env (kernel_infos env))"
    by (simp add: registry_is_table comp_def)
  ultimately show ?thesis by (simp add: table_names call_sys_list infos_of_registry comp_def)
qed

text \<open>
  C8. \<open>sys.audit\<close> reads the trail back: of an audit file that holds the lines of some entries, it
  returns the most recent ones, as many as asked for (20 unless the call says), oldest first.
\<close>

theorem audit_reads_back:
  assumes "proper rs" "rs \<noteq> []" "\<not> has_nul (abs_path rs)" "k_root k = abs_path rs"
    and "file_at (audit_segs rs) (k_fs k) = Some (audit_text es)" "list_all entry_ok es"
    and "(case arg_num ''limit'' args of None \<Rightarrow> 20 | Some n \<Rightarrow> n) = int m" "0 < m"
  shows "sys_audit env args k =
    return (JObj [(''count'', JNum (int (min m (length es)))),
                  (''entries'', JArr (map audit_json (drop (length es - m) es)))])"
proof -
  let ?recent = "drop (length es - m) es"
  have "slice_from (- int m) (map (\<lambda>e. stringify (audit_json e)) es)
      = map stringify (map audit_json ?recent)"
    using slice_from_neg [of "int m" "map (\<lambda>e. stringify (audit_json e)) es"] assms(8)
    by (simp add: drop_map comp_def)
  moreover have "list_all json_ok (map audit_json ?recent)"
    using assms(6) audit_json_ok by (auto simp: list_all_iff dest: in_set_dropD)
  moreover have "length ?recent = min m (length es)" by simp
  ultimately show ?thesis
    by (simp add: sys_audit_def audit_lines_text [OF assms(1-5)] assms(7) parse_lines_stringify
        show_result_def del: map_map)
qed

definition demo_entry :: "string \<Rightarrow> audit_entry" where
  "demo_entry name = denied_entry 1000 name (Some Write) ''guarded: write requires an operator grant'' (Some ''{}'')"

theorem audit_reads_back_witness:
  "sys_audit demo_kenv [(''limit'', JNum 1)]
     (granted_kernel\<lparr>k_fs := Dir [(''srv'', Dir [(''.void'', Dir [(''audit.log'',
        File (audit_text [demo_entry ''fs.write'', demo_entry ''fs.remove'']) 0)] 0)] 0)] 0\<rparr>)
   = return (JObj [(''count'', JNum 1), (''entries'', JArr [audit_json (demo_entry ''fs.remove'')])])"
proof -
  let ?es = "[demo_entry ''fs.write'', demo_entry ''fs.remove'']"
  let ?k = "granted_kernel\<lparr>k_fs := Dir [(''srv'', Dir [(''.void'', Dir [(''audit.log'', File (audit_text ?es) 0)] 0)] 0)] 0\<rparr>"
  have root: "abs_path [''srv''] = ''/srv''" by (simp add: abs_path_def)
  have "file_at (audit_segs [''srv'']) (k_fs ?k) = Some (audit_text ?es)" by (simp add: audit_segs_def)
  moreover have "k_root ?k = abs_path [''srv'']" by (simp add: granted_kernel_def root)
  moreover have "proper [''srv'']" "\<not> has_nul (abs_path [''srv''])" by (simp_all add: proper_seg_def root has_nul_def)
  moreover have "list_all entry_ok ?es" by (simp add: demo_entry_def entry_ok_def denied_entry_def)
  ultimately have "sys_audit demo_kenv [(''limit'', JNum 1)] ?k =
    return (JObj [(''count'', JNum (int (min 1 (length ?es)))),
                  (''entries'', JArr (map audit_json (drop (length ?es - 1) ?es)))])"
    by (intro audit_reads_back) (simp_all add: arg_num_def num_int_def)
  then show ?thesis by simp
qed

end
